(* ===== verification/Prelude.thy ===== *)
theory Prelude
  imports Main "HOL-Library.Word" "HOL-Library.Monad_Syntax" "HOL-Library.Signed_Division"
begin

text \<open>
  Shared vocabulary of the development: the machine integer types of the C code, reads and
  block copies that fail (\<^term>\<open>None\<close>) when they leave the memory they are given, the
  interface of a self-delimiting byte codec, and the generic lemmas the components share.
\<close>

unbundle bit_operations_syntax

section \<open>Machine types\<close>

type_synonym byte = "8 word"
type_synonym u16 = "16 word"
type_synonym u32 = "32 word"
type_synonym u64 = "64 word"

named_theorems mem_simps \<open>reads and copies inside a buffer\<close>
named_theorems codec_defs \<open>definitions of wire encoders and decoders\<close>

section \<open>Reads and copies\<close>

text \<open>
  A C object is the list of its bytes and a pointer into it is an index. Reading past the end
  is undefined in C; here it is the value \<^term>\<open>None\<close>.
\<close>

definition rd :: "'a list \<Rightarrow> nat \<Rightarrow> 'a option" where
  "rd m p = (if p < length m then Some (m ! p) else None)"

lemma rd_append_left [mem_simps]: "p < length xs \<Longrightarrow> rd (xs @ ys) p = rd xs p"
  by (simp add: rd_def nth_append)

lemma rd_append_right [mem_simps]: "length xs \<le> p \<Longrightarrow> rd (xs @ ys) p = rd ys (p - length xs)"
  by (auto simp: rd_def nth_append)

lemma rd_Nil [simp]: "rd [] p = None"
  by (simp add: rd_def)

lemma rd_Cons_0 [simp]: "rd (x # xs) 0 = Some x"
  by (simp add: rd_def)

lemma rd_Cons_Suc [simp]: "rd (x # xs) (Suc p) = rd xs p"
  by (simp add: rd_def)

lemma rd_drop: "rd m (p + k) = rd (drop p m) k"
  by (auto simp: rd_def)

lemma rd_None_iff: "rd m p = None \<longleftrightarrow> length m \<le> p"
  by (simp add: rd_def)

lemma rd_SomeD: "rd m p = Some c \<Longrightarrow> p < length m \<and> c = m ! p"
  by (simp add: rd_def split: if_splits)

text \<open>\<open>memcpy\<close> of \<open>n\<close> bytes to the end of what has been written so far.\<close>

definition memcpy :: "'a list \<Rightarrow> 'a list \<Rightarrow> int \<Rightarrow> 'a list option" where
  "memcpy out src n =
     (if 0 \<le> n \<and> n \<le> int (length src) then Some (out @ take (nat n) src) else None)"

lemma memcpy_all [simp]: "memcpy out src (int (length src)) = Some (out @ src)"
  by (simp add: memcpy_def)

lemma memcpy_length: "memcpy out src n = Some out' \<Longrightarrow> int (length out') = int (length out) + n"
  by (auto simp: memcpy_def split: if_splits)

text \<open>Writes into an object of fixed size: one element, or a block.\<close>

definition wr :: "'a list \<Rightarrow> nat \<Rightarrow> 'a \<Rightarrow> 'a list option" where
  "wr m p x = (if p < length m then Some (m[p := x]) else None)"

definition wr_block :: "'a list \<Rightarrow> nat \<Rightarrow> 'a list \<Rightarrow> 'a list option" where
  "wr_block m p xs =
     (if p + length xs \<le> length m then Some (take p m @ xs @ drop (p + length xs) m) else None)"

lemma wr_length: "wr m p x = Some m' \<Longrightarrow> length m' = length m"
  by (auto simp: wr_def split: if_splits)

lemma wr_block_length: "wr_block m p xs = Some m' \<Longrightarrow> length m' = length m"
  by (auto simp: wr_block_def split: if_splits)

lemma wr_append [mem_simps]: "p = length xs \<Longrightarrow> wr (xs @ y # ys) p x = Some (xs @ x # ys)"
  by (simp add: wr_def)

lemma wr_block_append [mem_simps]:
  "p = length xs \<Longrightarrow> length ys = length zs \<Longrightarrow> wr_block (xs @ ys @ r) p zs = Some (xs @ zs @ r)"
  by (simp add: wr_block_def)

section \<open>Self-delimiting codecs\<close>

text \<open>
  Every wire format of the program (the NAIS length field, the MQTT remaining length, the
  protobuf varints) promises the same thing: decoding an encoding that is followed by any other
  bytes gives the value back and leaves exactly those bytes. What clients of such a format
  need (encodings are never ambiguous, a sequence of them can be cut up again in one way only)
  follows from that promise alone.
\<close>

locale prefix_codec =
  fixes enc :: "'a \<Rightarrow> 'b list"
    and dec :: "'b list \<Rightarrow> ('a \<times> 'b list) option"
    and valid :: "'a \<Rightarrow> bool"
  assumes dec_enc: "valid x \<Longrightarrow> dec (enc x @ r) = Some (x, r)"
    and enc_nonempty: "valid x \<Longrightarrow> enc x \<noteq> []"
begin

lemma prefix_free:
  assumes "valid x" "valid y" "enc x @ r = enc y @ s"
  shows "x = y \<and> r = s"
proof -
  have "dec (enc x @ r) = Some (y, s)" using assms by (simp add: dec_enc)
  then show ?thesis using assms(1) by (simp add: dec_enc)
qed

lemma enc_inj: "valid x \<Longrightarrow> valid y \<Longrightarrow> enc x = enc y \<Longrightarrow> x = y"
  using prefix_free [of x y "[]" "[]"] by simp

lemma stream_unambiguous:
  assumes "list_all valid xs" "list_all valid ys"
    and "concat (map enc xs) = concat (map enc ys)"
  shows "xs = ys"
  using assms
proof (induction xs arbitrary: ys)
  case Nil
  then show ?case by (cases ys) (auto simp: enc_nonempty)
next
  case (Cons x xs)
  then obtain y ys' where ys: "ys = y # ys'"
    by (cases ys) (auto simp: enc_nonempty)
  with Cons.prems have "enc x @ concat (map enc xs) = enc y @ concat (map enc ys')"
    and v: "valid x" "valid y" by auto
  then have "x = y" and "concat (map enc xs) = concat (map enc ys')"
    using prefix_free by blast+
  with Cons ys show ?case by simp
qed

end

section \<open>C integer division on non-negative values\<close>

lemma sdiv_nonneg: "0 \<le> a \<Longrightarrow> 0 < b \<Longrightarrow> a sdiv b = a div (b::int)"
  by (cases "0 < a") (auto simp: signed_divide_int_def)

lemma smod_nonneg: "0 \<le> a \<Longrightarrow> 0 < b \<Longrightarrow> a smod b = a mod (b::int)"
  by (cases "0 < a") (auto simp: signed_modulo_int_def)

lemma sdiv_smaller: "len sdiv 128 \<noteq> 0 \<Longrightarrow> nat \<bar>len sdiv 128\<bar> < nat \<bar>len\<bar>"
proof -
  assume nz: "len sdiv 128 \<noteq> 0"
  have "\<bar>len sdiv 128\<bar> = \<bar>len\<bar> div 128"
    by (simp add: signed_divide_int_def abs_mult sgn_if)
  moreover have "len \<noteq> 0" using nz by auto
  ultimately show ?thesis by (simp add: int_div_less_self)
qed

section \<open>Bits of narrow words\<close>

lemma bit_beyond [simp]: "LENGTH('a::len) \<le> n \<Longrightarrow> \<not> bit (w :: 'a word) n"
  using bit_imp_le_length [of w n] by auto

lemma ucast_narrow:
  "LENGTH('b::len) \<le> LENGTH('a::len) \<Longrightarrow>
     ucast (ucast (x :: 'a word) :: 'b word) = x AND mask LENGTH('b)"
  by (rule bit_word_eqI) (auto simp: bit_simps)

lemma byte_through_1 [simp]: "ucast (ucast (x::byte) :: 1 word) = x AND 1"
  using ucast_narrow [where 'b = 1, of x] by simp

lemma byte_through_2 [simp]: "ucast (ucast (x::byte) :: 2 word) = x AND 3"
  using ucast_narrow [where 'b = 2, of x] by (simp add: mask_eq_exp_minus_1)

lemma byte_through_4 [simp]: "ucast (ucast (x::byte) :: 4 word) = x AND 15"
  using ucast_narrow [where 'b = 4, of x] by (simp add: mask_eq_exp_minus_1)

end
