(* ===== verification/Base128.thy ===== *)
theory Base128
  imports Prelude
begin

text \<open>
  The base-128 encoding of a number, least significant digit first, the top bit of a byte
  saying that more digits follow. Three parts of the program implement it separately: the
  remaining length of MQTT, the length field of a NAIS frame and the varints of protobuf. This
  theory is their common specification; each implementation is proved equal to it.
\<close>

section \<open>Bytes and their digits\<close>

lemma uint_and_127 [simp]: "uint ((b::byte) AND 127) = uint b mod 128"
proof -
  have "b AND 127 = take_bit 7 b"
    by (simp only: take_bit_eq_mask) (simp add: mask_eq_exp_minus_1)
  then have "uint (b AND 127) = take_bit 7 (uint b)"
    by (simp only: unsigned_take_bit_eq)
  then show ?thesis by (simp only: take_bit_eq_mod) simp
qed

lemma and_128_eq_0 [simp]: "(b::byte) AND 128 = 0 \<longleftrightarrow> uint b < 128"
proof -
  have "b AND 128 = 0 \<longleftrightarrow> \<not> bit b 7"
    using and_exp_eq_0_iff_not_bit [of b 7] by simp
  also have "\<dots> \<longleftrightarrow> \<not> bit (uint b) 7" by (simp add: bit_uint_iff)
  also have "\<dots> \<longleftrightarrow> uint b div 128 mod 2 = 0" by (simp add: bit_iff_odd even_iff_mod_2_eq_zero)
  also have "\<dots> \<longleftrightarrow> uint b < 128"
  proof -
    have "uint b div 128 < 2" using uint_lt2p [of b] by (simp add: div_less_iff_less_mult)
    then have "uint b div 128 mod 2 = uint b div 128" by (intro mod_pos_pos_trivial) (simp_all add: pos_imp_zdiv_nonneg_iff)
    then show ?thesis by (auto simp: zdiv_eq_0_iff)
  qed
  finally show ?thesis .
qed

lemma uint_or_128: "0 \<le> d \<Longrightarrow> d < 128 \<Longrightarrow> uint (word_of_int d OR (0x80::byte)) = d + 128"
proof -
  assume d: "0 \<le> d" "d < 128"
  then have "uint (word_of_int d :: byte) < 128" by (simp add: uint_word_of_int)
  then have "(word_of_int d :: byte) AND 128 = 0" by simp
  then have "word_of_int d OR (0x80::byte) = word_of_int d + 0x80"
    by (simp add: disjunctive_add_eq_or)
  then have "word_of_int d OR (0x80::byte) = word_of_int (d + 128)" by simp
  then show ?thesis using d by (simp only: uint_word_of_int) simp
qed

lemma unat_and_127 [simp]: "unat ((b::byte) AND 127) = unat b mod 128"
proof -
  have "int (unat (b AND 127)) = int (unat b mod 128)" by (simp add: zmod_int)
  then show ?thesis by (simp only: of_nat_eq_iff)
qed

lemma and_128_eq_0_unat: "(b::byte) AND 128 = 0 \<longleftrightarrow> unat b < 128"
proof -
  have "uint b < 128 \<longleftrightarrow> int (unat b) < int 128" by simp
  then show ?thesis by (simp only: and_128_eq_0 of_nat_less_iff)
qed

lemma unat_of_nat_byte [simp]: "n < 256 \<Longrightarrow> unat (of_nat n :: byte) = n"
  by (simp add: unat_of_nat)

lemma uint_of_nat_byte [simp]: "n < 256 \<Longrightarrow> uint (of_nat n :: byte) = int n"
  by (simp add: unsigned_of_nat take_bit_eq_mod)

lemma digit_or_128: "n < 128 \<Longrightarrow> of_nat n OR (0x80::byte) = of_nat (n + 128)"
proof -
  assume n: "n < 128"
  have "uint (of_nat (n + 128) :: byte) = int n + 128"
    using n by (simp add: unsigned_of_nat take_bit_eq_mod del: of_nat_add)
  moreover have "uint (of_nat n OR (0x80::byte)) = int n + 128"
    using uint_or_128 [of "int n"] n by simp
  ultimately show ?thesis by (simp only: word_uint_eq_iff)
qed

section \<open>The specification\<close>

fun b128 :: "nat \<Rightarrow> byte list" where
  "b128 n = (if n < 128 then [of_nat n] else of_nat (n mod 128 + 128) # b128 (n div 128))"

fun b128_dec :: "byte list \<Rightarrow> (nat \<times> byte list) option" where
  "b128_dec [] = None"
| "b128_dec (c # r) =
     (if unat c < 128 then Some (unat c, r)
      else (case b128_dec r of None \<Rightarrow> None
            | Some (v, r') \<Rightarrow> Some (unat c - 128 + 128 * v, r')))"

declare b128.simps [simp del]

lemma b128_small: "n < 128 \<Longrightarrow> b128 n = [of_nat n]"
  by (simp add: b128.simps)

lemma b128_big: "128 \<le> n \<Longrightarrow> b128 n = of_nat (n mod 128 + 128) # b128 (n div 128)"
  by (subst b128.simps) simp

lemma b128_dec_enc: "b128_dec (b128 n @ r) = Some (n, r)"
proof (induction n rule: b128.induct)
  case (1 n)
  show ?case
  proof (cases "n < 128")
    case True
    then show ?thesis by (simp add: b128_small)
  next
    case False
    moreover have "n mod 128 + 128 < 256" by simp
    ultimately show ?thesis
      using 1 by (simp add: b128_big del: of_nat_add)
  qed
qed

lemma b128_nonempty [simp]: "b128 n \<noteq> []"
  by (simp add: b128.simps)

lemma length_b128_pos: "0 < length (b128 n)"
  by simp

interpretation b128: prefix_codec b128 b128_dec "\<lambda>_. True"
  by unfold_locales (simp_all add: b128_dec_enc)

lemma length_b128_le: "0 < k \<Longrightarrow> length (b128 n) \<le> k \<longleftrightarrow> n < 128 ^ k"
proof (induction k arbitrary: n)
  case (Suc k)
  show ?case
  proof (cases "n < 128")
    case True
    have "n < 128 ^ Suc k"
      using power_increasing [of 1 "Suc k" "128::nat"] True by (simp del: power_Suc)
    with True show ?thesis by (simp add: b128_small)
  next
    case False
    have *: "n div 128 < 128 ^ k \<longleftrightarrow> n < 128 ^ Suc k"
      by (simp add: div_less_iff_less_mult mult.commute)
    show ?thesis
    proof (cases k)
      case 0
      with False show ?thesis by (simp add: b128_big)
    next
      case (Suc j)
      with False Suc.IH [of "n div 128"] * show ?thesis by (simp add: b128_big)
    qed
  qed
qed simp

section \<open>Digits of words\<close>

lemma unat_u32 [simp]: "unat (v :: u32) < 4294967296"
proof -
  have "unat v < 2 ^ LENGTH(32)" by (rule unsigned_less)
  then show ?thesis by simp
qed

lemma unat_u64 [simp]: "unat (v :: u64) < 18446744073709551616"
proof -
  have "unat v < 2 ^ LENGTH(64)" by (rule unsigned_less)
  then show ?thesis by simp
qed

lemma unat_drop_7: "unat (drop_bit 7 (v :: 'a::len word)) = unat v div 128"
  by (subst unat_drop_bit_eq) (simp add: drop_bit_eq_div)

lemma bit_0x80: "bit (0x80 :: 'a::len word) n \<longleftrightarrow> n = 7 \<and> 7 < LENGTH('a)"
proof -
  have "(0x80 :: 'a word) = push_bit 7 1" by simp
  then show ?thesis by (simp only: bit_simps) auto
qed

lemma top_digit:
  assumes "8 \<le> LENGTH('a::len)"
  shows "ucast ((v :: 'a word) OR 0x80) = (of_nat (unat v mod 128 + 128) :: byte)"
proof -
  have "of_nat (unat v mod 128) = (of_nat (take_bit 7 (unat v)) :: byte)"
    by (simp only: take_bit_eq_mod) simp
  also have "\<dots> = take_bit 7 (of_nat (unat v))" by (simp only: take_bit_of_nat)
  also have "\<dots> = take_bit 7 (ucast v)" by simp
  finally have "of_nat (unat v mod 128) = (take_bit 7 (ucast v) :: byte)" .
  then have "of_nat (unat v mod 128 + 128) = (take_bit 7 (ucast v) OR 0x80 :: byte)"
    using digit_or_128 [of "unat v mod 128"] by simp
  also have "\<dots> = ucast (v OR 0x80)"
  proof (rule bit_word_eqI)
    fix n assume "n < LENGTH(8)"
    then have "n = 7 \<or> n < 7" by auto
    with assms show "bit (take_bit 7 (ucast v) OR (0x80 :: byte)) n = bit (ucast (v OR 0x80) :: byte) n"
      by (auto simp only: bit_0x80 bit_or_iff bit_unsigned_iff bit_take_bit_iff possible_bit_word)
  qed
  finally show ?thesis by simp
qed

text \<open>One step of an encoder that works on the word itself.\<close>

lemma b128_word_small: "unat (v :: 'a::len word) < 128 \<Longrightarrow> b128 (unat v) = [ucast v]"
  by (simp add: b128_small)

lemma b128_word_big:
  "8 \<le> LENGTH('a::len) \<Longrightarrow> 128 \<le> unat (v :: 'a word) \<Longrightarrow>
     b128 (unat v) = ucast (v OR 0x80) # b128 (unat (drop_bit 7 v))"
  by (simp add: b128_big top_digit unat_drop_7)

end
