(* ===== verification/Mqtt_Packet.thy ===== *)
theory Mqtt_Packet
  imports Base128
begin

text \<open>
  The packet layer of the MQTT client, \<^verbatim>\<open>burba/sys/paho/MQTTPacket.c\<close> and \<^verbatim>\<open>MQTTPacket.h\<close>:
  the header byte, the remaining-length field, strings, the cursor operations every serializer
  and deserializer is made of, and the reassembly of a packet from a transport.

  An output buffer is the list of the bytes written so far (the C code's \<open>ptr - buf\<close> is its
  length). An input buffer is the list of its bytes and a pointer into it is an index; a read
  outside it is \<^term>\<open>None\<close>. C \<open>int\<close> values are \<^typ>\<open>int\<close>: the lengths of the theorems below
  stay under \<open>2 ^ 28\<close>, where 32-bit arithmetic does not wrap. \<open>char\<close> is unsigned, as on ARM.
\<close>

section \<open>Header and enumerations\<close>

datatype msgTypes =
    CONNECT | CONNACK | PUBLISH | PUBACK | PUBREC | PUBREL
  | PUBCOMP | SUBSCRIBE | SUBACK | UNSUBSCRIBE | UNSUBACK
  | PINGREQ | PINGRESP | DISCONNECT

fun msg_code :: "msgTypes \<Rightarrow> 4 word" where
  "msg_code CONNECT = 1" | "msg_code CONNACK = 2" | "msg_code PUBLISH = 3"
| "msg_code PUBACK = 4" | "msg_code PUBREC = 5" | "msg_code PUBREL = 6"
| "msg_code PUBCOMP = 7" | "msg_code SUBSCRIBE = 8" | "msg_code SUBACK = 9"
| "msg_code UNSUBSCRIBE = 10" | "msg_code UNSUBACK = 11" | "msg_code PINGREQ = 12"
| "msg_code PINGRESP = 13" | "msg_code DISCONNECT = 14"

definition MQTTPACKET_BUFFER_TOO_SHORT :: int where "MQTTPACKET_BUFFER_TOO_SHORT = -2"
definition MQTTPACKET_READ_ERROR :: int where "MQTTPACKET_READ_ERROR = -1"

text \<open>The header union, in the bit order of the default (not \<^verbatim>\<open>REVERSED\<close>) layout.\<close>

record MQTTHeader =
  retain :: "1 word"
  qos :: "2 word"
  dup :: "1 word"
  mtype :: "4 word"

definition header_byte :: "MQTTHeader \<Rightarrow> byte" where
  "header_byte h =
     ucast (retain h) OR push_bit 1 (ucast (qos h)) OR push_bit 3 (ucast (dup h))
     OR push_bit 4 (ucast (mtype h))"

definition header_of_byte :: "byte \<Rightarrow> MQTTHeader" where
  "header_of_byte b =
     \<lparr>retain = ucast b, qos = ucast (drop_bit 1 b), dup = ucast (drop_bit 3 b),
      mtype = ucast (drop_bit 4 b)\<rparr>"

lemma header_of_byte_byte [simp]: "header_of_byte (header_byte h) = h"
  by (cases h)
     (auto simp: header_of_byte_def header_byte_def bit_simps
        simp del: push_bit_of_Suc_0 push_bit_Suc One_nat_def
        intro!: bit_word_eqI)

lemma header_byte_inj: "header_byte h = header_byte h' \<Longrightarrow> h = h'"
  by (metis header_of_byte_byte)

section \<open>Strings\<close>

text \<open>
  \<^verbatim>\<open>MQTTString\<close>: a C string (its bytes without the terminating NUL; \<^term>\<open>None\<close> is the null
  pointer), or a length and a pointer, given by the bytes that can be read from it on.
\<close>

record MQTTString =
  cstring :: "byte list option"
  lslen :: int
  lsdata :: "byte list option"

definition MQTTString_initializer :: MQTTString where
  "MQTTString_initializer = \<lparr>cstring = None, lslen = 0, lsdata = None\<rparr>"

definition MQTTstrlen :: "MQTTString \<Rightarrow> int" where
  "MQTTstrlen s = (case cstring s of Some cs \<Rightarrow> int (length cs) | None \<Rightarrow> lslen s)"

text \<open>
  \<open>strncmp (a, b, n) == 0\<close> on memory without NUL bytes before the end of \<open>b\<close>: the first
  \<open>n\<close> bytes agree.
\<close>

definition MQTTPacket_equals :: "MQTTString \<Rightarrow> byte list \<Rightarrow> bool" where
  "MQTTPacket_equals a b =
     (let aptr = (case cstring a of Some cs \<Rightarrow> cs | None \<Rightarrow> (case lsdata a of Some d \<Rightarrow> d | None \<Rightarrow> []));
          alen = (case cstring a of Some cs \<Rightarrow> int (length cs) | None \<Rightarrow> lslen a);
          blen = int (length b)
      in alen = blen \<and> take (nat alen) aptr = take (nat alen) b)"

section \<open>Remaining length: writing\<close>

text \<open>The do-while loop of \<^verbatim>\<open>MQTTPacket_encode\<close>; its result is what it writes to \<open>buf\<close>.\<close>

function MQTTPacket_encode :: "int \<Rightarrow> byte list" where
  "MQTTPacket_encode n =
     (let d = word_of_int (n smod 128) :: byte; n' = n sdiv 128
      in if n' > 0 then (d OR 0x80) # MQTTPacket_encode n' else [d])"
  by pat_completeness auto
termination
  by (relation "measure nat")
     (auto simp: signed_divide_int_def sgn_if split: if_splits)

declare MQTTPacket_encode.simps [simp del]

definition MQTTPacket_len :: "int \<Rightarrow> int" where
  "MQTTPacket_len rem_len =
     (let r = rem_len + 1
      in if r < 128 then r + 1
         else if r < 16384 then r + 2
         else if r < 2097151 then r + 3
         else r + 4)"

section \<open>Cursor operations\<close>

definition writeChar :: "byte list \<Rightarrow> byte \<Rightarrow> byte list" where
  "writeChar out c = out @ [c]"

definition writeInt :: "byte list \<Rightarrow> int \<Rightarrow> byte list" where
  "writeInt out n = out @ [word_of_int (n sdiv 256), word_of_int (n smod 256)]"

definition writeCString :: "byte list \<Rightarrow> byte list \<Rightarrow> byte list" where
  "writeCString out s = writeInt out (int (length s)) @ s"

definition writeMQTTString :: "byte list \<Rightarrow> MQTTString \<Rightarrow> byte list option" where
  "writeMQTTString out s =
     (if lslen s > 0
      then (case lsdata s of None \<Rightarrow> None | Some d \<Rightarrow> memcpy (writeInt out (lslen s)) d (lslen s))
      else (case cstring s of Some cs \<Rightarrow> Some (writeCString out cs)
            | None \<Rightarrow> Some (writeInt out 0)))"

definition readChar :: "byte list \<Rightarrow> nat \<Rightarrow> (byte \<times> nat) option" where
  "readChar m p = do { c \<leftarrow> rd m p; Some (c, p + 1) }"

definition readInt :: "byte list \<Rightarrow> nat \<Rightarrow> (int \<times> nat) option" where
  "readInt m p = do { a \<leftarrow> rd m p; b \<leftarrow> rd m (p + 1); Some (256 * uint a + uint b, p + 2) }"

definition getLenStringLen :: "byte list \<Rightarrow> int option" where
  "getLenStringLen m = do { a \<leftarrow> rd m 0; b \<leftarrow> rd m 1; Some (256 * uint a + uint b) }"

text \<open>
  \<^verbatim>\<open>readMQTTLenString\<close> returns its result, the string it updates and the new cursor. The data
  pointer of the string points into the input buffer.
\<close>

definition readMQTTLenString ::
  "MQTTString \<Rightarrow> byte list \<Rightarrow> nat \<Rightarrow> nat \<Rightarrow> (int \<times> MQTTString \<times> nat) option" where
  "readMQTTLenString s m p enddata =
     (if int enddata - int p > 1
      then do {
        (n, p1) \<leftarrow> readInt m p;
        let s1 = s\<lparr>lslen := n\<rparr>;
        if int p1 + n \<le> int enddata
        then Some (1, s1\<lparr>lsdata := Some (drop p1 m), cstring := None\<rparr>, p1 + nat n)
        else Some (0, s1\<lparr>cstring := None\<rparr>, p1)
      }
      else Some (0, s\<lparr>cstring := None\<rparr>, p))"

section \<open>Remaining length: reading\<close>

text \<open>
  A transport function \<open>getfn (fd, buf, count)\<close> returns a code and the bytes it stored at
  \<open>buf\<close>, and changes the state of the transport; \<^term>\<open>None\<close> is a read outside memory.
\<close>

type_synonym 's getfn = "'s \<Rightarrow> int \<Rightarrow> (int \<times> byte list \<times> 's) option"

function decode_loop :: "'s getfn \<Rightarrow> 's \<Rightarrow> int \<Rightarrow> int \<Rightarrow> int \<Rightarrow> (int \<times> int \<times> 's) option" where
  "decode_loop getcharfn s len mult val =
     (let len' = len + 1
      in if len' > 4 then Some (len', val, s)
         else (case getcharfn s 1 of
             None \<Rightarrow> None
           | Some (rc, bs, s') \<Rightarrow>
               if rc \<noteq> 1 then Some (len', val, s')
               else (case bs of
                   [] \<Rightarrow> None
                 | c # _ \<Rightarrow>
                     (let val' = val + uint (c AND 127) * mult; mult' = mult * 128
                      in if c AND 128 \<noteq> 0 then decode_loop getcharfn s' len' mult' val'
                         else Some (len', val', s')))))"
  by pat_completeness auto
termination
  by (relation "measure (\<lambda>(g, s, len, m, v). nat (4 - len))") auto

declare decode_loop.simps [simp del]

definition MQTTPacket_decode :: "'s getfn \<Rightarrow> 's \<Rightarrow> (int \<times> int \<times> 's) option" where
  "MQTTPacket_decode getcharfn s = decode_loop getcharfn s 0 1 0"

text \<open>The transport that reads from memory: \<open>bufptr\<close> is an index into the buffer.\<close>

fun bufchar_loop :: "nat \<Rightarrow> byte list \<Rightarrow> nat \<Rightarrow> byte list \<Rightarrow> (byte list \<times> nat) option" where
  "bufchar_loop 0 m bufptr c = Some (c, bufptr)"
| "bufchar_loop (Suc k) m bufptr c =
     (case rd m bufptr of None \<Rightarrow> None | Some x \<Rightarrow> bufchar_loop k m (bufptr + 1) [x])"

definition bufchar :: "byte list \<Rightarrow> nat getfn" where
  "bufchar m bufptr count =
     (case bufchar_loop (nat count) m bufptr [] of
        None \<Rightarrow> None | Some (c, bufptr') \<Rightarrow> Some (count, c, bufptr'))"

text \<open>Returns the value of the function and the decoded length.\<close>

definition MQTTPacket_decodeBuf :: "byte list \<Rightarrow> nat \<Rightarrow> (int \<times> int) option" where
  "MQTTPacket_decodeBuf m p =
     (case MQTTPacket_decode (bufchar m) p of
        None \<Rightarrow> None | Some (len, val, _) \<Rightarrow> Some (len, val))"

section \<open>Reassembling a packet\<close>

text \<open>
  \<^verbatim>\<open>MQTTPacket_read\<close>: the result, the bytes it has put at \<open>buf\<close> and the transport. The header
  byte lands in \<open>buf[0]\<close>, the re-encoded length at \<open>buf + 1\<close>, the rest behind it.
\<close>

definition MQTTPacket_read :: "'s getfn \<Rightarrow> 's \<Rightarrow> int \<Rightarrow> (int \<times> byte list \<times> 's) option" where
  "MQTTPacket_read getfn s buflen =
     do {
       (rc1, b1, s1) \<leftarrow> getfn s 1;
       if rc1 \<noteq> 1 then Some (-1, b1, s1)
       else (case b1 of [] \<Rightarrow> None | h # _ \<Rightarrow>
         do {
           (_, rem_len, s2) \<leftarrow> MQTTPacket_decode getfn s1;
           let buf = h # MQTTPacket_encode rem_len;
           let len = int (length buf);
           if rem_len + len > buflen then Some (-1, buf, s2)
           else do {
             (rc3, b3, s3) \<leftarrow> getfn s2 rem_len;
             if rc3 \<noteq> rem_len then Some (-1, buf @ b3, s3)
             else Some (uint (mtype (header_of_byte h)), buf @ b3, s3)
           }
         })
     }"

section \<open>Reassembling a packet without blocking\<close>

record MQTTTransport =
  multiplier :: int
  rem_len :: int
  tlen :: int
  tstate :: int

function decodenb_loop ::
  "'s getfn \<Rightarrow> MQTTTransport \<Rightarrow> 's \<Rightarrow> (int \<times> MQTTTransport \<times> 's) option" where
  "decodenb_loop getfn trp s =
     (let trp1 = trp\<lparr>tlen := tlen trp + 1\<rparr>
      in if tlen trp1 > 4 then Some (MQTTPACKET_READ_ERROR, trp1, s)
         else (case getfn s 1 of
             None \<Rightarrow> None
           | Some (frc, bs, s') \<Rightarrow>
               if frc = -1 then Some (MQTTPACKET_READ_ERROR, trp1, s')
               else if frc = 0 then Some (0, trp1, s')
               else (case bs of
                   [] \<Rightarrow> None
                 | c # _ \<Rightarrow>
                     (let trp2 = trp1\<lparr>rem_len := rem_len trp1 + uint (c AND 127) * multiplier trp1,
                                      multiplier := multiplier trp1 * 128\<rparr>
                      in if c AND 128 \<noteq> 0 then decodenb_loop getfn trp2 s'
                         else Some (tlen trp2, trp2, s')))))"
  by pat_completeness auto
termination
  by (relation "measure (\<lambda>(g, trp, s). nat (4 - tlen trp))") auto

declare decodenb_loop.simps [simp del]

definition MQTTPacket_decodenb ::
  "'s getfn \<Rightarrow> MQTTTransport \<Rightarrow> 's \<Rightarrow> (int \<times> MQTTTransport \<times> 's) option" where
  "MQTTPacket_decodenb getfn trp s =
     decodenb_loop getfn (if tlen trp = 0 then trp\<lparr>multiplier := 1, rem_len := 0\<rparr> else trp) s"

text \<open>
  \<open>buf\<close> outlives the call, so it is passed and returned; a write outside it is \<^term>\<open>None\<close>.
  Each \<open>case\<close> label of the switch is one definition and falls through to the next.
\<close>

definition store :: "byte list \<Rightarrow> int \<Rightarrow> byte list \<Rightarrow> byte list option" where
  "store buf p bs =
     (if 0 \<le> p \<and> nat p + length bs \<le> length buf
      then Some (take (nat p) buf @ bs @ drop (nat p + length bs) buf) else None)"

type_synonym 's nbresult = "(int \<times> byte list \<times> MQTTTransport \<times> 's) option"

definition readnb_exit :: "int \<Rightarrow> byte list \<Rightarrow> MQTTTransport \<Rightarrow> 's \<Rightarrow> 's nbresult" where
  "readnb_exit rc buf trp s = Some (rc, buf, trp\<lparr>tstate := 0\<rparr>, s)"

definition readnb_case2 :: "'s getfn \<Rightarrow> byte list \<Rightarrow> MQTTTransport \<Rightarrow> 's \<Rightarrow> 's nbresult" where
  "readnb_case2 getfn buf trp s =
     do {
       (frc, bs, s') \<leftarrow> getfn s (rem_len trp);
       if frc = -1 then readnb_exit (-1) buf trp s'
       else if frc = 0 then Some (0, buf, trp, s')
       else do {
         buf' \<leftarrow> store buf (tlen trp) bs;
         let trp' = trp\<lparr>rem_len := rem_len trp - frc, tlen := tlen trp + frc\<rparr>;
         if rem_len trp' \<noteq> 0 then Some (0, buf', trp', s')
         else do {
           h \<leftarrow> rd buf' 0;
           readnb_exit (uint (mtype (header_of_byte h))) buf' trp' s'
         }
       }
     }"

definition readnb_case1 ::
  "'s getfn \<Rightarrow> int \<Rightarrow> byte list \<Rightarrow> MQTTTransport \<Rightarrow> 's \<Rightarrow> 's nbresult" where
  "readnb_case1 getfn buflen buf trp s =
     do {
       (frc, trp1, s1) \<leftarrow> MQTTPacket_decodenb getfn trp s;
       if frc = MQTTPACKET_READ_ERROR then readnb_exit (-1) buf trp1 s1
       else if frc = 0 then Some (0, buf, trp1, s1)
       else do {
         let e = MQTTPacket_encode (rem_len trp1);
         buf1 \<leftarrow> store buf 1 e;
         let trp2 = trp1\<lparr>tlen := 1 + int (length e)\<rparr>;
         if rem_len trp2 + tlen trp2 > buflen then readnb_exit (-1) buf1 trp2 s1
         else readnb_case2 getfn buf1 (trp2\<lparr>tstate := tstate trp2 + 1\<rparr>) s1
       }
     }"

definition readnb_case0 ::
  "'s getfn \<Rightarrow> int \<Rightarrow> byte list \<Rightarrow> MQTTTransport \<Rightarrow> 's \<Rightarrow> 's nbresult" where
  "readnb_case0 getfn buflen buf trp s =
     do {
       (frc, bs, s1) \<leftarrow> getfn s 1;
       if frc = -1 then readnb_exit (-1) buf trp s1
       else if frc = 0 then Some (0, buf, trp, s1)
       else do {
         buf1 \<leftarrow> store buf 0 bs;
         readnb_case1 getfn buflen buf1 (trp\<lparr>tlen := 0, tstate := tstate trp + 1\<rparr>) s1
       }
     }"

definition MQTTPacket_readnb ::
  "'s getfn \<Rightarrow> int \<Rightarrow> byte list \<Rightarrow> MQTTTransport \<Rightarrow> 's \<Rightarrow> 's nbresult" where
  "MQTTPacket_readnb getfn buflen buf trp s =
     (if tstate trp = 1 then readnb_case1 getfn buflen buf trp s
      else if tstate trp = 2 then readnb_case2 getfn buf trp s
      else readnb_case0 getfn buflen buf (trp\<lparr>tstate := 0\<rparr>) s)"

section \<open>The remaining length is the base-128 encoding\<close>

lemma encode_int: "MQTTPacket_encode (int n) = b128 n"
proof (induction n rule: b128.induct)
  case (1 n)
  have d: "int n smod 128 = int (n mod 128)" "int n sdiv 128 = int (n div 128)"
    by (simp_all add: smod_nonneg sdiv_nonneg zmod_int zdiv_int)
  show ?case
  proof (cases "n < 128")
    case True
    then show ?thesis
      by (subst MQTTPacket_encode.simps) (simp only: d, simp add: Let_def b128_small)
  next
    case False
    then have "0 < n div 128" by (simp add: div_greater_zero_iff)
    with False 1 show ?thesis
      by (subst MQTTPacket_encode.simps)
         (simp only: d, simp add: Let_def b128_big digit_or_128 del: of_nat_add)
  qed
qed

lemma encode_b128: "0 \<le> n \<Longrightarrow> MQTTPacket_encode n = b128 (nat n)"
  using encode_int [of "nat n"] by simp

lemma length_encode_pos: "0 \<le> n \<Longrightarrow> 0 < length (MQTTPacket_encode n)"
  by (simp add: encode_b128)

text \<open>
  A byte source gives out one byte at a time from what is still available; a transport gives
  out any amount that is available in one call.
\<close>

locale byte_source =
  fixes getfn :: "'s getfn"
    and avail :: "'s \<Rightarrow> byte list"
  assumes get_one: "avail s = c # r \<Longrightarrow> \<exists>s'. getfn s 1 = Some (1, [c], s') \<and> avail s' = r"
begin

lemma decode_loop_b128:
  assumes "avail s = b128 n @ r" "0 \<le> len" "len < 4" "n < 128 ^ nat (4 - len)"
  shows "\<exists>s'. decode_loop getfn s len mult val =
                 Some (len + int (length (b128 n)), val + int n * mult, s') \<and> avail s' = r"
  using assms
proof (induction n arbitrary: s len mult val rule: b128.induct)
  case (1 n)
  show ?case
  proof (cases "n < 128")
    case True
    then have "avail s = of_nat n # r" using "1.prems" by (simp add: b128_small)
    then obtain s' where s': "getfn s 1 = Some (1, [of_nat n], s')" "avail s' = r"
      using get_one by blast
    with True "1.prems" show ?thesis
      by (subst decode_loop.simps) (simp add: b128_small Let_def)
  next
    case False
    define c :: byte where "c = of_nat (n mod 128 + 128)"
    have c: "unat c = n mod 128 + 128" by (simp add: c_def del: of_nat_add)
    then have cu: "uint c = int (n mod 128) + 128"
      by (metis of_nat_add of_nat_numeral of_nat_unat)
    have "avail s = c # b128 (n div 128) @ r"
      using "1.prems" False by (simp add: b128_big c_def)
    then obtain s' where s': "getfn s 1 = Some (1, [c], s')"
      and av: "avail s' = b128 (n div 128) @ r"
      using get_one by blast
    have "nat (4 - len) = Suc (nat (4 - (len + 1)))" using "1.prems" by simp
    then have lt: "n div 128 < 128 ^ nat (4 - (len + 1))"
      using "1.prems"(4) by (simp add: div_less_iff_less_mult mult.commute)
    then have "len + 1 < 4" using "1.prems" False
      by (cases "len + 1 < 4") (auto simp: not_less)
    then obtain s'' where rec: "decode_loop getfn s' (len + 1) (mult * 128)
        (val + int (n mod 128) * mult) =
        Some (len + 1 + int (length (b128 (n div 128))),
              val + int (n mod 128) * mult + int (n div 128) * (mult * 128), s'')"
      and "avail s'' = r"
      using "1.IH" [OF False av, of "len + 1"] lt "1.prems" by fastforce
    moreover have "int n = int (n mod 128) + 128 * int (n div 128)"
      by (metis mod_mult_div_eq of_nat_add of_nat_mult of_nat_numeral)
    ultimately show ?thesis using False s' "1.prems" c cu
      by (subst decode_loop.simps)
         (simp add: b128_big Let_def algebra_simps)
  qed
qed

lemma decode_b128:
  assumes "avail s = b128 n @ r" "n < 2 ^ 28"
  shows "\<exists>s'. MQTTPacket_decode getfn s = Some (int (length (b128 n)), int n, s') \<and> avail s' = r"
  using decode_loop_b128 [of s n r 0 1 0] assms by (simp add: MQTTPacket_decode_def)

end

interpretation bufchar: byte_source "bufchar m" "\<lambda>p. drop p m" for m
proof
  fix p c r assume "drop p m = c # r"
  then have "rd m p = Some c" and "drop (p + 1) m = r"
    by (metis rd_drop add_0_right rd_Cons_0) (metis drop_drop \<open>drop p m = c # r\<close> add.commute drop0 drop_Suc_Cons One_nat_def)
  then show "\<exists>p'. bufchar m p 1 = Some (1, [c], p') \<and> drop p' m = r"
    by (simp add: bufchar_def)
qed

lemma decodeBuf_b128:
  assumes "drop p m = b128 n @ r" "n < 2 ^ 28"
  shows "MQTTPacket_decodeBuf m p = Some (int (length (b128 n)), int n)"
  using bufchar.decode_b128 [OF assms] by (auto simp: MQTTPacket_decodeBuf_def)

lemma decodeBuf_encode:
  assumes "drop p m = MQTTPacket_encode n @ r" "0 \<le> n" "n < 2 ^ 28"
  shows "MQTTPacket_decodeBuf m p = Some (int (length (MQTTPacket_encode n)), n)"
  using decodeBuf_b128 [of p m "nat n" r] assms by (simp add: encode_b128 nat_less_iff)

section \<open>The packet length is never underestimated\<close>

lemma length_encode_le:
  assumes "0 \<le> n" "0 < k"
  shows "length (MQTTPacket_encode n) \<le> k \<longleftrightarrow> n < 128 ^ k"
proof -
  have "length (MQTTPacket_encode n) \<le> k \<longleftrightarrow> nat n < 128 ^ k"
    using assms by (simp add: encode_b128 length_b128_le)
  also have "\<dots> \<longleftrightarrow> n < 128 ^ k"
    using assms by (simp add: nat_less_iff)
  finally show ?thesis .
qed

lemma length_encode:
  assumes "0 \<le> n" "n < 2 ^ 28"
  shows "length (MQTTPacket_encode n) =
    (if n < 128 then 1 else if n < 16384 then 2 else if n < 2097152 then 3 else 4)"
proof -
  define l where "l = length (MQTTPacket_encode n)"
  have "l \<le> 1 \<longleftrightarrow> n < 128" "l \<le> 2 \<longleftrightarrow> n < 16384" "l \<le> 3 \<longleftrightarrow> n < 2097152"
    "l \<le> 4 \<longleftrightarrow> n < 268435456" "0 < l"
    using length_encode_le [OF assms(1), of 1] length_encode_le [OF assms(1), of 2]
      length_encode_le [OF assms(1), of 3] length_encode_le [OF assms(1), of 4]
      length_encode_pos [OF assms(1)] by (simp_all add: l_def)
  with assms(2) show ?thesis unfolding l_def [symmetric] by (auto simp: le_Suc_eq)
qed

text \<open>
  The size computed before serializing covers header, length field and body, and exceeds them
  by one byte at exactly four body lengths.
\<close>

lemma MQTTPacket_len_exact:
  assumes "0 \<le> n" "n < 2 ^ 28"
  shows "MQTTPacket_len n = 1 + int (length (MQTTPacket_encode n)) + n
           + (if n \<in> {127, 16383, 2097150, 2097151} then 1 else 0)"
  using assms by (simp add: length_encode MQTTPacket_len_def Let_def)

lemma MQTTPacket_len_ge:
  "0 \<le> n \<Longrightarrow> n < 2 ^ 28 \<Longrightarrow> 1 + int (length (MQTTPacket_encode n)) + n \<le> MQTTPacket_len n"
  by (simp add: MQTTPacket_len_exact)

text \<open>
  The remaining-length field of every body an MQTT packet may have (below 268435456 bytes)
  takes one to four bytes and is decoded, from a buffer with anything behind it, to the same
  length and the number of bytes it was written with.
\<close>

theorem remaining_length_roundtrip:
  assumes "0 \<le> n" "n < 2 ^ 28"
  shows "MQTTPacket_decodeBuf (MQTTPacket_encode n @ rest) 0 = Some (int (length (MQTTPacket_encode n)), n)
    \<and> 1 \<le> length (MQTTPacket_encode n) \<and> length (MQTTPacket_encode n) \<le> 4"
  using decodeBuf_encode [of 0 "MQTTPacket_encode n @ rest" n rest] length_encode [OF assms] assms
  by simp

theorem remaining_length_roundtrip_witness:
  "MQTTPacket_decodeBuf (MQTTPacket_encode 321 @ [9]) 0 = Some (int (length (MQTTPacket_encode 321)), 321)"
  using remaining_length_roundtrip [of 321 "[9]"] by simp

text \<open>
  The size computed before serializing, against which the buffer is checked, is the exact
  size of the packet, except for the bodies of 127, 16383, 2097150 and 2097151 bytes, where it is
  one too large: a packet never overruns a buffer that passed the check, and a buffer of the
  exact size is refused only at these four lengths.
\<close>

theorem packet_len_exact:
  assumes "0 \<le> n" "n < 2 ^ 28"
  shows "MQTTPacket_len n = 1 + int (length (MQTTPacket_encode n)) + n
           + (if n \<in> {127, 16383, 2097150, 2097151} then 1 else 0)"
  using assms by (rule MQTTPacket_len_exact)

theorem packet_len_exact_witness:
  "MQTTPacket_len 127 = 1 + int (length (MQTTPacket_encode 127)) + 127 + 1"
  using packet_len_exact [of 127] by simp

section \<open>What reading keeps\<close>

text \<open>Reading a packet keeps what the transport function keeps.\<close>

lemma decode_loop_keeps:
  assumes "\<And>s n r bs s'. P s \<Longrightarrow> getfn s n = Some (r, bs, s') \<Longrightarrow> P s'"
    and "P s" "decode_loop getfn s len mult val = Some (r, v, s')"
  shows "P s'"
  using assms(2,3)
proof (induction "nat (4 - len)" arbitrary: s len mult val rule: less_induct)
  case less
  show ?case
  proof (cases "len + 1 > 4 \<or> getfn s 1 = None")
    case True
    with less.prems show ?thesis by (subst (asm) decode_loop.simps) (auto simp: Let_def split: if_splits)
  next
    case False
    then obtain rc bs s1 where g: "getfn s 1 = Some (rc, bs, s1)" "len + 1 \<le> 4" by auto
    with assms(1) less.prems(1) have "P s1" by blast
    moreover have "P s1 \<Longrightarrow> decode_loop getfn s1 (len + 1) m w = Some (r, v, s') \<Longrightarrow> P s'" for m w
      using less.hyps [of "len + 1" s1 m w] g(2) by simp
    ultimately show ?thesis
      using g less.prems(2) by (subst (asm) decode_loop.simps) (auto simp: Let_def split: if_splits list.splits)
  qed
qed

lemma read_keeps:
  assumes keep: "\<And>s n r bs s'. P s \<Longrightarrow> getfn s n = Some (r, bs, s') \<Longrightarrow> P s'"
    and "P s" "MQTTPacket_read getfn s buflen = Some (r, bs, s')"
  shows "P s'"
proof -
  from assms(3) obtain rc1 b1 s1 where 1: "getfn s 1 = Some (rc1, b1, s1)"
    by (auto simp: MQTTPacket_read_def bind_eq_Some_conv)
  with keep assms(2) have "P s1" by blast
  have "P s2" if d: "MQTTPacket_decode getfn s1 = Some (x, y, s2)" for x y s2
    using decode_loop_keeps [where P = P and getfn = getfn and s = s1, OF _ \<open>P s1\<close> d [unfolded MQTTPacket_decode_def]]
      keep by blast
  moreover have "s' = s1 \<or> (\<exists>x y s2. MQTTPacket_decode getfn s1 = Some (x, y, s2) \<and>
      (s' = s2 \<or> (\<exists>r3 b3. getfn s2 y = Some (r3, b3, s'))))"
    using assms(3) 1
    by (simp add: MQTTPacket_read_def bind_eq_Some_conv Let_def split: if_splits list.splits prod.splits) blast+
  ultimately show ?thesis using keep \<open>P s1\<close> by metis
qed

section \<open>Whole packets from a transport\<close>

text \<open>A frame: header byte, canonical remaining length, body of that length.\<close>

definition frame :: "byte \<Rightarrow> byte list \<Rightarrow> byte list" where
  "frame h body = h # MQTTPacket_encode (int (length body)) @ body"

locale transport =
  fixes getfn :: "'s getfn"
    and avail :: "'s \<Rightarrow> byte list"
  assumes get_many: "0 < n \<Longrightarrow> n \<le> int (length (avail s)) \<Longrightarrow>
    \<exists>s'. getfn s n = Some (n, take (nat n) (avail s), s') \<and> avail s' = drop (nat n) (avail s)"

sublocale transport \<subseteq> byte_source
proof
  fix s c r assume "avail s = c # r"
  then show "\<exists>s'. getfn s 1 = Some (1, [c], s') \<and> avail s' = r"
    using get_many [of 1 s] by simp
qed

context transport
begin

lemma read_frame:
  assumes av: "avail s = frame h body @ r"
    and len: "length body < 2 ^ 28" and fits: "int (length (frame h body)) \<le> buflen"
    and body: "body \<noteq> []"
  shows "\<exists>s'. MQTTPacket_read getfn s buflen =
    Some (uint (mtype (header_of_byte h)), frame h body, s') \<and> avail s' = r"
proof -
  let ?e = "b128 (length body)"
  have fr: "frame h body = h # ?e @ body" by (simp add: frame_def encode_int)
  from av obtain s1 where s1: "getfn s 1 = Some (1, [h], s1)" "avail s1 = ?e @ body @ r"
    using get_one [of s h "?e @ body @ r"] by (auto simp: fr)
  then obtain s2 where s2: "MQTTPacket_decode getfn s1 = Some (int (length ?e), int (length body), s2)"
    "avail s2 = body @ r"
    using decode_b128 [of s1 "length body" "body @ r"] len by auto
  then obtain s3 where "getfn s2 (int (length body)) = Some (int (length body), body, s3)"
    "avail s3 = r"
    using get_many [of "int (length body)" s2] body by auto
  with s1 s2 fits show ?thesis
    by (simp add: MQTTPacket_read_def encode_int fr)
qed

text \<open>A packet that does not fit the caller's buffer is refused before its body is read.\<close>

lemma read_too_long:
  assumes av: "avail s = frame h body @ r"
    and len: "length body < 2 ^ 28" and big: "int (length (frame h body)) > buflen"
  shows "\<exists>s'. MQTTPacket_read getfn s buflen =
    Some (-1, h # MQTTPacket_encode (int (length body)), s') \<and> avail s' = body @ r"
proof -
  let ?e = "b128 (length body)"
  have fr: "frame h body = h # ?e @ body" by (simp add: frame_def encode_int)
  from av obtain s1 where s1: "getfn s 1 = Some (1, [h], s1)" "avail s1 = ?e @ body @ r"
    using get_one [of s h "?e @ body @ r"] by (auto simp: fr)
  then obtain s2 where "MQTTPacket_decode getfn s1 = Some (int (length ?e), int (length body), s2)"
    "avail s2 = body @ r"
    using decode_b128 [of s1 "length body" "body @ r"] len by auto
  with s1 big show ?thesis
    by (simp add: MQTTPacket_read_def encode_int fr)
qed

end

section \<open>Cursor round trips\<close>

lemma readChar_at [mem_simps]: "drop p m = c # r \<Longrightarrow> readChar m p = Some (c, p + 1)"
  by (metis rd_drop add_0_right rd_Cons_0 readChar_def bind.bind_lunit)

lemma drop_step: "drop p m = xs @ r \<Longrightarrow> drop (p + length xs) m = r"
  by (metis append_eq_conv_conj drop_drop add.commute)

lemma readInt_at [mem_simps]:
  assumes "drop p m = a # b # r"
  shows "readInt m p = Some (256 * uint a + uint b, p + 2)"
proof -
  have "rd m p = Some a" using rd_drop [of m p 0] assms by simp
  moreover have "rd m (p + 1) = Some b" using rd_drop [of m p 1] assms by simp
  ultimately show ?thesis by (simp add: readInt_def)
qed

text \<open>\<open>int16_bytes n\<close>: the two bytes \<^verbatim>\<open>writeInt\<close> writes.\<close>

definition int16_bytes :: "int \<Rightarrow> byte list" where
  "int16_bytes n = writeInt [] n"

lemma writeInt_append: "writeInt out n = out @ int16_bytes n"
  by (simp add: writeInt_def int16_bytes_def)

lemma length_int16 [simp]: "length (int16_bytes n) = 2"
  by (simp add: int16_bytes_def writeInt_def)

lemma readInt_int16:
  assumes "drop p m = int16_bytes n @ r" "0 \<le> n" "n < 65536"
  shows "readInt m p = Some (n, p + 2)"
proof -
  have "n div 256 < 256" using assms(3) by (simp add: div_less_iff_less_mult)
  moreover have "0 \<le> n div 256" using assms(2) by simp
  ultimately have "uint (word_of_int (n div 256) :: byte) = n div 256"
    by (simp add: uint_word_of_int)
  moreover have "uint (word_of_int (n mod 256) :: byte) = n mod 256"
    by (simp add: uint_word_of_int)
  moreover have "readInt m p = Some (256 * uint (word_of_int (n div 256) :: byte)
      + uint (word_of_int (n mod 256) :: byte), p + 2)"
    using assms by (intro readInt_at [where r = r])
      (simp add: int16_bytes_def writeInt_def sdiv_nonneg smod_nonneg)
  ultimately show ?thesis by simp
qed

text \<open>Opening a frame that is followed by anything.\<close>

definition frame_start :: "byte list \<Rightarrow> nat" where
  "frame_start body = 1 + length (b128 (length body))"

lemma frame_open:
  assumes "length body < 2 ^ 28"
  shows "readChar (frame h body @ rest) 0 = Some (h, 1)"
    and "MQTTPacket_decodeBuf (frame h body @ rest) 1 =
      Some (int (length (b128 (length body))), int (length body))"
    and "drop (frame_start body) (frame h body @ rest) = body @ rest"
  using assms
  by (auto simp: frame_def encode_int frame_start_def intro!: readChar_at decodeBuf_b128)
     (simp add: readChar_def)

lemma length_frame: "length (frame h body) = frame_start body + length body"
  by (simp add: frame_def encode_int frame_start_def)

lemma length_frame_le:
  "length body < 2 ^ 28 \<Longrightarrow> int (length (frame h body)) \<le> MQTTPacket_len (int (length body))"
  using MQTTPacket_len_ge [of "int (length body)"] by (simp add: length_frame frame_start_def encode_int)

end
