(* ===== verification/Mqtt_Publish.thy ===== *)
theory Mqtt_Publish
  imports Mqtt_Packet
begin

text \<open>
  PUBLISH and the acknowledgement packets: \<^verbatim>\<open>burba/sys/paho/MQTTSerializePublish.c\<close> and
  \<^verbatim>\<open>MQTTDeserializePublish.c\<close>.

  A serializer returns its result code and the bytes it has written to \<open>buf\<close>;
  \<^term>\<open>None\<close> is a copy that reads outside its source. A deserializer returns its result code
  and its out parameters, each \<^term>\<open>None\<close> until the code assigns it, and is \<^term>\<open>None\<close> as a
  whole when it reads outside the input buffer.
\<close>

section \<open>Serializing\<close>

definition MQTTSerialize_publishLength :: "int \<Rightarrow> MQTTString \<Rightarrow> int \<Rightarrow> int" where
  "MQTTSerialize_publishLength q topicName payloadlen =
     (let len = 2 + MQTTstrlen topicName + payloadlen in if q > 0 then len + 2 else len)"

definition MQTTSerialize_publish ::
  "int \<Rightarrow> byte \<Rightarrow> int \<Rightarrow> byte \<Rightarrow> u16 \<Rightarrow> MQTTString \<Rightarrow> byte list \<Rightarrow> int \<Rightarrow> (int \<times> byte list) option" where
  "MQTTSerialize_publish buflen d q r packetid topicName payload payloadlen =
     (let rem = MQTTSerialize_publishLength q topicName payloadlen
      in if MQTTPacket_len rem > buflen then Some (MQTTPACKET_BUFFER_TOO_SHORT, [])
         else do {
           let header = \<lparr>retain = ucast r, qos = word_of_int q, dup = ucast d, mtype = msg_code PUBLISH\<rparr>;
           let p1 = writeChar [] (header_byte header);
           let p2 = p1 @ MQTTPacket_encode rem;
           p3 \<leftarrow> writeMQTTString p2 topicName;
           let p4 = (if q > 0 then writeInt p3 (uint packetid) else p3);
           p5 \<leftarrow> memcpy p4 payload payloadlen;
           Some (int (length p5), p5)
         })"

definition MQTTSerialize_ack :: "int \<Rightarrow> byte \<Rightarrow> byte \<Rightarrow> u16 \<Rightarrow> int \<times> byte list" where
  "MQTTSerialize_ack buflen packettype d packetid =
     (if buflen < 4 then (MQTTPACKET_BUFFER_TOO_SHORT, [])
      else (let header = \<lparr>retain = 0, qos = (if packettype = ucast (msg_code PUBREL) then 1 else 0),
                          dup = ucast d, mtype = ucast packettype\<rparr>;
                p1 = writeChar [] (header_byte header);
                p2 = p1 @ MQTTPacket_encode 2;
                p3 = writeInt p2 (uint packetid)
            in (int (length p3), p3)))"

definition MQTTSerialize_puback :: "int \<Rightarrow> u16 \<Rightarrow> int \<times> byte list" where
  "MQTTSerialize_puback buflen packetid = MQTTSerialize_ack buflen (ucast (msg_code PUBACK)) 0 packetid"

definition MQTTSerialize_pubrel :: "int \<Rightarrow> byte \<Rightarrow> u16 \<Rightarrow> int \<times> byte list" where
  "MQTTSerialize_pubrel buflen d packetid = MQTTSerialize_ack buflen (ucast (msg_code PUBREL)) d packetid"

definition MQTTSerialize_pubcomp :: "int \<Rightarrow> u16 \<Rightarrow> int \<times> byte list" where
  "MQTTSerialize_pubcomp buflen packetid = MQTTSerialize_ack buflen (ucast (msg_code PUBCOMP)) 0 packetid"

section \<open>Deserializing\<close>

record publish_out =
  o_dup :: "byte option"
  o_qos :: "int option"
  o_retained :: "byte option"
  o_packetid :: "u16 option"
  o_topic :: MQTTString
  o_payload :: "nat option"
  o_payloadlen :: "int option"

definition publish_out_init :: "MQTTString \<Rightarrow> publish_out" where
  "publish_out_init topic =
     \<lparr>o_dup = None, o_qos = None, o_retained = None, o_packetid = None, o_topic = topic,
      o_payload = None, o_payloadlen = None\<rparr>"

text \<open>
  The payload pointer is an index into the input buffer. \<open>rc\<close> holds the number of length bytes
  when the topic cannot be read, and is returned as it is.
\<close>

definition MQTTDeserialize_publish ::
  "MQTTString \<Rightarrow> byte list \<Rightarrow> (int \<times> publish_out) option" where
  "MQTTDeserialize_publish topicName buf =
     do {
       (b, cur) \<leftarrow> readChar buf 0;
       let header = header_of_byte b;
       let out = publish_out_init topicName;
       if mtype header \<noteq> msg_code PUBLISH then Some (0, out)
       else do {
         let out = out\<lparr>o_dup := Some (ucast (dup header)), o_qos := Some (uint (qos header)),
                        o_retained := Some (ucast (retain header))\<rparr>;
         (rc, mylen) \<leftarrow> MQTTPacket_decodeBuf buf cur;
         let cur = cur + nat rc;
         let enddata = cur + nat mylen;
         (ok, topic, cur) \<leftarrow> readMQTTLenString topicName buf cur enddata;
         let out = out\<lparr>o_topic := topic\<rparr>;
         if ok = 0 \<or> int enddata - int cur < 0 then Some (rc, out)
         else do {
           (pid, cur) \<leftarrow> (if uint (qos header) > 0
                          then do { (i, c) \<leftarrow> readInt buf cur; Some (Some (word_of_int i), c) }
                          else Some (None, cur));
           Some (1, out\<lparr>o_packetid := pid, o_payloadlen := Some (int enddata - int cur),
                         o_payload := Some cur\<rparr>)
         }
       }
     }"

record ack_out =
  a_type :: "byte option"
  a_dup :: "byte option"
  a_packetid :: "u16 option"

definition MQTTDeserialize_ack :: "byte list \<Rightarrow> (int \<times> ack_out) option" where
  "MQTTDeserialize_ack buf =
     do {
       (b, cur) \<leftarrow> readChar buf 0;
       let header = header_of_byte b;
       let out = \<lparr>a_type = Some (ucast (mtype header)), a_dup = Some (ucast (dup header)),
                  a_packetid = None\<rparr>;
       (rc, mylen) \<leftarrow> MQTTPacket_decodeBuf buf cur;
       let cur = cur + nat rc;
       let enddata = cur + nat mylen;
       if int enddata - int cur < 2 then Some (rc, out)
       else do {
         (pid, _) \<leftarrow> readInt buf cur;
         Some (1, out\<lparr>a_packetid := Some (word_of_int pid)\<rparr>)
       }
     }"

section \<open>Strings written and read back\<close>

text \<open>
  A topic as the clients build it: a C string with no length-delimited part, or a
  length-delimited string whose data is exactly its length.
\<close>

definition topic_bytes :: "MQTTString \<Rightarrow> byte list" where
  "topic_bytes s = (if lslen s > 0 then (case lsdata s of Some d \<Rightarrow> d | None \<Rightarrow> [])
                    else (case cstring s of Some cs \<Rightarrow> cs | None \<Rightarrow> []))"

definition string_ok :: "MQTTString \<Rightarrow> bool" where
  "string_ok s \<longleftrightarrow>
     (case cstring s of
        Some cs \<Rightarrow> lslen s = 0 \<and> length cs < 65536
      | None \<Rightarrow> (case lsdata s of None \<Rightarrow> lslen s = 0
                | Some d \<Rightarrow> lslen s = int (length d) \<and> length d < 65536))"

lemma string_ok_len: "string_ok s \<Longrightarrow> MQTTstrlen s = int (length (topic_bytes s))"
  by (auto simp: string_ok_def MQTTstrlen_def topic_bytes_def split: option.splits)

lemma string_ok_short: "string_ok s \<Longrightarrow> length (topic_bytes s) < 65536"
  by (auto simp: string_ok_def topic_bytes_def split: option.splits)

text \<open>The bytes of a string on the wire.\<close>

definition utf_field :: "byte list \<Rightarrow> byte list" where
  "utf_field bs = int16_bytes (int (length bs)) @ bs"

lemma length_utf_field [simp]: "length (utf_field bs) = 2 + length bs"
  by (simp add: utf_field_def)

lemma writeMQTTString_ok:
  "string_ok s \<Longrightarrow> writeMQTTString out s = Some (out @ utf_field (topic_bytes s))"
  by (auto simp: string_ok_def writeMQTTString_def topic_bytes_def utf_field_def writeCString_def
      writeInt_append split: option.splits)

lemma readMQTTLenString_utf:
  assumes "drop p m = utf_field bs @ r" "length bs < 65536" "p + 2 + length bs \<le> enddata"
  shows "readMQTTLenString s m p enddata =
    Some (1, s\<lparr>lslen := int (length bs), lsdata := Some (bs @ r), cstring := None\<rparr>, p + 2 + length bs)"
proof -
  have "drop p m = int16_bytes (int (length bs)) @ bs @ r" using assms(1) by (simp add: utf_field_def)
  then have "readInt m p = Some (int (length bs), p + 2)" and "drop (p + 2) m = bs @ r"
    using readInt_int16 assms(2) drop_step [of p m "int16_bytes (int (length bs))"] by auto
  with assms(3) show ?thesis by (simp add: readMQTTLenString_def)
qed

section \<open>Serialized publishes\<close>

definition publish_body :: "int \<Rightarrow> u16 \<Rightarrow> byte list \<Rightarrow> byte list \<Rightarrow> byte list" where
  "publish_body q packetid topic payload =
     utf_field topic @ (if q > 0 then int16_bytes (uint packetid) else []) @ payload"

definition publish_header :: "byte \<Rightarrow> int \<Rightarrow> byte \<Rightarrow> byte" where
  "publish_header d q r = header_byte
     \<lparr>retain = ucast r, qos = word_of_int q, dup = ucast d, mtype = msg_code PUBLISH\<rparr>"

lemma publishLength_body:
  "string_ok t \<Longrightarrow> MQTTSerialize_publishLength q t (int (length payload)) =
     int (length (publish_body q packetid (topic_bytes t) payload))"
  by (simp add: MQTTSerialize_publishLength_def publish_body_def string_ok_len Let_def)

lemma serialize_publish_frame:
  assumes "string_ok t"
  shows "MQTTSerialize_publish buflen d q r packetid t payload (int (length payload)) =
    (let body = publish_body q packetid (topic_bytes t) payload
     in if MQTTPacket_len (int (length body)) > buflen then Some (MQTTPACKET_BUFFER_TOO_SHORT, [])
        else Some (int (length (frame (publish_header d q r) body)), frame (publish_header d q r) body))"
proof -
  have l: "MQTTSerialize_publishLength q t (int (length payload)) =
     int (length (publish_body q packetid (topic_bytes t) payload))"
    using assms by (rule publishLength_body)
  show ?thesis
    unfolding MQTTSerialize_publish_def l Let_def
    by (simp add: writeMQTTString_ok [OF assms] frame_def publish_body_def publish_header_def
        writeChar_def writeInt_append)
qed

lemma publish_header_fields [simp]:
  "mtype (header_of_byte (publish_header d q r)) = msg_code PUBLISH"
  "qos (header_of_byte (publish_header d q r)) = word_of_int q"
  "dup (header_of_byte (publish_header d q r)) = ucast d"
  "retain (header_of_byte (publish_header d q r)) = ucast r"
  by (simp_all add: publish_header_def)

lemma deserialize_publish_frame:
  fixes d r :: byte and topic payload :: "byte list"
  assumes len: "length (publish_body q pid topic payload) < 2 ^ 28"
    and topic: "length topic < 65536" and q: "0 \<le> q" "q < 4"
    and m: "m = frame (publish_header d q r) (publish_body q pid topic payload) @ rest"
  shows "\<exists>pos more. MQTTDeserialize_publish t0 m =
    Some (1, \<lparr>o_dup = Some (d AND 1), o_qos = Some q, o_retained = Some (r AND 1),
              o_packetid = (if q > 0 then Some pid else None),
              o_topic = t0\<lparr>lslen := int (length topic), lsdata := Some (topic @ more), cstring := None\<rparr>,
              o_payload = Some pos, o_payloadlen = Some (int (length payload))\<rparr>)
    \<and> drop pos m = payload @ rest"
proof -
  define body where "body = publish_body q pid topic payload"
  let ?h = "publish_header d q r"
  let ?pidb = "if q > 0 then int16_bytes (uint pid) else []"
  let ?s = "frame_start body"
  let ?pos = "?s + 2 + length topic + (if q > 0 then 2 else 0)"
  have b: "body = utf_field topic @ ?pidb @ payload" by (simp add: body_def publish_body_def)
  note op = frame_open [of body ?h rest, OF len [folded body_def], folded m [folded body_def]]
  have d1: "drop ?s m = utf_field topic @ ?pidb @ payload @ rest"
    using op(3) b by (simp split: if_splits)
  have d2: "drop (?s + 2 + length topic) m = ?pidb @ payload @ rest"
    using drop_step [OF d1] by simp
  have d3: "drop ?pos m = payload @ rest"
    using drop_step [OF d2] by (cases "q > 0") simp_all
  have st: "readMQTTLenString t0 m ?s (?s + length body) =
     Some (1, t0\<lparr>lslen := int (length topic), lsdata := Some (topic @ ?pidb @ payload @ rest),
                cstring := None\<rparr>, ?s + 2 + length topic)"
    using d1 topic by (intro readMQTTLenString_utf) (simp_all add: b)
  have qw: "uint (word_of_int q :: 2 word) = q"
    using q by (simp add: uint_word_of_int)
  have pidr: "q > 0 \<Longrightarrow> readInt m (?s + 2 + length topic) = Some (uint pid, ?s + 2 + length topic + 2)"
    using d2 uint_lt2p [of pid] by (intro readInt_int16) simp_all
  have "int (?s + length body) - int ?pos = int (length payload)"
    by (simp add: b)
  with op(1,2) st pidr have "MQTTDeserialize_publish t0 m =
    Some (1, \<lparr>o_dup = Some (d AND 1), o_qos = Some q, o_retained = Some (r AND 1),
              o_packetid = (if q > 0 then Some pid else None),
              o_topic = t0\<lparr>lslen := int (length topic),
                           lsdata := Some (topic @ ?pidb @ payload @ rest), cstring := None\<rparr>,
              o_payload = Some ?pos, o_payloadlen = Some (int (length payload))\<rparr>)"
    by (auto simp: MQTTDeserialize_publish_def Let_def publish_out_init_def qw frame_start_def)
  with d3 show ?thesis by blast
qed

text \<open>What a string read from a packet denotes: the first \<open>len\<close> bytes behind its pointer.\<close>

definition lenstring_bytes :: "MQTTString \<Rightarrow> byte list" where
  "lenstring_bytes s = (case lsdata s of Some d \<Rightarrow> take (nat (lslen s)) d | None \<Rightarrow> [])"

lemma publish_body_short:
  "length topic < 65536 \<Longrightarrow> length payload < 2 ^ 27 \<Longrightarrow>
     length (publish_body q pid topic payload) < 2 ^ 28"
  by (simp add: publish_body_def)

lemma serialize_publish_success:
  assumes "string_ok t" "length payload < 2 ^ 27"
    and "MQTTSerialize_publish buflen d q r pid t payload (int (length payload)) = Some (rc, bytes)"
    and "0 < rc"
  shows "bytes = frame (publish_header d q r) (publish_body q pid (topic_bytes t) payload)
    \<and> rc = int (length bytes) \<and> rc \<le> buflen"
proof -
  let ?b = "publish_body q pid (topic_bytes t) payload"
  have "length ?b < 2 ^ 28"
    using assms by (intro publish_body_short string_ok_short)
  note length_frame_le [OF this, of "publish_header d q r"]
  with assms show ?thesis
    by (auto simp: serialize_publish_frame Let_def MQTTPACKET_BUFFER_TOO_SHORT_def split: if_splits)
qed

text \<open>Evaluation of the packet layer on concrete arguments.\<close>

lemmas mqtt_eval =
  MQTTstrlen_def MQTTString_initializer_def MQTTPacket_len_def encode_b128 b128_small
  header_byte_def header_of_byte_def writeChar_def writeMQTTString_def writeCString_def
  writeInt_def memcpy_def Let_def sdiv_nonneg smod_nonneg

text \<open>
  C10: A publish the client serializes fits the buffer it was given, and deserializing it, whatever
  follows it in memory, succeeds and gives back the flags, the packet identifier (for a QoS above
  0), the topic and the payload.
\<close>

theorem publish_roundtrip:
  assumes "string_ok t" "length payload < 2 ^ 27" "0 \<le> q" "q < 4"
    and "MQTTSerialize_publish buflen d q r pid t payload (int (length payload)) = Some (rc, bytes)"
    and "0 < rc"
  shows "rc = int (length bytes) \<and> rc \<le> buflen \<and>
    (\<exists>out pos. MQTTDeserialize_publish t0 (bytes @ rest) = Some (1, out) \<and>
       o_dup out = Some (d AND 1) \<and> o_qos out = Some q \<and> o_retained out = Some (r AND 1) \<and>
       o_packetid out = (if 0 < q then Some pid else None) \<and>
       lenstring_bytes (o_topic out) = topic_bytes t \<and>
       o_payload out = Some pos \<and> o_payloadlen out = Some (int (length payload)) \<and>
       take (length payload) (drop pos (bytes @ rest)) = payload)"
proof -
  let ?topic = "topic_bytes t"
  let ?b = "publish_body q pid ?topic payload"
  note ser = serialize_publish_success [OF assms(1,2,5,6)]
  have t: "length ?topic < 65536" using assms(1) by (rule string_ok_short)
  have len: "length ?b < 2 ^ 28" using t assms(2) by (rule publish_body_short)
  define m where "m = bytes @ rest"
  with ser have "m = frame (publish_header d q r) ?b @ rest" by simp
  from deserialize_publish_frame [OF len t assms(3,4) this, of t0] obtain pos more
    where des: "MQTTDeserialize_publish t0 m =
      Some (1, \<lparr>o_dup = Some (d AND 1), o_qos = Some q, o_retained = Some (r AND 1),
              o_packetid = (if q > 0 then Some pid else None),
              o_topic = t0\<lparr>lslen := int (length ?topic), lsdata := Some (?topic @ more), cstring := None\<rparr>,
              o_payload = Some pos, o_payloadlen = Some (int (length payload))\<rparr>)"
      and pos: "drop pos m = payload @ rest" by blast
  from pos have "take (length payload) (drop pos m) = payload" by simp
  with des have "\<exists>out pos. MQTTDeserialize_publish t0 m = Some (1, out) \<and>
       o_dup out = Some (d AND 1) \<and> o_qos out = Some q \<and> o_retained out = Some (r AND 1) \<and>
       o_packetid out = (if 0 < q then Some pid else None) \<and>
       lenstring_bytes (o_topic out) = ?topic \<and>
       o_payload out = Some pos \<and> o_payloadlen out = Some (int (length payload)) \<and>
       take (length payload) (drop pos m) = payload"
    by (simp add: lenstring_bytes_def)
  with ser show ?thesis unfolding m_def by blast
qed

theorem publish_roundtrip_witness:
  "\<exists>out pos. MQTTDeserialize_publish MQTTString_initializer
      ([0x33, 6, 0, 1, 97, 0, 7, 9] @ [1, 2]) = Some (1, out) \<and>
     o_payload out = Some pos \<and> take 1 (drop pos ([0x33, 6, 0, 1, 97, 0, 7, 9] @ [1, 2])) = [9 :: byte]"
proof -
  let ?t = "MQTTString_initializer\<lparr>cstring := Some [97]\<rparr>"
  have ser: "MQTTSerialize_publish 256 0 1 1 7 ?t [9] (int (length [9 :: byte]))
      = Some (8, [0x33, 6, 0, 1, 97, 0, 7, 9])"
    by (simp add: MQTTSerialize_publish_def MQTTSerialize_publishLength_def mqtt_eval)
  have ok: "string_ok ?t" by (simp add: string_ok_def MQTTString_initializer_def)
  show ?thesis
    using publish_roundtrip [OF ok _ _ _ ser, of MQTTString_initializer "[1, 2]"] by auto
qed

text \<open>Acknowledgements are a frame whose body is the packet identifier.\<close>

lemma serialize_ack_frame:
  "4 \<le> buflen \<Longrightarrow> MQTTSerialize_ack buflen ty d pid =
     (let h = header_byte \<lparr>retain = 0, qos = (if ty = ucast (msg_code PUBREL) then 1 else 0),
                           dup = ucast d, mtype = ucast ty\<rparr>
      in (4, frame h (int16_bytes (uint pid))))"
  using encode_int [of 2]
  by (simp add: MQTTSerialize_ack_def frame_def writeChar_def writeInt_append Let_def b128_small)

lemma deserialize_ack_frame:
  "MQTTDeserialize_ack (frame h (int16_bytes (uint pid)) @ rest) =
     Some (1, \<lparr>a_type = Some (ucast (mtype (header_of_byte h))),
              a_dup = Some (ucast (dup (header_of_byte h))), a_packetid = Some pid\<rparr>)"
proof -
  let ?body = "int16_bytes (uint pid)"
  have len: "length ?body < 2 ^ 28" by simp
  note op = frame_open [OF len, of h rest]
  have "readInt (frame h ?body @ rest) (frame_start ?body) = Some (uint pid, frame_start ?body + 2)"
    using op(3) uint_lt2p [of pid] by (intro readInt_int16 [where r = rest]) simp_all
  with op(1,2) show ?thesis
    by (simp add: MQTTDeserialize_ack_def Let_def frame_start_def)
qed

text \<open>
  Every acknowledgement the client can build is four bytes long, is refused by a buffer that
  is shorter, and reads back as the packet type and identifier it was built from.
\<close>

theorem ack_roundtrip:
  fixes ty d :: byte
  shows "(buflen < 4 \<longrightarrow> MQTTSerialize_ack buflen ty d pid = (MQTTPACKET_BUFFER_TOO_SHORT, [])) \<and>
    (4 \<le> buflen \<longrightarrow> (\<exists>bytes. MQTTSerialize_ack buflen ty d pid = (4, bytes) \<and> length bytes = 4 \<and>
       MQTTDeserialize_ack (bytes @ rest) =
         Some (1, \<lparr>a_type = Some (ty AND 15), a_dup = Some (d AND 1), a_packetid = Some pid\<rparr>)))"
proof -
  have "length (frame h (int16_bytes (uint pid))) = 4" for h
    by (simp add: length_frame frame_start_def b128_small)
  then show ?thesis
    by (auto simp: serialize_ack_frame Let_def deserialize_ack_frame)
       (simp add: MQTTSerialize_ack_def)
qed

theorem ack_roundtrip_witness:
  "\<exists>bytes. MQTTSerialize_ack 4 4 0 7 = (4, bytes) \<and>
     MQTTDeserialize_ack (bytes @ [1]) =
       Some (1, \<lparr>a_type = Some 4, a_dup = Some 0, a_packetid = Some 7\<rparr>)"
  using ack_roundtrip [of 4 4 0 7 "[1]"] by auto

end
