(* ===== verification/Mqtt_Connect.thy ===== *)
theory Mqtt_Connect
  imports Mqtt_Publish
begin

text \<open>
  Opening and closing a session: \<^verbatim>\<open>burba/sys/paho/MQTTConnect.h\<close>, \<^verbatim>\<open>MQTTConnectClient.c\<close> and
  \<^verbatim>\<open>MQTTConnectServer.c\<close>. Serializers and deserializers have the shape of theory
  \<^verbatim>\<open>Mqtt_Publish\<close>; \<^verbatim>\<open>MQTTDeserialize_connect\<close> updates the structure it is given.
\<close>

section \<open>Data\<close>

record MQTTConnectFlags =
  f_cleansession :: "1 word"
  f_will :: "1 word"
  f_willQoS :: "2 word"
  f_willRetain :: "1 word"
  f_password :: "1 word"
  f_username :: "1 word"

text \<open>Bit 0 of the flags byte is unused; the bit fields fill it from bit 1 up.\<close>

definition connect_flags_byte :: "MQTTConnectFlags \<Rightarrow> byte" where
  "connect_flags_byte f =
     push_bit 1 (ucast (f_cleansession f)) OR push_bit 2 (ucast (f_will f))
     OR push_bit 3 (ucast (f_willQoS f)) OR push_bit 5 (ucast (f_willRetain f))
     OR push_bit 6 (ucast (f_password f)) OR push_bit 7 (ucast (f_username f))"

definition connect_flags_of_byte :: "byte \<Rightarrow> MQTTConnectFlags" where
  "connect_flags_of_byte b =
     \<lparr>f_cleansession = ucast (drop_bit 1 b), f_will = ucast (drop_bit 2 b),
      f_willQoS = ucast (drop_bit 3 b), f_willRetain = ucast (drop_bit 5 b),
      f_password = ucast (drop_bit 6 b), f_username = ucast (drop_bit 7 b)\<rparr>"

lemma connect_flags_of_byte_byte [simp]: "connect_flags_of_byte (connect_flags_byte f) = f"
  by (cases f)
     (auto simp: connect_flags_of_byte_def connect_flags_byte_def bit_simps
        simp del: push_bit_of_Suc_0 push_bit_Suc One_nat_def
        intro!: bit_word_eqI)

text \<open>\<^verbatim>\<open>MQTTConnackFlags\<close>: seven unused bits, then \<open>sessionpresent\<close>, in the order declared.\<close>

definition connack_flags_byte :: "1 word \<Rightarrow> byte" where
  "connack_flags_byte sp = push_bit 7 (ucast sp)"

definition connack_sessionpresent :: "byte \<Rightarrow> 1 word" where
  "connack_sessionpresent b = ucast (drop_bit 7 b)"

lemma connack_sessionpresent_byte [simp]: "connack_sessionpresent (connack_flags_byte sp) = sp"
  by (auto simp: connack_sessionpresent_def connack_flags_byte_def bit_simps intro!: bit_word_eqI)

record MQTTPacket_willOptions =
  will_struct_version :: int
  will_topicName :: MQTTString
  will_message :: MQTTString
  will_retained :: byte
  will_qos :: byte

record MQTTPacket_connectData =
  struct_version :: int
  MQTTVersion :: byte
  clientID :: MQTTString
  keepAliveInterval :: u16
  cleansession :: byte
  willFlag :: byte
  will :: MQTTPacket_willOptions
  username :: MQTTString
  password :: MQTTString

definition MQTTPacket_willOptions_initializer :: MQTTPacket_willOptions where
  "MQTTPacket_willOptions_initializer =
     \<lparr>will_struct_version = 0, will_topicName = MQTTString_initializer,
      will_message = MQTTString_initializer, will_retained = 0, will_qos = 0\<rparr>"

definition MQTTPacket_connectData_initializer :: MQTTPacket_connectData where
  "MQTTPacket_connectData_initializer =
     \<lparr>struct_version = 0, MQTTVersion = 4, clientID = MQTTString_initializer,
      keepAliveInterval = 60, cleansession = 1, willFlag = 0,
      will = MQTTPacket_willOptions_initializer, username = MQTTString_initializer,
      password = MQTTString_initializer\<rparr>"

definition ascii :: "string \<Rightarrow> byte list" where
  "ascii s = map of_char s"

text \<open>A string parameter is present when either of its pointers is set.\<close>

definition present :: "MQTTString \<Rightarrow> bool" where
  "present s \<longleftrightarrow> cstring s \<noteq> None \<or> lsdata s \<noteq> None"

section \<open>Client side\<close>

definition MQTTSerialize_connectLength :: "MQTTPacket_connectData \<Rightarrow> int" where
  "MQTTSerialize_connectLength options =
     (let len = (if MQTTVersion options = 3 then 12 else if MQTTVersion options = 4 then 10 else 0);
          len = len + (MQTTstrlen (clientID options) + 2);
          len = (if willFlag options \<noteq> 0
                 then len + (MQTTstrlen (will_topicName (will options)) + 2
                             + MQTTstrlen (will_message (will options)) + 2)
                 else len);
          len = (if present (username options) then len + (MQTTstrlen (username options) + 2) else len)
      in (if present (password options) then len + (MQTTstrlen (password options) + 2) else len))"

definition connect_flags :: "MQTTPacket_connectData \<Rightarrow> MQTTConnectFlags" where
  "connect_flags options =
     \<lparr>f_cleansession = ucast (cleansession options),
      f_will = (if willFlag options \<noteq> 0 then 1 else 0),
      f_willQoS = (if willFlag options \<noteq> 0 then ucast (will_qos (will options)) else 0),
      f_willRetain = (if willFlag options \<noteq> 0 then ucast (will_retained (will options)) else 0),
      f_password = (if present (password options) then 1 else 0),
      f_username = (if present (username options) then 1 else 0)\<rparr>"

definition MQTTSerialize_connect ::
  "int \<Rightarrow> MQTTPacket_connectData \<Rightarrow> (int \<times> byte list) option" where
  "MQTTSerialize_connect buflen options =
     (let len = MQTTSerialize_connectLength options
      in if MQTTPacket_len len > buflen then Some (MQTTPACKET_BUFFER_TOO_SHORT, [])
         else do {
           let header = \<lparr>retain = 0, qos = 0, dup = 0, mtype = msg_code CONNECT\<rparr>;
           let p = writeChar [] (header_byte header);
           let p = p @ MQTTPacket_encode len;
           let p = (if MQTTVersion options = 4 then writeChar (writeCString p (ascii ''MQTT'')) 4
                    else writeChar (writeCString p (ascii ''MQIsdp'')) 3);
           let flags = connect_flags options;
           let p = writeChar p (connect_flags_byte flags);
           let p = writeInt p (uint (keepAliveInterval options));
           p \<leftarrow> writeMQTTString p (clientID options);
           p \<leftarrow> (if willFlag options \<noteq> 0
                 then do {
                   p \<leftarrow> writeMQTTString p (will_topicName (will options));
                   writeMQTTString p (will_message (will options))
                 }
                 else Some p);
           p \<leftarrow> (if f_username flags \<noteq> 0 then writeMQTTString p (username options) else Some p);
           p \<leftarrow> (if f_password flags \<noteq> 0 then writeMQTTString p (password options) else Some p);
           Some (int (length p), p)
         })"

record connack_out =
  c_sessionPresent :: "byte option"
  c_connack_rc :: "byte option"

definition MQTTDeserialize_connack :: "byte list \<Rightarrow> (int \<times> connack_out) option" where
  "MQTTDeserialize_connack buf =
     do {
       (b, cur) \<leftarrow> readChar buf 0;
       let out = \<lparr>c_sessionPresent = None, c_connack_rc = None\<rparr>;
       if mtype (header_of_byte b) \<noteq> msg_code CONNACK then Some (0, out)
       else do {
         (rc, mylen) \<leftarrow> MQTTPacket_decodeBuf buf cur;
         let cur = cur + nat rc;
         let enddata = cur + nat mylen;
         if int enddata - int cur < 2 then Some (rc, out)
         else do {
           (flags, cur) \<leftarrow> readChar buf cur;
           (crc, cur) \<leftarrow> readChar buf cur;
           Some (1, out\<lparr>c_sessionPresent := Some (ucast (connack_sessionpresent flags)),
                         c_connack_rc := Some crc\<rparr>)
         }
       }
     }"

definition MQTTSerialize_zero :: "int \<Rightarrow> byte \<Rightarrow> int \<times> byte list" where
  "MQTTSerialize_zero buflen packettype =
     (if buflen < 2 then (MQTTPACKET_BUFFER_TOO_SHORT, [])
      else (let header = \<lparr>retain = 0, qos = 0, dup = 0, mtype = ucast packettype\<rparr>;
                p = writeChar [] (header_byte header);
                p = p @ MQTTPacket_encode 0
            in (int (length p), p)))"

definition MQTTSerialize_disconnect :: "int \<Rightarrow> int \<times> byte list" where
  "MQTTSerialize_disconnect buflen = MQTTSerialize_zero buflen (ucast (msg_code DISCONNECT))"

definition MQTTSerialize_pingreq :: "int \<Rightarrow> int \<times> byte list" where
  "MQTTSerialize_pingreq buflen = MQTTSerialize_zero buflen (ucast (msg_code PINGREQ))"

section \<open>Server side\<close>

text \<open>\<open>memcmp (a, b, n) == 0\<close>.\<close>

definition memcmp_eq :: "byte list \<Rightarrow> byte list \<Rightarrow> int \<Rightarrow> bool option" where
  "memcmp_eq a b n =
     (if 0 \<le> n \<and> n \<le> int (length a) \<and> n \<le> int (length b)
      then Some (take (nat n) a = take (nat n) b) else None)"

definition MQTTPacket_checkVersion :: "MQTTString \<Rightarrow> int \<Rightarrow> int option" where
  "MQTTPacket_checkVersion protocol version =
     (let d = (case lsdata protocol of Some d \<Rightarrow> d | None \<Rightarrow> [])
      in do {
        m3 \<leftarrow> (if version = 3
               then memcmp_eq d (ascii ''MQIsdp'') (if 6 < lslen protocol then 6 else lslen protocol)
               else Some False);
        if m3 then Some 1
        else do {
          m4 \<leftarrow> (if version = 4
                 then memcmp_eq d (ascii ''MQTT'') (if 4 < lslen protocol then 4 else lslen protocol)
                 else Some False);
          Some (if m4 then 1 else 0)
        }
      })"

definition MQTTDeserialize_connect ::
  "MQTTPacket_connectData \<Rightarrow> byte list \<Rightarrow> nat \<Rightarrow> (int \<times> MQTTPacket_connectData) option" where
  "MQTTDeserialize_connect data buf len =
     do {
       let enddata = len;
       (b, cur) \<leftarrow> readChar buf 0;
       if mtype (header_of_byte b) \<noteq> msg_code CONNECT then Some (0, data)
       else do {
         (n, mylen) \<leftarrow> MQTTPacket_decodeBuf buf cur;
         let cur = cur + nat n;
         (ok, Protocol, cur) \<leftarrow> readMQTTLenString MQTTString_initializer buf cur enddata;
         if ok = 0 \<or> int enddata - int cur < 0 then Some (0, data)
         else do {
           (v, cur) \<leftarrow> readChar buf cur;
           good \<leftarrow> MQTTPacket_checkVersion Protocol (uint v);
           if good = 0 then Some (0, data)
           else do {
             (fb, cur) \<leftarrow> readChar buf cur;
             let flags = connect_flags_of_byte fb;
             let data = data\<lparr>cleansession := ucast (f_cleansession flags)\<rparr>;
             (ka, cur) \<leftarrow> readInt buf cur;
             let data = data\<lparr>keepAliveInterval := word_of_int ka\<rparr>;
             (ok, cid, cur) \<leftarrow> readMQTTLenString (clientID data) buf cur enddata;
             let data = data\<lparr>clientID := cid\<rparr>;
             if ok = 0 then Some (0, data)
             else do {
               let data = data\<lparr>willFlag := ucast (f_will flags)\<rparr>;
               (ok, data, cur) \<leftarrow>
                 (if f_will flags \<noteq> 0
                  then do {
                    let w = (will data)\<lparr>will_qos := ucast (f_willQoS flags),
                                        will_retained := ucast (f_willRetain flags)\<rparr>;
                    (ok1, t, cur) \<leftarrow> readMQTTLenString (will_topicName w) buf cur enddata;
                    let w = w\<lparr>will_topicName := t\<rparr>;
                    if ok1 = 0 then Some (0, data\<lparr>will := w\<rparr>, cur)
                    else do {
                      (ok2, msg, cur) \<leftarrow> readMQTTLenString (will_message w) buf cur enddata;
                      Some (ok2, data\<lparr>will := w\<lparr>will_message := msg\<rparr>\<rparr>, cur)
                    }
                  }
                  else Some (1, data, cur));
               if ok = 0 then Some (0, data)
               else if f_username flags \<noteq> 0
               then (if int enddata - int cur < 3 then Some (0, data)
                     else do {
                       (ok, u, cur) \<leftarrow> readMQTTLenString (username data) buf cur enddata;
                       let data = data\<lparr>username := u\<rparr>;
                       if ok = 0 then Some (0, data)
                       else if f_password flags \<noteq> 0
                       then (if int enddata - int cur < 3 then Some (0, data)
                             else do {
                               (ok, pw, cur) \<leftarrow> readMQTTLenString (password data) buf cur enddata;
                               let data = data\<lparr>password := pw\<rparr>;
                               Some (if ok = 0 then 0 else 1, data)
                             })
                       else Some (1, data)
                     })
               else if f_password flags \<noteq> 0 then Some (0, data)
               else Some (1, data)
             }
           }
         }
       }
     }"

definition MQTTSerialize_connack :: "int \<Rightarrow> byte \<Rightarrow> byte \<Rightarrow> int \<times> byte list" where
  "MQTTSerialize_connack buflen connack_rc sessionPresent =
     (if buflen < 2 then (MQTTPACKET_BUFFER_TOO_SHORT, [])
      else (let header = \<lparr>retain = 0, qos = 0, dup = 0, mtype = msg_code CONNACK\<rparr>;
                p = writeChar [] (header_byte header);
                p = p @ MQTTPacket_encode 2;
                p = writeChar p (connack_flags_byte (ucast sessionPresent));
                p = writeChar p connack_rc
            in (int (length p), p)))"

section \<open>The connect packet\<close>

definition connect_proto :: "MQTTPacket_connectData \<Rightarrow> byte list" where
  "connect_proto d = (if MQTTVersion d = 4 then utf_field (ascii ''MQTT'') @ [4]
                      else utf_field (ascii ''MQIsdp'') @ [3])"

definition opt_field :: "bool \<Rightarrow> byte list \<Rightarrow> byte list" where
  "opt_field b bs = (if b then utf_field bs else [])"

definition connect_body :: "MQTTPacket_connectData \<Rightarrow> byte list" where
  "connect_body d =
     connect_proto d @ [connect_flags_byte (connect_flags d)] @ int16_bytes (uint (keepAliveInterval d))
     @ utf_field (topic_bytes (clientID d))
     @ opt_field (willFlag d \<noteq> 0) (topic_bytes (will_topicName (will d)))
     @ opt_field (willFlag d \<noteq> 0) (topic_bytes (will_message (will d)))
     @ opt_field (present (username d)) (topic_bytes (username d))
     @ opt_field (present (password d)) (topic_bytes (password d))"

definition connect_header :: byte where
  "connect_header = header_byte \<lparr>retain = 0, qos = 0, dup = 0, mtype = msg_code CONNECT\<rparr>"

text \<open>The strings of a connect structure that a packet is made of are well formed.\<close>

definition connect_ok :: "MQTTPacket_connectData \<Rightarrow> bool" where
  "connect_ok d \<longleftrightarrow>
     (MQTTVersion d = 3 \<or> MQTTVersion d = 4) \<and> string_ok (clientID d) \<and>
     (willFlag d \<noteq> 0 \<longrightarrow> string_ok (will_topicName (will d)) \<and> string_ok (will_message (will d))) \<and>
     string_ok (username d) \<and> string_ok (password d)"

lemma length_connect_proto:
  "MQTTVersion d = 3 \<or> MQTTVersion d = 4 \<Longrightarrow>
     int (length (connect_proto d)) = (if MQTTVersion d = 3 then 9 else 7)"
  by (auto simp: connect_proto_def ascii_def)

lemma connectLength_body:
  "connect_ok d \<Longrightarrow> MQTTSerialize_connectLength d = int (length (connect_body d))"
  by (auto simp: connect_ok_def MQTTSerialize_connectLength_def connect_body_def opt_field_def
      connect_proto_def ascii_def string_ok_len Let_def)

lemma serialize_connect_frame:
  assumes "connect_ok d"
  shows "MQTTSerialize_connect buflen d =
    (if MQTTPacket_len (int (length (connect_body d))) > buflen
     then Some (MQTTPACKET_BUFFER_TOO_SHORT, [])
     else Some (int (length (frame connect_header (connect_body d))),
                frame connect_header (connect_body d)))"
  using assms connectLength_body [OF assms]
  by (auto simp: MQTTSerialize_connect_def connect_ok_def writeMQTTString_ok frame_def
      connect_body_def connect_proto_def opt_field_def connect_header_def connect_flags_def
      writeChar_def writeCString_def writeInt_append utf_field_def Let_def)

lemma connect_body_short: "connect_ok d \<Longrightarrow> length (connect_body d) < 2 ^ 28"
proof -
  assume ok: "connect_ok d"
  have o: "length (opt_field b (topic_bytes s)) < 65540" if "b \<longrightarrow> string_ok s" for b s
    using that string_ok_short [of s] by (auto simp: opt_field_def)
  have "length (connect_proto d) \<le> 9"
    by (simp add: connect_proto_def ascii_def)
  moreover have "length (topic_bytes (clientID d)) < 65536"
    using ok by (simp add: connect_ok_def string_ok_short)
  moreover have "length (opt_field (willFlag d \<noteq> 0) (topic_bytes (will_topicName (will d)))) < 65540"
    "length (opt_field (willFlag d \<noteq> 0) (topic_bytes (will_message (will d)))) < 65540"
    "length (opt_field (present (username d)) (topic_bytes (username d))) < 65540"
    "length (opt_field (present (password d)) (topic_bytes (password d))) < 65540"
    using ok by (auto simp: connect_ok_def intro!: o)
  ultimately show ?thesis unfolding connect_body_def length_append by simp
qed

text \<open>
  What the server must learn from a connect packet: the session parameters, and the will and the
  credentials when they are there.
\<close>

definition connect_agrees :: "MQTTPacket_connectData \<Rightarrow> MQTTPacket_connectData \<Rightarrow> bool" where
  "connect_agrees d r \<longleftrightarrow>
     cleansession r = cleansession d AND 1 \<and>
     keepAliveInterval r = keepAliveInterval d \<and>
     lenstring_bytes (clientID r) = topic_bytes (clientID d) \<and>
     (willFlag r \<noteq> 0 \<longleftrightarrow> willFlag d \<noteq> 0) \<and>
     (willFlag d \<noteq> 0 \<longrightarrow>
        lenstring_bytes (will_topicName (will r)) = topic_bytes (will_topicName (will d)) \<and>
        lenstring_bytes (will_message (will r)) = topic_bytes (will_message (will d)) \<and>
        will_qos (will r) = will_qos (will d) AND 3 \<and>
        will_retained (will r) = will_retained (will d) AND 1) \<and>
     (present (username d) \<longrightarrow> lenstring_bytes (username r) = topic_bytes (username d)) \<and>
     (present (password d) \<longrightarrow> lenstring_bytes (password r) = topic_bytes (password d))"

text \<open>
  The server reads a user name or a password only when at least three bytes are left for it, and
  a password only after a user name.
\<close>

definition credentials_ok :: "MQTTPacket_connectData \<Rightarrow> bool" where
  "credentials_ok d \<longleftrightarrow>
     (present (username d) \<longrightarrow> topic_bytes (username d) \<noteq> []) \<and>
     (present (password d) \<longrightarrow> topic_bytes (password d) \<noteq> [] \<and> present (username d))"

lemma readMQTTLenString_utf':
  assumes "drop p m = utf_field bs @ r" "length bs < 65536" "p + 2 + length bs \<le> enddata"
  shows "readMQTTLenString s m p enddata =
    Some (1, s\<lparr>lslen := int (length bs), lsdata := Some (bs @ r), cstring := None\<rparr>, p + (2 + length bs))"
  using readMQTTLenString_utf [OF assms] by simp

lemma one_word_if: "ucast (if b then 1 else 0 :: 1 word) = (if b then 1 else (0::byte))"
  by simp

lemma deserialize_connect_frame:
  assumes ok: "connect_ok d" and cred: "credentials_ok d"
    and m: "m = frame connect_header (connect_body d) @ rest"
  shows "\<exists>data'. MQTTDeserialize_connect data m (length (frame connect_header (connect_body d))) =
     Some (1, data') \<and> connect_agrees d data'"
proof -
  let ?b = "connect_body d"
  let ?e = "length (frame connect_header ?b)"
  let ?w = "willFlag d \<noteq> 0" and ?u = "present (username d)" and ?pw = "present (password d)"
  let ?cid = "topic_bytes (clientID d)" and ?un = "topic_bytes (username d)"
    and ?pp = "topic_bytes (password d)" and ?wt = "topic_bytes (will_topicName (will d))"
    and ?wm = "topic_bytes (will_message (will d))"
  let ?name = "if MQTTVersion d = 4 then ascii ''MQTT'' else ascii ''MQIsdp''"
  let ?ver = "if MQTTVersion d = 4 then 4 else (3::byte)"
  note len = connect_body_short [OF ok]
  note op = frame_open [OF len, of connect_header rest, folded m]
  define p0 where "p0 = frame_start ?b"
  define p1 where "p1 = p0 + 2 + length ?name"
  define p2 where "p2 = p1 + 1 + 1 + 2"
  define p3 where "p3 = p2 + (2 + length ?cid)"
  define p4 where "p4 = p3 + (2 + length ?wt)"
  define p5 where "p5 = (if ?w then p4 + (2 + length ?wm) else p3)"
  define p6 where "p6 = p5 + (2 + length ?un)"
  let ?r5 = "opt_field ?u ?un @ opt_field ?pw ?pp @ rest"
  let ?r3 = "opt_field ?w ?wt @ opt_field ?w ?wm @ ?r5"
  have short: "length ?cid < 65536" "?w \<Longrightarrow> length ?wt < 65536" "?w \<Longrightarrow> length ?wm < 65536"
    "length ?un < 65536" "length ?pp < 65536"
    using ok by (auto simp: connect_ok_def string_ok_short)
  have d0: "drop p0 m = utf_field ?name @ ?ver # connect_flags_byte (connect_flags d)
      # int16_bytes (uint (keepAliveInterval d)) @ utf_field ?cid @ ?r3"
    using op(3) by (simp add: p0_def connect_body_def connect_proto_def)
  have d1: "drop p1 m = ?ver # connect_flags_byte (connect_flags d)
      # int16_bytes (uint (keepAliveInterval d)) @ utf_field ?cid @ ?r3"
    using drop_step [OF d0] by (simp add: p1_def)
  have d1': "drop (p1 + 1) m = connect_flags_byte (connect_flags d)
      # int16_bytes (uint (keepAliveInterval d)) @ utf_field ?cid @ ?r3"
    using drop_step [of p1 m "[?ver]"] d1 by simp
  have d1'': "drop (p1 + 1 + 1) m = int16_bytes (uint (keepAliveInterval d)) @ utf_field ?cid @ ?r3"
    using drop_step [of "p1 + 1" m "[connect_flags_byte (connect_flags d)]"] d1' by simp
  have d2: "drop p2 m = utf_field ?cid @ ?r3"
    using drop_step [OF d1''] by (simp add: p2_def)
  have d3: "drop p3 m = ?r3"
    using drop_step [OF d2] by (simp add: p3_def)
  have d3w: "drop p3 m = utf_field ?wt @ utf_field ?wm @ ?r5" if ?w
    using d3 that by (simp add: opt_field_def)
  have d4: "drop p4 m = utf_field ?wm @ ?r5" if ?w
    using drop_step [OF d3w [OF that]] by (simp add: p4_def)
  have d5: "drop p5 m = ?r5"
    using d3 drop_step [OF d4] by (simp add: p5_def opt_field_def)
  have d5u: "drop p5 m = utf_field ?un @ opt_field ?pw ?pp @ rest" if ?u
    using d5 that by (simp add: opt_field_def)
  have d6: "drop p6 m = utf_field ?pp @ rest" if ?u ?pw
    using drop_step [OF d5u [OF that(1)]] that(2) by (simp add: p6_def opt_field_def)
  have e: "?e = p5 + length (opt_field ?u ?un) + length (opt_field ?pw ?pp)"
    by (simp add: length_frame p5_def p4_def p3_def p2_def p1_def p0_def connect_body_def
        connect_proto_def opt_field_def)
  have r0: "readMQTTLenString MQTTString_initializer m p0 ?e =
      Some (1, MQTTString_initializer\<lparr>lslen := int (length ?name),
        lsdata := Some (?name @ drop p1 m), cstring := None\<rparr>, p1)"
    using readMQTTLenString_utf [OF d0, of ?e] d1
    by (simp add: e p5_def p4_def p3_def p2_def p1_def ascii_def)
  have ver: "MQTTPacket_checkVersion (MQTTString_initializer\<lparr>lslen := int (length ?name),
        lsdata := Some (?name @ drop p1 m), cstring := None\<rparr>) (uint ?ver) = Some 1"
    by (simp add: MQTTPacket_checkVersion_def memcmp_eq_def ascii_def)
  have ka: "readInt m (p1 + 1 + 1) = Some (uint (keepAliveInterval d), p2)"
    using readInt_int16 [OF d1''] uint_lt2p [of "keepAliveInterval d"] by (simp add: p2_def)
  have rc: "readMQTTLenString s m p2 ?e =
      Some (1, s\<lparr>lslen := int (length ?cid), lsdata := Some (?cid @ ?r3), cstring := None\<rparr>, p3)" for s
    using readMQTTLenString_utf' [OF d2 short(1), of ?e] by (simp add: e p5_def p4_def p3_def)
  have rwt: "readMQTTLenString s m p3 ?e =
      Some (1, s\<lparr>lslen := int (length ?wt), lsdata := Some (?wt @ utf_field ?wm @ ?r5), cstring := None\<rparr>, p4)"
    if ?w for s
    using readMQTTLenString_utf' [OF d3w [OF that] short(2) [OF that], of ?e] that
    by (simp add: e p5_def p4_def)
  have rwm: "readMQTTLenString s m p4 ?e =
      Some (1, s\<lparr>lslen := int (length ?wm), lsdata := Some (?wm @ ?r5), cstring := None\<rparr>, p5)"
    if ?w for s
    using readMQTTLenString_utf' [OF d4 [OF that] short(3) [OF that], of ?e] that
    by (simp add: e p5_def)
  have ru: "readMQTTLenString s m p5 ?e =
      Some (1, s\<lparr>lslen := int (length ?un), lsdata := Some (?un @ opt_field ?pw ?pp @ rest),
                 cstring := None\<rparr>, p6)" and eu: "\<not> int ?e - int p5 < 3" if ?u for s
    using readMQTTLenString_utf' [OF d5u [OF that] short(4), of ?e] that cred
    by (simp_all add: e p6_def opt_field_def credentials_ok_def length_greater_0_conv [symmetric]
        del: length_greater_0_conv)
  have rp: "readMQTTLenString s m p6 ?e =
      Some (1, s\<lparr>lslen := int (length ?pp), lsdata := Some (?pp @ rest), cstring := None\<rparr>,
        p6 + (2 + length ?pp))" and ep: "\<not> int ?e - int p6 < 3" if ?u ?pw for s
    using readMQTTLenString_utf' [OF d6 [OF that] short(5), of ?e] that cred
    by (simp_all add: e p6_def opt_field_def credentials_ok_def length_greater_0_conv [symmetric]
        del: length_greater_0_conv)
  have start: "readChar m 0 = Some (connect_header, Suc 0)"
    "MQTTPacket_decodeBuf m (Suc 0) = Some (int (length (b128 (length ?b))), int (length ?b))"
    "Suc (length (b128 (length ?b))) = p0"
    "readChar m p1 = Some (?ver, Suc p1)"
    "readChar m (Suc p1) = Some (connect_flags_byte (connect_flags d), Suc (Suc p1))"
    "readInt m (Suc (Suc p1)) = Some (uint (keepAliveInterval d), p2)"
    using op(1,2) readChar_at [OF d1] readChar_at [OF d1'] ka
    by (simp_all add: p0_def frame_start_def)
  have hd: "mtype (header_of_byte connect_header) = msg_code CONNECT"
    by (simp add: connect_header_def)
  have le: "\<not> ?e < p1"
    by (simp add: e p5_def p4_def p3_def p2_def)
  have fl: "f_cleansession (connect_flags d) = ucast (cleansession d)"
    "f_will (connect_flags d) = (if ?w then 1 else 0)"
    "f_willQoS (connect_flags d) = (if ?w then ucast (will_qos (will d)) else 0)"
    "f_willRetain (connect_flags d) = (if ?w then ucast (will_retained (will d)) else 0)"
    "f_password (connect_flags d) = (if ?pw then 1 else 0)"
    "f_username (connect_flags d) = (if ?u then 1 else 0)"
    by (simp_all add: connect_flags_def)
  have pwu: "?pw \<Longrightarrow> ?u" using cred by (simp add: credentials_ok_def)
  have p53: "\<not> ?w \<Longrightarrow> p3 = p5" by (simp add: p5_def)
  note steps = start hd r0 le ver rc fl
  note result = MQTTDeserialize_connect_def Let_def connect_agrees_def lenstring_bytes_def
  consider (both) ?u ?pw | (user) ?u "\<not> ?pw" | (none) "\<not> ?u" "\<not> ?pw"
    using pwu by blast
  then show ?thesis
  proof cases
    case both
    show ?thesis
      by (cases ?w) (simp_all add: result steps rwt rwm p53 both
          ru [OF both(1)] eu [OF both(1)] rp [OF both] ep [OF both])
  next
    case user
    show ?thesis
      by (cases ?w) (simp_all add: result steps rwt rwm p53 user ru [OF user(1)] eu [OF user(1)])
  next
    case none
    show ?thesis
      by (cases ?w) (simp_all add: result steps rwt rwm p53 none)
  qed
qed



section \<open>Connection acknowledgements\<close>

lemma serialize_connack_frame:
  "2 \<le> buflen \<Longrightarrow> MQTTSerialize_connack buflen crc sp =
     (4, frame (header_byte \<lparr>retain = 0, qos = 0, dup = 0, mtype = msg_code CONNACK\<rparr>)
               [connack_flags_byte (ucast sp), crc])"
  using encode_int [of 2]
  by (simp add: MQTTSerialize_connack_def frame_def writeChar_def Let_def b128_small)

lemma deserialize_connack_frame:
  fixes h :: byte
  assumes "mtype (header_of_byte h) = msg_code CONNACK"
  shows "MQTTDeserialize_connack (frame h [f, crc] @ rest) =
     Some (1, \<lparr>c_sessionPresent = Some (ucast (connack_sessionpresent f)), c_connack_rc = Some crc\<rparr>)"
proof -
  have len: "length [f, crc] < 2 ^ 28" by simp
  note op = frame_open [OF len, of h rest]
  have "drop (frame_start [f, crc]) (frame h [f, crc] @ rest) = f # crc # rest"
    "drop (frame_start [f, crc] + 1) (frame h [f, crc] @ rest) = crc # rest"
    using op(3) drop_step [of "frame_start [f, crc]" "frame h [f, crc] @ rest" "[f]" "crc # rest"] by simp_all
  from readChar_at [OF this(1)] readChar_at [OF this(2)] op(1,2) assms show ?thesis
    by (simp add: MQTTDeserialize_connack_def Let_def frame_start_def)
qed

text \<open>
  The acknowledgement of a connection a server serializes is read back by the client with
  the same return code and session flag.
\<close>

theorem connack_roundtrip:
  assumes "4 \<le> buflen"
  shows "\<exists>bytes. MQTTSerialize_connack buflen crc sp = (4, bytes) \<and> length bytes = 4 \<and>
    MQTTDeserialize_connack (bytes @ rest) =
      Some (1, \<lparr>c_sessionPresent = Some (sp AND 1), c_connack_rc = Some crc\<rparr>)"
  using assms
  by (simp add: serialize_connack_frame deserialize_connack_frame length_frame frame_start_def b128_small)

theorem connack_roundtrip_witness:
  "\<exists>bytes. MQTTSerialize_connack 4 5 1 = (4, bytes) \<and> length bytes = 4 \<and>
    MQTTDeserialize_connack (bytes @ []) =
      Some (1, \<lparr>c_sessionPresent = Some (1 AND 1), c_connack_rc = Some 5\<rparr>)"
  by (rule connack_roundtrip) simp

end
