(* ===== verification/Mqtt_Subscribe.thy ===== *)
theory Mqtt_Subscribe
  imports Mqtt_Publish
begin

text \<open>
  Subscriptions: \<^verbatim>\<open>burba/sys/paho/MQTTSubscribeClient.c\<close>, \<^verbatim>\<open>MQTTSubscribeServer.c\<close>,
  \<^verbatim>\<open>MQTTUnsubscribeClient.c\<close> and \<^verbatim>\<open>MQTTUnsubscribeServer.c\<close>. An array parameter together with
  its \<open>count\<close> is a list. The arrays that the servers fill are lists of the length the caller gave them, of
  which an element is stored at the index \<open>count\<close>; a store behind the end is \<^term>\<open>None\<close>. The quality
  of service values of a SUBACK, whose array is checked (\<open>suback_fills_one_too_many\<close> in
  \<^verbatim>\<open>Mqtt_Faults\<close>), are the list of those stored so far. The loops over \<open>curdata < enddata\<close> recurse on the
  distance to \<open>enddata\<close>.
\<close>

section \<open>Subscribing\<close>

definition MQTTSerialize_subscribeLength :: "MQTTString list \<Rightarrow> int" where
  "MQTTSerialize_subscribeLength topicFilters =
     foldl (\<lambda>len t. len + (2 + MQTTstrlen t + 1)) 2 topicFilters"

fun write_filters :: "byte list \<Rightarrow> (MQTTString \<times> int) list \<Rightarrow> byte list option" where
  "write_filters p [] = Some p"
| "write_filters p ((t, q) # rest) =
     do { p' \<leftarrow> writeMQTTString p t; write_filters (writeChar p' (word_of_int q)) rest }"

definition MQTTSerialize_subscribe ::
  "int \<Rightarrow> byte \<Rightarrow> u16 \<Rightarrow> (MQTTString \<times> int) list \<Rightarrow> (int \<times> byte list) option" where
  "MQTTSerialize_subscribe buflen d packetid filters =
     (let rem = MQTTSerialize_subscribeLength (map fst filters)
      in if MQTTPacket_len rem > buflen then Some (MQTTPACKET_BUFFER_TOO_SHORT, [])
         else do {
           let header = \<lparr>retain = 0, qos = 1, dup = ucast d, mtype = msg_code SUBSCRIBE\<rparr>;
           let p = writeChar [] (header_byte header);
           let p = p @ MQTTPacket_encode rem;
           let p = writeInt p (uint packetid);
           p \<leftarrow> write_filters p filters;
           Some (int (length p), p)
         })"

text \<open>The loop stops with -1 when \<open>count > maxcount\<close> before a store; the result is \<open>rc\<close>.\<close>

function suback_loop ::
  "byte list \<Rightarrow> nat \<Rightarrow> nat \<Rightarrow> int \<Rightarrow> int list \<Rightarrow> (int \<times> int list) option" where
  "suback_loop buf cur enddata maxcount granted =
     (if cur < enddata
      then if int (length granted) > maxcount then Some (-1, granted)
           else (case rd buf cur of None \<Rightarrow> None
                 | Some c \<Rightarrow> suback_loop buf (cur + 1) enddata maxcount (granted @ [uint c]))
      else Some (1, granted))"
  by pat_completeness auto
termination
  by (relation "measure (\<lambda>(b, cur, e, m, g). e - cur)") auto

declare suback_loop.simps [simp del]

record suback_out =
  s_packetid :: "u16 option"
  s_granted :: "int list"

definition MQTTDeserialize_suback :: "int \<Rightarrow> byte list \<Rightarrow> (int \<times> suback_out) option" where
  "MQTTDeserialize_suback maxcount buf =
     do {
       (b, cur) \<leftarrow> readChar buf 0;
       let out = \<lparr>s_packetid = None, s_granted = []\<rparr>;
       if mtype (header_of_byte b) \<noteq> msg_code SUBACK then Some (0, out)
       else do {
         (rc, mylen) \<leftarrow> MQTTPacket_decodeBuf buf cur;
         let cur = cur + nat rc;
         let enddata = cur + nat mylen;
         if int enddata - int cur < 2 then Some (rc, out)
         else do {
           (pid, cur) \<leftarrow> readInt buf cur;
           (rc, g) \<leftarrow> suback_loop buf cur enddata maxcount [];
           Some (rc, out\<lparr>s_packetid := Some (word_of_int pid), s_granted := g\<rparr>)
         }
       }
     }"

text \<open>
  The server's loop over the caller's arrays \<open>tf\<close> (\<open>topicFilters\<close>) and \<open>qs\<close> (\<open>requestedQoSs\<close>); an early
  exit returns \<open>rc0\<close>, the number of length bytes.
\<close>

lemma readMQTTLenString_mono:
  "readMQTTLenString s m p e = Some (ok, s', p') \<Longrightarrow> p \<le> p' \<and> (ok \<noteq> 0 \<longrightarrow> p + 2 \<le> p' \<and> p' \<le> e)"
  by (auto simp: readMQTTLenString_def readInt_def Let_def bind_eq_Some_conv split: if_splits)

function subscribe_loop ::
  "byte list \<Rightarrow> nat \<Rightarrow> nat \<Rightarrow> int \<Rightarrow> MQTTString list \<Rightarrow> int list \<Rightarrow> nat
     \<Rightarrow> (int \<times> MQTTString list \<times> int list \<times> nat) option" where
  "subscribe_loop buf cur enddata rc0 tf qs count =
     (if cur < enddata
      then (case Option.bind (rd tf count) (\<lambda>t. readMQTTLenString t buf cur enddata) of
          None \<Rightarrow> None
        | Some (ok, t, cur') \<Rightarrow>
            if ok = 0 then Some (rc0, tf[count := t], qs, count)
            else if cur' \<ge> enddata then Some (rc0, tf[count := t], qs, count)
            else (case Option.bind (rd buf cur') (\<lambda>c. wr qs count (uint c)) of None \<Rightarrow> None
                  | Some qs \<Rightarrow> subscribe_loop buf (cur' + 1) enddata rc0 (tf[count := t]) qs (count + 1)))
      else Some (1, tf, qs, count))"
  by pat_completeness auto
termination
  by (relation "measure (\<lambda>(b, cur, e, r, tf, qs, count). e - cur)")
     (auto simp: bind_eq_Some_conv dest!: readMQTTLenString_mono)

declare subscribe_loop.simps [simp del]

record subscribe_out =
  u_dup :: "byte option"
  u_packetid :: "u16 option"
  u_count :: "nat option"
  u_topicFilters :: "MQTTString list"
  u_requestedQoSs :: "int list"

text \<open>\<open>maxcount\<close>, which is the length of the arrays according to its comment, is not used.\<close>

definition MQTTDeserialize_subscribe ::
  "int \<Rightarrow> MQTTString list \<Rightarrow> int list \<Rightarrow> byte list \<Rightarrow> (int \<times> subscribe_out) option" where
  "MQTTDeserialize_subscribe maxcount topicFilters requestedQoSs buf =
     do {
       (b, cur) \<leftarrow> readChar buf 0;
       let out = \<lparr>u_dup = None, u_packetid = None, u_count = None, u_topicFilters = topicFilters, u_requestedQoSs = requestedQoSs\<rparr>;
       if mtype (header_of_byte b) \<noteq> msg_code SUBSCRIBE then Some (-1, out)
       else do {
         let out = out\<lparr>u_dup := Some (ucast (dup (header_of_byte b)))\<rparr>;
         (rc, mylen) \<leftarrow> MQTTPacket_decodeBuf buf cur;
         let cur = cur + nat rc;
         let enddata = cur + nat mylen;
         (pid, cur) \<leftarrow> readInt buf cur;
         let out = out\<lparr>u_packetid := Some (word_of_int pid)\<rparr>;
         (rc, tf, qs, count) \<leftarrow> subscribe_loop buf cur enddata rc topicFilters requestedQoSs 0;
         Some (rc, out\<lparr>u_count := Some count, u_topicFilters := tf, u_requestedQoSs := qs\<rparr>)
       }
     }"

definition MQTTSerialize_suback :: "int \<Rightarrow> u16 \<Rightarrow> int list \<Rightarrow> int \<times> byte list" where
  "MQTTSerialize_suback buflen packetid grantedQoSs =
     (let count = int (length grantedQoSs)
      in if buflen < 2 + count then (MQTTPACKET_BUFFER_TOO_SHORT, [])
         else (let header = \<lparr>retain = 0, qos = 0, dup = 0, mtype = msg_code SUBACK\<rparr>;
                   p = writeChar [] (header_byte header);
                   p = p @ MQTTPacket_encode (2 + count);
                   p = writeInt p (uint packetid);
                   p = foldl (\<lambda>p q. writeChar p (word_of_int q)) p grantedQoSs
               in (int (length p), p)))"

section \<open>Unsubscribing\<close>

definition MQTTSerialize_unsubscribeLength :: "MQTTString list \<Rightarrow> int" where
  "MQTTSerialize_unsubscribeLength topicFilters =
     foldl (\<lambda>len t. len + (2 + MQTTstrlen t)) 2 topicFilters"

fun write_topics :: "byte list \<Rightarrow> MQTTString list \<Rightarrow> byte list option" where
  "write_topics p [] = Some p"
| "write_topics p (t # rest) = do { p' \<leftarrow> writeMQTTString p t; write_topics p' rest }"

definition MQTTSerialize_unsubscribe ::
  "int \<Rightarrow> byte \<Rightarrow> u16 \<Rightarrow> MQTTString list \<Rightarrow> (int \<times> byte list) option" where
  "MQTTSerialize_unsubscribe buflen d packetid topics =
     (let rem = MQTTSerialize_unsubscribeLength topics
      in if MQTTPacket_len rem > buflen then Some (MQTTPACKET_BUFFER_TOO_SHORT, [])
         else do {
           let header = \<lparr>retain = 0, qos = 1, dup = ucast d, mtype = msg_code UNSUBSCRIBE\<rparr>;
           let p = writeChar [] (header_byte header);
           let p = p @ MQTTPacket_encode rem;
           let p = writeInt p (uint packetid);
           p \<leftarrow> write_topics p topics;
           Some (int (length p), p)
         })"

definition MQTTDeserialize_unsuback :: "byte list \<Rightarrow> (int \<times> u16 option) option" where
  "MQTTDeserialize_unsuback buf =
     do {
       (rc, out) \<leftarrow> MQTTDeserialize_ack buf;
       Some (if a_type out = Some (ucast (msg_code UNSUBACK)) then 1 else rc, a_packetid out)
     }"

function unsubscribe_loop ::
  "byte list \<Rightarrow> nat \<Rightarrow> nat \<Rightarrow> int \<Rightarrow> MQTTString list \<Rightarrow> nat \<Rightarrow> (int \<times> MQTTString list \<times> nat) option" where
  "unsubscribe_loop buf cur enddata rc0 tf count =
     (if cur < enddata
      then (case Option.bind (rd tf count) (\<lambda>t. readMQTTLenString t buf cur enddata) of
          None \<Rightarrow> None
        | Some (ok, t, cur') \<Rightarrow>
            if ok = 0 then Some (rc0, tf[count := t], count)
            else unsubscribe_loop buf cur' enddata rc0 (tf[count := t]) (count + 1))
      else Some (1, tf, count))"
  by pat_completeness auto
termination
  by (relation "measure (\<lambda>(b, cur, e, r, tf, count). e - cur)")
     (auto simp: bind_eq_Some_conv dest!: readMQTTLenString_mono)

declare unsubscribe_loop.simps [simp del]

record unsubscribe_out =
  n_dup :: "byte option"
  n_packetid :: "u16 option"
  n_count :: "nat option"
  n_topicFilters :: "MQTTString list"

definition MQTTDeserialize_unsubscribe ::
  "int \<Rightarrow> MQTTString list \<Rightarrow> byte list \<Rightarrow> (int \<times> unsubscribe_out) option" where
  "MQTTDeserialize_unsubscribe maxcount topicFilters buf =
     do {
       (b, cur) \<leftarrow> readChar buf 0;
       let out = \<lparr>n_dup = None, n_packetid = None, n_count = None, n_topicFilters = topicFilters\<rparr>;
       if mtype (header_of_byte b) \<noteq> msg_code UNSUBSCRIBE then Some (0, out)
       else do {
         let out = out\<lparr>n_dup := Some (ucast (dup (header_of_byte b)))\<rparr>;
         (rc, mylen) \<leftarrow> MQTTPacket_decodeBuf buf cur;
         let cur = cur + nat rc;
         let enddata = cur + nat mylen;
         (pid, cur) \<leftarrow> readInt buf cur;
         let out = out\<lparr>n_packetid := Some (word_of_int pid)\<rparr>;
         (rc, tf, count) \<leftarrow> unsubscribe_loop buf cur enddata rc topicFilters 0;
         Some (rc, out\<lparr>n_count := Some count, n_topicFilters := tf\<rparr>)
       }
     }"

definition MQTTSerialize_unsuback :: "int \<Rightarrow> u16 \<Rightarrow> int \<times> byte list" where
  "MQTTSerialize_unsuback buflen packetid =
     (if buflen < 2 then (MQTTPACKET_BUFFER_TOO_SHORT, [])
      else (let header = \<lparr>retain = 0, qos = 0, dup = 0, mtype = msg_code UNSUBACK\<rparr>;
                p = writeChar [] (header_byte header);
                p = p @ MQTTPacket_encode 2;
                p = writeInt p (uint packetid)
            in (int (length p), p)))"

section \<open>The subscribe packet\<close>

definition filter_field :: "MQTTString \<times> int \<Rightarrow> byte list" where
  "filter_field f = utf_field (topic_bytes (fst f)) @ [word_of_int (snd f)]"

definition subscribe_body :: "u16 \<Rightarrow> (MQTTString \<times> int) list \<Rightarrow> byte list" where
  "subscribe_body pid filters = int16_bytes (uint pid) @ concat (map filter_field filters)"

definition subscribe_header :: "msgTypes \<Rightarrow> byte \<Rightarrow> byte" where
  "subscribe_header ty d = header_byte \<lparr>retain = 0, qos = 1, dup = ucast d, mtype = msg_code ty\<rparr>"

lemma subscribe_header_fields [simp]:
  "mtype (header_of_byte (subscribe_header ty d)) = msg_code ty"
  "dup (header_of_byte (subscribe_header ty d)) = ucast d"
  by (simp_all add: subscribe_header_def)

definition filters_ok :: "(MQTTString \<times> int) list \<Rightarrow> bool" where
  "filters_ok fs \<longleftrightarrow> (\<forall>f \<in> set fs. string_ok (fst f) \<and> 0 \<le> snd f \<and> snd f < 256)"

lemma foldl_filters:
  "\<forall>f \<in> set fs. string_ok (fst f) \<Longrightarrow>
     foldl (\<lambda>len t. len + (3 + MQTTstrlen t)) n (map fst fs) = n + int (length (concat (map filter_field fs)))"
  by (induction fs arbitrary: n) (simp_all add: filter_field_def string_ok_len)

lemma subscribeLength_body:
  "filters_ok fs \<Longrightarrow> MQTTSerialize_subscribeLength (map fst fs) = int (length (subscribe_body pid fs))"
  by (simp add: MQTTSerialize_subscribeLength_def subscribe_body_def foldl_filters filters_ok_def)

lemma write_filters_ok:
  "\<forall>f \<in> set fs. string_ok (fst f) \<Longrightarrow> write_filters p fs = Some (p @ concat (map filter_field fs))"
  by (induction fs arbitrary: p)
     (auto simp: writeMQTTString_ok filter_field_def writeChar_def)

lemma serialize_subscribe_frame:
  assumes "filters_ok fs"
  shows "MQTTSerialize_subscribe buflen d pid fs =
    (if MQTTPacket_len (int (length (subscribe_body pid fs))) > buflen
     then Some (MQTTPACKET_BUFFER_TOO_SHORT, [])
     else Some (int (length (frame (subscribe_header SUBSCRIBE d) (subscribe_body pid fs))),
                frame (subscribe_header SUBSCRIBE d) (subscribe_body pid fs)))"
  using assms subscribeLength_body [OF assms, of pid]
  by (simp add: MQTTSerialize_subscribe_def write_filters_ok filters_ok_def frame_def Let_def
      subscribe_body_def subscribe_header_def writeChar_def writeInt_append)

lemma length_filter_field: "string_ok (fst f) \<Longrightarrow> length (filter_field f) \<le> 65538"
  using string_ok_short [of "fst f"] by (simp add: filter_field_def)

lemma length_concat_le: "\<forall>x \<in> set xs. length (f x) \<le> k \<Longrightarrow> length (concat (map f xs)) \<le> k * length xs"
  by (induction xs) auto

lemma subscribe_body_short:
  assumes "filters_ok fs" "length fs < 4096"
  shows "length (subscribe_body pid fs) < 2 ^ 28"
proof -
  have "length (concat (map filter_field fs)) \<le> 65538 * length fs"
    using assms(1) by (intro length_concat_le) (simp add: filters_ok_def length_filter_field)
  with assms(2) show ?thesis by (simp add: subscribe_body_def)
qed

text \<open>One round of the server's loop: an entry is stored when the arrays have room for it, and it writes behind them otherwise.\<close>

lemma subscribe_loop_one:
  assumes "drop cur m = filter_field (t, q) @ later" "string_ok t" "0 \<le> q" "q < 256"
    and "cur + length (filter_field (t, q)) \<le> enddata"
  shows "\<exists>t'. lenstring_bytes t' = topic_bytes t \<and> subscribe_loop m cur enddata rc0 tf qs count =
    (if count < length tf \<and> count < length qs
     then subscribe_loop m (cur + length (filter_field (t, q))) enddata rc0 (tf[count := t']) (qs[count := q]) (count + 1) else None)"
proof -
  let ?bs = "topic_bytes t"
  have d1: "drop cur m = utf_field ?bs @ word_of_int q # later" using assms(1) by (simp add: filter_field_def)
  let ?p = "cur + 2 + length ?bs"
  define t' where "t' = (tf ! count)\<lparr>lslen := int (length ?bs), lsdata := Some (?bs @ word_of_int q # later), cstring := None\<rparr>"
  have stop: "cur + length (filter_field (t, q)) = ?p + 1" by (simp add: filter_field_def)
  have rd1: "readMQTTLenString (tf ! count) m cur enddata = Some (1, t', ?p)"
    unfolding t'_def using d1 assms(2,5) stop by (intro readMQTTLenString_utf) (simp_all add: string_ok_short)
  have d2: "drop ?p m = word_of_int q # later" using drop_step [OF d1] by simp
  have rd2: "rd m ?p = Some (word_of_int q)" using rd_drop [of m ?p 0] d2 by simp
  have "uint (word_of_int q :: byte) = q" using assms(3,4) by (simp add: uint_word_of_int)
  moreover have "cur < enddata" "\<not> enddata \<le> ?p" using assms(5) stop by simp_all
  moreover have "lenstring_bytes t' = ?bs" by (simp add: t'_def lenstring_bytes_def)
  ultimately show ?thesis
    unfolding stop using rd1 rd2
    by (intro exI [of _ t'], subst subscribe_loop.simps) (auto simp: rd_def wr_def split: if_splits)
qed

text \<open>The whole loop: every filter and its quality of service is stored, or the first that has no room is written behind an array.\<close>

lemma subscribe_loop_filters:
  assumes "drop cur m = concat (map filter_field fs) @ r" "filters_ok fs"
    and "enddata = cur + length (concat (map filter_field fs))"
  shows "if count + length fs \<le> min (length tf) (length qs) \<or> fs = []
    then \<exists>got. length got = length fs \<and> map lenstring_bytes got = map (topic_bytes \<circ> fst) fs \<and>
      subscribe_loop m cur enddata rc0 tf qs count = Some (1, take count tf @ got @ drop (count + length fs) tf,
        take count qs @ map snd fs @ drop (count + length fs) qs, count + length fs)
    else subscribe_loop m cur enddata rc0 tf qs count = None"
  using assms
proof (induction fs arbitrary: cur tf qs count)
  case Nil
  then show ?case by (subst subscribe_loop.simps) simp
next
  case (Cons f fs)
  obtain t q where f: "f = (t, q)" by (cases f)
  have ok: "string_ok t" "0 \<le> q" "q < 256" "filters_ok fs"
    using Cons.prems(2) by (simp_all add: filters_ok_def f)
  let ?more = "concat (map filter_field fs) @ r"
  have d: "drop cur m = filter_field (t, q) @ ?more" using Cons.prems(1) f by simp
  have e: "cur + length (filter_field (t, q)) \<le> enddata" using Cons.prems(3) f by simp
  from subscribe_loop_one [OF d ok(1-3) e, of rc0 tf qs count] obtain t' where
    t': "lenstring_bytes t' = topic_bytes t" and step: "subscribe_loop m cur enddata rc0 tf qs count =
    (if count < length tf \<and> count < length qs
     then subscribe_loop m (cur + length (filter_field (t, q))) enddata rc0 (tf[count := t']) (qs[count := q]) (count + 1) else None)"
    by blast
  have d2: "drop (cur + length (filter_field (t, q))) m = ?more" using drop_step [OF d] by simp
  have e2: "enddata = cur + length (filter_field (t, q)) + length (concat (map filter_field fs))" using Cons.prems(3) f by simp
  have kept: "drop (count + 1 + length fs) (tf[count := t']) = drop (count + 1 + length fs) tf"
    "drop (count + 1 + length fs) (qs[count := q]) = drop (count + 1 + length fs) qs" by simp_all
  have IH: "if count + 1 + length fs \<le> min (length tf) (length qs) \<or> fs = []
    then \<exists>got. length got = length fs \<and> map lenstring_bytes got = map (topic_bytes \<circ> fst) fs \<and>
      subscribe_loop m (cur + length (filter_field (t, q))) enddata rc0 (tf[count := t']) (qs[count := q]) (count + 1) =
        Some (1, take (count + 1) (tf[count := t']) @ got @ drop (count + 1 + length fs) tf,
          take (count + 1) (qs[count := q]) @ map snd fs @ drop (count + 1 + length fs) qs, count + 1 + length fs)
    else subscribe_loop m (cur + length (filter_field (t, q))) enddata rc0 (tf[count := t']) (qs[count := q]) (count + 1) = None"
    using Cons.IH [OF d2 ok(4) e2, of "count + 1" "tf[count := t']" "qs[count := q]"] unfolding kept length_list_update .
  show ?case
  proof (cases "count < length tf \<and> count < length qs")
    case False
    then show ?thesis using step by auto
  next
    case True
    then have upd: "take (count + 1) (tf[count := t']) = take count tf @ [t']" "take (count + 1) (qs[count := q]) = take count qs @ [q]"
      by (simp_all add: take_Suc_conv_app_nth)
    show ?thesis
    proof (cases "count + length (f # fs) \<le> min (length tf) (length qs)")
      case fits: True
      then obtain got where "length got = length fs" "map lenstring_bytes got = map (topic_bytes \<circ> fst) fs"
        "subscribe_loop m (cur + length (filter_field (t, q))) enddata rc0 (tf[count := t']) (qs[count := q]) (count + 1) =
          Some (1, (take count tf @ [t']) @ got @ drop (count + 1 + length fs) tf,
            (take count qs @ [q]) @ map snd fs @ drop (count + 1 + length fs) qs, count + 1 + length fs)"
        using IH unfolding upd by (auto split: if_splits)
      then show ?thesis using fits step True t' f by (intro iffD2 [OF if_P]) (auto intro!: exI [of _ "t' # got"])
    next
      case overrun: False
      with True have "fs \<noteq> []" by (cases fs) auto
      with overrun IH have "subscribe_loop m (cur + length (filter_field (t, q))) enddata rc0 (tf[count := t']) (qs[count := q]) (count + 1) = None"
        by (auto split: if_splits)
      then show ?thesis using overrun step True by auto
    qed
  qed
qed

text \<open>
  C25: A subscribe packet with fewer than 4096 filters fits the buffer the client gives it. A server whose
  two arrays have room for its filters deserializes it to the same packet identifier and the same list of
  topic filters with their requested QoS, and leaves the rest of the arrays alone; a server with a smaller
  array writes behind it, whatever \<open>maxcount\<close> it passes.
\<close>

theorem subscribe_roundtrip:
  assumes ok: "filters_ok fs" and n: "length fs < 4096"
    and ser: "MQTTSerialize_subscribe buflen d pid fs = Some (rc, bytes)" "0 < rc"
  shows "rc = int (length bytes) \<and> rc \<le> buflen \<and>
    (if length fs \<le> length tf \<and> length fs \<le> length qs
     then \<exists>out. MQTTDeserialize_subscribe maxcount tf qs (bytes @ rest) = Some (1, out) \<and>
       u_dup out = Some (d AND 1) \<and> u_packetid out = Some pid \<and> u_count out = Some (length fs) \<and>
       map lenstring_bytes (take (length fs) (u_topicFilters out)) = map (topic_bytes \<circ> fst) fs \<and>
       drop (length fs) (u_topicFilters out) = drop (length fs) tf \<and>
       u_requestedQoSs out = map snd fs @ drop (length fs) qs
     else MQTTDeserialize_subscribe maxcount tf qs (bytes @ rest) = None)"
proof -
  let ?h = "subscribe_header SUBSCRIBE d" and ?b = "subscribe_body pid fs"
  from ser have b: "bytes = frame ?h ?b" "rc = int (length bytes)"
    and fits: "MQTTPacket_len (int (length ?b)) \<le> buflen"
    by (auto simp: serialize_subscribe_frame [OF ok] MQTTPACKET_BUFFER_TOO_SHORT_def split: if_splits)
  have len: "length ?b < 2 ^ 28" using ok n by (rule subscribe_body_short)
  define m where "m = frame ?h ?b @ rest"
  note op = frame_open [OF len, of ?h rest, folded m_def]
  let ?s = "frame_start ?b" and ?rc0 = "int (length (b128 (length ?b)))"
  have d1: "drop ?s m = int16_bytes (uint pid) @ concat (map filter_field fs) @ rest"
    using op(3) by (simp add: subscribe_body_def)
  have d2: "drop (?s + 2) m = concat (map filter_field fs) @ rest" using drop_step [OF d1] by simp
  have pid: "readInt m ?s = Some (uint pid, ?s + 2)"
    using readInt_int16 [OF d1] uint_lt2p [of pid] by simp
  have e: "?s + length ?b = ?s + 2 + length (concat (map filter_field fs))"
    by (simp add: subscribe_body_def)
  have run: "MQTTDeserialize_subscribe maxcount tf qs m =
      map_option (\<lambda>(rc, tf, qs, count). (rc, \<lparr>u_dup = Some (d AND 1), u_packetid = Some pid, u_count = Some count,
        u_topicFilters = tf, u_requestedQoSs = qs\<rparr>)) (subscribe_loop m (?s + 2) (?s + length ?b) ?rc0 tf qs 0)"
    using op(1,2) pid
    by (simp add: MQTTDeserialize_subscribe_def Let_def frame_start_def map_option_case split: option.split bind_splits)
  have "if length fs \<le> length tf \<and> length fs \<le> length qs
    then \<exists>got. length got = length fs \<and> map lenstring_bytes got = map (topic_bytes \<circ> fst) fs \<and>
      subscribe_loop m (?s + 2) (?s + length ?b) ?rc0 tf qs 0 = Some (1, got @ drop (length fs) tf, map snd fs @ drop (length fs) qs, length fs)
    else subscribe_loop m (?s + 2) (?s + length ?b) ?rc0 tf qs 0 = None"
    using subscribe_loop_filters [OF d2 ok e, of 0 tf qs ?rc0] by (auto split: if_splits)
  then have "if length fs \<le> length tf \<and> length fs \<le> length qs
     then \<exists>out. MQTTDeserialize_subscribe maxcount tf qs m = Some (1, out) \<and>
       u_dup out = Some (d AND 1) \<and> u_packetid out = Some pid \<and> u_count out = Some (length fs) \<and>
       map lenstring_bytes (take (length fs) (u_topicFilters out)) = map (topic_bytes \<circ> fst) fs \<and>
       drop (length fs) (u_topicFilters out) = drop (length fs) tf \<and>
       u_requestedQoSs out = map snd fs @ drop (length fs) qs
     else MQTTDeserialize_subscribe maxcount tf qs m = None"
    unfolding run by (auto split: if_splits)
  with b fits length_frame_le [OF len, of ?h] show ?thesis unfolding m_def by simp
qed

theorem subscribe_roundtrip_witness:
  "\<exists>out. MQTTDeserialize_subscribe 5 [MQTTString_initializer] [0] ([0x82, 6, 0, 1, 0, 1, 97, 1] @ []) = Some (1, out) \<and>
     u_packetid out = Some 1 \<and> u_requestedQoSs out = [1] \<and>
     MQTTDeserialize_subscribe 5 [] [] ([0x82, 6, 0, 1, 0, 1, 97, 1] @ []) = None"
proof -
  let ?fs = "[(MQTTString_initializer\<lparr>cstring := Some [97]\<rparr>, 1)]"
  have ser: "MQTTSerialize_subscribe 256 0 1 ?fs = Some (8, [0x82, 6, 0, 1, 0, 1, 97, 1])"
    by (simp add: MQTTSerialize_subscribe_def MQTTSerialize_subscribeLength_def mqtt_eval)
  have ok: "filters_ok ?fs" by (simp add: filters_ok_def string_ok_def MQTTString_initializer_def)
  show ?thesis
    using subscribe_roundtrip [OF ok _ ser, where tf = "[MQTTString_initializer]" and qs = "[0]" and maxcount = 5 and rest = "[]"]
      subscribe_roundtrip [OF ok _ ser, where tf = "[]" and qs = "[]" and maxcount = 5 and rest = "[]"] by auto
qed

end
