(* ===== verification/Mqtt_Faults.thy ===== *)
theory Mqtt_Faults
  imports Mqtt_Connect Mqtt_Subscribe
begin

text \<open>
  What the packet code does on packets and buffers it does not expect: short bodies that are
  reported as success, acknowledgements that overrun the buffer they were checked against, arrays
  filled beyond their declared size, and the limits of the two packet readers.
\<close>

section \<open>Short bodies\<close>

lemma decodeBuf_short:
  "length body < 128 \<Longrightarrow> MQTTPacket_decodeBuf (frame h body @ rest) 1 = Some (1, int (length body))"
  using frame_open(2) [of body h rest] by (simp add: b128_small)

lemma readChar_frame: "readChar (frame h body @ rest) 0 = Some (h, 1)"
  by (simp add: readChar_def frame_def)

text \<open>
  An acknowledgement whose body is shorter than the two bytes it must have is reported as
  success (the result is 1, the number of length bytes) although no result has been assigned: the
  CONNACK return code, the SUBACK and PUBACK packet identifiers are whatever the caller's memory
  held.
\<close>

theorem short_ack_reported_as_success:
  assumes "length body < 2"
  shows "(mtype (header_of_byte h) = msg_code CONNACK \<longrightarrow>
           MQTTDeserialize_connack (frame h body @ rest) =
             Some (1, \<lparr>c_sessionPresent = None, c_connack_rc = None\<rparr>)) \<and>
         (mtype (header_of_byte h) = msg_code SUBACK \<longrightarrow>
           MQTTDeserialize_suback maxcount (frame h body @ rest) =
             Some (1, \<lparr>s_packetid = None, s_granted = []\<rparr>)) \<and>
         (\<exists>out. MQTTDeserialize_ack (frame h body @ rest) = Some (1, out) \<and> a_packetid out = None)"
proof -
  have "length body < 128" using assms by simp
  note op = readChar_frame [of h body rest] decodeBuf_short [OF this, of h rest]
  with assms show ?thesis
    by (simp add: MQTTDeserialize_connack_def MQTTDeserialize_suback_def MQTTDeserialize_ack_def Let_def)
qed

theorem short_ack_reported_as_success_witness:
  "MQTTDeserialize_connack (frame 0x20 [] @ []) =
     Some (1, \<lparr>c_sessionPresent = None, c_connack_rc = None\<rparr>)"
proof -
  have "mtype (header_of_byte 0x20) = msg_code CONNACK" by (simp add: header_of_byte_def)
  then show ?thesis using short_ack_reported_as_success [where body = "[]" and rest = "[]" and h = "0x20"] by simp
qed

section \<open>Overrun buffers\<close>

lemma foldl_snoc: "foldl (\<lambda>p q. p @ [f q]) p qs = p @ map f qs"
  by (induction qs arbitrary: p) simp_all

text \<open>
  The three acknowledgements a server sends check for two bytes less than they write: in a
  buffer of 2 or 3 bytes CONNACK and UNSUBACK write 4, and SUBACK with \<open>n\<close> results, checked
  against \<open>2 + n\<close>, writes \<open>4 + n\<close>.
\<close>

theorem server_acks_overrun:
  assumes "buflen = 2 \<or> buflen = 3" "length granted < 126"
  shows "buflen < fst (MQTTSerialize_connack buflen crc sp) \<and>
         buflen < fst (MQTTSerialize_unsuback buflen pid) \<and>
         buflen + int (length granted) < fst (MQTTSerialize_suback (buflen + int (length granted)) pid granted)"
proof -
  have "2 + int (length granted) = int (2 + length granted)" by simp
  then have e: "MQTTPacket_encode (2 + int (length granted)) = [of_nat (2 + length granted)]"
    using assms(2) by (simp only: encode_int) (simp add: b128_small)
  have "fst (MQTTSerialize_suback (buflen + int (length granted)) pid granted) = 4 + int (length granted)"
    using assms(1) by (auto simp: MQTTSerialize_suback_def Let_def e foldl_snoc writeChar_def writeInt_append)
  moreover have "fst (MQTTSerialize_connack buflen crc sp) = 4" "fst (MQTTSerialize_unsuback buflen pid) = 4"
    using assms(1) encode_int [of 2]
    by (auto simp: MQTTSerialize_connack_def MQTTSerialize_unsuback_def Let_def b128_small
        writeChar_def writeInt_append)
  ultimately show ?thesis using assms(1) by auto
qed

theorem server_acks_overrun_witness:
  "(2::int) < fst (MQTTSerialize_connack 2 0 0)"
  using server_acks_overrun [of 2 "[]" 0 0 0] by simp

section \<open>Arrays filled beyond their size\<close>

lemma suback_loop_all:
  assumes "drop cur m = bs @ r" "int (length acc) + int (length bs) \<le> maxcount + 1"
  shows "suback_loop m cur (cur + length bs) maxcount acc = Some (1, acc @ map uint bs)"
  using assms
proof (induction bs arbitrary: cur acc)
  case Nil
  then show ?case by (subst suback_loop.simps) simp
next
  case (Cons b bs)
  then have "rd m cur = Some b" "drop (cur + 1) m = bs @ r"
    using rd_drop [of m cur 0] drop_step [of cur m "[b]"] by simp_all
  with Cons.IH [of "cur + 1" "acc @ [uint b]"] Cons.prems show ?case
    by (subst suback_loop.simps) simp
qed

text \<open>
  A SUBACK with \<open>maxcount + 1\<close> results is accepted: the check before each store lets one more
  element through than the array is declared to hold.
\<close>

theorem suback_fills_one_too_many:
  assumes h: "mtype (header_of_byte h) = msg_code SUBACK"
    and n: "int (length qs) = maxcount + 1" "length qs < 126"
  shows "\<exists>out. MQTTDeserialize_suback maxcount (frame h (int16_bytes (uint (pid::u16)) @ qs) @ rest) = Some (1, out) \<and>
    s_packetid out = Some pid \<and> s_granted out = map uint qs \<and> int (length (s_granted out)) > maxcount"
proof -
  let ?body = "int16_bytes (uint pid) @ qs"
  have len: "length ?body < 2 ^ 28" using n by simp
  define m where "m = frame h ?body @ rest"
  note op = frame_open [OF len, of h rest, folded m_def]
  let ?s = "frame_start ?body"
  have d1: "drop ?s m = int16_bytes (uint pid) @ qs @ rest" using op(3) by simp
  have d2: "drop (?s + 2) m = qs @ rest" using drop_step [OF d1] by simp
  have "readInt m ?s = Some (uint pid, ?s + 2)"
    using readInt_int16 [OF d1] uint_lt2p [of pid] by simp
  moreover have "suback_loop m (?s + 2) (?s + 2 + length qs) maxcount [] = Some (1, map uint qs)"
    using suback_loop_all [OF d2, of "[]" maxcount] n by simp
  moreover have "maxcount = int (length qs) - 1" using n by simp
  ultimately show ?thesis
    using op(1,2) h unfolding m_def [symmetric]
    by (simp add: MQTTDeserialize_suback_def Let_def frame_start_def nat_add_distrib)
qed

theorem suback_fills_one_too_many_witness:
  "\<exists>out. MQTTDeserialize_suback 0 (frame 0x90 (int16_bytes (uint (1::u16)) @ [2]) @ []) = Some (1, out) \<and>
    int (length (s_granted out)) > 0"
proof -
  have "mtype (header_of_byte 0x90) = msg_code SUBACK" by (simp add: header_of_byte_def)
  then show ?thesis using suback_fills_one_too_many [where h = "0x90" and qs = "[2]" and maxcount = 0 and pid = 1 and rest = "[]"]
    by fastforce
qed

section \<open>Limits of the packet readers\<close>

context byte_source
begin

lemma decode_loop_overlong:
  assumes "avail s = map of_nat ds @ r" "\<forall>d \<in> set ds. 128 \<le> d \<and> d < 256"
    and "0 \<le> len" "len + int (length ds) = 4"
  shows "\<exists>v s'. decode_loop getfn s len mult val = Some (5, v, s') \<and> avail s' = r"
  using assms
proof (induction ds arbitrary: s len mult val)
  case Nil
  then show ?case by (subst decode_loop.simps) (simp add: Let_def)
next
  case (Cons d ds)
  then obtain s1 where s1: "getfn s 1 = Some (1, [of_nat d], s1)" "avail s1 = map of_nat ds @ r"
    using get_one [of s "of_nat d" "map of_nat ds @ r"] by auto
  have "\<exists>v s'. decode_loop getfn s1 (len + 1) mult' val' = Some (5, v, s') \<and> avail s' = r" for mult' val'
    using Cons.prems s1(2) by (intro Cons.IH) auto
  with s1 Cons.prems show ?case
    by (subst decode_loop.simps) (simp add: Let_def)
qed

end

text \<open>
  A remaining length of four continuation bytes is malformed, but the decoder does not report
  it: it returns 5, a number of bytes it has not read (it has read four), and the caller goes on
  with whatever value has been accumulated.
\<close>

theorem decode_malformed_length:
  assumes "drop p m = map of_nat ds @ r" "length ds = 4" "\<forall>d \<in> set ds. 128 \<le> d \<and> d < 256"
  shows "\<exists>v p'. MQTTPacket_decode (bufchar m) p = Some (5, v, p') \<and> drop p' m = r"
  using bufchar.decode_loop_overlong [OF assms(1,3), of 0 1 0] assms(2)
  by (simp add: MQTTPacket_decode_def)

theorem decode_malformed_length_witness:
  "\<exists>v p'. MQTTPacket_decode (bufchar [128, 128, 128, 128, 7]) 0 = Some (5, v, p') \<and>
     drop p' [128, 128, 128, 128, 7] = [7 :: byte]"
  by (rule decode_malformed_length [where ds = "[128, 128, 128, 128]"]) simp_all

text \<open>
  The non-blocking reader cannot finish a packet without a body (such as PINGRESP) on a
  transport that returns the number of bytes it has read: it asks for 0 bytes, takes the answer
  0 for ``call again'', and is in the same state afterwards.
\<close>

theorem readnb_empty_body_never_completes:
  assumes "getfn s 0 = Some (0, [], s)" "tstate trp = 2" "rem_len trp = 0"
  shows "MQTTPacket_readnb getfn buflen buf trp s = Some (0, buf, trp, s)"
  using assms by (simp add: MQTTPacket_readnb_def readnb_case2_def)

theorem readnb_empty_body_never_completes_witness:
  "let m = [0xD0, 0, 9]; trp = \<lparr>multiplier = 1, rem_len = 0, tlen = 2, tstate = 2\<rparr>
   in MQTTPacket_readnb (bufchar m) 3 m trp 2 = Some (0, m, trp, 2)"
  unfolding Let_def
  by (rule readnb_empty_body_never_completes) (simp_all add: bufchar_def)

end
