(* ===== verification/Protobuf_Wire.thy ===== *)
theory Protobuf_Wire
  imports Base128
begin

text \<open>
  The scalar layer of \<^verbatim>\<open>burba/sys/protobuf-c/protobuf-c.c\<close>: sizes, packers and parsers of
  varints, zigzag and fixed width values, tags, strings and length prefixes.

  A packer is the list of bytes it writes at \<open>out\<close> (its result is their number). A parser gets
  the bytes behind its pointer and is \<^term>\<open>None\<close> when it reads past them. \<open>int32_t\<close> and
  \<open>int64_t\<close> are words read with \<^const>\<open>sint\<close>; \<open>size_t\<close> and \<open>unsigned\<close> are 32 bits wide on the
  target, where the sizes are added up they wrap accordingly.
\<close>

section \<open>Sizes\<close>

definition get_tag_size :: "u32 \<Rightarrow> nat" where
  "get_tag_size number =
     (if number < 2 ^ 4 then 1 else if number < 2 ^ 11 then 2 else if number < 2 ^ 18 then 3
      else if number < 2 ^ 25 then 4 else 5)"

definition uint32_size :: "u32 \<Rightarrow> nat" where
  "uint32_size v =
     (if v < 2 ^ 7 then 1 else if v < 2 ^ 14 then 2 else if v < 2 ^ 21 then 3
      else if v < 2 ^ 28 then 4 else 5)"

definition int32_size :: "u32 \<Rightarrow> nat" where
  "int32_size v =
     (if sint v < 0 then 10
      else if v < 2 ^ 7 then 1 else if v < 2 ^ 14 then 2 else if v < 2 ^ 21 then 3
      else if v < 2 ^ 28 then 4 else 5)"

definition zigzag32 :: "u32 \<Rightarrow> u32" where
  "zigzag32 v = (if sint v < 0 then (- v) * 2 - 1 else v * 2)"

definition sint32_size :: "u32 \<Rightarrow> nat" where
  "sint32_size v = uint32_size (zigzag32 v)"

definition uint64_size :: "u64 \<Rightarrow> nat" where
  "uint64_size v =
     (let upper_v = (ucast (drop_bit 32 v) :: u32)
      in if upper_v = 0 then uint32_size (ucast v)
         else if upper_v < 2 ^ 3 then 5 else if upper_v < 2 ^ 10 then 6
         else if upper_v < 2 ^ 17 then 7 else if upper_v < 2 ^ 24 then 8
         else if upper_v < 2 ^ 31 then 9 else 10)"

definition zigzag64 :: "u64 \<Rightarrow> u64" where
  "zigzag64 v = (if sint v < 0 then (- v) * 2 - 1 else v * 2)"

definition sint64_size :: "u64 \<Rightarrow> nat" where
  "sint64_size v = uint64_size (zigzag64 v)"

section \<open>Packing\<close>

definition uint32_pack :: "u32 \<Rightarrow> byte list" where
  "uint32_pack v =
     (if v \<ge> 0x80 then
        let b0 = ucast (v OR 0x80); v = drop_bit 7 v in
        if v \<ge> 0x80 then
          let b1 = ucast (v OR 0x80); v = drop_bit 7 v in
          if v \<ge> 0x80 then
            let b2 = ucast (v OR 0x80); v = drop_bit 7 v in
            if v \<ge> 0x80 then
              let b3 = ucast (v OR 0x80); v = drop_bit 7 v in
              [b0, b1, b2, b3, ucast v]
            else [b0, b1, b2, ucast v]
          else [b0, b1, ucast v]
        else [b0, ucast v]
      else [ucast v])"

definition int32_pack :: "u32 \<Rightarrow> byte list" where
  "int32_pack v =
     (if sint v < 0 then
        [ucast (v OR 0x80), ucast (signed_drop_bit 7 v OR 0x80), ucast (signed_drop_bit 14 v OR 0x80),
         ucast (signed_drop_bit 21 v OR 0x80), ucast (signed_drop_bit 28 v OR 0x80),
         0xff, 0xff, 0xff, 0xff, 0x01]
      else uint32_pack v)"

definition sint32_pack :: "u32 \<Rightarrow> byte list" where
  "sint32_pack v = uint32_pack (zigzag32 v)"

text \<open>The loop that writes what is left of the upper half.\<close>

function uint64_pack_hi :: "u32 \<Rightarrow> byte list" where
  "uint64_pack_hi hi =
     (if hi \<ge> 128 then ucast (hi OR 0x80) # uint64_pack_hi (drop_bit 7 hi) else [ucast hi])"
  by auto
termination
  by (relation "measure unat")
     (auto simp: unat_drop_7 word_le_nat_alt)

declare uint64_pack_hi.simps [simp del]

definition uint64_pack :: "u64 \<Rightarrow> byte list" where
  "uint64_pack v =
     (let hi = (ucast (drop_bit 32 v) :: u32); lo = (ucast v :: u32) in
      if hi = 0 then uint32_pack lo
      else
        [ucast (lo OR 0x80), ucast (drop_bit 7 lo OR 0x80), ucast (drop_bit 14 lo OR 0x80),
         ucast (drop_bit 21 lo OR 0x80)] @
        (if hi < 8 then [ucast (push_bit 4 hi OR drop_bit 28 lo)]
         else ucast (push_bit 4 (hi AND 7) OR drop_bit 28 lo OR 0x80)
                # uint64_pack_hi (drop_bit 3 hi)))"

definition sint64_pack :: "u64 \<Rightarrow> byte list" where
  "sint64_pack v = uint64_pack (zigzag64 v)"

definition fixed32_pack :: "u32 \<Rightarrow> byte list" where
  "fixed32_pack v = [ucast v, ucast (drop_bit 8 v), ucast (drop_bit 16 v), ucast (drop_bit 24 v)]"

definition fixed64_pack :: "u64 \<Rightarrow> byte list" where
  "fixed64_pack v = fixed32_pack (ucast v) @ fixed32_pack (ucast (drop_bit 32 v))"

definition boolean_pack :: "u32 \<Rightarrow> byte list" where
  "boolean_pack v = [if v \<noteq> 0 then 1 else 0]"

text \<open>A C string is its characters before the NUL, the null pointer is \<^term>\<open>None\<close>.\<close>

definition string_pack :: "byte list option \<Rightarrow> byte list" where
  "string_pack str =
     (case str of None \<Rightarrow> [0] | Some cs \<Rightarrow> uint32_pack (of_nat (length cs)) @ cs)"

definition binary_data_pack :: "byte list \<Rightarrow> byte list" where
  "binary_data_pack bd = uint32_pack (of_nat (length bd)) @ bd"

definition tag_pack :: "u32 \<Rightarrow> byte list" where
  "tag_pack n =
     (if n < 2 ^ (32 - 3) then uint32_pack (push_bit 3 n) else uint64_pack (push_bit 3 (ucast n)))"

section \<open>Parsing\<close>

text \<open>Tag, wire type and number of bytes read; \<open>0\<close> bytes is a bad header.\<close>

function tag_loop :: "byte list \<Rightarrow> nat \<Rightarrow> nat \<Rightarrow> u32 \<Rightarrow> nat \<Rightarrow> (nat \<times> u32 option) option" where
  "tag_loop data max_rv i tag shift =
     (if i < max_rv then
        do {
          b \<leftarrow> rd data i;
          if b AND 0x80 \<noteq> 0
          then tag_loop data max_rv (i + 1) (tag OR push_bit shift (ucast (b AND 0x7f))) (shift + 7)
          else Some (i + 1, Some (tag OR push_bit shift (ucast b)))
        }
      else Some (0, None))"
  by auto
termination by (relation "measure (\<lambda>(data, m, i, tag, shift). m - i)") auto

declare tag_loop.simps [simp del]

definition parse_tag_and_wiretype :: "nat \<Rightarrow> byte list \<Rightarrow> (nat \<times> u32 option \<times> byte) option" where
  "parse_tag_and_wiretype len data =
     do {
       let max_rv = (if len > 5 then 5 else len);
       b \<leftarrow> rd data 0;
       let tag = (drop_bit 3 (ucast (b AND 0x7f)) :: u32);
       let wiretype = b AND 7;
       if b AND 0x80 = 0 then Some (1, Some tag, wiretype)
       else do {
         (rv, t) \<leftarrow> tag_loop data max_rv 1 tag 4;
         Some (rv, t, wiretype)
       }
     }"

text \<open>
  The loop of \<open>scan_length_prefixed_data\<close>: the index it stops at and the value read. The sum of
  the two lengths is a \<open>uint32_t\<close>; result \<open>0\<close> is an error, and the prefix length is assigned
  as soon as it is known.
\<close>

function scan_prefix_loop :: "byte list \<Rightarrow> nat \<Rightarrow> nat \<Rightarrow> u32 \<Rightarrow> nat \<Rightarrow> (nat \<times> u32) option" where
  "scan_prefix_loop data hdr_max i val shift =
     (if i < hdr_max then
        do {
          b \<leftarrow> rd data i;
          let val = val OR push_bit shift (ucast (b AND 0x7f));
          if b AND 0x80 = 0 then Some (i, val)
          else scan_prefix_loop data hdr_max (i + 1) val (shift + 7)
        }
      else Some (i, val))"
  by auto
termination by (relation "measure (\<lambda>(data, m, i, val, shift). m - i)") auto

declare scan_prefix_loop.simps [simp del]

definition scan_length_prefixed_data :: "u32 \<Rightarrow> byte list \<Rightarrow> (u32 \<times> nat option) option" where
  "scan_length_prefixed_data len data =
     do {
       let hdr_max = (if len < 5 then unat len else 5);
       (i, val) \<leftarrow> scan_prefix_loop data hdr_max 0 0 0;
       if i = hdr_max then Some (0, None)
       else do {
         let hdr_len = i + 1;
         if of_nat hdr_len + val > len then Some (0, Some hdr_len)
         else Some (of_nat hdr_len + val, Some hdr_len)
       }
     }"

fun max_b128_numbers :: "byte list \<Rightarrow> nat" where
  "max_b128_numbers [] = 0"
| "max_b128_numbers (b # r) = (if b AND 0x80 = 0 then 1 else 0) + max_b128_numbers r"

definition parse_uint32 :: "nat \<Rightarrow> byte list \<Rightarrow> u32 option" where
  "parse_uint32 len data =
     do {
       b0 \<leftarrow> rd data 0;
       let rv = ucast (b0 AND 0x7f);
       if len > 1 then do {
         b1 \<leftarrow> rd data 1;
         let rv = rv OR push_bit 7 (ucast (b1 AND 0x7f));
         if len > 2 then do {
           b2 \<leftarrow> rd data 2;
           let rv = rv OR push_bit 14 (ucast (b2 AND 0x7f));
           if len > 3 then do {
             b3 \<leftarrow> rd data 3;
             let rv = rv OR push_bit 21 (ucast (b3 AND 0x7f));
             if len > 4 then do {
               b4 \<leftarrow> rd data 4;
               Some (rv OR push_bit 28 (ucast b4))
             } else Some rv
           } else Some rv
         } else Some rv
       } else Some rv
     }"

definition parse_int32 :: "nat \<Rightarrow> byte list \<Rightarrow> u32 option" where
  "parse_int32 len data = parse_uint32 len data"

definition unzigzag32 :: "u32 \<Rightarrow> u32" where
  "unzigzag32 v = (if v AND 1 \<noteq> 0 then - (drop_bit 1 v) - 1 else drop_bit 1 v)"

definition parse_fixed_uint32 :: "byte list \<Rightarrow> u32 option" where
  "parse_fixed_uint32 data =
     do {
       b0 \<leftarrow> rd data 0; b1 \<leftarrow> rd data 1; b2 \<leftarrow> rd data 2; b3 \<leftarrow> rd data 3;
       Some (ucast b0 OR push_bit 8 (ucast b1) OR push_bit 16 (ucast b2) OR push_bit 24 (ucast b3))
     }"

function parse_uint64_loop :: "nat \<Rightarrow> byte list \<Rightarrow> nat \<Rightarrow> nat \<Rightarrow> u64 \<Rightarrow> u64 option" where
  "parse_uint64_loop len data i shift rv =
     (if i < len then
        do {
          b \<leftarrow> rd data i;
          parse_uint64_loop len data (i + 1) (shift + 7) (rv OR push_bit shift (ucast (b AND 0x7f)))
        }
      else Some rv)"
  by auto
termination by (relation "measure (\<lambda>(len, data, i, shift, rv). len - i)") auto

declare parse_uint64_loop.simps [simp del]

definition parse_uint64 :: "nat \<Rightarrow> byte list \<Rightarrow> u64 option" where
  "parse_uint64 len data =
     (if len < 5 then map_option ucast (parse_uint32 len data)
      else do {
        b0 \<leftarrow> rd data 0; b1 \<leftarrow> rd data 1; b2 \<leftarrow> rd data 2; b3 \<leftarrow> rd data 3;
        parse_uint64_loop len data 4 28
          (ucast (b0 AND 0x7f) OR push_bit 7 (ucast (b1 AND 0x7f)) OR
           push_bit 14 (ucast (b2 AND 0x7f)) OR push_bit 21 (ucast (b3 AND 0x7f)))
      })"

definition unzigzag64 :: "u64 \<Rightarrow> u64" where
  "unzigzag64 v = (if v AND 1 \<noteq> 0 then - (drop_bit 1 v) - 1 else drop_bit 1 v)"

definition parse_fixed_uint64 :: "byte list \<Rightarrow> u64 option" where
  "parse_fixed_uint64 data =
     do {
       lo \<leftarrow> parse_fixed_uint32 data;
       hi \<leftarrow> parse_fixed_uint32 (drop 4 data);
       Some (ucast lo OR push_bit 32 (ucast hi))
     }"

fun parse_boolean :: "nat \<Rightarrow> byte list \<Rightarrow> bool option" where
  "parse_boolean 0 data = Some False"
| "parse_boolean (Suc n) data =
     do { b \<leftarrow> rd data 0; if b AND 0x7f \<noteq> 0 then Some True else parse_boolean n (tl data) }"

text \<open>The index of the first byte without a continuation bit among the first \<open>len\<close>.\<close>

fun scan_varint_loop :: "nat \<Rightarrow> byte list \<Rightarrow> nat option" where
  "scan_varint_loop 0 data = Some 0"
| "scan_varint_loop (Suc n) data =
     do { b \<leftarrow> rd data 0;
          if b AND 0x80 = 0 then Some 0 else map_option Suc (scan_varint_loop n (tl data)) }"

definition scan_varint :: "nat \<Rightarrow> byte list \<Rightarrow> nat option" where
  "scan_varint len data =
     do {
       let len = (if len > 10 then 10 else len);
       i \<leftarrow> scan_varint_loop len data;
       Some (if i = len then 0 else i + 1)
     }"

section \<open>The packers write base-128 numbers\<close>

lemma less_128_unat: "v < 0x80 \<longleftrightarrow> unat (v :: u32) < 128"
  by (simp add: word_less_nat_alt)

lemma ge_128_unat: "0x80 \<le> v \<longleftrightarrow> 128 \<le> unat (v :: u32)"
  by (simp add: word_le_nat_alt)

lemma b128_u32:
  "b128 (unat (v :: u32)) =
     (if v \<ge> 0x80 then ucast (v OR 0x80) # b128 (unat (drop_bit 7 v)) else [ucast v])"
  by (simp add: ge_128_unat b128_word_big b128_word_small)

lemma uint32_pack_b128: "uint32_pack v = b128 (unat v)"
proof -
  let ?d = "drop_bit 7 :: u32 \<Rightarrow> u32"
  have "unat v div 128 div 128 div 128 div 128 < 128"
    using unat_u32 [of v] by (simp add: div_mult2_eq [symmetric] div_less_iff_less_mult del: unat_u32)
  then have l: "b128 (unat (?d (?d (?d (?d v))))) = [ucast (?d (?d (?d (?d v))))]"
    by (intro b128_word_small) (simp only: unat_drop_7)
  note b = b128_u32 [of v] b128_u32 [of "?d v"] b128_u32 [of "?d (?d v)"] b128_u32 [of "?d (?d (?d v))"] l
  show ?thesis
    unfolding uint32_pack_def Let_def
    by (cases "v \<ge> 0x80"; cases "?d v \<ge> 0x80"; cases "?d (?d v) \<ge> 0x80";
        cases "?d (?d (?d v)) \<ge> 0x80"; simp only: b if_True if_False)
qed

lemma uint64_pack_hi_b128: "uint64_pack_hi hi = b128 (unat hi)"
proof (induction hi rule: uint64_pack_hi.induct)
  case (1 hi)
  then show ?case
    by (cases "hi \<ge> 0x80") (simp_all only: uint64_pack_hi.simps [of hi] b128_u32 [of hi] if_True if_False)
qed

text \<open>The two halves of a 64-bit value.\<close>

lemma unat_drop_bit_div: "unat (drop_bit k (v :: 'a::len word)) = unat v div 2 ^ k"
  by (subst unat_drop_bit_eq) (rule drop_bit_eq_div)

lemma unat_hi: "unat (ucast (drop_bit 32 (v :: u64)) :: u32) = unat v div 2 ^ 32"
proof -
  have "unat (drop_bit 32 v) = unat v div 2 ^ 32" by (rule unat_drop_bit_div)
  moreover have "unat (drop_bit 32 v) < 2 ^ 32"
    unfolding calculation using unat_u64 [of v] by (simp add: div_less_iff_less_mult del: unat_u64)
  ultimately show ?thesis by (simp add: unsigned_ucast_eq take_bit_nat_eq_self)
qed

lemma lo_digit:
  "k + 8 \<le> 32 \<Longrightarrow>
     ucast (drop_bit k (ucast (v :: u64) :: u32) OR 0x80) = (ucast (drop_bit k v OR 0x80) :: byte)"
  by (rule bit_word_eqI) (simp add: bit_or_iff bit_unsigned_iff bit_drop_bit_eq bit_0x80 del: unsigned_or_eq)

lemma fifth_digit_last:
  "ucast (push_bit 4 (ucast (drop_bit 32 v) :: u32) OR drop_bit 28 (ucast (v :: u64) :: u32)) =
     (ucast (drop_bit 28 v) :: byte)"
  by (rule bit_word_eqI) (auto simp: bit_or_iff bit_unsigned_iff bit_drop_bit_eq bit_push_bit_iff)

lemma fifth_digit:
  "ucast (push_bit 4 ((ucast (drop_bit 32 v) :: u32) AND 7) OR drop_bit 28 (ucast (v :: u64) :: u32) OR 0x80) =
     (ucast (drop_bit 28 v OR 0x80) :: byte)"
proof (rule bit_word_eqI)
  fix n assume "n < LENGTH(8)"
  then have n: "n < 4 \<or> n = 4 \<or> n = 5 \<or> n = 6 \<or> n = 7" by auto
  have m: "(7 :: u32) = mask 3" by (simp add: mask_eq_exp_minus_1)
  show "bit (ucast (push_bit 4 ((ucast (drop_bit 32 v) :: u32) AND 7) OR drop_bit 28 (ucast v :: u32) OR 0x80) :: byte) n
     = bit (ucast (drop_bit 28 v OR 0x80) :: byte) n"
    unfolding m using n
    by (elim disjE) (simp_all add: bit_or_iff bit_unsigned_iff bit_drop_bit_eq bit_push_bit_iff bit_0x80
        bit_and_iff bit_mask_iff del: unsigned_or_eq unsigned_and_eq)
qed

lemma b128_u64:
  "b128 (unat (v :: u64)) =
     (if 128 \<le> unat v then ucast (v OR 0x80) # b128 (unat (drop_bit 7 v)) else [ucast v])"
  by (simp add: b128_word_big b128_word_small)

lemma b128_u64_at:
  "128 * 2 ^ k \<le> unat (v :: u64) \<Longrightarrow>
     b128 (unat (drop_bit k v)) = ucast (drop_bit k v OR 0x80) # b128 (unat (drop_bit (7 + k) v))"
  using div_le_mono [of "128 * 2 ^ k" "unat v" "2 ^ k"]
  by (subst b128_u64) (simp add: unat_drop_bit_div)

lemma uint64_pack_b128: "uint64_pack v = b128 (unat v)"
proof -
  define hi where "hi = (ucast (drop_bit 32 v) :: u32)"
  define lo where "lo = (ucast v :: u32)"
  have hi: "unat hi = unat v div 2 ^ 32" unfolding hi_def by (rule unat_hi)
  show ?thesis
  proof (cases "hi = 0")
    case True
    then have "unat v < 2 ^ 32" using hi by (simp add: div_eq_0_iff)
    then have "unat lo = unat v" by (simp add: lo_def unsigned_ucast_eq take_bit_nat_eq_self)
    with True show ?thesis by (simp add: uint64_pack_def Let_def uint32_pack_b128 flip: hi_def lo_def)
  next
    case False
    then have "1 \<le> unat hi" by (simp add: unat_gt_0 Suc_le_eq)
    then have "2 ^ 32 \<le> unat v" using hi div_less [of "unat v" "2 ^ 32"] by (cases "unat v < 2 ^ 32") auto
    then have first: "b128 (unat v) = [ucast (lo OR 0x80), ucast (drop_bit 7 lo OR 0x80),
         ucast (drop_bit 14 lo OR 0x80), ucast (drop_bit 21 lo OR 0x80)] @ b128 (unat (drop_bit 28 v))"
      using b128_u64_at [of 0 v] b128_u64_at [of 7 v] b128_u64_at [of 14 v] b128_u64_at [of 21 v]
        lo_digit [of 0 v] lo_digit [of 7 v] lo_digit [of 14 v] lo_digit [of 21 v]
      by (simp add: lo_def)
    have hi8: "hi < 8 \<longleftrightarrow> unat v < 2 ^ 35"
      by (simp add: word_less_nat_alt hi div_less_iff_less_mult)
    have l5: "unat (drop_bit 28 v) < 128" if "unat v < 2 ^ 35"
      using that by (simp add: unat_drop_bit_div div_less_iff_less_mult)
    have h5: "unat (drop_bit 3 hi) = unat (drop_bit 35 v)"
      by (simp add: unat_drop_bit_div hi div_mult2_eq)
    show ?thesis
      using False fifth_digit [of v] fifth_digit_last [of v] b128_u64_at [of 28 v] l5
      by (simp add: uint64_pack_def Let_def first hi8 h5 uint64_pack_hi_b128 b128_word_small
          flip: hi_def lo_def)
  qed
qed

lemma tag_pack_b128: "tag_pack n = b128 (8 * unat n)"
proof -
  have lt: "n < 2 ^ (32 - 3) \<longleftrightarrow> unat n < 2 ^ 29" by (simp add: word_less_nat_alt)
  have "unat (push_bit 3 n) = 8 * unat n" if "unat n < 2 ^ 29"
    using that by (simp add: push_bit_eq_mult unat_word_ariths)
  moreover have "unat (push_bit 3 (ucast n :: u64)) = 8 * unat n"
    using unat_u32 [of n] by (simp add: push_bit_eq_mult unat_word_ariths unsigned_ucast_eq take_bit_nat_eq_self del: unat_u32)
  ultimately show ?thesis
    unfolding tag_pack_def uint32_pack_b128 uint64_pack_b128 lt by (simp only: if_cancel split: if_split) simp
qed

text \<open>A negative \<open>int32\<close> is written as the ten digits of its 64-bit sign extension.\<close>

lemma negative_bit_31: "sint (v :: u32) < 0 \<longleftrightarrow> bit v 31"
  using bit_last_iff [of v] by simp

lemma bit_sext: "bit (scast (v :: u32) :: u64) n \<longleftrightarrow> n < 64 \<and> bit v (min 31 n)"
  by (simp add: bit_signed_iff)

lemma sext_digit:
  assumes "bit (v :: u32) 31" "31 \<le> k" "k + 8 \<le> 64"
  shows "ucast (drop_bit k (scast v :: u64) OR 0x80) = (0xff :: byte)"
proof -
  have "(0xff :: byte) = mask 8" by (simp add: mask_eq_exp_minus_1)
  then show ?thesis
    by (rule ssubst) (rule bit_word_eqI, use assms in \<open>auto simp: bit_or_iff bit_unsigned_iff
      bit_drop_bit_eq bit_0x80 bit_sext bit_mask_iff min_def simp del: unsigned_or_eq\<close>)
qed

lemma sext_low_digit:
  assumes "k + 4 \<le> 32" "bit (v :: u32) 31"
  shows "ucast (drop_bit k (scast v :: u64) OR 0x80) = (ucast (signed_drop_bit k v OR 0x80) :: byte)"
proof (rule bit_word_eqI)
  fix n assume n: "n < LENGTH(8)"
  then have "(if 32 - k \<le> n \<and> n < 32 then 31 else k + n) = min 31 (k + n)" "k + n < 64"
    using assms by auto
  then show "bit (ucast (drop_bit k (scast v :: u64) OR 0x80) :: byte) n =
      bit (ucast (signed_drop_bit k v OR 0x80) :: byte) n"
    using n by (simp add: bit_or_iff bit_unsigned_iff bit_drop_bit_eq bit_0x80 bit_sext
        bit_signed_drop_bit_iff del: unsigned_or_eq)
qed

lemma int32_pack_b128: "int32_pack v = b128 (unat (scast v :: u64))"
proof (cases "bit v 31")
  case True
  let ?w = "scast v :: u64"
  have "drop_bit 63 ?w = 1"
    by (rule bit_word_eqI) (use True in \<open>auto simp: bit_drop_bit_eq bit_sext bit_1_iff min_def\<close>)
  then have top: "unat ?w div 2 ^ 63 = 1"
    using unat_drop_bit_div [of 63 ?w] by simp
  then have ge: "2 ^ 63 \<le> unat ?w"
    using div_less [of "unat ?w" "2 ^ 63"] by (cases "unat ?w < 2 ^ 63") auto
  have last: "b128 (unat (drop_bit 63 ?w)) = [1]"
    by (simp add: \<open>drop_bit 63 ?w = 1\<close> b128_small)
  note step = b128_u64_at [of _ ?w]
  show ?thesis
    using True ge last step [of 0] step [of 7] step [of 14] step [of 21] step [of 28] step [of 35]
      step [of 42] step [of 49] step [of 56]
    by (simp add: int32_pack_def negative_bit_31 sext_digit sext_low_digit)
       (simp add: sext_low_digit [of 0, simplified])
next
  case False
  have "scast v = (ucast v :: u64)"
  proof (rule bit_word_eqI)
    fix n show "bit (scast v :: u64) n = bit (ucast v :: u64) n" if "n < LENGTH(64)"
      using False that by (cases "n \<le> 31") (simp_all add: bit_unsigned_iff bit_sext min_def)
  qed
  then have "unat (scast v :: u64) = unat v" by (simp add: unsigned_ucast_eq take_bit_nat_eq_self order_less_le_trans [OF unat_u32])
  with False show ?thesis by (simp add: int32_pack_def negative_bit_31 uint32_pack_b128)
qed

section \<open>Computed sizes\<close>

lemma length_b128_eq:
  "n < 128 ^ Suc k \<Longrightarrow> k = 0 \<or> 128 ^ k \<le> n \<Longrightarrow> length (b128 n) = Suc k"
  using length_b128_le [of "Suc k" n] length_b128_le [of k n]
  by (cases k) (auto intro: le_antisym simp: Suc_le_eq)

lemma length_b128_32:
  "n < 2 ^ 35 \<Longrightarrow> length (b128 n) =
     (if n < 2 ^ 7 then 1 else if n < 2 ^ 14 then 2 else if n < 2 ^ 21 then 3
      else if n < 2 ^ 28 then 4 else 5)"
  using length_b128_eq [of n 0] length_b128_eq [of n 1] length_b128_eq [of n 2]
    length_b128_eq [of n 3] length_b128_eq [of n 4]
  by (simp add: not_less)

lemma uint32_size_length: "uint32_size v = length (uint32_pack v)"
  using length_b128_32 [of "unat v"] order_less_trans [OF unat_u32 [of v], of "2 ^ 35"]
  by (simp add: uint32_size_def uint32_pack_b128 word_less_nat_alt)

lemma get_tag_size_length: "get_tag_size n = length (tag_pack n)"
  using length_b128_32 [of "8 * unat n"] unat_u32 [of n]
  by (simp add: get_tag_size_def tag_pack_b128 word_less_nat_alt del: unat_u32)

lemma int32_size_length: "int32_size v = length (int32_pack v)"
  using uint32_size_length [of v] by (simp add: int32_size_def int32_pack_def uint32_size_def)

lemma length_b128_from_5:
  "128 ^ 4 \<le> n \<Longrightarrow> n < 128 ^ 10 \<Longrightarrow> length (b128 n) =
     (if n < 128 ^ 5 then 5 else if n < 128 ^ 6 then 6 else if n < 128 ^ 7 then 7
      else if n < 128 ^ 8 then 8 else if n < 128 ^ 9 then 9 else 10)"
proof -
  have e5: "128 ^ 4 \<le> n \<Longrightarrow> n < 128 ^ 5 \<Longrightarrow> length (b128 n) = 5"
    using length_b128_eq [of n 4] by simp
  have e6: "128 ^ 5 \<le> n \<Longrightarrow> n < 128 ^ 6 \<Longrightarrow> length (b128 n) = 6"
    using length_b128_eq [of n 5] by simp
  have e7: "128 ^ 6 \<le> n \<Longrightarrow> n < 128 ^ 7 \<Longrightarrow> length (b128 n) = 7"
    using length_b128_eq [of n 6] by simp
  have e8: "128 ^ 7 \<le> n \<Longrightarrow> n < 128 ^ 8 \<Longrightarrow> length (b128 n) = 8"
    using length_b128_eq [of n 7] by simp
  have e9: "128 ^ 8 \<le> n \<Longrightarrow> n < 128 ^ 9 \<Longrightarrow> length (b128 n) = 9"
    using length_b128_eq [of n 8] by simp
  have e10: "128 ^ 9 \<le> n \<Longrightarrow> n < 128 ^ 10 \<Longrightarrow> length (b128 n) = 10"
    using length_b128_eq [of n 9] by simp
  assume "128 ^ 4 \<le> n" "n < 128 ^ 10"
  then show ?thesis
    by (simp only: split: if_split) (meson not_less e5 e6 e7 e8 e9 e10)
qed

lemma uint64_size_length: "uint64_size v = length (uint64_pack v)"
proof -
  define n where "n = unat v"
  have hi: "unat (ucast (drop_bit 32 v) :: u32) = n div 2 ^ 32" unfolding n_def by (rule unat_hi)
  have n: "n < 2 ^ 64" using unat_u64 [of v] by (simp add: n_def del: unat_u64)
  show ?thesis
  proof (cases "n < 2 ^ 32")
    case True
    then have "(ucast (drop_bit 32 v) :: u32) = 0" using hi by (simp add: unat_eq_0 [symmetric] del: unat_eq_0)
    with True show ?thesis
      by (simp add: uint64_size_def uint64_pack_def uint32_size_length)
  next
    case False
    then have "(ucast (drop_bit 32 v) :: u32) \<noteq> 0"
      using hi by (auto simp: div_eq_0_iff)
    moreover have "((ucast (drop_bit 32 v) :: u32) < 2 ^ 3) = (n < 128 ^ 5)"
      "((ucast (drop_bit 32 v) :: u32) < 2 ^ 10) = (n < 128 ^ 6)"
      "((ucast (drop_bit 32 v) :: u32) < 2 ^ 17) = (n < 128 ^ 7)"
      "((ucast (drop_bit 32 v) :: u32) < 2 ^ 24) = (n < 128 ^ 8)"
      "((ucast (drop_bit 32 v) :: u32) < 2 ^ 31) = (n < 128 ^ 9)"
      by (simp_all add: word_less_nat_alt hi div_less_iff_less_mult)
    moreover have "128 ^ 4 \<le> n" "n < 128 ^ 10" using False n by simp_all
    ultimately show ?thesis
      unfolding uint64_size_def Let_def uint64_pack_b128 n_def [symmetric]
      by (simp only: length_b128_from_5 if_False)
  qed
qed

section \<open>Zigzag\<close>

definition zz :: "int \<Rightarrow> int" where
  "zz x = (if x < 0 then - x * 2 - 1 else x * 2)"

lemma zigzag_word:
  "(if sint (v :: 'a::len word) < 0 then (- v) * 2 - 1 else v * 2) = word_of_int (zz (sint v))"
proof -
  have v: "v = word_of_int (sint v)" by simp
  show ?thesis
    by (subst (3 4) v, simp only: zz_def flip: word_of_int_minus word_of_int_numeral) simp
qed

lemma uint_zz:
  assumes "LENGTH('a) = Suc k"
  shows "uint (word_of_int (zz (sint (v :: 'a::len word))) :: 'a word) = zz (sint v)"
proof -
  have "- (2 ^ k) \<le> sint v \<and> sint v < 2 ^ k"
    using sint_ge [of v] sint_lt [of v] assms by simp
  then have "0 \<le> zz (sint v) \<and> zz (sint v) < 2 ^ LENGTH('a)"
    by (simp add: zz_def assms)
  then show ?thesis by (simp add: uint_word_of_int)
qed

lemma unzigzag_word:
  assumes "uint u = zz x"
  shows "(if u AND 1 \<noteq> 0 then - (drop_bit 1 u) - 1 else drop_bit 1 u) = (word_of_int x :: 'a::len word)"
proof -
  have "u AND 1 \<noteq> 0 \<longleftrightarrow> odd (uint u)"
    by (simp only: and_one_eq even_iff_mod_2_eq_zero [symmetric] bit_0 [symmetric] bit_uint_iff) simp
  moreover have "drop_bit 1 u = word_of_int (zz x div 2)"
  proof -
    have "int (unat (drop_bit 1 u)) = int (unat u) div 2"
      by (simp only: unat_drop_bit_div of_nat_div power_one_right of_nat_numeral)
    then have "uint (drop_bit 1 u) = uint u div 2" by (simp only: of_nat_unat)
    then have "word_of_int (uint (drop_bit 1 u)) = (word_of_int (zz x div 2) :: 'a word)"
      using assms by simp
    then show ?thesis by (simp only: word_of_int_uint)
  qed
  moreover have "zz x div 2 = (if x < 0 then - x - 1 else x)" "odd (zz x) \<longleftrightarrow> x < 0"
    by (auto simp: zz_def)
  ultimately show ?thesis
    using assms by simp
qed

section \<open>Parsing base-128 numbers\<close>

fun vval :: "byte list \<Rightarrow> 'a::len word" where
  "vval [] = 0"
| "vval (b # r) = ucast (b AND 0x7f) OR push_bit 7 (vval r)"

lemma ucast_digit: "(ucast ((b::byte) AND 0x7f) :: 'a::len word) = of_nat (unat b mod 128)"
proof -
  have "of_nat (unat (b AND 0x7f)) = (ucast (b AND 0x7f) :: 'a word)" by (rule of_nat_unat)
  then show ?thesis by (simp only: unat_and_127)
qed

lemma or_shifted:
  assumes "d < 2 ^ k"
  shows "of_nat d OR push_bit k w = of_nat d + (w :: 'a::len word) * 2 ^ k"
proof -
  have "of_nat d = (take_bit k (of_nat d) :: 'a word)"
    using assms by (simp only: take_bit_of_nat take_bit_nat_eq_self)
  then have "of_nat d AND push_bit k w = (0 :: 'a word)"
    by (intro bit_word_eqI) (metis bit_and_iff bit_push_bit_iff bit_take_bit_iff bit_0_eq bot_apply bot_bool_def not_less)
  then have "of_nat d OR push_bit k w = of_nat d + push_bit k w"
    by (simp only: disjunctive_add_eq_or)
  then show ?thesis by (simp add: push_bit_eq_mult)
qed

lemma digit_step:
  "of_nat (n mod 128) OR push_bit 7 (of_nat (n div 128)) = (of_nat n :: 'a::len word)"
proof -
  have "of_nat (n mod 128) OR push_bit 7 (of_nat (n div 128)) =
      of_nat (n mod 128) + (of_nat (n div 128) :: 'a word) * 2 ^ 7"
    by (rule or_shifted) simp
  also have "\<dots> = of_nat (n mod 128 + n div 128 * 2 ^ 7)"
    by (simp only: of_nat_add of_nat_mult of_nat_power of_nat_numeral)
  also have "\<dots> = of_nat n" by (rule arg_cong [of _ _ of_nat]) simp
  finally show ?thesis .
qed

lemma vval_b128: "vval (b128 n) = of_nat n"
proof (induction n rule: b128.induct)
  case (1 n)
  show ?case
  proof (cases "n < 128")
    case True
    then show ?thesis by (simp add: b128_small ucast_digit)
  next
    case False
    then have "b128 n = of_nat (n mod 128 + 128) # b128 (n div 128)" by (simp add: b128_big)
    moreover have "unat (of_nat (n mod 128 + 128) :: byte) mod 128 = n mod 128"
      by (subst unat_of_nat_byte) simp_all
    ultimately show ?thesis
      using 1 False by (simp add: ucast_digit digit_step del: of_nat_add)
  qed
qed

lemma rd_0: "rd m 0 = (case m of [] \<Rightarrow> None | b # _ \<Rightarrow> Some b)"
  by (cases m) simp_all

lemma push_28_masked: "push_bit 28 (ucast ((b::byte) AND 0x7f)) = (push_bit 28 (ucast b) :: u32)"
proof (rule bit_word_eqI)
  fix n assume "n < LENGTH(32)"
  have "(0x7f :: byte) = mask 7" by (simp add: mask_eq_exp_minus_1)
  then show "bit (push_bit 28 (ucast (b AND 0x7f)) :: u32) n = bit (push_bit 28 (ucast b) :: u32) n"
    using \<open>n < LENGTH(32)\<close>
    by (simp only: bit_push_bit_iff bit_unsigned_iff bit_and_iff bit_mask_iff) auto
qed

lemma parse_uint32_vval:
  assumes "1 \<le> len" "len \<le> 5" "len \<le> length data"
  shows "parse_uint32 len data = Some (vval (take len data))"
proof -
  have "len = 1 \<or> len = 2 \<or> len = 3 \<or> len = 4 \<or> len = 5" using assms by auto
  then show ?thesis
    using assms(3) push_28_masked [of "data ! Suc (Suc (Suc (Suc 0)))"]
    by (elim disjE) (auto simp: parse_uint32_def Let_def rd_def take_Suc_conv_app_nth numeral_eq_Suc
      push_bit_or push_28_masked ac_simps)
qed

lemma parse_uint64_loop_vval:
  "i \<le> len \<Longrightarrow> len \<le> length data \<Longrightarrow>
     parse_uint64_loop len data i shift rv = Some (rv OR push_bit shift (vval (take (len - i) (drop i data))))"
proof (induction len data i shift rv rule: parse_uint64_loop.induct)
  case (1 len data i shift rv)
  show ?case
  proof (cases "i < len")
    case True
    with "1.prems" have "i < length data" by simp
    then have "take (len - i) (drop i data) = data ! i # take (len - (i + 1)) (drop (i + 1) data)"
      using True by (simp only: Cons_nth_drop_Suc [of i data, symmetric] take_Cons' [of "len - i"]) simp
    with 1 True \<open>i < length data\<close> show ?thesis
      by (subst parse_uint64_loop.simps) (simp add: rd_def push_bit_or or.assoc add.commute)
  next
    case False
    with "1.prems" show ?thesis by (subst parse_uint64_loop.simps) simp
  qed
qed

lemma bit_vval:
  "bit (vval ds :: 'a::len word) n \<longleftrightarrow>
     n < LENGTH('a) \<and> n div 7 < length ds \<and> bit (ds ! (n div 7)) (n mod 7)"
proof (induction ds arbitrary: n)
  case (Cons b ds)
  have m: "(0x7f :: byte) = mask 7" by (simp add: mask_eq_exp_minus_1)
  show ?case
  proof (cases "n < 7")
    case True
    then show ?thesis
      unfolding vval.simps m
      by (auto simp: bit_or_iff bit_unsigned_iff bit_push_bit_iff bit_and_iff bit_mask_iff
          dest: bit_imp_le_length simp del: unsigned_and_eq)
  next
    case False
    then have "n div 7 = Suc ((n - 7) div 7)" "n mod 7 = (n - 7) mod 7"
      by (auto simp: le_div_geq le_mod_geq)
    with False show ?thesis
      unfolding vval.simps m
      by (auto simp: bit_or_iff bit_unsigned_iff bit_push_bit_iff bit_and_iff bit_mask_iff Cons.IH
          simp del: unsigned_and_eq)
  qed
qed simp

lemma ucast_vval: "length ds \<le> 4 \<Longrightarrow> ucast (vval ds :: u32) = (vval ds :: u64)"
  by (rule bit_word_eqI) (auto simp: bit_unsigned_iff bit_vval div_less_iff_less_mult)

lemma parse_uint64_vval:
  assumes "1 \<le> len" "len \<le> length data"
  shows "parse_uint64 len data = Some (vval (take len data))"
proof (cases "len < 5")
  case True
  with assms show ?thesis by (simp add: parse_uint64_def parse_uint32_vval ucast_vval)
next
  case False
  then have "take len data = take 4 data @ take (len - 4) (drop 4 data)"
    by (simp add: take_add [of 4 "len - 4", symmetric])
  moreover have "take 4 data = [data ! 0, data ! 1, data ! 2, data ! 3]"
    using False assms by (intro nth_equalityI) (auto simp: less_Suc_eq numeral_eq_Suc)
  ultimately have "take len data = [data ! 0, data ! 1, data ! 2, data ! 3] @ take (len - 4) (drop 4 data)"
    by simp
  moreover have "data \<noteq> []" using False assms by auto
  ultimately show ?thesis
    using False assms by (simp add: parse_uint64_def parse_uint64_loop_vval rd_def push_bit_or or.assoc)
qed

text \<open>Where the digits of a number end.\<close>

lemma scan_varint_loop_b128:
  "length (b128 n) \<le> len \<Longrightarrow> scan_varint_loop len (b128 n @ r) = Some (length (b128 n) - 1)"
proof (induction n arbitrary: len rule: b128.induct)
  case (1 n)
  obtain l where l: "len = Suc l" using "1.prems" by (cases len) auto
  show ?case
  proof (cases "n < 128")
    case True
    with l show ?thesis by (simp add: b128_small and_128_eq_0_unat)
  next
    case False
    then have "b128 n = of_nat (n mod 128 + 128) # b128 (n div 128)" by (simp add: b128_big)
    moreover have "unat (of_nat (n mod 128 + 128) :: byte) = n mod 128 + 128"
      by (rule unat_of_nat_byte) (use pos_mod_bound [of 128 "int n"] in simp)
    ultimately show ?thesis
      using 1 False l by (simp add: and_128_eq_0_unat Suc_le_eq del: of_nat_add)
  qed
qed

lemma scan_varint_b128:
  "length (b128 n) \<le> 10 \<Longrightarrow> length (b128 n) \<le> len \<Longrightarrow>
     scan_varint len (b128 n @ r) = Some (length (b128 n))"
proof -
  assume l: "length (b128 n) \<le> 10" "length (b128 n) \<le> len"
  obtain k where "length (b128 n) = Suc k" by (cases "b128 n") auto
  with l scan_varint_loop_b128 [of n "min 10 len" r] show ?thesis
    by (auto simp: scan_varint_def min_def Let_def split: if_splits)
qed

section \<open>Parsers undo packers\<close>

lemma length_b128_u32: "length (b128 (unat (v :: u32))) \<le> 5"
  using order_less_trans [OF unat_u32 [of v], of "128 ^ 5"] by (subst length_b128_le) simp_all

lemma length_b128_u64: "length (b128 (unat (v :: u64))) \<le> 10"
  using order_less_trans [OF unat_u64 [of v], of "128 ^ 10"] by (subst length_b128_le) simp_all

lemma length_b128_ge_1 [simp]: "Suc 0 \<le> length (b128 n)"
  by (simp add: Suc_le_eq)

lemma parse_uint32_b128:
  "length (b128 n) \<le> 5 \<Longrightarrow> parse_uint32 (length (b128 n)) (b128 n @ r) = Some (of_nat n)"
  by (simp add: parse_uint32_vval vval_b128)

lemma parse_uint64_b128: "parse_uint64 (length (b128 n)) (b128 n @ r) = Some (of_nat n)"
  by (simp add: parse_uint64_vval vval_b128)

text \<open>Only the first five digits of a longer number count for a 32-bit value.\<close>

lemma parse_uint32_long:
  assumes "5 < len" "5 \<le> length data"
  shows "parse_uint32 len data = parse_uint32 5 data"
  using assms by (simp add: parse_uint32_def)

lemma vval_take_5: "(vval (take 5 ds) :: u32) = vval ds"
  by (rule bit_word_eqI) (auto simp: bit_vval div_less_iff_less_mult)

lemma parse_int32_b128:
  "parse_int32 (length (b128 n)) (b128 n @ r) = Some (of_nat n)"
proof (cases "length (b128 n) \<le> 5")
  case False
  then have "parse_int32 (length (b128 n)) (b128 n @ r) = Some (vval (take 5 (b128 n)))"
    by (simp add: parse_int32_def parse_uint32_long parse_uint32_vval)
  then show ?thesis by (simp add: vval_take_5 vval_b128)
qed (simp add: parse_int32_def parse_uint32_b128)

lemma take_bit_sext: "ucast (scast (v :: u32) :: u64) = v"
  by (rule bit_word_eqI) (simp add: bit_unsigned_iff bit_sext)

lemma parse_int32_pack: "parse_int32 (length (int32_pack v)) (int32_pack v @ r) = Some v"
proof -
  have "of_nat (unat (scast v :: u64)) = v" by (simp add: take_bit_sext)
  then show ?thesis by (simp add: int32_pack_b128 parse_int32_b128 del: of_nat_unat)
qed

lemma unzigzag32_zigzag32: "unzigzag32 (zigzag32 v) = v"
  using unzigzag_word [OF uint_zz [where 'a = 32, of 31 v]]
  by (simp add: unzigzag32_def zigzag32_def zigzag_word)

lemma unzigzag64_zigzag64: "unzigzag64 (zigzag64 v) = v"
  using unzigzag_word [OF uint_zz [where 'a = 64, of 63 v]]
  by (simp add: unzigzag64_def zigzag64_def zigzag_word)

text \<open>Fixed width values.\<close>

lemma rd_Cons_numeral [simp]: "rd (x # xs) (numeral k) = rd xs (pred_numeral k)"
  by (simp add: numeral_eq_Suc)

lemma parse_fixed_uint32_pack: "parse_fixed_uint32 (fixed32_pack v @ r) = Some v"
proof -
  have "ucast (ucast v :: byte) OR push_bit 8 (ucast (ucast (drop_bit 8 v) :: byte)) OR
     push_bit 16 (ucast (ucast (drop_bit 16 v) :: byte)) OR
     push_bit 24 (ucast (ucast (drop_bit 24 v) :: byte)) = v" (is "?x = v")
  proof (rule bit_word_eqI)
    fix n assume n: "n < LENGTH(32)"
    have "n < 8 \<or> 8 \<le> n \<and> n < 16 \<or> 16 \<le> n \<and> n < 24 \<or> 24 \<le> n" by arith
    with n show "bit ?x n = bit v n"
      by (elim disjE) (auto simp: bit_or_iff bit_push_bit_iff bit_unsigned_iff bit_drop_bit_eq)
  qed
  then show ?thesis by (simp add: parse_fixed_uint32_def fixed32_pack_def)
qed

lemma parse_fixed_uint64_pack: "parse_fixed_uint64 (fixed64_pack v @ r) = Some v"
proof -
  have l: "drop 4 (fixed32_pack w @ z) = z" for w z by (simp add: fixed32_pack_def)
  have "ucast (ucast v :: u32) OR push_bit 32 (ucast (ucast (drop_bit 32 v) :: u32)) = v" (is "?x = v")
  proof (rule bit_word_eqI)
    fix n assume "n < LENGTH(64)"
    then show "bit ?x n = bit v n"
      by (auto simp: bit_or_iff bit_push_bit_iff bit_unsigned_iff bit_drop_bit_eq)
  qed
  then show ?thesis
    by (simp add: parse_fixed_uint64_def fixed64_pack_def parse_fixed_uint32_pack l del: drop_append)
qed

section \<open>Tags and length prefixes\<close>

text \<open>The digits of a number, seen from the front.\<close>

lemma b128_cases:
  obtains (last) "n < 128" "b128 n = [of_nat n]" "unat (of_nat n :: byte) = n"
  | (more) b where "128 \<le> n" "b128 n = b # b128 (n div 128)" "unat b = n mod 128 + 128"
proof (cases "n < 128")
  case True
  then show thesis using last by (simp add: b128_small)
next
  case False
  then have "b128 n = of_nat (n mod 128 + 128) # b128 (n div 128)" by (simp add: b128_big)
  moreover have "unat (of_nat (n mod 128 + 128) :: byte) = n mod 128 + 128"
    by (rule unat_of_nat_byte) (use mod_less_divisor [of 128 n] in linarith)
  ultimately show thesis using more False by simp
qed

lemma drop_Cons_digit: "drop i data = b # ds \<Longrightarrow> rd data i = Some b \<and> drop (Suc i) data = ds"
  by (metis drop_Suc list.sel(3) nth_via_drop rd_def tl_drop drop_eq_Nil2 list.distinct(1) not_le)

lemma ucast_of_nat_byte: "n < 256 \<Longrightarrow> ucast (of_nat n :: byte) = (of_nat n :: 'a::len word)"
proof -
  assume "n < 256"
  then have "unat (of_nat n :: byte) = n" by (rule unat_of_nat_byte)
  then show ?thesis using of_nat_unat [of "of_nat n :: byte", where 'a = "'a word"] by simp
qed

lemma tag_loop_b128:
  assumes "drop i data = b128 n @ r" "i + length (b128 n) \<le> max_rv"
  shows "tag_loop data max_rv i tag shift =
     Some (i + length (b128 n), Some (tag OR push_bit shift (of_nat n)))"
  using assms
proof (induction n arbitrary: i tag shift rule: b128.induct)
  case (1 n)
  show ?case
  proof (cases rule: b128_cases [of n])
    case last
    with "1.prems" drop_Cons_digit [of i data _ r] show ?thesis
      by (subst tag_loop.simps) (simp add: and_128_eq_0_unat ucast_of_nat_byte)
  next
    case (more b)
    then have d: "rd data i = Some b" "drop (Suc i) data = b128 (n div 128) @ r"
      using drop_Cons_digit [of i data b "b128 (n div 128) @ r"] "1.prems" by auto
    have "push_bit shift (of_nat (n mod 128)) OR push_bit (shift + 7) (of_nat (n div 128)) =
        (push_bit shift (of_nat n) :: u32)"
      using arg_cong [OF digit_step [of n], of "push_bit shift"]
      by (simp only: push_bit_or push_bit_push_bit add.commute)
    with more d "1.prems" "1.IH" [of "Suc i" "tag OR push_bit shift (of_nat (n mod 128))" "shift + 7"]
    show ?thesis
      by (subst tag_loop.simps) (simp add: and_128_eq_0_unat ucast_digit or.assoc del: and_128_eq_0)
  qed
qed

text \<open>
  The wire type sits in the three low bits of the first byte, where the packer of a field puts it
  with \<open>out[0] |= type\<close>.
\<close>

definition or_wire_type :: "byte \<Rightarrow> byte list \<Rightarrow> byte list" where
  "or_wire_type wt out = (case out of [] \<Rightarrow> [] | b # r \<Rightarrow> (b OR wt) # r)"

lemma of_nat_or_low:
  assumes "k < 8"
  shows "(of_nat (8 * m) :: byte) OR of_nat k = of_nat (8 * m + k)"
  using or_shifted [of k 3 "of_nat m :: byte"] assms
  by (simp add: or.commute push_bit_eq_mult algebra_simps)

lemma split_tag:
  assumes "k < 8"
  shows "(8 * i + k) mod 128 = 8 * (i mod 16) + k" "(8 * i + k) div 128 = i div 16"
    "(8 * i + k) div 8 = i" "(8 * i + k) mod 8 = (k :: nat)"
proof -
  have "i = i mod 16 + i div 16 * 16" by simp
  then have e: "8 * i + k = 8 * (i mod 16) + k + (i div 16) * 128" by linarith
  have "i mod 16 < 16" by simp
  then have l: "8 * (i mod 16) + k < 128" using assms by linarith
  show "(8 * i + k) mod 128 = 8 * (i mod 16) + k"
    by (subst e) (simp only: mod_mult_self1 mod_less l)
  show "(8 * i + k) div 128 = i div 16"
    by (subst e) (use l in \<open>simp add: div_mult_self1\<close>)
  show "(8 * i + k) div 8 = i" "(8 * i + k) mod 8 = k" using assms by simp_all
qed

lemma or_wire_type_b128:
  assumes "k < 8"
  shows "or_wire_type (of_nat k) (b128 (8 * i)) = b128 (8 * i + k)"
proof (cases "8 * i < 128")
  case True
  then have "i \<le> 15" by linarith
  then have "8 * i + k < 128" using assms by linarith
  with True show ?thesis
    using of_nat_or_low [OF assms, of i] by (simp add: or_wire_type_def b128_small)
next
  case False
  have "b128 (8 * i) = of_nat (8 * (i mod 16) + 128) # b128 (i div 16)"
    using False split_tag [of 0 i] by (simp add: b128_big)
  moreover have "b128 (8 * i + k) = of_nat (8 * (i mod 16) + k + 128) # b128 (i div 16)"
    using False split_tag [OF assms, of i] by (simp add: b128_big)
  moreover have "8 * (i mod 16) + 128 = 8 * (i mod 16 + 16)" "8 * (i mod 16) + k + 128 = 8 * (i mod 16 + 16) + k"
    by simp_all
  ultimately show ?thesis
    using of_nat_or_low [OF assms, of "i mod 16 + 16"] by (simp only: or_wire_type_def list.case)
qed

lemma low_bits: "unat b mod 8 = k \<Longrightarrow> (b::byte) AND 7 = of_nat k"
proof -
  assume k: "unat b mod 8 = k"
  have seven: "(7 :: byte) = mask 3" by (simp add: mask_eq_exp_minus_1)
  have "of_nat (take_bit 3 (unat b)) = (take_bit 3 (of_nat (unat b)) :: byte)"
    by (simp only: take_bit_of_nat)
  also have "\<dots> = b AND 7" by (simp only: seven take_bit_eq_mask of_nat_unat ucast_id)
  finally show ?thesis using k by (simp add: take_bit_eq_mod)
qed

lemma drop_3_of_nat: "d < 128 \<Longrightarrow> drop_bit 3 (of_nat d :: u32) = of_nat (d div 8)"
proof -
  assume d: "d < 128"
  then have "d div 8 < 16" by (simp add: div_less_iff_less_mult)
  with d have "unat (drop_bit 3 (of_nat d :: u32)) = unat (of_nat (d div 8) :: u32)"
    by (simp add: unat_drop_bit_div unat_of_nat)
  then show ?thesis by (simp only: word_unat_eq_iff)
qed

text \<open>The tag collected from the first byte and from the others.\<close>

lemma tag_digits:
  "of_nat (n mod 128 div 8) OR push_bit 4 (of_nat (n div 128)) = (of_nat (n div 8) :: u32)"
proof -
  have "of_nat (n mod 128 div 8) OR push_bit 4 (of_nat (n div 128)) =
      of_nat (n mod 128 div 8) + (of_nat (n div 128) :: u32) * 2 ^ 4"
    by (rule or_shifted) (use mod_less_divisor [of 128 n] in \<open>simp add: div_less_iff_less_mult\<close>)
  also have "\<dots> = of_nat (n mod 128 div 8 + n div 128 * 2 ^ 4)"
    by (simp only: of_nat_add of_nat_mult of_nat_power of_nat_numeral)
  also have "n mod 128 div 8 + n div 128 * 2 ^ 4 = (n mod 128 + (n div 128 * 16) * 8) div 8"
    by (simp only: div_mult_self1) simp
  also have "n mod 128 + (n div 128 * 16) * 8 = n" by simp
  finally show ?thesis .
qed

lemma parse_tag_b128:
  assumes "8 * unat tag + k < 128 ^ 5" "k < 8" "length (b128 (8 * unat tag + k)) \<le> len"
  shows "parse_tag_and_wiretype len (b128 (8 * unat tag + k) @ r) =
    Some (length (b128 (8 * unat tag + k)), Some tag, of_nat k)"
proof -
  define n where "n = 8 * unat tag + k"
  have n: "n div 8 = unat tag" "n mod 8 = k" "n mod 128 = 8 * (unat tag mod 16) + k"
    using split_tag [OF assms(2), of "unat tag"] by (simp_all add: n_def)
  have l5: "length (b128 n) \<le> 5" using assms(1) by (subst length_b128_le) (simp_all add: n_def)
  show ?thesis
  proof (cases rule: b128_cases [of n])
    case last
    with n low_bits [of "of_nat n" k] drop_3_of_nat [of n] show ?thesis
      by (simp add: parse_tag_and_wiretype_def Let_def and_128_eq_0_unat ucast_digit flip: n_def)
  next
    case (more b)
    have "tag_loop (b # b128 (n div 128) @ r) (if len > 5 then 5 else len) 1 (of_nat (n mod 128 div 8)) 4 =
       Some (1 + length (b128 (n div 128)),
         Some (of_nat (n mod 128 div 8) OR push_bit 4 (of_nat (n div 128))))"
      using l5 more assms(3) by (intro tag_loop_b128) (simp_all flip: n_def)
    moreover have "unat b mod 8 = k"
    proof -
      have "unat b = 8 * (unat tag mod 16 + 16) + k" using more(3) n(3) by simp
      then show ?thesis by (simp only: split_tag(4) [OF assms(2)])
    qed
    ultimately show ?thesis
      using more n(1) low_bits [of b k] drop_3_of_nat [of "n mod 128"]
      by (simp add: parse_tag_and_wiretype_def Let_def tag_digits and_128_eq_0_unat ucast_digit
          del: and_128_eq_0 flip: n_def)
  qed
qed

lemma scan_prefix_loop_b128:
  assumes "drop i data = b128 n @ r" "i + length (b128 n) \<le> hdr_max"
  shows "scan_prefix_loop data hdr_max i val shift =
     Some (i + length (b128 n) - 1, val OR push_bit shift (of_nat n))"
  using assms
proof (induction n arbitrary: i val shift rule: b128.induct)
  case (1 n)
  show ?case
  proof (cases rule: b128_cases [of n])
    case last
    with "1.prems" drop_Cons_digit [of i data _ r] show ?thesis
      by (subst scan_prefix_loop.simps) (simp add: and_128_eq_0_unat ucast_digit)
  next
    case (more b)
    then have d: "rd data i = Some b" "drop (Suc i) data = b128 (n div 128) @ r"
      using drop_Cons_digit [of i data b "b128 (n div 128) @ r"] "1.prems" by auto
    have "push_bit shift (of_nat (n mod 128)) OR push_bit (shift + 7) (of_nat (n div 128)) =
        (push_bit shift (of_nat n) :: u32)"
      using arg_cong [OF digit_step [of n], of "push_bit shift"]
      by (simp only: push_bit_or push_bit_push_bit add.commute)
    with more d "1.prems" "1.IH" [of "Suc i" "val OR push_bit shift (of_nat (n mod 128))" "shift + 7"]
    show ?thesis
      by (subst scan_prefix_loop.simps)
         (simp add: and_128_eq_0_unat ucast_digit or.assoc del: and_128_eq_0)
  qed
qed

lemma scan_length_prefixed_b128:
  assumes n: "length (b128 n) + n \<le> unat len"
  shows "scan_length_prefixed_data len (b128 n @ r) =
     Some (of_nat (length (b128 n) + n), Some (length (b128 n)))"
proof -
  let ?l = "length (b128 n)"
  have "n < 128 ^ 5" using n unat_u32 [of len] by (simp del: unat_u32)
  then have l5: "?l \<le> 5" by (subst length_b128_le) simp_all
  have lt: "?l + n < 2 ^ 32" using n unat_u32 [of len] by (simp del: unat_u32)
  define hdr_max where "hdr_max = (if len < 5 then unat len else 5)"
  have hm: "?l \<le> hdr_max" using l5 n by (simp add: hdr_max_def)
  obtain k where k: "?l = Suc k" by (cases "b128 n") auto
  have "scan_prefix_loop (b128 n @ r) hdr_max 0 0 0 = Some (k, of_nat n)"
    using scan_prefix_loop_b128 [of 0 "b128 n @ r" n r hdr_max 0 0] hm k by simp
  moreover have "(of_nat (Suc k) + of_nat n :: u32) = of_nat (?l + n)" by (simp add: k)
  moreover have "\<not> (of_nat (?l + n) :: u32) > len"
    using n lt by (simp only: not_less word_le_nat_alt unat_of_nat take_bit_nat_eq_self) (simp add: unat_of_nat)
  ultimately show ?thesis
    using k hm unfolding scan_length_prefixed_data_def Let_def hdr_max_def [symmetric]
    by (simp del: of_nat_Suc of_nat_add)
qed

lemma parse_field_header:
  assumes "wt < 8"
  shows "parse_tag_and_wiretype (length (tag_pack n) + k) (or_wire_type wt (tag_pack n) @ r) =
    Some (length (tag_pack n), Some n, wt)"
proof -
  have k: "unat wt < 8" using assms by (simp add: word_less_nat_alt)
  have b: "or_wire_type wt (tag_pack n) = b128 (8 * unat n + unat wt)"
    using or_wire_type_b128 [OF k, of "unat n"] by (simp add: tag_pack_b128)
  have "length (or_wire_type wt (tag_pack n)) = length (tag_pack n)"
    by (simp add: or_wire_type_def split: list.split)
  moreover have "8 * unat n + unat wt < 128 ^ 5"
    using unat_u32 [of n] k by (simp del: unat_u32)
  ultimately show ?thesis
    using parse_tag_b128 [of n "unat wt" "length (tag_pack n) + k" r] k b by simp
qed

section \<open>Properties of the scalar layer\<close>

text \<open>
  C26: Every integer packer writes exactly the base-128 digits of a number: the value itself for
  unsigned integers, its 64-bit two's complement for a plain signed one, its zigzag image for the
  signed ones of the messages, and eight times the field number for a tag.
\<close>

theorem packers_write_base128:
  "uint32_pack v = b128 (unat v) \<and> uint64_pack w = b128 (unat w) \<and>
   int32_pack v = b128 (unat (scast v :: u64)) \<and>
   sint32_pack v = b128 (nat (if sint v < 0 then - 2 * sint v - 1 else 2 * sint v)) \<and>
   sint64_pack w = b128 (nat (if sint w < 0 then - 2 * sint w - 1 else 2 * sint w)) \<and>
   tag_pack v = b128 (8 * unat v)"
proof -
  have "uint (zigzag32 v) = zz (sint v)" "uint (zigzag64 w) = zz (sint w)"
    by (simp_all add: zigzag32_def zigzag64_def zigzag_word uint_zz [of 31] uint_zz [of 63])
  then have "unat (zigzag32 v) = nat (zz (sint v))" "unat (zigzag64 w) = nat (zz (sint w))"
    by (simp_all only: unat_eq_nat_uint)
  then show ?thesis
    by (simp add: uint32_pack_b128 uint64_pack_b128 int32_pack_b128 sint32_pack_def sint64_pack_def
        tag_pack_b128 zz_def algebra_simps)
qed

text \<open>
  The size functions that lay out a message before it is packed agree with the packers: each
  returns the number of bytes its packer writes, for every value, the ten bytes of a negative
  integer included.
\<close>

theorem computed_sizes_exact:
  "uint32_size v = length (uint32_pack v) \<and> int32_size v = length (int32_pack v) \<and>
   sint32_size v = length (sint32_pack v) \<and> uint64_size w = length (uint64_pack w) \<and>
   sint64_size w = length (sint64_pack w) \<and> get_tag_size v = length (tag_pack v)"
  by (simp add: uint32_size_length int32_size_length uint64_size_length get_tag_size_length
      sint32_size_def sint32_pack_def sint64_size_def sint64_pack_def)

text \<open>
  C27: Every scalar that is packed parses back to itself, whatever follows it: varints after
  \<open>scan_varint\<close> has found their end, signed integers through the sign extension or the zigzag
  map, and fixed width values.
\<close>

theorem scalars_roundtrip:
  "scan_varint (length (uint32_pack v) + k) (uint32_pack v @ r) = Some (length (uint32_pack v)) \<and>
   parse_uint32 (length (uint32_pack v)) (uint32_pack v @ r) = Some v \<and>
   scan_varint (length (int32_pack v) + k) (int32_pack v @ r) = Some (length (int32_pack v)) \<and>
   parse_int32 (length (int32_pack v)) (int32_pack v @ r) = Some v \<and>
   map_option unzigzag32 (parse_uint32 (length (sint32_pack v)) (sint32_pack v @ r)) = Some v \<and>
   scan_varint (length (uint64_pack w) + k) (uint64_pack w @ r) = Some (length (uint64_pack w)) \<and>
   parse_uint64 (length (uint64_pack w)) (uint64_pack w @ r) = Some w \<and>
   map_option unzigzag64 (parse_uint64 (length (sint64_pack w)) (sint64_pack w @ r)) = Some w \<and>
   parse_fixed_uint32 (fixed32_pack v @ r) = Some v \<and>
   parse_fixed_uint64 (fixed64_pack w @ r) = Some w \<and>
   parse_boolean 1 (boolean_pack v @ r) = Some (v \<noteq> 0)"
proof -
  have l: "length (b128 (unat v)) \<le> 10" for v :: u32 using length_b128_u32 [of v] by simp
  have "length (b128 (unat (scast v :: u64))) \<le> 10" by (rule length_b128_u64)
  then show ?thesis
    using parse_int32_pack [of v r]
    by (auto simp: uint32_pack_b128 uint64_pack_b128 int32_pack_b128 sint32_pack_def sint64_pack_def
        scan_varint_b128 parse_uint32_b128 parse_uint64_b128 length_b128_u32 length_b128_u64 l
        unzigzag32_zigzag32 unzigzag64_zigzag64 parse_fixed_uint32_pack parse_fixed_uint64_pack
        boolean_pack_def)
qed

text \<open>
  The header of a field, its packed tag with the wire type in the low bits of the first byte,
  is parsed back to the field number, the wire type and its own length.
\<close>

theorem field_header_roundtrip:
  assumes "wt < 8"
  shows "parse_tag_and_wiretype (length (tag_pack n) + k) (or_wire_type wt (tag_pack n) @ r) =
    Some (length (tag_pack n), Some n, wt)"
  using assms by (rule parse_field_header)

theorem field_header_roundtrip_witness:
  "parse_tag_and_wiretype (length (tag_pack 300) + 1) (or_wire_type 2 (tag_pack 300) @ [7]) =
    Some (length (tag_pack 300), Some 300, 2)"
  by (rule field_header_roundtrip) simp

text \<open>
  The length prefix of a string that is completely there is recognised with its own length
  and the total length of the field.
\<close>

theorem length_prefix_roundtrip:
  assumes "length (string_pack (Some cs)) + k < 2 ^ 32"
  shows "scan_length_prefixed_data (of_nat (length (string_pack (Some cs)) + k)) (string_pack (Some cs) @ r) =
    Some (of_nat (length (string_pack (Some cs))), Some (uint32_size (of_nat (length cs))))"
proof -
  let ?n = "unat (of_nat (length cs) :: u32)"
  have "length cs < 2 ^ 32" using assms by (simp add: string_pack_def)
  then have n: "?n = length cs" by (simp add: unat_of_nat)
  have s: "string_pack (Some cs) = b128 (length cs) @ cs"
    by (simp add: string_pack_def uint32_pack_b128 n)
  have "length (b128 (length cs)) + length cs \<le> unat (of_nat (length (b128 (length cs) @ cs) + k) :: u32)"
    using assms by (simp add: unat_of_nat s del: of_nat_add)
  from scan_length_prefixed_b128 [OF this, of "cs @ r"] show ?thesis
    by (simp add: s uint32_size_length uint32_pack_b128 n)
qed

theorem length_prefix_roundtrip_witness:
  "scan_length_prefixed_data (of_nat (length (string_pack (Some [104, 105])) + 4))
     (string_pack (Some [104, 105]) @ [1, 2, 3, 4]) =
    Some (of_nat (length (string_pack (Some [104, 105]))), Some (uint32_size (of_nat (length [104, 105 :: byte]))))"
  by (rule length_prefix_roundtrip) (simp add: string_pack_def uint32_pack_def)

text \<open>
  The check that a length-delimited field is completely there wraps around: a field of five
  bytes of length prefix that announces \<open>2 ^ 32 - 1\<close> bytes is accepted in any buffer, with a total
  length of four bytes, less than its own prefix.
\<close>

theorem length_check_wraps:
  assumes "5 \<le> len"
  shows "scan_length_prefixed_data len ([0xff, 0xff, 0xff, 0xff, 0x0f] @ r) = Some (4, Some 5)"
proof -
  have e: "b128 4294967295 = [0xff, 0xff, 0xff, 0xff, 0x0f]"
    by (simp add: b128.simps)
  have "scan_prefix_loop ([0xff, 0xff, 0xff, 0xff, 0x0f] @ r) 5 0 0 0 = Some (4, 4294967295)"
    using scan_prefix_loop_b128 [of 0 "[0xff, 0xff, 0xff, 0xff, 0x0f] @ r" 4294967295 r 5 0 0]
    by (simp add: e)
  moreover have "\<not> len < 4" "\<not> len < 5" using assms by (simp_all add: word_less_nat_alt word_le_nat_alt)
  moreover have w: "(4294967300 :: u32) = 4" by simp
  ultimately show ?thesis by (simp add: scan_length_prefixed_data_def w)
qed

theorem length_check_wraps_witness:
  "scan_length_prefixed_data 6 ([0xff, 0xff, 0xff, 0xff, 0x0f] @ [0]) = Some (4, Some 5)"
  by (rule length_check_wraps) simp

end
