(* ===== verification/Protobuf_Message.thy ===== *)
theory Protobuf_Message
  imports Protobuf_Wire
begin

text \<open>
  The descriptor-driven part of \<^verbatim>\<open>burba/sys/protobuf-c/protobuf-c.c\<close>: the size of a message,
  packing and unpacking.

  A message is the list of its cells, in the order of the fields of its descriptor. A cell is the
  storage the descriptor's \<open>offset\<close> and \<open>quantifier_offset\<close> point to: one value with its
  \<open>has_\<close> flag, or the count and the array of a repeated field, whose elements are
  \<^term>\<open>None\<close> until they are written. A string pointer is null, the field's default or a heap
  object. Fields of type MESSAGE and members of a oneof do not occur in the messages of the
  program and are outside the model; allocation succeeds, and freeing is not observed.

  Operations return \<^term>\<open>None\<close> when the code would leave the memory it was given. The unpacker's
  null result is the value \<open>Some None\<close>.
\<close>

section \<open>Descriptors and messages\<close>

datatype ProtobufCLabel = LABEL_REQUIRED | LABEL_OPTIONAL | LABEL_REPEATED

datatype ProtobufCType =
  TYPE_INT32 | TYPE_SINT32 | TYPE_SFIXED32 | TYPE_INT64 | TYPE_SINT64 | TYPE_SFIXED64
  | TYPE_UINT32 | TYPE_FIXED32 | TYPE_UINT64 | TYPE_FIXED64 | TYPE_FLOAT | TYPE_DOUBLE
  | TYPE_BOOL | TYPE_ENUM | TYPE_STRING | TYPE_BYTES

datatype ProtobufCWireType = WIRE_VARINT | WIRE_64BIT | WIRE_LENGTH_PREFIXED | WIRE_32BIT

fun wire_code :: "ProtobufCWireType \<Rightarrow> byte" where
  "wire_code WIRE_VARINT = 0"
| "wire_code WIRE_64BIT = 1"
| "wire_code WIRE_LENGTH_PREFIXED = 2"
| "wire_code WIRE_32BIT = 5"

datatype cstr = Null | Default | Heap "byte list"

datatype pval = V32 u32 | V64 u64 | VBool u32 | VStr cstr | VBytes "byte list"

datatype cell = Single u32 pval | Rep nat "pval option list"

record field_desc =
  fd_name :: string
  fd_id :: u32
  fd_label :: ProtobufCLabel
  fd_type :: ProtobufCType
  has_quantifier :: bool
  default_value :: "pval option"
  flag_packed :: bool

record int_range =
  start_value :: int
  orig_index :: int

record msg_desc =
  m_name :: string
  m_fields :: "field_desc list"
  m_ranges :: "int_range list"
  m_init :: "cell list"

record unknown_field =
  u_tag :: u32
  u_wire :: byte
  u_data :: "byte list"

record pmessage =
  cells :: "cell list"
  unknown_fields :: "unknown_field list"

text \<open>What a pointer to a member is read as.\<close>

fun as32 :: "pval \<Rightarrow> u32 option" where
  "as32 (V32 x) = Some x" | "as32 _ = None"

fun as64 :: "pval \<Rightarrow> u64 option" where
  "as64 (V64 x) = Some x" | "as64 _ = None"

fun asbool :: "pval \<Rightarrow> u32 option" where
  "asbool (VBool x) = Some x" | "asbool _ = None"

fun asstr :: "pval \<Rightarrow> cstr option" where
  "asstr (VStr s) = Some s" | "asstr _ = None"

fun asbytes :: "pval \<Rightarrow> byte list option" where
  "asbytes (VBytes b) = Some b" | "asbytes _ = None"

text \<open>The characters a \<open>char *\<close> of a field points to, up to the NUL.\<close>

definition chars :: "byte list \<Rightarrow> byte list" where
  "chars bs = takeWhile (\<lambda>b. b \<noteq> 0) bs"

fun str_chars :: "field_desc \<Rightarrow> cstr \<Rightarrow> byte list option" where
  "str_chars f Null = None"
| "str_chars f (Heap bs) = Some (chars bs)"
| "str_chars f Default =
     (case default_value f of Some (VStr (Heap bs)) \<Rightarrow> Some (chars bs) | _ \<Rightarrow> None)"

section \<open>The size of a message\<close>

definition required_field_get_packed_size :: "field_desc \<Rightarrow> pval \<Rightarrow> nat option" where
  "required_field_get_packed_size f v =
     (let rv = get_tag_size (fd_id f) in
      case fd_type f of
        TYPE_SINT32 \<Rightarrow> do { x \<leftarrow> as32 v; Some (rv + sint32_size x) }
      | TYPE_ENUM \<Rightarrow> do { x \<leftarrow> as32 v; Some (rv + int32_size x) }
      | TYPE_INT32 \<Rightarrow> do { x \<leftarrow> as32 v; Some (rv + int32_size x) }
      | TYPE_UINT32 \<Rightarrow> do { x \<leftarrow> as32 v; Some (rv + uint32_size x) }
      | TYPE_SINT64 \<Rightarrow> do { x \<leftarrow> as64 v; Some (rv + sint64_size x) }
      | TYPE_INT64 \<Rightarrow> do { x \<leftarrow> as64 v; Some (rv + uint64_size x) }
      | TYPE_UINT64 \<Rightarrow> do { x \<leftarrow> as64 v; Some (rv + uint64_size x) }
      | TYPE_SFIXED32 \<Rightarrow> Some (rv + 4)
      | TYPE_FIXED32 \<Rightarrow> Some (rv + 4)
      | TYPE_SFIXED64 \<Rightarrow> Some (rv + 8)
      | TYPE_FIXED64 \<Rightarrow> Some (rv + 8)
      | TYPE_BOOL \<Rightarrow> Some (rv + 1)
      | TYPE_FLOAT \<Rightarrow> Some (rv + 4)
      | TYPE_DOUBLE \<Rightarrow> Some (rv + 8)
      | TYPE_STRING \<Rightarrow> do {
          s \<leftarrow> asstr v;
          let len = (case str_chars f s of Some cs \<Rightarrow> length cs | None \<Rightarrow> 0);
          Some (rv + uint32_size (of_nat len) + len) }
      | TYPE_BYTES \<Rightarrow> do {
          bd \<leftarrow> asbytes v;
          let len = length bd;
          Some (rv + uint32_size (of_nat len) + len) })"

definition optional_field_get_packed_size :: "field_desc \<Rightarrow> u32 \<Rightarrow> pval \<Rightarrow> nat option" where
  "optional_field_get_packed_size f has v =
     (if fd_type f = TYPE_STRING then do {
        ptr \<leftarrow> asstr v;
        if ptr = Null \<or> ptr = Default then Some 0 else required_field_get_packed_size f v }
      else if has = 0 then Some 0 else required_field_get_packed_size f v)"

text \<open>The first \<open>count\<close> elements of an array.\<close>

definition elements :: "nat \<Rightarrow> pval option list \<Rightarrow> pval list option" where
  "elements count arr = (if count \<le> length arr then those (take count arr) else None)"

definition repeated_field_get_packed_size :: "field_desc \<Rightarrow> nat \<Rightarrow> pval option list \<Rightarrow> nat option" where
  "repeated_field_get_packed_size f count arr =
     (if count = 0 then Some 0
      else do {
        let header_size = get_tag_size (fd_id f) * (if flag_packed f then 1 else count);
        vs \<leftarrow> elements count arr;
        rv \<leftarrow> (case fd_type f of
            TYPE_SINT32 \<Rightarrow> map_option (\<lambda>xs. sum_list (map sint32_size xs)) (those (map as32 vs))
          | TYPE_ENUM \<Rightarrow> map_option (\<lambda>xs. sum_list (map int32_size xs)) (those (map as32 vs))
          | TYPE_INT32 \<Rightarrow> map_option (\<lambda>xs. sum_list (map int32_size xs)) (those (map as32 vs))
          | TYPE_UINT32 \<Rightarrow> map_option (\<lambda>xs. sum_list (map uint32_size xs)) (those (map as32 vs))
          | TYPE_SINT64 \<Rightarrow> map_option (\<lambda>xs. sum_list (map sint64_size xs)) (those (map as64 vs))
          | TYPE_INT64 \<Rightarrow> map_option (\<lambda>xs. sum_list (map uint64_size xs)) (those (map as64 vs))
          | TYPE_UINT64 \<Rightarrow> map_option (\<lambda>xs. sum_list (map uint64_size xs)) (those (map as64 vs))
          | TYPE_SFIXED32 \<Rightarrow> Some (4 * count)
          | TYPE_FIXED32 \<Rightarrow> Some (4 * count)
          | TYPE_FLOAT \<Rightarrow> Some (4 * count)
          | TYPE_SFIXED64 \<Rightarrow> Some (8 * count)
          | TYPE_FIXED64 \<Rightarrow> Some (8 * count)
          | TYPE_DOUBLE \<Rightarrow> Some (8 * count)
          | TYPE_BOOL \<Rightarrow> Some count
          | TYPE_STRING \<Rightarrow> do {
              ss \<leftarrow> those (map asstr vs);
              css \<leftarrow> those (map (str_chars f) ss);
              Some (sum_list (map (\<lambda>cs. uint32_size (of_nat (length cs)) + length cs) css)) }
          | TYPE_BYTES \<Rightarrow>
              map_option (\<lambda>bs. sum_list (map (\<lambda>b. uint32_size (of_nat (length b)) + length b) bs))
                (those (map asbytes vs)));
        let header_size = header_size + (if flag_packed f then uint32_size (of_nat rv) else 0);
        Some (header_size + rv)
      })"

definition unknown_field_get_packed_size :: "unknown_field \<Rightarrow> nat" where
  "unknown_field_get_packed_size u = get_tag_size (u_tag u) + length (u_data u)"

definition field_get_packed_size :: "field_desc \<Rightarrow> cell \<Rightarrow> nat option" where
  "field_get_packed_size f c =
     (case (fd_label f, c) of
        (LABEL_REQUIRED, Single has v) \<Rightarrow> required_field_get_packed_size f v
      | (LABEL_OPTIONAL, Single has v) \<Rightarrow> optional_field_get_packed_size f has v
      | (LABEL_REPEATED, Rep n arr) \<Rightarrow> repeated_field_get_packed_size f n arr
      | _ \<Rightarrow> None)"

fun fields_get_packed_size :: "field_desc list \<Rightarrow> cell list \<Rightarrow> nat option" where
  "fields_get_packed_size [] [] = Some 0"
| "fields_get_packed_size (f # fs) (c # cs) =
     do { a \<leftarrow> field_get_packed_size f c; b \<leftarrow> fields_get_packed_size fs cs; Some (a + b) }"
| "fields_get_packed_size _ _ = None"

definition protobuf_c_message_get_packed_size :: "msg_desc \<Rightarrow> pmessage \<Rightarrow> nat option" where
  "protobuf_c_message_get_packed_size desc msg =
     do {
       rv \<leftarrow> fields_get_packed_size (m_fields desc) (cells msg);
       Some (rv + sum_list (map unknown_field_get_packed_size (unknown_fields msg)))
     }"

section \<open>Packing\<close>

definition required_field_pack :: "field_desc \<Rightarrow> pval \<Rightarrow> byte list option" where
  "required_field_pack f v =
     (let out = tag_pack (fd_id f);
          varint = or_wire_type (wire_code WIRE_VARINT) out;
          fix32 = or_wire_type (wire_code WIRE_32BIT) out;
          fix64 = or_wire_type (wire_code WIRE_64BIT) out;
          prefixed = or_wire_type (wire_code WIRE_LENGTH_PREFIXED) out in
      case fd_type f of
        TYPE_SINT32 \<Rightarrow> do { x \<leftarrow> as32 v; Some (varint @ sint32_pack x) }
      | TYPE_ENUM \<Rightarrow> do { x \<leftarrow> as32 v; Some (varint @ int32_pack x) }
      | TYPE_INT32 \<Rightarrow> do { x \<leftarrow> as32 v; Some (varint @ int32_pack x) }
      | TYPE_UINT32 \<Rightarrow> do { x \<leftarrow> as32 v; Some (varint @ uint32_pack x) }
      | TYPE_SINT64 \<Rightarrow> do { x \<leftarrow> as64 v; Some (varint @ sint64_pack x) }
      | TYPE_INT64 \<Rightarrow> do { x \<leftarrow> as64 v; Some (varint @ uint64_pack x) }
      | TYPE_UINT64 \<Rightarrow> do { x \<leftarrow> as64 v; Some (varint @ uint64_pack x) }
      | TYPE_SFIXED32 \<Rightarrow> do { x \<leftarrow> as32 v; Some (fix32 @ fixed32_pack x) }
      | TYPE_FIXED32 \<Rightarrow> do { x \<leftarrow> as32 v; Some (fix32 @ fixed32_pack x) }
      | TYPE_FLOAT \<Rightarrow> do { x \<leftarrow> as32 v; Some (fix32 @ fixed32_pack x) }
      | TYPE_SFIXED64 \<Rightarrow> do { x \<leftarrow> as64 v; Some (fix64 @ fixed64_pack x) }
      | TYPE_FIXED64 \<Rightarrow> do { x \<leftarrow> as64 v; Some (fix64 @ fixed64_pack x) }
      | TYPE_DOUBLE \<Rightarrow> do { x \<leftarrow> as64 v; Some (fix64 @ fixed64_pack x) }
      | TYPE_BOOL \<Rightarrow> do { x \<leftarrow> asbool v; Some (varint @ boolean_pack x) }
      | TYPE_STRING \<Rightarrow> do { s \<leftarrow> asstr v; Some (prefixed @ string_pack (str_chars f s)) }
      | TYPE_BYTES \<Rightarrow> do { b \<leftarrow> asbytes v; Some (prefixed @ binary_data_pack b) })"

definition optional_field_pack :: "field_desc \<Rightarrow> u32 \<Rightarrow> pval \<Rightarrow> byte list option" where
  "optional_field_pack f has v =
     (if fd_type f = TYPE_STRING then do {
        ptr \<leftarrow> asstr v;
        if ptr = Null \<or> ptr = Default then Some [] else required_field_pack f v }
      else if has = 0 then Some [] else required_field_pack f v)"

definition get_type_min_size :: "ProtobufCType \<Rightarrow> nat" where
  "get_type_min_size t =
     (if t = TYPE_SFIXED32 \<or> t = TYPE_FIXED32 \<or> t = TYPE_FLOAT then 4
      else if t = TYPE_SFIXED64 \<or> t = TYPE_FIXED64 \<or> t = TYPE_DOUBLE then 8 else 1)"

text \<open>
  The elements of a packed field, one after the other; the types without a case are an assertion
  failure.
\<close>

definition packed_payload :: "ProtobufCType \<Rightarrow> pval list \<Rightarrow> byte list option" where
  "packed_payload t vs =
     (case t of
        TYPE_SFIXED32 \<Rightarrow> map_option (concat \<circ> map fixed32_pack) (those (map as32 vs))
      | TYPE_FIXED32 \<Rightarrow> map_option (concat \<circ> map fixed32_pack) (those (map as32 vs))
      | TYPE_FLOAT \<Rightarrow> map_option (concat \<circ> map fixed32_pack) (those (map as32 vs))
      | TYPE_SFIXED64 \<Rightarrow> map_option (concat \<circ> map fixed64_pack) (those (map as64 vs))
      | TYPE_FIXED64 \<Rightarrow> map_option (concat \<circ> map fixed64_pack) (those (map as64 vs))
      | TYPE_DOUBLE \<Rightarrow> map_option (concat \<circ> map fixed64_pack) (those (map as64 vs))
      | TYPE_ENUM \<Rightarrow> map_option (concat \<circ> map int32_pack) (those (map as32 vs))
      | TYPE_INT32 \<Rightarrow> map_option (concat \<circ> map int32_pack) (those (map as32 vs))
      | TYPE_SINT32 \<Rightarrow> map_option (concat \<circ> map sint32_pack) (those (map as32 vs))
      | TYPE_SINT64 \<Rightarrow> map_option (concat \<circ> map sint64_pack) (those (map as64 vs))
      | TYPE_UINT32 \<Rightarrow> map_option (concat \<circ> map uint32_pack) (those (map as32 vs))
      | TYPE_INT64 \<Rightarrow> map_option (concat \<circ> map uint64_pack) (those (map as64 vs))
      | TYPE_UINT64 \<Rightarrow> map_option (concat \<circ> map uint64_pack) (those (map as64 vs))
      | TYPE_BOOL \<Rightarrow> map_option (concat \<circ> map boolean_pack) (those (map asbool vs))
      | TYPE_STRING \<Rightarrow> None
      | TYPE_BYTES \<Rightarrow> None)"

text \<open>
  A packed field is written behind a gap for the smallest possible length and moved by one byte
  when the length needs one more; the code asserts that it never needs more than that.
\<close>

definition repeated_field_pack :: "field_desc \<Rightarrow> nat \<Rightarrow> pval option list \<Rightarrow> byte list option" where
  "repeated_field_pack f count arr =
     (if flag_packed f then
        (if count = 0 then Some []
         else do {
           let header = or_wire_type (wire_code WIRE_LENGTH_PREFIXED) (tag_pack (fd_id f));
           let min_length = get_type_min_size (fd_type f) * count;
           let length_size_min = uint32_size (of_nat min_length);
           vs \<leftarrow> elements count arr;
           payload \<leftarrow> packed_payload (fd_type f) vs;
           let actual_length_size = uint32_size (of_nat (length payload));
           if length_size_min \<noteq> actual_length_size \<and> actual_length_size \<noteq> length_size_min + 1
           then None
           else Some (header @ uint32_pack (of_nat (length payload)) @ payload)
         })
      else if count = 0 then Some []
      else do {
        vs \<leftarrow> elements count arr;
        outs \<leftarrow> those (map (required_field_pack f) vs);
        Some (concat outs)
      })"

definition unknown_field_pack :: "unknown_field \<Rightarrow> byte list" where
  "unknown_field_pack u = or_wire_type (u_wire u) (tag_pack (u_tag u)) @ u_data u"

definition field_pack :: "field_desc \<Rightarrow> cell \<Rightarrow> byte list option" where
  "field_pack f c =
     (case (fd_label f, c) of
        (LABEL_REQUIRED, Single has v) \<Rightarrow> required_field_pack f v
      | (LABEL_OPTIONAL, Single has v) \<Rightarrow> optional_field_pack f has v
      | (LABEL_REPEATED, Rep n arr) \<Rightarrow> repeated_field_pack f n arr
      | _ \<Rightarrow> None)"

fun fields_pack :: "field_desc list \<Rightarrow> cell list \<Rightarrow> byte list option" where
  "fields_pack [] [] = Some []"
| "fields_pack (f # fs) (c # cs) =
     do { a \<leftarrow> field_pack f c; b \<leftarrow> fields_pack fs cs; Some (a @ b) }"
| "fields_pack _ _ = None"

definition protobuf_c_message_pack :: "msg_desc \<Rightarrow> pmessage \<Rightarrow> byte list option" where
  "protobuf_c_message_pack desc msg =
     do {
       rv \<leftarrow> fields_pack (m_fields desc) (cells msg);
       Some (rv @ concat (map unknown_field_pack (unknown_fields msg)))
     }"

section \<open>The computed size is the packed size\<close>

lemma length_or_wire_type [simp]: "length (or_wire_type wt out) = length out"
  by (simp add: or_wire_type_def split: list.split)

lemma those_Cons: "those (x # xs) = do { a \<leftarrow> x; as \<leftarrow> those xs; Some (a # as) }"
  by (cases x; cases "those xs") simp_all

lemma those_map_bind:
  "those (map (\<lambda>v. do { x \<leftarrow> as v; Some (g x) }) vs) = map_option (map g) (those (map as vs))"
  by (induction vs) (auto simp: those_Cons bind_eq_None_conv map_option_case split: option.splits)

lemma those_length: "those xs = Some ys \<Longrightarrow> length ys = length xs"
  by (induction xs arbitrary: ys) (auto simp: those_Cons bind_eq_Some_conv simp del: those.simps(2))

lemma those_Some_iff: "those xs = Some ys \<longleftrightarrow> xs = map Some ys"
  by (induction xs arbitrary: ys) (auto simp: those_Cons bind_eq_Some_conv map_eq_Cons_conv simp del: those.simps(2))

lemma elements_length: "elements n arr = Some vs \<Longrightarrow> length vs = n"
  by (auto simp: elements_def dest: those_length split: if_splits)

lemmas pack_sizes =
  uint32_size_length uint64_size_length int32_size_length get_tag_size_length
  sint32_size_def sint64_size_def sint32_pack_def sint64_pack_def fixed32_pack_def fixed64_pack_def
  boolean_pack_def string_pack_def binary_data_pack_def

lemma length_null_string: "length (uint32_pack 0) = 1"
  by (simp add: uint32_pack_def)

lemma required_size:
  "required_field_pack f v = Some out \<Longrightarrow> required_field_get_packed_size f v = Some (length out)"
  unfolding required_field_pack_def required_field_get_packed_size_def Let_def
  by (cases "fd_type f"; cases v) (auto simp: pack_sizes length_null_string split: option.splits)

lemma optional_size:
  "optional_field_pack f has v = Some out \<Longrightarrow> optional_field_get_packed_size f has v = Some (length out)"
  unfolding optional_field_pack_def optional_field_get_packed_size_def
  by (cases "asstr v") (auto intro: required_size split: if_splits)

lemma sum_list_const: "(\<And>x. x \<in> set xs \<Longrightarrow> f x = k) \<Longrightarrow> sum_list (map f xs) = k * length xs"
  for k :: nat
  by (induction xs) auto

lemma length_concat_map: "length (concat (map p xs)) = sum_list (map (\<lambda>x. length (p x)) xs)"
  by (simp add: length_concat comp_def)

lemma length_fixed [simp]: "length (fixed32_pack x) = 4" "length (fixed64_pack y) = 8" "length (boolean_pack z) = 1"
  by (simp_all add: fixed32_pack_def fixed64_pack_def boolean_pack_def)

lemmas size_funs =
  ext [OF uint32_size_length] ext [OF uint64_size_length] ext [OF int32_size_length]
  sint32_size_def [abs_def] sint64_size_def [abs_def] sint32_pack_def [abs_def] sint64_pack_def [abs_def]

text \<open>Both loops over the elements of an array, as maps.\<close>

lemma repeated_size_packed:
  assumes "packed_payload (fd_type f) vs = Some payload" "elements count arr = Some vs"
    "flag_packed f" "count \<noteq> 0"
  shows "repeated_field_get_packed_size f count arr =
    Some (get_tag_size (fd_id f) + uint32_size (of_nat (length payload)) + length payload)"
proof -
  have n: "length vs = count" using assms(2) by (rule elements_length)
  then have l32: "those (map g vs) = Some xs \<Longrightarrow> length xs = count" for g :: "pval \<Rightarrow> u32 option" and xs
    by (auto dest: those_length)
  have l64: "those (map g vs) = Some xs \<Longrightarrow> length xs = count" for g :: "pval \<Rightarrow> u64 option" and xs
    using n by (auto dest: those_length)
  show ?thesis
    using assms n
    by (cases "fd_type f") (auto simp: repeated_field_get_packed_size_def packed_payload_def
      length_concat_map sum_list_const size_funs sum_list_triv mult.commute l32 l64)
qed

lemma concat_with_prefix:
  "length (concat (map (\<lambda>x. pre @ p x) xs)) = length pre * length xs + sum_list (map (\<lambda>x. length (p x)) xs)"
  by (induction xs) auto

lemma repeated_size_unpacked:
  assumes "those (map (required_field_pack f) vs) = Some outs" "elements count arr = Some vs"
    "\<not> flag_packed f" "count \<noteq> 0"
    and strings: "\<And>s. fd_type f = TYPE_STRING \<Longrightarrow> VStr s \<in> set vs \<Longrightarrow> str_chars f s \<noteq> None"
  shows "repeated_field_get_packed_size f count arr = Some (length (concat outs))"
proof -
  have n: "length vs = count" using assms(2) by (rule elements_length)
  show ?thesis
  proof (cases "fd_type f = TYPE_STRING")
    case True
    have "those (map (required_field_pack f) vs) = map_option
        (map (\<lambda>s. or_wire_type 2 (tag_pack (fd_id f)) @ string_pack (str_chars f s))) (those (map asstr vs))"
      using True by (simp add: required_field_pack_def [abs_def] those_map_bind)
    with assms(1) obtain ss where ss: "map asstr vs = map Some ss"
      "outs = map (\<lambda>s. or_wire_type 2 (tag_pack (fd_id f)) @ string_pack (str_chars f s)) ss"
      by (auto simp: those_Some_iff)
    have "s \<in> set ss \<Longrightarrow> VStr s \<in> set vs" for s
    proof -
      assume "s \<in> set ss"
      then have "Some s \<in> set (map asstr vs)" by (simp add: ss(1))
      then obtain v where "v \<in> set vs" "asstr v = Some s" by auto
      from \<open>asstr v = Some s\<close> have "v = VStr s" by (cases v) auto
      with \<open>v \<in> set vs\<close> show ?thesis by simp
    qed
    then have there: "s \<in> set ss \<Longrightarrow> \<exists>cs. str_chars f s = Some cs" for s using strings [OF True] by blast
    then have cs: "map (str_chars f) ss = map Some (map (\<lambda>s. the (str_chars f s)) ss)" by auto
    then have "those (map (str_chars f) ss) = Some (map (\<lambda>s. the (str_chars f s)) ss)"
      by (simp only: those_Some_iff)
    moreover have "length (string_pack (str_chars f s)) =
        uint32_size (of_nat (length (the (str_chars f s)))) + length (the (str_chars f s))" if ins: "s \<in> set ss" for s
    proof -
      obtain cs where "str_chars f s = Some cs" using there [OF ins] by blast
      then show ?thesis by (simp add: string_pack_def uint32_size_length)
    qed
    moreover have "those (map asstr vs) = Some ss" using ss(1) by (simp only: those_Some_iff)
    moreover have "length ss = count" using arg_cong [OF ss(1), of length] n by simp
    ultimately show ?thesis
      using assms True ss(2)
      by (simp add: repeated_field_get_packed_size_def concat_with_prefix get_tag_size_length comp_def
          cong: map_cong)
  next
    case False
    have l: "those (map g vs) = Some xs \<Longrightarrow> length xs = count" for g :: "pval \<Rightarrow> 'a option" and xs
      using n by (auto dest: those_length)
    from False show ?thesis
      using assms n
      by (cases "fd_type f") (auto simp: repeated_field_get_packed_size_def required_field_pack_def [abs_def]
        those_map_bind concat_with_prefix sum_list_const sum_list_triv pack_sizes size_funs Let_def l
        dest: those_length)
  qed
qed

text \<open>
  A message the packer accepts: the strings of repeated fields are there, since their lengths are
  taken without a null check.
\<close>

definition strings_there :: "field_desc \<Rightarrow> cell \<Rightarrow> bool" where
  "strings_there f c =
     (case c of Single has v \<Rightarrow> True
      | Rep n arr \<Rightarrow> fd_type f = TYPE_STRING \<longrightarrow>
          list_all (\<lambda>v. case v of Some (VStr s) \<Rightarrow> str_chars f s \<noteq> None | _ \<Rightarrow> True) (take n arr))"

lemma repeated_size:
  assumes "repeated_field_pack f n arr = Some out" "strings_there f (Rep n arr)"
  shows "repeated_field_get_packed_size f n arr = Some (length out)"
proof (cases "n = 0")
  case True
  with assms show ?thesis
    by (auto simp: repeated_field_pack_def repeated_field_get_packed_size_def split: if_splits)
next
  case False
  show ?thesis
  proof (cases "flag_packed f")
    case True
    with False assms(1) obtain vs payload where
      "elements n arr = Some vs" "packed_payload (fd_type f) vs = Some payload"
      "out = or_wire_type (wire_code WIRE_LENGTH_PREFIXED) (tag_pack (fd_id f)) @
         uint32_pack (of_nat (length payload)) @ payload"
      by (auto simp: repeated_field_pack_def Let_def bind_eq_Some_conv split: if_splits)
    with True False show ?thesis
      by (simp add: repeated_size_packed get_tag_size_length uint32_size_length)
  next
    case unpacked: False
    with False assms(1) obtain vs outs where v:
      "elements n arr = Some vs" "those (map (required_field_pack f) vs) = Some outs" "out = concat outs"
      by (auto simp: repeated_field_pack_def Let_def bind_eq_Some_conv split: if_splits)
    from v(1) have "take n arr = map Some vs" by (simp add: elements_def those_Some_iff split: if_splits)
    with assms(2) have "fd_type f = TYPE_STRING \<Longrightarrow> VStr s \<in> set vs \<Longrightarrow> str_chars f s \<noteq> None" for s
      by (auto simp: strings_there_def list_all_iff)
    with v False unpacked show ?thesis by (auto intro!: repeated_size_unpacked)
  qed
qed

lemma field_size:
  "field_pack f c = Some out \<Longrightarrow> strings_there f c \<Longrightarrow> field_get_packed_size f c = Some (length out)"
  unfolding field_pack_def field_get_packed_size_def
  by (cases "fd_label f"; cases c) (auto intro: required_size optional_size repeated_size)

lemma fields_size:
  "fields_pack fs cs = Some out \<Longrightarrow> list_all2 strings_there fs cs \<Longrightarrow>
     fields_get_packed_size fs cs = Some (length out)"
  by (induction fs cs arbitrary: out rule: fields_pack.induct)
     (fastforce simp: bind_eq_Some_conv dest: field_size)+

lemma message_size:
  assumes "protobuf_c_message_pack desc msg = Some out"
    and "list_all2 strings_there (m_fields desc) (cells msg)"
  shows "protobuf_c_message_get_packed_size desc msg = Some (length out)"
proof -
  have "sum_list (map unknown_field_get_packed_size us) = length (concat (map unknown_field_pack us))" for us
    by (induction us) (simp_all add: unknown_field_get_packed_size_def unknown_field_pack_def get_tag_size_length)
  with assms show ?thesis
    by (auto simp: protobuf_c_message_pack_def protobuf_c_message_get_packed_size_def bind_eq_Some_conv
        dest!: fields_size)
qed



end
