(* ===== verification/Protobuf_Unpack.thy ===== *)
theory Protobuf_Unpack
  imports Protobuf_Message
begin

text \<open>
  Unpacking in \<^verbatim>\<open>burba/sys/protobuf-c/protobuf-c.c\<close>: a first pass cuts the input into members,
  counts the elements of repeated fields and marks the required fields it has seen; then the
  arrays are allocated and the members are parsed into them.
\<close>

section \<open>Looking up a field number\<close>

function lookup_loop :: "int_range list \<Rightarrow> int \<Rightarrow> nat \<Rightarrow> nat \<Rightarrow> (int + nat \<times> nat) option" where
  "lookup_loop ranges v n start =
     (if n > 1 then do {
        let mid = start + n div 2;
        r \<leftarrow> rd ranges mid;
        r' \<leftarrow> rd ranges (mid + 1);
        if v < start_value r then lookup_loop ranges v (mid - start) start
        else if v \<ge> start_value r + (orig_index r' - orig_index r)
        then let new_start = mid + 1 in lookup_loop ranges v (start + n - new_start) new_start
        else Some (Inl (v - start_value r + orig_index r))
      } else Some (Inr (n, start)))"
  by auto
termination by (relation "measure (\<lambda>(ranges, v, n, start). n)") auto

declare lookup_loop.simps [simp del]

definition int_range_lookup :: "nat \<Rightarrow> int_range list \<Rightarrow> int \<Rightarrow> int option" where
  "int_range_lookup n_ranges ranges v =
     (if n_ranges = 0 then Some (- 1)
      else do {
        r \<leftarrow> lookup_loop ranges v n_ranges 0;
        case r of
          Inl i \<Rightarrow> Some i
        | Inr (n, start) \<Rightarrow>
            if n > 0 then do {
              r \<leftarrow> rd ranges start;
              r' \<leftarrow> rd ranges (start + 1);
              let start_orig_index = orig_index r;
              let range_size = orig_index r' - start_orig_index;
              if start_value r \<le> v \<and> v < start_value r + range_size
              then Some (v - start_value r + start_orig_index) else Some (- 1)
            } else Some (- 1)
      })"

section \<open>The scan\<close>

record scanned =
  s_tag :: u32
  s_wire :: byte
  s_pref :: nat
  s_field :: "nat option"
  s_len :: u32
  s_data :: "byte list"

record scan_state =
  sc_cells :: "cell list"
  sc_members :: "scanned list"
  sc_bitmap :: "byte list"
  last_field_index :: nat
  n_unknown :: nat
  which_slab :: nat
  in_slab_index :: nat

definition MAX_SCANNED_MEMBER_SLAB :: nat where
  "MAX_SCANNED_MEMBER_SLAB = 32 - 1 - 5 - 4"

definition REQUIRED_FIELD_BITMAP_SET :: "byte list \<Rightarrow> nat \<Rightarrow> byte list" where
  "REQUIRED_FIELD_BITMAP_SET bm i = bm[i div 8 := bm ! (i div 8) OR push_bit (i mod 8) 1]"

definition REQUIRED_FIELD_BITMAP_IS_SET :: "byte list \<Rightarrow> nat \<Rightarrow> bool" where
  "REQUIRED_FIELD_BITMAP_IS_SET bm i = (bm ! (i div 8) AND push_bit (i mod 8) 1 \<noteq> 0)"

fun is_packable_type :: "ProtobufCType \<Rightarrow> bool" where
  "is_packable_type t = (t \<noteq> TYPE_STRING \<and> t \<noteq> TYPE_BYTES)"

text \<open>\<open>None\<close> inside is the error result.\<close>

definition count_packed_elements :: "ProtobufCType \<Rightarrow> u32 \<Rightarrow> byte list \<Rightarrow> nat option option" where
  "count_packed_elements t len data =
     (if t \<in> {TYPE_SFIXED32, TYPE_FIXED32, TYPE_FLOAT} then
        Some (if len mod 4 \<noteq> 0 then None else Some (unat len div 4))
      else if t \<in> {TYPE_SFIXED64, TYPE_FIXED64, TYPE_DOUBLE} then
        Some (if len mod 8 \<noteq> 0 then None else Some (unat len div 8))
      else if t = TYPE_BOOL then Some (Some (unat len))
      else if t \<in> {TYPE_STRING, TYPE_BYTES} then Some None
      else if unat len \<le> length data then Some (Some (max_b128_numbers (take (unat len) data)))
      else None)"

text \<open>
  How long the member behind a header is, by its wire type: the length, and the length of its
  prefix.
\<close>

definition scan_member_length :: "byte \<Rightarrow> u32 \<Rightarrow> byte list \<Rightarrow> (u32 \<times> nat) option option" where
  "scan_member_length wire_type rem at =
     (if wire_type = wire_code WIRE_VARINT then do {
        let max_len = (if rem < 10 then unat rem else 10);
        i \<leftarrow> scan_varint_loop max_len at;
        Some (if i = max_len then None else Some (of_nat (i + 1), 0)) }
      else if wire_type = wire_code WIRE_64BIT then Some (if rem < 8 then None else Some (8, 0))
      else if wire_type = wire_code WIRE_LENGTH_PREFIXED then do {
        (len, pref_len) \<leftarrow> scan_length_prefixed_data rem at;
        if len = 0 then Some None
        else do { p \<leftarrow> pref_len; Some (Some (len, p)) } }
      else if wire_type = wire_code WIRE_32BIT then Some (if rem < 4 then None else Some (4, 0))
      else Some None)"

text \<open>The next free place for a scanned member; \<^term>\<open>None\<close> when there are too many.\<close>

definition next_slab :: "scan_state \<Rightarrow> scan_state option" where
  "next_slab st =
     (if in_slab_index st = 2 ^ (which_slab st + 4) then
        (if which_slab st = MAX_SCANNED_MEMBER_SLAB then None
         else Some (st\<lparr>in_slab_index := 0, which_slab := which_slab st + 1\<rparr>))
      else Some st)"

fun add_count :: "nat \<Rightarrow> cell \<Rightarrow> cell option" where
  "add_count k (Rep n arr) = Some (Rep (n + k) arr)"
| "add_count k (Single h v) = None"

definition count_member :: "field_desc \<Rightarrow> nat \<Rightarrow> scanned \<Rightarrow> cell list \<Rightarrow> cell list option option" where
  "count_member f i tmp cs =
     (if fd_label f = LABEL_REPEATED then do {
        c \<leftarrow> rd cs i;
        k \<leftarrow> (if s_wire tmp = wire_code WIRE_LENGTH_PREFIXED \<and> (flag_packed f \<or> is_packable_type (fd_type f))
             then count_packed_elements (fd_type f) (s_len tmp - of_nat (s_pref tmp)) (drop (s_pref tmp) (s_data tmp))
             else Some (Some 1));
        case k of
          None \<Rightarrow> Some None
        | Some k \<Rightarrow> do { c' \<leftarrow> add_count k c; Some (Some (cs[i := c'])) }
      } else Some (Some cs))"

text \<open>The field of a tag, and the state with the last field and the unknown fields updated.\<close>

definition find_field :: "msg_desc \<Rightarrow> u32 \<Rightarrow> scan_state \<Rightarrow> (nat option \<times> scan_state) option" where
  "find_field desc tag st =
     do {
       last_field \<leftarrow> rd (m_fields desc) (last_field_index st);
       if fd_id last_field \<noteq> tag then do {
         field_index \<leftarrow> int_range_lookup (length (m_ranges desc) - 1) (m_ranges desc) (sint tag);
         if field_index < 0 then Some (None, st\<lparr>n_unknown := n_unknown st + 1\<rparr>)
         else Some (Some (nat field_index), st\<lparr>last_field_index := nat field_index\<rparr>)
       } else Some (Some (last_field_index st), st)
     }"

text \<open>One round of the scan: how many bytes it used, and the new state.\<close>

definition scan_step ::
  "msg_desc \<Rightarrow> u32 \<Rightarrow> byte list \<Rightarrow> scan_state \<Rightarrow> (nat \<times> scan_state) option option" where
  "scan_step desc rem at st =
     do {
       (used, tag, wire_type) \<leftarrow> parse_tag_and_wiretype (unat rem) at;
       case tag of
         None \<Rightarrow> Some None
       | Some tag \<Rightarrow> do {
           (field, st) \<leftarrow> find_field desc tag st;
           fd \<leftarrow> (case field of None \<Rightarrow> Some None | Some i \<Rightarrow> map_option Some (rd (m_fields desc) i));
           let st = (case fd of Some f \<Rightarrow>
                       if fd_label f = LABEL_REQUIRED
                       then st\<lparr>sc_bitmap := REQUIRED_FIELD_BITMAP_SET (sc_bitmap st) (last_field_index st)\<rparr>
                       else st
                     | None \<Rightarrow> st);
           let at = drop used at;
           let rem = rem - of_nat used;
           l \<leftarrow> scan_member_length wire_type rem at;
           case l of
             None \<Rightarrow> Some None
           | Some (len, pref) \<Rightarrow>
               let tmp = \<lparr>s_tag = tag, s_wire = wire_type, s_pref = pref, s_field = field,
                          s_len = len, s_data = at\<rparr> in
               case next_slab st of
                 None \<Rightarrow> Some None
               | Some st \<Rightarrow> do {
                   let st = st\<lparr>sc_members := sc_members st @ [tmp], in_slab_index := in_slab_index st + 1\<rparr>;
                   cs \<leftarrow> (case (fd, field) of
                           (Some f, Some i) \<Rightarrow> count_member f i tmp (sc_cells st)
                         | _ \<Rightarrow> Some (Some (sc_cells st)));
                   case cs of
                     None \<Rightarrow> Some None
                   | Some cs \<Rightarrow> Some (Some (used + unat len, st\<lparr>sc_cells := cs\<rparr>))
                 }
         }
     }"

partial_function (option) scan_loop ::
  "msg_desc \<Rightarrow> u32 \<Rightarrow> byte list \<Rightarrow> scan_state \<Rightarrow> scan_state option option" where
  "scan_loop desc rem at st =
     (if rem > 0 then do {
        r \<leftarrow> scan_step desc rem at st;
        case r of
          None \<Rightarrow> Some None
        | Some (n, st') \<Rightarrow> scan_loop desc (rem - of_nat n) (drop n at) st'
      } else Some (Some st))"

section \<open>Allocating the arrays\<close>

text \<open>\<open>None\<close> is a missing required field.\<close>

fun alloc_fields :: "byte list \<Rightarrow> nat \<Rightarrow> field_desc list \<Rightarrow> cell list \<Rightarrow> cell list option option" where
  "alloc_fields bm i [] [] = Some (Some [])"
| "alloc_fields bm i (f # fs) (c # cs) =
     (case (fd_label f, c) of
        (LABEL_REPEATED, Rep n arr) \<Rightarrow>
          map_option (map_option (\<lambda>r. (if n \<noteq> 0 then Rep 0 (replicate n None) else Rep n arr) # r))
            (alloc_fields bm (i + 1) fs cs)
      | (LABEL_REPEATED, Single h v) \<Rightarrow> None
      | (LABEL_REQUIRED, _) \<Rightarrow>
          if default_value f = None \<and> \<not> REQUIRED_FIELD_BITMAP_IS_SET bm i then Some None
          else map_option (map_option (\<lambda>r. c # r)) (alloc_fields bm (i + 1) fs cs)
      | (LABEL_OPTIONAL, _) \<Rightarrow> map_option (map_option (\<lambda>r. c # r)) (alloc_fields bm (i + 1) fs cs))"
| "alloc_fields bm i _ _ = None"

section \<open>Parsing the members\<close>

text \<open>
  The value a member stands for; \<open>Some None\<close> is the result FALSE. A string or byte field is
  copied from behind its length prefix: a copy of more bytes than there are leaves the input.
\<close>

definition copy_prefixed :: "scanned \<Rightarrow> byte list option" where
  "copy_prefixed m =
     (let n = unat (s_len m - of_nat (s_pref m)); src = drop (s_pref m) (s_data m)
      in if n \<le> length src then Some (take n src) else None)"

definition parse_required_member :: "field_desc \<Rightarrow> scanned \<Rightarrow> pval option option" where
  "parse_required_member f m =
     (let len = unat (s_len m); data = s_data m;
          varint = (s_wire m = wire_code WIRE_VARINT);
          int32 = (if \<not> varint then Some None else do { x \<leftarrow> parse_int32 len data; Some (Some (V32 x)) });
          fixed32 = (if s_wire m \<noteq> wire_code WIRE_32BIT then Some None
                     else do { x \<leftarrow> parse_fixed_uint32 data; Some (Some (V32 x)) });
          int64 = (if \<not> varint then Some None else do { x \<leftarrow> parse_uint64 len data; Some (Some (V64 x)) });
          fixed64 = (if s_wire m \<noteq> wire_code WIRE_64BIT then Some None
                     else do { x \<leftarrow> parse_fixed_uint64 data; Some (Some (V64 x)) }) in
      case fd_type f of
        TYPE_ENUM \<Rightarrow> int32
      | TYPE_INT32 \<Rightarrow> int32
      | TYPE_UINT32 \<Rightarrow> (if \<not> varint then Some None else do { x \<leftarrow> parse_uint32 len data; Some (Some (V32 x)) })
      | TYPE_SINT32 \<Rightarrow> (if \<not> varint then Some None
                        else do { x \<leftarrow> parse_uint32 len data; Some (Some (V32 (unzigzag32 x))) })
      | TYPE_SFIXED32 \<Rightarrow> fixed32
      | TYPE_FIXED32 \<Rightarrow> fixed32
      | TYPE_FLOAT \<Rightarrow> fixed32
      | TYPE_INT64 \<Rightarrow> int64
      | TYPE_UINT64 \<Rightarrow> int64
      | TYPE_SINT64 \<Rightarrow> (if \<not> varint then Some None
                        else do { x \<leftarrow> parse_uint64 len data; Some (Some (V64 (unzigzag64 x))) })
      | TYPE_SFIXED64 \<Rightarrow> fixed64
      | TYPE_FIXED64 \<Rightarrow> fixed64
      | TYPE_DOUBLE \<Rightarrow> fixed64
      | TYPE_BOOL \<Rightarrow> do { b \<leftarrow> parse_boolean len data; Some (Some (VBool (if b then 1 else 0))) }
      | TYPE_STRING \<Rightarrow> (if s_wire m \<noteq> wire_code WIRE_LENGTH_PREFIXED then Some None
                        else do { bs \<leftarrow> copy_prefixed m; Some (Some (VStr (Heap bs))) })
      | TYPE_BYTES \<Rightarrow> (if s_wire m \<noteq> wire_code WIRE_LENGTH_PREFIXED then Some None
                        else do { bs \<leftarrow> copy_prefixed m; Some (Some (VBytes bs)) }))"

text \<open>A write to an array element, with its bounds.\<close>

fun store_elements :: "pval list \<Rightarrow> cell \<Rightarrow> cell option" where
  "store_elements vs (Rep n arr) =
     (if n + length vs \<le> length arr
      then Some (Rep (n + length vs) (take n arr @ map Some vs @ drop (n + length vs) arr)) else None)"
| "store_elements vs (Single h v) = None"

text \<open>The loops over a packed field, one decoder for each type.\<close>

function unpack_varints :: "(nat \<Rightarrow> byte list \<Rightarrow> pval option) \<Rightarrow> nat \<Rightarrow> byte list \<Rightarrow> pval list option option" where
  "unpack_varints dec rem at =
     (if rem > 0 then do {
        s \<leftarrow> scan_varint rem at;
        if s = 0 then Some None
        else do {
          v \<leftarrow> dec s at;
          r \<leftarrow> unpack_varints dec (rem - s) (drop s at);
          Some (map_option (\<lambda>vs. v # vs) r)
        }
      } else Some (Some []))"
  by auto
termination by (relation "measure (\<lambda>(dec, rem, at). rem)") auto

declare unpack_varints.simps [simp del]

fun unpack_fixed :: "(byte list \<Rightarrow> pval option) \<Rightarrow> nat \<Rightarrow> nat \<Rightarrow> byte list \<Rightarrow> pval list option" where
  "unpack_fixed dec siz 0 at = Some []"
| "unpack_fixed dec siz (Suc n) at =
     do { v \<leftarrow> dec at; r \<leftarrow> unpack_fixed dec siz n (drop siz at); Some (v # r) }"

fun unpack_bools :: "nat \<Rightarrow> byte list \<Rightarrow> pval list option option" where
  "unpack_bools 0 at = Some (Some [])"
| "unpack_bools (Suc n) at =
     do { b \<leftarrow> rd at 0;
          if b > 1 then Some None
          else do { r \<leftarrow> unpack_bools n (tl at); Some (map_option (\<lambda>vs. VBool (ucast b) # vs) r) } }"

definition packed_values :: "ProtobufCType \<Rightarrow> u32 \<Rightarrow> byte list \<Rightarrow> pval list option option" where
  "packed_values t len at =
     (let rem = unat len;
          fixed32 = map_option Some (unpack_fixed (\<lambda>a. map_option V32 (parse_fixed_uint32 a)) 4 (rem div 4) at);
          fixed64 = map_option Some (unpack_fixed (\<lambda>a. map_option V64 (parse_fixed_uint64 a)) 8 (rem div 8) at);
          int32 = unpack_varints (\<lambda>s a. map_option V32 (parse_int32 s a)) rem at;
          int64 = unpack_varints (\<lambda>s a. map_option V64 (parse_uint64 s a)) rem at in
      case t of
        TYPE_SFIXED32 \<Rightarrow> fixed32
      | TYPE_FIXED32 \<Rightarrow> fixed32
      | TYPE_FLOAT \<Rightarrow> fixed32
      | TYPE_SFIXED64 \<Rightarrow> fixed64
      | TYPE_FIXED64 \<Rightarrow> fixed64
      | TYPE_DOUBLE \<Rightarrow> fixed64
      | TYPE_ENUM \<Rightarrow> int32
      | TYPE_INT32 \<Rightarrow> int32
      | TYPE_SINT32 \<Rightarrow> unpack_varints (\<lambda>s a. map_option (V32 \<circ> unzigzag32) (parse_uint32 s a)) rem at
      | TYPE_UINT32 \<Rightarrow> unpack_varints (\<lambda>s a. map_option V32 (parse_uint32 s a)) rem at
      | TYPE_SINT64 \<Rightarrow> unpack_varints (\<lambda>s a. map_option (V64 \<circ> unzigzag64) (parse_uint64 s a)) rem at
      | TYPE_INT64 \<Rightarrow> int64
      | TYPE_UINT64 \<Rightarrow> int64
      | TYPE_BOOL \<Rightarrow> unpack_bools rem at
      | TYPE_STRING \<Rightarrow> None
      | TYPE_BYTES \<Rightarrow> None)"

text \<open>The result of a member: \<open>None\<close> leaves memory, \<open>Some None\<close> is FALSE, or the new cell.\<close>

definition parse_packed_repeated_member :: "field_desc \<Rightarrow> scanned \<Rightarrow> cell \<Rightarrow> cell option option" where
  "parse_packed_repeated_member f m c =
     do {
       r \<leftarrow> packed_values (fd_type f) (s_len m - of_nat (s_pref m)) (drop (s_pref m) (s_data m));
       case r of None \<Rightarrow> Some None | Some vs \<Rightarrow> map_option Some (store_elements vs c)
     }"

definition parse_repeated_member :: "field_desc \<Rightarrow> scanned \<Rightarrow> cell \<Rightarrow> cell option option" where
  "parse_repeated_member f m c =
     do {
       r \<leftarrow> parse_required_member f m;
       case r of None \<Rightarrow> Some None | Some v \<Rightarrow> map_option Some (store_elements [v] c)
     }"

definition parse_optional_member :: "field_desc \<Rightarrow> scanned \<Rightarrow> cell \<Rightarrow> cell option option" where
  "parse_optional_member f m c =
     do {
       r \<leftarrow> parse_required_member f m;
       case (r, c) of
         (None, _) \<Rightarrow> Some None
       | (Some v, Single h _) \<Rightarrow> Some (Some (Single (if has_quantifier f then 1 else h) v))
       | (Some v, Rep _ _) \<Rightarrow> None
     }"

definition parse_member :: "msg_desc \<Rightarrow> scanned \<Rightarrow> pmessage \<Rightarrow> pmessage option option" where
  "parse_member desc m msg =
     (case s_field m of
        None \<Rightarrow>
          (if unat (s_len m) \<le> length (s_data m)
           then Some (Some (msg\<lparr>unknown_fields := unknown_fields msg @
                  [\<lparr>u_tag = s_tag m, u_wire = s_wire m, u_data = take (unat (s_len m)) (s_data m)\<rparr>]\<rparr>))
           else None)
      | Some i \<Rightarrow> do {
          f \<leftarrow> rd (m_fields desc) i;
          c \<leftarrow> rd (cells msg) i;
          r \<leftarrow> (case fd_label f of
                  LABEL_REQUIRED \<Rightarrow> do {
                    r \<leftarrow> parse_required_member f m;
                    case (r, c) of
                      (None, _) \<Rightarrow> Some None
                    | (Some v, Single h _) \<Rightarrow> Some (Some (Single h v))
                    | (Some v, Rep _ _) \<Rightarrow> None }
                | LABEL_OPTIONAL \<Rightarrow> parse_optional_member f m c
                | LABEL_REPEATED \<Rightarrow>
                    (if s_wire m = wire_code WIRE_LENGTH_PREFIXED \<and> (flag_packed f \<or> is_packable_type (fd_type f))
                     then parse_packed_repeated_member f m c
                     else parse_repeated_member f m c));
          Some (map_option (\<lambda>c'. msg\<lparr>cells := (cells msg)[i := c']\<rparr>) r)
        })"

fun parse_members :: "msg_desc \<Rightarrow> scanned list \<Rightarrow> pmessage \<Rightarrow> pmessage option option" where
  "parse_members desc [] msg = Some (Some msg)"
| "parse_members desc (m # ms) msg =
     do {
       r \<leftarrow> parse_member desc m msg;
       case r of None \<Rightarrow> Some None | Some msg' \<Rightarrow> parse_members desc ms msg'
     }"

section \<open>Unpacking\<close>

definition scan_init :: "msg_desc \<Rightarrow> scan_state" where
  "scan_init desc =
     \<lparr>sc_cells = m_init desc, sc_members = [],
      sc_bitmap = replicate ((length (m_fields desc) + 7) div 8) 0,
      last_field_index = 0, n_unknown = 0, which_slab = 0, in_slab_index = 0\<rparr>"

definition protobuf_c_message_unpack :: "msg_desc \<Rightarrow> u32 \<Rightarrow> byte list \<Rightarrow> pmessage option option" where
  "protobuf_c_message_unpack desc len data =
     do {
       r \<leftarrow> scan_loop desc len data (scan_init desc);
       case r of
         None \<Rightarrow> Some None
       | Some st \<Rightarrow> do {
           a \<leftarrow> alloc_fields (sc_bitmap st) 0 (m_fields desc) (sc_cells st);
           case a of
             None \<Rightarrow> Some None
           | Some cs \<Rightarrow> parse_members desc (sc_members st) \<lparr>cells = cs, unknown_fields = []\<rparr>
         }
     }"

end
