(* ===== verification/Protobuf_Roundtrip.thy ===== *)
theory Protobuf_Roundtrip
  imports Protobuf_Unpack
begin

text \<open>
  Unpacking undoes packing, for every descriptor without packed fields. The proof follows the two
  passes of the unpacker: a packed message is a sequence of members, the scan cuts it up again
  and counts, and parsing the members one after the other rebuilds the cells.
\<close>

section \<open>Values and their encodings\<close>

fun wf_val :: "ProtobufCType \<Rightarrow> pval \<Rightarrow> bool" where
  "wf_val t (V32 x) \<longleftrightarrow> t \<in> {TYPE_INT32, TYPE_SINT32, TYPE_SFIXED32, TYPE_UINT32, TYPE_FIXED32,
     TYPE_FLOAT, TYPE_ENUM}"
| "wf_val t (V64 x) \<longleftrightarrow> t \<in> {TYPE_INT64, TYPE_SINT64, TYPE_SFIXED64, TYPE_UINT64, TYPE_FIXED64,
     TYPE_DOUBLE}"
| "wf_val t (VBool x) \<longleftrightarrow> t = TYPE_BOOL \<and> (x = 0 \<or> x = 1)"
| "wf_val t (VStr s) \<longleftrightarrow> t = TYPE_STRING \<and> (case s of Heap bs \<Rightarrow> 0 \<notin> set bs | _ \<Rightarrow> False)"
| "wf_val t (VBytes bs) \<longleftrightarrow> t = TYPE_BYTES"

text \<open>
  One member on the wire: its wire type, the length of its length prefix and its bytes behind the
  header.
\<close>

definition encodes :: "field_desc \<Rightarrow> pval \<Rightarrow> byte \<Rightarrow> nat \<Rightarrow> byte list \<Rightarrow> bool" where
  "encodes f v w p pl \<longleftrightarrow>
     w < 8 \<and> pl \<noteq> [] \<and>
     required_field_pack f v = Some (or_wire_type w (tag_pack (fd_id f)) @ pl) \<and>
     (w = wire_code WIRE_LENGTH_PREFIXED \<longrightarrow> \<not> is_packable_type (fd_type f)) \<and>
     (\<forall>rem r. length pl \<le> unat rem \<longrightarrow>
        scan_member_length w rem (pl @ r) = Some (Some (of_nat (length pl), p))) \<and>
     (\<forall>m r. s_wire m = w \<and> s_pref m = p \<and> s_len m = of_nat (length pl) \<and> s_data m = pl @ r \<longrightarrow>
        parse_required_member f m = Some (Some v))"

lemma scan_varint_member:
  assumes "length (b128 n) \<le> 10" "length (b128 n) \<le> unat rem"
  shows "scan_member_length 0 rem (b128 n @ r) = Some (Some (of_nat (length (b128 n)), 0))"
proof -
  define max_len where "max_len = (if rem < 10 then unat rem else 10)"
  have le: "length (b128 n) \<le> max_len" using assms by (simp add: max_len_def)
  obtain k where k: "length (b128 n) = Suc k" by (cases "b128 n") auto
  have "scan_varint_loop max_len (b128 n @ r) = Some k"
    using scan_varint_loop_b128 [OF le, of r] k by simp
  then show ?thesis
    using le k by (simp add: scan_member_length_def Let_def flip: max_len_def)
qed

lemma encodes_varint:
  assumes "length (b128 n) \<le> 10"
    and "required_field_pack f v = Some (or_wire_type 0 (tag_pack (fd_id f)) @ b128 n)"
    and "\<And>m r. s_wire m = 0 \<Longrightarrow> unat (s_len m) = length (b128 n) \<Longrightarrow> s_data m = b128 n @ r \<Longrightarrow>
       parse_required_member f m = Some (Some v)"
  shows "encodes f v 0 0 (b128 n)"
proof -
  have "unat (of_nat (length (b128 n)) :: u32) = length (b128 n)"
    using assms(1) by (simp add: unat_of_nat)
  with assms show ?thesis
    unfolding encodes_def by (auto simp: scan_varint_member)
qed

text \<open>Length-prefixed values.\<close>

lemma unat_of_nat_small: "n < 2 ^ 32 \<Longrightarrow> unat (of_nat n :: u32) = n"
  by (simp add: unat_of_nat)

lemma scan_prefixed_member:
  assumes "length (b128 (length bs)) + length bs \<le> unat rem"
  shows "scan_member_length 2 rem (b128 (length bs) @ bs @ r) =
    Some (Some (of_nat (length (b128 (length bs) @ bs)), length (b128 (length bs))))"
proof -
  have "length (b128 (length bs)) + length bs < 2 ^ 32"
    using assms unat_u32 [of rem] by (simp del: unat_u32)
  then have "unat (of_nat (length (b128 (length bs)) + length bs) :: u32) \<noteq> 0"
    by (simp only: unat_of_nat_small) simp
  then have "(of_nat (length (b128 (length bs)) + length bs) :: u32) \<noteq> 0"
    by (metis unat_0)
  then show ?thesis
    using scan_length_prefixed_b128 [OF assms, of "bs @ r"]
    by (simp add: scan_member_length_def del: of_nat_add)
qed

lemma copy_prefixed_b128:
  assumes "s_len m = of_nat (length (b128 (length bs) @ bs))" "s_pref m = length (b128 (length bs))"
    "s_data m = b128 (length bs) @ bs @ r" "length bs < 2 ^ 32"
  shows "copy_prefixed m = Some bs"
proof -
  have "(of_nat (length (b128 (length bs) @ bs)) - of_nat (length (b128 (length bs))) :: u32) = of_nat (length bs)"
    by simp
  with assms show ?thesis
    by (simp add: copy_prefixed_def unat_of_nat_small)
qed

lemma encodes_prefixed:
  assumes "length bs < 2 ^ 32" "\<not> is_packable_type (fd_type f)"
    and "required_field_pack f v =
      Some (or_wire_type 2 (tag_pack (fd_id f)) @ uint32_pack (of_nat (length bs)) @ bs)"
    and "\<And>m. s_wire m = 2 \<Longrightarrow> copy_prefixed m = Some bs \<Longrightarrow> parse_required_member f m = Some (Some v)"
  shows "encodes f v 2 (length (b128 (length bs))) (b128 (length bs) @ bs)"
proof -
  have "uint32_pack (of_nat (length bs)) = b128 (length bs)"
    using assms(1) by (simp add: uint32_pack_b128 unat_of_nat_small)
  with assms show ?thesis
    unfolding encodes_def
    by (auto simp: scan_prefixed_member copy_prefixed_b128 simp del: is_packable_type.simps)
qed

lemma encodes_fixed:
  assumes "w = 1 \<and> length pl = 8 \<or> w = 5 \<and> length pl = 4"
    and "required_field_pack f v = Some (or_wire_type w (tag_pack (fd_id f)) @ pl)"
    and "\<And>m r. s_wire m = w \<Longrightarrow> s_data m = pl @ r \<Longrightarrow> parse_required_member f m = Some (Some v)"
  shows "encodes f v w 0 pl"
proof -
  have "pl \<noteq> []" using assms(1) by auto
  moreover have "scan_member_length w rem (pl @ r) = Some (Some (of_nat (length pl), 0))"
    if "length pl \<le> unat rem" for rem r
    using assms(1) that by (auto simp: scan_member_length_def word_less_nat_alt)
  ultimately show ?thesis using assms unfolding encodes_def by auto
qed

definition val_short :: "pval \<Rightarrow> bool" where
  "val_short v = (case v of VStr (Heap bs) \<Rightarrow> length bs < 2 ^ 32 | VBytes bs \<Rightarrow> length bs < 2 ^ 32 | _ \<Rightarrow> True)"

lemma chars_no_nul: "0 \<notin> set bs \<Longrightarrow> chars bs = bs"
  by (auto simp: chars_def takeWhile_eq_all_conv)

lemma length_b128_10:
  "length (b128 (unat (v :: u32))) \<le> 10" "length (b128 (unat (w :: u64))) \<le> 10"
  using length_b128_u32 [of v] length_b128_u64 [of w] by simp_all

lemmas pack_b128 = uint32_pack_b128 uint64_pack_b128 int32_pack_b128 sint32_pack_def sint64_pack_def

lemma encodes_V32:
  assumes "wf_val (fd_type f) (V32 x)"
  shows "\<exists>w p pl. encodes f (V32 x) w p pl"
proof (cases "fd_type f \<in> {TYPE_SFIXED32, TYPE_FIXED32, TYPE_FLOAT}")
  case True
  then have "encodes f (V32 x) 5 0 (fixed32_pack x)"
    by (intro encodes_fixed)
       (auto simp: required_field_pack_def parse_required_member_def parse_fixed_uint32_pack Let_def)
  then show ?thesis by blast
next
  case False
  have sext: "(of_nat (unat (scast x :: u64)) :: u32) = x" using take_bit_sext [of x] by simp
  from False assms consider "fd_type f = TYPE_INT32 \<or> fd_type f = TYPE_ENUM" | "fd_type f = TYPE_UINT32"
    | "fd_type f = TYPE_SINT32" by auto
  then show ?thesis
  proof cases
    case 1
    then have "encodes f (V32 x) 0 0 (b128 (unat (scast x :: u64)))"
      by (intro encodes_varint) (auto simp: length_b128_u64 required_field_pack_def Let_def pack_b128
        parse_required_member_def parse_int32_b128 sext simp del: of_nat_unat)
    then show ?thesis by blast
  next
    case 2
    then have "encodes f (V32 x) 0 0 (b128 (unat x))"
      by (intro encodes_varint) (auto simp: length_b128_10 length_b128_u32 required_field_pack_def
        Let_def pack_b128 parse_required_member_def parse_uint32_b128)
    then show ?thesis by blast
  next
    case 3
    then have "encodes f (V32 x) 0 0 (b128 (unat (zigzag32 x)))"
      by (intro encodes_varint) (auto simp: length_b128_10 length_b128_u32 required_field_pack_def
        Let_def pack_b128 parse_required_member_def parse_uint32_b128 unzigzag32_zigzag32)
    then show ?thesis by blast
  qed
qed

lemma encodes_V64:
  assumes "wf_val (fd_type f) (V64 x)"
  shows "\<exists>w p pl. encodes f (V64 x) w p pl"
proof (cases "fd_type f \<in> {TYPE_SFIXED64, TYPE_FIXED64, TYPE_DOUBLE}")
  case True
  then have "encodes f (V64 x) 1 0 (fixed64_pack x)"
    by (intro encodes_fixed)
       (auto simp: required_field_pack_def parse_required_member_def parse_fixed_uint64_pack Let_def)
  then show ?thesis by blast
next
  case False
  from False assms consider "fd_type f = TYPE_INT64 \<or> fd_type f = TYPE_UINT64"
    | "fd_type f = TYPE_SINT64" by auto
  then show ?thesis
  proof cases
    case 1
    then have "encodes f (V64 x) 0 0 (b128 (unat x))"
      by (intro encodes_varint) (auto simp: length_b128_10 required_field_pack_def
        Let_def pack_b128 parse_required_member_def parse_uint64_b128)
    then show ?thesis by blast
  next
    case 2
    then have "encodes f (V64 x) 0 0 (b128 (unat (zigzag64 x)))"
      by (intro encodes_varint) (auto simp: length_b128_10 required_field_pack_def
        Let_def pack_b128 parse_required_member_def parse_uint64_b128 unzigzag64_zigzag64)
    then show ?thesis by blast
  qed
qed

lemma encodes_ex:
  assumes wf: "wf_val (fd_type f) v" and short: "val_short v"
  shows "\<exists>w p pl. encodes f v w p pl"
proof (cases v)
  case (VBool x)
  with wf have x: "x = 0 \<or> x = 1" "fd_type f = TYPE_BOOL" by auto
  then have "boolean_pack x = b128 (unat x)" by (auto simp: boolean_pack_def b128_small)
  with VBool x have "encodes f v 0 0 (b128 (unat x))"
    by (intro encodes_varint) (auto simp: length_b128_10 b128_small required_field_pack_def Let_def
      parse_required_member_def)
  then show ?thesis by blast
next
  case (VStr s)
  with wf obtain bs where "s = Heap bs" "0 \<notin> set bs" "fd_type f = TYPE_STRING"
    by (auto split: cstr.splits)
  moreover from this short VStr have "length bs < 2 ^ 32" by (simp add: val_short_def)
  ultimately have "encodes f v 2 (length (b128 (length bs))) (b128 (length bs) @ bs)"
    using VStr by (intro encodes_prefixed)
      (auto simp: required_field_pack_def Let_def string_pack_def chars_no_nul parse_required_member_def)
  then show ?thesis by blast
next
  case (VBytes bs)
  with wf have "fd_type f = TYPE_BYTES" by simp
  moreover from short VBytes have "length bs < 2 ^ 32" by (simp add: val_short_def)
  ultimately have "encodes f v 2 (length (b128 (length bs))) (b128 (length bs) @ bs)"
    using VBytes by (intro encodes_prefixed)
      (auto simp: required_field_pack_def Let_def binary_data_pack_def parse_required_member_def)
  then show ?thesis by blast
qed (use wf encodes_V32 encodes_V64 in auto)

section \<open>Members in sequence\<close>

text \<open>Effects that may fail, one after the other.\<close>

fun foldM :: "('a \<Rightarrow> 'b \<Rightarrow> 'b option) \<Rightarrow> 'a list \<Rightarrow> 'b \<Rightarrow> 'b option" where
  "foldM f [] s = Some s"
| "foldM f (x # xs) s = do { s' \<leftarrow> f x s; foldM f xs s' }"

lemma foldM_append: "foldM f (xs @ ys) s = do { s' \<leftarrow> foldM f xs s; foldM f ys s' }"
  by (induction xs arbitrary: s) (auto simp: bind_assoc intro: arg_cong2 [where f = Option.bind])

record item =
  it_field :: nat
  it_wire :: byte
  it_pref :: nat
  it_bytes :: "byte list"
  it_val :: pval

text \<open>An effect on the cell of the item's field.\<close>

definition on_cell :: "(item \<Rightarrow> cell \<Rightarrow> cell option) \<Rightarrow> item \<Rightarrow> cell list \<Rightarrow> cell list option" where
  "on_cell eff it cs =
     do { c \<leftarrow> rd cs (it_field it); c' \<leftarrow> eff it c; Some (cs[it_field it := c']) }"

text \<open>The cells do not interfere: each sees the items of its own field only.\<close>

lemma foldM_on_cell:
  assumes "\<And>it. it \<in> set its \<Longrightarrow> it_field it < length cs" "length res = length cs"
    and "\<And>j. j < length cs \<Longrightarrow> foldM eff (filter (\<lambda>it. it_field it = j) its) (cs ! j) = Some (res ! j)"
  shows "foldM (on_cell eff) its cs = Some res"
  using assms
proof (induction its arbitrary: cs)
  case Nil
  then show ?case by (auto intro: nth_equalityI)
next
  case (Cons it its)
  let ?j = "it_field it"
  have j: "?j < length cs" using Cons.prems(1) by simp
  from Cons.prems(3) [OF j] obtain c' where c': "eff it (cs ! ?j) = Some c'"
    "foldM eff (filter (\<lambda>it. it_field it = ?j) its) c' = Some (res ! ?j)"
    by (auto simp: bind_eq_Some_conv)
  have "foldM (on_cell eff) its (cs[?j := c']) = Some res"
  proof (rule Cons.IH)
    fix i assume "i < length (cs[?j := c'])"
    then show "foldM eff (filter (\<lambda>it. it_field it = i) its) (cs[?j := c'] ! i) = Some (res ! i)"
      using c'(2) Cons.prems(3) [of i] by (cases "i = ?j") auto
  qed (use Cons.prems in auto)
  moreover have "on_cell eff it cs = Some (cs[?j := c'])" using c'(1) j by (simp add: on_cell_def rd_def)
  ultimately show ?case by simp
qed

section \<open>The scan of a packed message\<close>

definition wf_desc :: "msg_desc \<Rightarrow> bool" where
  "wf_desc desc \<longleftrightarrow>
     distinct (map fd_id (m_fields desc)) \<and>
     list_all (\<lambda>f. \<not> flag_packed f) (m_fields desc) \<and>
     list_all (\<lambda>i. int_range_lookup (length (m_ranges desc) - 1) (m_ranges desc)
                     (sint (fd_id (m_fields desc ! i))) = Some (int i)) [0..<length (m_fields desc)]"

abbreviation item_fd :: "msg_desc \<Rightarrow> item \<Rightarrow> field_desc" where
  "item_fd desc it \<equiv> m_fields desc ! it_field it"

definition header :: "msg_desc \<Rightarrow> item \<Rightarrow> byte list" where
  "header desc it = or_wire_type (it_wire it) (tag_pack (fd_id (item_fd desc it)))"

definition item_ok :: "msg_desc \<Rightarrow> item \<Rightarrow> bool" where
  "item_ok desc it \<longleftrightarrow>
     it_field it < length (m_fields desc) \<and> it_wire it < 8 \<and> it_bytes it \<noteq> [] \<and>
     (it_wire it = wire_code WIRE_LENGTH_PREFIXED \<longrightarrow> \<not> is_packable_type (fd_type (item_fd desc it))) \<and>
     (\<forall>rem r. length (it_bytes it) \<le> unat rem \<longrightarrow>
        scan_member_length (it_wire it) rem (it_bytes it @ r) =
          Some (Some (of_nat (length (it_bytes it)), it_pref it)))"

definition scan_eff :: "msg_desc \<Rightarrow> item \<Rightarrow> cell \<Rightarrow> cell option" where
  "scan_eff desc it c = (if fd_label (item_fd desc it) = LABEL_REPEATED then add_count 1 c else Some c)"

definition member_of :: "item \<Rightarrow> scanned \<Rightarrow> bool" where
  "member_of it m \<longleftrightarrow>
     s_field m = Some (it_field it) \<and> s_wire m = it_wire it \<and> s_pref m = it_pref it \<and>
     s_len m = of_nat (length (it_bytes it)) \<and> (\<exists>r. s_data m = it_bytes it @ r)"

definition mark :: "msg_desc \<Rightarrow> item \<Rightarrow> byte list \<Rightarrow> byte list" where
  "mark desc it bm = (if fd_label (item_fd desc it) = LABEL_REQUIRED
     then REQUIRED_FIELD_BITMAP_SET bm (it_field it) else bm)"

text \<open>How many places of the slabs are used.\<close>

definition slabs :: "nat \<Rightarrow> scan_state \<Rightarrow> bool" where
  "slabs k st \<longleftrightarrow> in_slab_index st \<le> 2 ^ (which_slab st + 4) \<and>
     k + 16 = 2 ^ (which_slab st + 4) + in_slab_index st"

lemma next_slab_ok:
  assumes "slabs k st" "k < 2 ^ 26"
  shows "\<exists>w i. next_slab st = Some (st\<lparr>which_slab := w, in_slab_index := i\<rparr>) \<and>
    (\<forall>st'. which_slab st' = w \<and> in_slab_index st' = Suc i \<longrightarrow> slabs (Suc k) st')"
proof (cases "in_slab_index st = 2 ^ (which_slab st + 4)")
  case True
  have "(2::nat) ^ (which_slab st + 4) < 2 ^ 26"
    using assms True by (simp add: slabs_def)
  then have "which_slab st + 4 < 26" by (rule power_less_imp_less_exp [rotated]) simp
  then have "next_slab st = Some (st\<lparr>which_slab := Suc (which_slab st), in_slab_index := 0\<rparr>)"
    using True by (simp add: next_slab_def MAX_SCANNED_MEMBER_SLAB_def)
  moreover have "slabs (Suc k) st'" if "which_slab st' = Suc (which_slab st)" "in_slab_index st' = Suc 0" for st'
    using assms(1) True that by (simp add: slabs_def power_add)
  ultimately show ?thesis by blast
next
  case False
  then have "next_slab st = Some (st\<lparr>which_slab := which_slab st, in_slab_index := in_slab_index st\<rparr>)"
    by (simp add: next_slab_def)
  moreover have "slabs (Suc k) st'"
    if "which_slab st' = which_slab st" "in_slab_index st' = Suc (in_slab_index st)" for st'
    using assms(1) False that by (simp add: slabs_def)
  ultimately show ?thesis by blast
qed

lemma find_field_ok:
  assumes "wf_desc desc" "j < length (m_fields desc)" "last_field_index st < length (m_fields desc)"
  shows "find_field desc (fd_id (m_fields desc ! j)) st = Some (Some j, st\<lparr>last_field_index := j\<rparr>)"
proof (cases "fd_id (m_fields desc ! last_field_index st) = fd_id (m_fields desc ! j)")
  case True
  with assms have "last_field_index st = j"
    using nth_eq_iff_index_eq [of "map fd_id (m_fields desc)" "last_field_index st" j]
    by (simp add: wf_desc_def)
  then have "st\<lparr>last_field_index := j\<rparr> = st" by simp
  with True assms \<open>last_field_index st = j\<close> show ?thesis by (simp add: find_field_def rd_def)
next
  case False
  have "int_range_lookup (length (m_ranges desc) - 1) (m_ranges desc) (sint (fd_id (m_fields desc ! j))) = Some (int j)"
    using assms by (simp add: wf_desc_def list_all_iff)
  with False assms show ?thesis by (simp add: find_field_def rd_def)
qed

lemma count_member_ok:
  assumes "wf_desc desc" "item_ok desc it" "s_wire m = it_wire it"
    and "on_cell (scan_eff desc) it cs = Some cs'"
  shows "count_member (item_fd desc it) (it_field it) m cs = Some (Some cs')"
proof -
  have "item_fd desc it \<in> set (m_fields desc)" using assms(2) by (simp add: item_ok_def)
  then have "\<not> flag_packed (item_fd desc it)" using assms(1) by (simp add: wf_desc_def list_all_iff)
  then have np: "\<not> (s_wire m = wire_code WIRE_LENGTH_PREFIXED \<and>
      (flag_packed (item_fd desc it) \<or> is_packable_type (fd_type (item_fd desc it))))"
    using assms(2,3) by (auto simp: item_ok_def)
  show ?thesis
    using assms(4) unfolding count_member_def if_not_P [OF np] on_cell_def scan_eff_def
    by (auto simp: bind_eq_Some_conv rd_def list_update_id split: if_splits)
qed

lemma scan_step_ok:
  assumes wf: "wf_desc desc" "item_ok desc it"
    and st: "last_field_index st < length (m_fields desc)" "slabs k st" "k < 2 ^ 26"
    and cs: "on_cell (scan_eff desc) it (sc_cells st) = Some cs'"
    and len: "length (header desc it @ it_bytes it) + l < 2 ^ 32"
  shows "\<exists>st' m. scan_step desc (of_nat (length (header desc it @ it_bytes it) + l))
      (header desc it @ it_bytes it @ r) st = Some (Some (length (header desc it @ it_bytes it), st')) \<and>
    member_of it m \<and> sc_members st' = sc_members st @ [m] \<and> sc_cells st' = cs' \<and>
    sc_bitmap st' = mark desc it (sc_bitmap st) \<and> last_field_index st' = it_field it \<and>
    slabs (Suc k) st'"
proof -
  let ?at = "header desc it @ it_bytes it @ r"
  let ?f = "item_fd desc it"
  let ?h = "length (tag_pack (fd_id ?f))"
  let ?rem = "of_nat (length (header desc it @ it_bytes it) + l) :: u32"
  have lh: "length (header desc it) = ?h" by (simp add: header_def)
  have rem: "unat ?rem = ?h + (length (it_bytes it) + l)"
    using len by (subst unat_of_nat_small) (simp_all add: lh)
  have j: "it_field it < length (m_fields desc)" "it_wire it < 8" using wf(2) by (simp_all add: item_ok_def)
  have tag: "parse_tag_and_wiretype (unat ?rem) ?at = Some (?h, Some (fd_id ?f), it_wire it)"
    using parse_field_header [OF j(2), of "fd_id ?f" "length (it_bytes it) + l" "it_bytes it @ r"]
    by (subst rem) (simp add: header_def)
  have field: "find_field desc (fd_id ?f) st = Some (Some (it_field it), st\<lparr>last_field_index := it_field it\<rparr>)"
    using wf(1) j(1) st(1) by (rule find_field_ok)
  define st1 where "st1 = (if fd_label ?f = LABEL_REQUIRED
    then st\<lparr>last_field_index := it_field it, sc_bitmap := REQUIRED_FIELD_BITMAP_SET (sc_bitmap st) (it_field it)\<rparr>
    else st\<lparr>last_field_index := it_field it\<rparr>)"
  have st1: "slabs k st1" "sc_cells st1 = sc_cells st" "sc_members st1 = sc_members st"
    "sc_bitmap st1 = mark desc it (sc_bitmap st)" "last_field_index st1 = it_field it"
    using st(2) by (simp_all add: st1_def slabs_def mark_def)
  have "?rem - of_nat ?h = of_nat (length (it_bytes it) + l)" using lh by simp
  then have "unat (?rem - of_nat ?h) = length (it_bytes it) + l"
    using len by (simp only: lh length_append) (rule unat_of_nat_small, simp)
  then have sl: "scan_member_length (it_wire it) (?rem - of_nat ?h) (it_bytes it @ r) =
      Some (Some (of_nat (length (it_bytes it)), it_pref it))"
    using wf(2) by (simp add: item_ok_def del: length_append of_nat_add)
  define m where "m = \<lparr>s_tag = fd_id ?f, s_wire = it_wire it, s_pref = it_pref it,
    s_field = Some (it_field it), s_len = of_nat (length (it_bytes it)), s_data = it_bytes it @ r\<rparr>"
  have m: "member_of it m" by (auto simp: member_of_def m_def)
  from next_slab_ok [OF st1(1) st(3)] obtain w i where w:
    "next_slab st1 = Some (st1\<lparr>which_slab := w, in_slab_index := i\<rparr>)"
    "\<And>st'. which_slab st' = w \<Longrightarrow> in_slab_index st' = Suc i \<Longrightarrow> slabs (Suc k) st'" by blast
  have cm: "count_member ?f (it_field it) m (sc_cells st) = Some (Some cs')"
    using wf cs by (intro count_member_ok) (simp_all add: m_def)
  have l: "unat (of_nat (length (it_bytes it)) :: u32) = length (it_bytes it)"
    using len by (intro unat_of_nat_small) simp
  have dr: "drop ?h ?at = it_bytes it @ r" using lh by simp
  let ?st' = "st1\<lparr>which_slab := w, in_slab_index := Suc i, sc_members := sc_members st @ [m], sc_cells := cs'\<rparr>"
  have "scan_step desc ?rem ?at st = Some (Some (length (header desc it @ it_bytes it), ?st'))"
    using sl cm w(1) j(1) l dr
    unfolding scan_step_def tag
    by (cases "fd_label ?f = LABEL_REQUIRED") (simp_all add: field rd_def Let_def lh st1_def flip: m_def)
  then show ?thesis using m st1(4,5) w(2) by (intro exI [of _ ?st'] exI [of _ m]) simp
qed

abbreviation chunk :: "msg_desc \<Rightarrow> item \<Rightarrow> byte list" where
  "chunk desc it \<equiv> header desc it @ it_bytes it"

abbreviation chunks :: "msg_desc \<Rightarrow> item list \<Rightarrow> byte list" where
  "chunks desc its \<equiv> concat (map (chunk desc) its)"

lemma scan_items:
  assumes "wf_desc desc" "list_all (item_ok desc) its"
    and "last_field_index st < length (m_fields desc)" "slabs k st" "k + length its \<le> 2 ^ 26"
    and "foldM (on_cell (scan_eff desc)) its (sc_cells st) = Some cs'"
    and "length (chunks desc its) < 2 ^ 32"
  shows "\<exists>st' ms. scan_loop desc (of_nat (length (chunks desc its))) (chunks desc its @ rest) st = Some (Some st') \<and>
    list_all2 member_of its ms \<and> sc_members st' = sc_members st @ ms \<and> sc_cells st' = cs' \<and>
    sc_bitmap st' = fold (mark desc) its (sc_bitmap st)"
  using assms(2-)
proof (induction its arbitrary: st k)
  case Nil
  then show ?case by (subst scan_loop.simps) simp
next
  case (Cons it its)
  let ?r = "chunks desc its"
  let ?l = "length (chunks desc its)"
  from Cons.prems obtain cs1 where cs1: "on_cell (scan_eff desc) it (sc_cells st) = Some cs1"
    "foldM (on_cell (scan_eff desc)) its cs1 = Some cs'" by (auto simp: bind_eq_Some_conv)
  have ok: "item_ok desc it" and len: "length (header desc it @ it_bytes it) + ?l < 2 ^ 32"
    and k: "k < 2 ^ 26" using Cons.prems by simp_all
  from scan_step_ok [OF assms(1) ok Cons.prems(2,3) k cs1(1) len, of "?r @ rest"] obtain st1 m where
    step: "scan_step desc (of_nat (length (chunk desc it) + ?l)) (header desc it @ it_bytes it @ ?r @ rest) st
      = Some (Some (length (chunk desc it), st1))"
    and st1: "member_of it m" "sc_members st1 = sc_members st @ [m]" "sc_cells st1 = cs1"
      "sc_bitmap st1 = mark desc it (sc_bitmap st)" "last_field_index st1 = it_field it" "slabs (Suc k) st1"
    by blast
  have "it_field it < length (m_fields desc)" using ok by (simp add: item_ok_def)
  with Cons.IH [of st1 "Suc k"] Cons.prems st1 cs1(2) obtain st' ms where rest:
    "scan_loop desc (of_nat ?l) (?r @ rest) st1 = Some (Some st')" "list_all2 member_of its ms"
    "sc_members st' = sc_members st1 @ ms" "sc_cells st' = cs'"
    "sc_bitmap st' = fold (mark desc) its (sc_bitmap st1)" by auto
  have all: "chunks desc (it # its) @ rest = header desc it @ it_bytes it @ ?r @ rest"
    "length (chunks desc (it # its)) = length (chunk desc it) + ?l" by simp_all
  have "it_bytes it \<noteq> []" using ok by (simp add: item_ok_def)
  then have "(of_nat (length (chunk desc it) + ?l) :: u32) > 0"
    using len by (simp only: word_less_nat_alt unat_of_nat_small unat_0) simp
  moreover have "of_nat (length (chunk desc it) + ?l) - of_nat (length (chunk desc it)) = (of_nat ?l :: u32)"
    by simp
  moreover have dr: "drop (length (chunk desc it)) (header desc it @ it_bytes it @ ?r @ rest) = ?r @ rest" by simp
  ultimately have "scan_loop desc (of_nat (length (chunks desc (it # its)))) (chunks desc (it # its) @ rest) st
      = Some (Some st')"
    unfolding all
    by (subst scan_loop.simps) (simp only: step rest(1) dr if_True bind.bind_lunit option.case prod.case)
  with rest st1 show ?case by (intro exI [of _ st'] exI [of _ "m # ms"]) simp
qed

section \<open>Parsing the members\<close>

text \<open>The effect of a member on the cell of its field.\<close>

definition parse_eff :: "msg_desc \<Rightarrow> item \<Rightarrow> cell \<Rightarrow> cell option" where
  "parse_eff desc it c =
     (case (fd_label (item_fd desc it), c) of
        (LABEL_REQUIRED, Single h _) \<Rightarrow> Some (Single h (it_val it))
      | (LABEL_OPTIONAL, Single h _) \<Rightarrow> Some (Single (if has_quantifier (item_fd desc it) then 1 else h) (it_val it))
      | (LABEL_REPEATED, Rep _ _) \<Rightarrow> store_elements [it_val it] c
      | _ \<Rightarrow> None)"

definition item_value :: "msg_desc \<Rightarrow> item \<Rightarrow> bool" where
  "item_value desc it \<longleftrightarrow>
     (\<forall>m r. s_wire m = it_wire it \<and> s_pref m = it_pref it \<and>
        s_len m = of_nat (length (it_bytes it)) \<and> s_data m = it_bytes it @ r \<longrightarrow>
        parse_required_member (item_fd desc it) m = Some (Some (it_val it)))"

lemma parse_member_ok:
  assumes "wf_desc desc" "item_ok desc it" "item_value desc it" "member_of it m"
    and "on_cell (parse_eff desc) it (cells msg) = Some cs'"
  shows "parse_member desc m msg = Some (Some (msg\<lparr>cells := cs'\<rparr>))"
proof -
  let ?f = "item_fd desc it"
  have pv: "parse_required_member ?f m = Some (Some (it_val it))"
    using assms(3,4) by (auto simp: item_value_def member_of_def)
  have "?f \<in> set (m_fields desc)" using assms(2) by (simp add: item_ok_def)
  then have "\<not> flag_packed ?f" using assms(1) by (simp add: wf_desc_def list_all_iff)
  then have np: "\<not> (s_wire m = wire_code WIRE_LENGTH_PREFIXED \<and> (flag_packed ?f \<or> is_packable_type (fd_type ?f)))"
    using assms(2,4) by (auto simp: item_ok_def member_of_def)
  from assms(5) obtain c c' where c: "rd (cells msg) (it_field it) = Some c"
    "parse_eff desc it c = Some c'" "cs' = (cells msg)[it_field it := c']"
    by (auto simp: on_cell_def bind_eq_Some_conv)
  have f: "rd (m_fields desc) (it_field it) = Some ?f" "s_field m = Some (it_field it)"
    using assms(2,4) by (simp_all add: item_ok_def member_of_def rd_def)
  show ?thesis
    unfolding parse_member_def f(2) option.case f(1) c(1,3) bind.bind_lunit if_not_P [OF np]
    using c(2) pv
    by (cases "fd_label ?f"; cases c)
       (auto simp: parse_eff_def parse_optional_member_def parse_repeated_member_def)
qed

lemma parse_items:
  assumes "wf_desc desc" "list_all (item_ok desc) its" "list_all (item_value desc) its"
    and "list_all2 member_of its ms"
    and "foldM (on_cell (parse_eff desc)) its (cells msg) = Some cs'"
  shows "parse_members desc ms msg = Some (Some (msg\<lparr>cells := cs'\<rparr>))"
  using assms(2-)
proof (induction its arbitrary: ms msg)
  case (Cons it its)
  from Cons.prems obtain m ms' cs1 where m: "ms = m # ms'" "member_of it m" "list_all2 member_of its ms'"
    "on_cell (parse_eff desc) it (cells msg) = Some cs1"
    "foldM (on_cell (parse_eff desc)) its cs1 = Some cs'"
    by (auto simp: list_all2_Cons1 bind_eq_Some_conv)
  with Cons.prems have "parse_member desc m msg = Some (Some (msg\<lparr>cells := cs1\<rparr>))"
    by (intro parse_member_ok [OF assms(1)]) simp_all
  with m Cons.IH [of ms' "msg\<lparr>cells := cs1\<rparr>"] Cons.prems show ?case by simp
qed simp

section \<open>From cells to members and back\<close>

text \<open>The values a cell contributes to the packed message.\<close>

fun cell_values :: "field_desc \<Rightarrow> cell \<Rightarrow> pval list" where
  "cell_values f (Rep n arr) = map the (take n arr)"
| "cell_values f (Single h v) =
     (if fd_label f = LABEL_OPTIONAL then
        (if fd_type f = TYPE_STRING then (if v = VStr Null \<or> v = VStr Default then [] else [v])
         else if h = 0 then [] else [v])
      else [v])"

text \<open>
  A cell a message of the program can hold, relative to its initial value: what an unset optional
  field contains is its initial value, and an array has as many elements as its count says.
\<close>

fun wf_cell :: "field_desc \<Rightarrow> cell \<Rightarrow> cell \<Rightarrow> bool" where
  "wf_cell f (Single h0 v0) (Single h v) \<longleftrightarrow>
     (case fd_label f of
        LABEL_REQUIRED \<Rightarrow> h = h0 \<and> wf_val (fd_type f) v \<and> val_short v
      | LABEL_OPTIONAL \<Rightarrow>
          if cell_values f (Single h v) = [] then h = h0 \<and> v = v0
          else h = (if has_quantifier f then 1 else h0) \<and> wf_val (fd_type f) v \<and> val_short v
      | LABEL_REPEATED \<Rightarrow> False)"
| "wf_cell f (Rep n0 arr0) (Rep n arr) \<longleftrightarrow>
     fd_label f = LABEL_REPEATED \<and> n0 = 0 \<and> arr0 = [] \<and> n = length arr \<and>
     list_all (\<lambda>v. case v of None \<Rightarrow> False | Some v \<Rightarrow> wf_val (fd_type f) v \<and> val_short v) arr"
| "wf_cell f _ _ \<longleftrightarrow> False"

definition item_for :: "msg_desc \<Rightarrow> nat \<Rightarrow> item \<Rightarrow> bool" where
  "item_for desc j it \<longleftrightarrow> it_field it = j \<and> item_ok desc it \<and> item_value desc it"

lemma items_of_values:
  assumes "j < length (m_fields desc)" "f = m_fields desc ! j"
    and "list_all (\<lambda>v. wf_val (fd_type f) v \<and> val_short v) vs"
  shows "\<exists>its. map it_val its = vs \<and> list_all (item_for desc j) its \<and>
    map (required_field_pack f) vs = map (Some \<circ> chunk desc) its"
  using assms(3)
proof (induction vs)
  case (Cons v vs)
  then obtain its where its: "map it_val its = vs" "list_all (item_for desc j) its"
    "map (required_field_pack f) vs = map (Some \<circ> chunk desc) its" by auto
  from Cons.prems obtain w p pl where e: "encodes f v w p pl"
    using encodes_ex [of f v] by auto
  let ?it = "\<lparr>it_field = j, it_wire = w, it_pref = p, it_bytes = pl, it_val = v\<rparr>"
  have "item_for desc j ?it" using e assms(1,2)
    by (auto simp: item_for_def item_ok_def item_value_def encodes_def simp del: is_packable_type.simps)
  moreover have "required_field_pack f v = Some (chunk desc ?it)"
    using e assms(2) by (simp add: encodes_def header_def)
  ultimately show ?case using its by (intro exI [of _ "?it # its"]) simp
qed simp

fun allocated :: "cell \<Rightarrow> cell" where
  "allocated (Rep n arr) = (if n \<noteq> 0 then Rep 0 (replicate n None) else Rep n arr)"
| "allocated (Single h v) = Single h v"

lemma count_repeated:
  assumes "list_all (item_for desc j) its" "fd_label (m_fields desc ! j) = LABEL_REPEATED"
  shows "foldM (scan_eff desc) its (Rep n arr) = Some (Rep (n + length its) arr)"
  using assms by (induction its arbitrary: n) (auto simp: scan_eff_def item_for_def)

lemma count_single:
  assumes "list_all (item_for desc j) its" "fd_label (m_fields desc ! j) \<noteq> LABEL_REPEATED"
  shows "foldM (scan_eff desc) its c = Some c"
  using assms by (induction its) (auto simp: scan_eff_def item_for_def)

lemma store_repeated:
  assumes "list_all (item_for desc j) its" "fd_label (m_fields desc ! j) = LABEL_REPEATED"
  shows "foldM (parse_eff desc) its (Rep (length pre) (map Some pre @ replicate (length its) None)) =
    Some (Rep (length pre + length its) (map Some (pre @ map it_val its)))"
  using assms
proof (induction its arbitrary: pre)
  case (Cons it its)
  have "parse_eff desc it (Rep (length pre) (map Some pre @ replicate (length (it # its)) None)) =
      Some (Rep (length (pre @ [it_val it])) (map Some (pre @ [it_val it]) @ replicate (length its) None))"
    using Cons.prems by (simp add: parse_eff_def item_for_def)
  then show ?case using Cons.IH [of "pre @ [it_val it]"] Cons.prems by simp
qed simp

text \<open>The members of one field, and its cell between the two passes.\<close>

definition cell_items :: "msg_desc \<Rightarrow> nat \<Rightarrow> cell \<Rightarrow> cell \<Rightarrow> item list \<Rightarrow> cell \<Rightarrow> bool" where
  "cell_items desc j c0 c its c1 \<longleftrightarrow>
     field_pack (m_fields desc ! j) c = Some (chunks desc its) \<and> list_all (item_for desc j) its \<and>
     (fd_label (m_fields desc ! j) = LABEL_REQUIRED \<longrightarrow> its \<noteq> []) \<and>
     foldM (scan_eff desc) its c0 = Some c1 \<and> foldM (parse_eff desc) its (allocated c1) = Some c \<and>
     (fd_label (m_fields desc ! j) = LABEL_REPEATED \<longleftrightarrow> (\<exists>n arr. c1 = Rep n arr))"

lemma field_items:
  assumes wf: "wf_desc desc" "j < length (m_fields desc)" and f: "f = m_fields desc ! j"
    and c: "wf_cell f c0 c"
  shows "\<exists>its. field_pack f c = Some (chunks desc its) \<and> list_all (item_for desc j) its \<and>
    (fd_label f = LABEL_REQUIRED \<longrightarrow> its \<noteq> []) \<and>
    (\<exists>c1. foldM (scan_eff desc) its c0 = Some c1 \<and> foldM (parse_eff desc) its (allocated c1) = Some c \<and>
      (fd_label f = LABEL_REPEATED \<longleftrightarrow> (\<exists>n arr. c1 = Rep n arr)))"
proof (cases c)
  case (Single h v)
  with c obtain h0 v0 where c0: "c0 = Single h0 v0" by (cases c0) auto
  have nr: "fd_label f \<noteq> LABEL_REPEATED" using c Single c0 by auto
  note cnt = count_single [OF _ nr [unfolded f]]
  show ?thesis
  proof (cases "cell_values f c = []")
    case True
    with Single have opt: "fd_label f = LABEL_OPTIONAL" by (auto split: if_splits)
    with c True Single c0 have "c = c0" by (cases "cell_values f c") (auto simp: if_splits)
    moreover have "field_pack f c = Some []"
      using True Single opt by (auto simp: field_pack_def optional_field_pack_def split: if_splits)
    ultimately show ?thesis using opt Single by (intro exI [of _ "[]"]) auto
  next
    case False
    with Single have vals: "cell_values f c = [v]" by (auto split: if_splits)
    with c Single c0 nr have v: "wf_val (fd_type f) v \<and> val_short v"
      and h: "h = (if fd_label f = LABEL_OPTIONAL \<and> has_quantifier f then 1 else h0)"
      by (cases "fd_label f"; simp)+
    have "list_all (\<lambda>v. wf_val (fd_type f) v \<and> val_short v) [v]" using v by simp
    from items_of_values [OF wf(2) f this] obtain its where its: "map it_val its = [v]"
      "list_all (item_for desc j) its" "map (required_field_pack f) [v] = map (Some \<circ> chunk desc) its" by (elim exE conjE)
    from its(1) obtain it where it: "its = [it]" "it_val it = v" by auto
    have "field_pack f c = required_field_pack f v"
      using vals Single nr v by (cases "fd_label f"; cases v)
        (auto simp: field_pack_def optional_field_pack_def split: if_splits cstr.splits pval.splits)
    with its(3) it have "field_pack f c = Some (chunks desc its)" by simp
    moreover have "parse_eff desc it (Single h0 v0) = Some c"
      using Single nr f h its(2) it by (cases "fd_label f") (simp_all add: parse_eff_def item_for_def)
    ultimately show ?thesis using cnt [OF its(2), of c0] its(2) nr it c0
      by (intro exI [of _ its]) simp
  qed
next
  case (Rep n arr)
  with c obtain n0 arr0 where c0: "c0 = Rep n0 arr0" by (cases c0) auto
  with c Rep have rep: "fd_label f = LABEL_REPEATED" "n0 = 0" "arr0 = []" "n = length arr" by auto
  define vs where "vs = map the arr"
  have arr: "arr = map Some vs" "list_all (\<lambda>v. wf_val (fd_type f) v \<and> val_short v) vs"
    using c Rep c0 by (auto simp: vs_def list_all_iff split: option.splits intro!: map_idI [symmetric])
  from items_of_values [OF wf(2) f arr(2)] obtain its where its: "map it_val its = vs"
    "list_all (item_for desc j) its" "map (required_field_pack f) vs = map (Some \<circ> chunk desc) its" by auto
  have np: "\<not> flag_packed f" using wf f by (auto simp: wf_desc_def list_all_iff)
  have "those (map (required_field_pack f) vs) = Some (map (chunk desc) its)"
    using its(3) by (simp add: those_Some_iff)
  moreover have "elements n arr = Some vs" using arr rep by (simp add: elements_def those_Some_iff)
  ultimately have fp: "field_pack f c = Some (chunks desc its)"
    using Rep rep np arr its(1) by (auto simp: field_pack_def repeated_field_pack_def)
  have rl: "fd_label (m_fields desc ! j) = LABEL_REPEATED" using rep f by simp
  have "foldM (scan_eff desc) its c0 = Some (Rep (length its) [])"
    using count_repeated [OF its(2) rl, of 0 "[]"] c0 rep by simp
  moreover have "length its = n" using its(1) arr(1) rep(4) by auto
  moreover have "foldM (parse_eff desc) its (allocated (Rep (length its) [])) = Some c"
    using store_repeated [OF its(2) rl, of "[]"] its(1) arr(1) Rep \<open>length its = n\<close> by (cases its) auto
  ultimately show ?thesis using fp its(2) rep(1) by (intro exI [of _ its]) auto
qed

section \<open>The round trip\<close>

lemma bitmap_set_is_set:
  assumes "i div 8 < length bm"
  shows "REQUIRED_FIELD_BITMAP_IS_SET (REQUIRED_FIELD_BITMAP_SET bm i) j \<longleftrightarrow>
    i = j \<or> REQUIRED_FIELD_BITMAP_IS_SET bm j"
proof -
  have "i = j \<longleftrightarrow> i div 8 = j div 8 \<and> i mod 8 = j mod 8"
    by (metis div_mult_mod_eq)
  with assms show ?thesis
    by (auto simp: REQUIRED_FIELD_BITMAP_IS_SET_def REQUIRED_FIELD_BITMAP_SET_def
        and_exp_eq_0_iff_not_bit bit_or_iff bit_exp_iff push_bit_eq_mult nth_list_update)
qed

lemma bitmap_marks:
  assumes "\<And>it. it \<in> set its \<Longrightarrow> it_field it div 8 < length bm"
    and "it \<in> set its" "fd_label (item_fd desc it) = LABEL_REQUIRED"
  shows "REQUIRED_FIELD_BITMAP_IS_SET (fold (mark desc) its bm) (it_field it)"
proof -
  have len: "length (mark desc x b) = length b" for x b
    by (simp add: mark_def REQUIRED_FIELD_BITMAP_SET_def)
  have keep: "REQUIRED_FIELD_BITMAP_IS_SET b j \<Longrightarrow> (\<And>x. x \<in> set xs \<Longrightarrow> it_field x div 8 < length b) \<Longrightarrow>
      REQUIRED_FIELD_BITMAP_IS_SET (fold (mark desc) xs b) j" for b j xs
  proof (induction xs arbitrary: b)
    case (Cons x xs)
    then have "REQUIRED_FIELD_BITMAP_IS_SET (mark desc x b) j"
      by (simp add: mark_def bitmap_set_is_set)
    then show ?case using Cons.IH [of "mark desc x b"] Cons.prems by (simp add: len)
  qed simp
  from assms show ?thesis
  proof (induction its arbitrary: bm)
    case (Cons x xs)
    show ?case
    proof (cases "it = x")
      case True
      with Cons.prems have "REQUIRED_FIELD_BITMAP_IS_SET (mark desc x bm) (it_field it)"
        by (simp add: mark_def bitmap_set_is_set)
      then show ?thesis using keep [of "mark desc x bm"] Cons.prems by (simp add: len)
    next
      case False
      then show ?thesis using Cons.IH [of "mark desc x bm"] Cons.prems by (simp add: len)
    qed
  qed simp
qed

lemma alloc_fields_ok:
  assumes "length fs = length cs"
    and "\<And>j. j < length fs \<Longrightarrow> fd_label (fs ! j) = LABEL_REQUIRED \<Longrightarrow> REQUIRED_FIELD_BITMAP_IS_SET bm (i + j)"
    and "\<And>j. j < length fs \<Longrightarrow> fd_label (fs ! j) = LABEL_REPEATED \<longleftrightarrow> (\<exists>n arr. cs ! j = Rep n arr)"
  shows "alloc_fields bm i fs cs = Some (Some (map allocated cs))"
  using assms
proof (induction fs cs arbitrary: i rule: list_induct2)
  case (Cons f fs c cs)
  have "alloc_fields bm (Suc i) fs cs = Some (Some (map allocated cs))"
  proof (rule Cons.IH)
    fix j assume j: "j < length fs"
    show "fd_label (fs ! j) = LABEL_REQUIRED \<Longrightarrow> REQUIRED_FIELD_BITMAP_IS_SET bm (Suc i + j)"
      using Cons.prems(1) [of "Suc j"] j by simp
    show "(fd_label (fs ! j) = LABEL_REPEATED) = (\<exists>n arr. cs ! j = Rep n arr)"
      using Cons.prems(2) [of "Suc j"] j by simp
  qed
  moreover have "fd_label f = LABEL_REQUIRED \<Longrightarrow> REQUIRED_FIELD_BITMAP_IS_SET bm i"
    using Cons.prems(1) [of 0] by simp
  moreover have "(fd_label f = LABEL_REPEATED) = (\<exists>n arr. c = Rep n arr)"
    using Cons.prems(2) [of 0] by simp
  ultimately show ?case by (cases "fd_label f"; cases c) simp_all
qed simp

lemma fields_pack_those:
  "length fs = length cs \<Longrightarrow> fields_pack fs cs = map_option concat (those (map2 field_pack fs cs))"
proof (induction fs cs rule: list_induct2)
  case (Cons x xs y ys)
  then show ?case
    by (cases "field_pack x y"; cases "those (map2 field_pack xs ys)")
       (simp_all add: those_Cons del: those.simps(2))
qed simp

lemma filter_groups:
  assumes "\<And>j it. j < n \<Longrightarrow> it \<in> set (g j) \<Longrightarrow> idx it = j" "j < n"
  shows "filter (\<lambda>it. idx it = j) (concat (map g [0..<n])) = g j"
  using assms
proof (induction n)
  case (Suc n)
  have last: "filter (\<lambda>it. idx it = j) (g n) = (if j = n then g n else [])"
    using Suc.prems(1) [of n] by (auto intro: filter_True simp: filter_empty_conv)
  show ?case
  proof (cases "j = n")
    case True
    have "idx it \<noteq> n" if it: "it \<in> set (concat (map g [0..<n]))" for it
    proof -
      from it obtain k where "k < n" "it \<in> set (g k)" by auto
      then show ?thesis using Suc.prems(1) [of k it] by simp
    qed
    with True have "filter (\<lambda>it. idx it = j) (concat (map g [0..<n])) = []"
      by (simp add: filter_empty_conv)
    with True last show ?thesis by simp
  next
    case False
    with Suc last show ?thesis by simp
  qed
qed simp

lemma chunks_length: "list_all (item_ok desc) its \<Longrightarrow> 2 * length its \<le> length (chunks desc its)"
proof (induction its)
  case (Cons it its)
  then have "it_bytes it \<noteq> []" by (simp add: item_ok_def)
  moreover have "header desc it \<noteq> []"
    by (simp add: header_def or_wire_type_def tag_pack_b128 split: list.split)
  ultimately have "2 \<le> length (chunk desc it)"
    by (cases "it_bytes it"; cases "header desc it") simp_all
  with Cons show ?case by simp
qed simp

lemma unpack_pack:
  assumes wf: "wf_desc desc" and n: "m_fields desc \<noteq> []" "length (m_init desc) = length (m_fields desc)"
    and msg: "length (cells msg) = length (m_fields desc)" "unknown_fields msg = []"
    and cells: "\<And>j. j < length (m_fields desc) \<Longrightarrow> wf_cell (m_fields desc ! j) (m_init desc ! j) (cells msg ! j)"
    and out: "protobuf_c_message_pack desc msg = Some out" "length out < 2 ^ 27"
  shows "protobuf_c_message_unpack desc (of_nat (length out)) (out @ rest) = Some (Some msg)"
proof -
  let ?n = "length (m_fields desc)"
  let ?f = "\<lambda>j. m_fields desc ! j"
  have "\<exists>its c1. cell_items desc j (m_init desc ! j) (cells msg ! j) its c1" if "j < ?n" for j
    using field_items [OF wf that refl cells [OF that]] unfolding cell_items_def by blast
  then obtain g c1 where ci: "\<And>j. j < ?n \<Longrightarrow> cell_items desc j (m_init desc ! j) (cells msg ! j) (g j) (c1 j)"
    by metis
  have c1: "foldM (scan_eff desc) (g j) (m_init desc ! j) = Some (c1 j)"
      "foldM (parse_eff desc) (g j) (allocated (c1 j)) = Some (cells msg ! j)"
      "fd_label (?f j) = LABEL_REPEATED \<longleftrightarrow> (\<exists>n arr. c1 j = Rep n arr)" if "j < ?n" for j
    using ci [OF that] unfolding cell_items_def by blast+
  let ?its = "concat (map g [0..<?n])"
  let ?cs1 = "map c1 [0..<?n]"
  have fp: "field_pack (?f j) (cells msg ! j) = Some (chunks desc (g j))"
    and itf: "list_all (item_for desc j) (g j)"
    and req: "fd_label (?f j) = LABEL_REQUIRED \<Longrightarrow> g j \<noteq> []" if "j < ?n" for j
    using ci [OF that] unfolding cell_items_def by blast+
  have idx: "it_field it = j" if "j < ?n" "it \<in> set (g j)" for j it
    using itf [OF that(1)] that(2) by (auto simp: list_all_iff item_for_def)
  have only: "filter (\<lambda>it. it_field it = j) ?its = g j" if "j < ?n" for j
    using idx that by (intro filter_groups) auto
  have oks: "list_all (item_ok desc) ?its" "list_all (item_value desc) ?its"
    using itf by (fastforce simp: list_all_iff item_for_def)+
  have lt: "it_field it < ?n" if "it \<in> set ?its" for it
    using oks(1) that by (auto simp: list_all_iff item_ok_def)
  have "those (map2 field_pack (m_fields desc) (cells msg)) = Some (map (\<lambda>j. chunks desc (g j)) [0..<?n])"
    unfolding those_Some_iff by (rule nth_equalityI) (simp_all add: msg(1) fp)
  moreover have "concat (map (\<lambda>j. chunks desc (g j)) xs) = chunks desc (concat (map g xs))" for xs
    by (induction xs) auto
  ultimately have out_eq: "out = chunks desc ?its"
    using out(1) msg by (simp add: protobuf_c_message_pack_def fields_pack_those)
  have scan: "foldM (on_cell (scan_eff desc)) ?its (m_init desc) = Some ?cs1"
    by (rule foldM_on_cell) (use lt n only c1(1) in auto)
  have k: "0 + length ?its \<le> 2 ^ 26"
    using chunks_length [OF oks(1)] out(2) out_eq by simp
  have "\<exists>st' ms. scan_loop desc (of_nat (length (chunks desc ?its))) (chunks desc ?its @ rest) (scan_init desc) = Some (Some st') \<and>
    list_all2 member_of ?its ms \<and> sc_members st' = sc_members (scan_init desc) @ ms \<and> sc_cells st' = ?cs1 \<and>
    sc_bitmap st' = fold (mark desc) ?its (sc_bitmap (scan_init desc))"
    using n scan k out(2) out_eq
    by (intro scan_items [OF wf oks(1), where k = 0]) (auto simp: scan_init_def slabs_def)
  then obtain st' ms where st': "scan_loop desc (of_nat (length out)) (out @ rest) (scan_init desc) = Some (Some st')"
    "list_all2 member_of ?its ms" "sc_members st' = ms" "sc_cells st' = ?cs1"
    "sc_bitmap st' = fold (mark desc) ?its (sc_bitmap (scan_init desc))"
    unfolding out_eq by (auto simp: scan_init_def)
  have alloc: "alloc_fields (sc_bitmap st') 0 (m_fields desc) ?cs1 = Some (Some (map allocated ?cs1))"
  proof (rule alloc_fields_ok)
    fix j assume j: "j < ?n"
    show "(fd_label (?f j) = LABEL_REPEATED) = (\<exists>n arr. ?cs1 ! j = Rep n arr)" using c1(3) [OF j] j by simp
    assume lab: "fd_label (?f j) = LABEL_REQUIRED"
    with req [OF j] obtain it where it: "it \<in> set (g j)" by (cases "g j") auto
    with j have "it \<in> set ?its" "it_field it = j" using idx by auto
    moreover have "it_field x div 8 < length (sc_bitmap (scan_init desc))" if "x \<in> set ?its" for x
      using lt [OF that] by (simp add: scan_init_def)
    ultimately show "REQUIRED_FIELD_BITMAP_IS_SET (sc_bitmap st') (0 + j)"
      using bitmap_marks [of ?its "sc_bitmap (scan_init desc)" it desc] lab st'(5) by simp
  qed simp
  have "foldM (on_cell (parse_eff desc)) ?its (map allocated ?cs1) = Some (cells msg)"
    by (rule foldM_on_cell) (use lt msg(1) only c1(2) in auto)
  then have "parse_members desc ms \<lparr>cells = map allocated ?cs1, unknown_fields = []\<rparr>
      = Some (Some (\<lparr>cells = cells msg, unknown_fields = []\<rparr>))"
    using parse_items [OF wf oks st'(2), of "\<lparr>cells = map allocated ?cs1, unknown_fields = []\<rparr>" "cells msg"]
    by simp
  moreover have "\<lparr>cells = cells msg, unknown_fields = []\<rparr> = msg" using msg(2) by (cases msg) simp
  ultimately show ?thesis
    by (simp add: protobuf_c_message_unpack_def st'(1,3,4) alloc del: map_map)
qed

lemma pack_succeeds:
  assumes "wf_desc desc" "length (cells msg) = length (m_fields desc)"
    and "\<And>j. j < length (m_fields desc) \<Longrightarrow> wf_cell (m_fields desc ! j) (m_init desc ! j) (cells msg ! j)"
  shows "\<exists>out. protobuf_c_message_pack desc msg = Some out"
proof -
  let ?n = "length (m_fields desc)"
  have "\<exists>b. field_pack (m_fields desc ! j) (cells msg ! j) = Some b" if "j < ?n" for j
    using field_items [OF assms(1) that refl assms(3) [OF that]] by blast
  then obtain b where "\<And>j. j < ?n \<Longrightarrow> field_pack (m_fields desc ! j) (cells msg ! j) = Some (b j)"
    by metis
  then have "those (map2 field_pack (m_fields desc) (cells msg)) = Some (map b [0..<?n])"
    unfolding those_Some_iff using assms(2) by (intro nth_equalityI) simp_all
  with assms(2) show ?thesis by (simp add: protobuf_c_message_pack_def fields_pack_those)
qed

end
