(* ===== verification/Nais_Messages.thy ===== *)
theory Nais_Messages
  imports Protobuf_Roundtrip
begin

text \<open>
  The messages of the program, \<^verbatim>\<open>burba/sys/protobuf-c/messages.pb-c.c\<close> and
  \<^verbatim>\<open>messages.pb-c.h\<close>: their structs, the values their \<open>__INIT\<close> macros give them, and their
  descriptors. The cells of a struct are its members at the offsets its descriptor names. A
  repeated member is the list of its elements, its count the length of the list.
\<close>

record Profile =
  uid :: cstr
  pwd :: cstr

record Config =
  network :: cstr
  board :: cstr
  host :: cstr
  has_port :: u32
  port :: u32
  has_alive_period :: u32
  alive_period :: u32
  has_secure :: u32
  secure :: u32

record Command =
  c_id :: u32
  c_has_seq :: u32
  c_seq :: u32
  c_svals :: "cstr list"
  c_ivals :: "u32 list"

record Ack =
  a_id :: u32
  a_has_seq :: u32
  a_seq :: u32
  has_status :: u32
  status :: u32

record Event =
  e_id :: u32
  e_svals :: "cstr list"
  e_fvals :: "u32 list"
  e_ivals :: "u32 list"

record Secret =
  key :: cstr

definition PROFILE__INIT :: Profile where
  "PROFILE__INIT = \<lparr>uid = Null, pwd = Null\<rparr>"

definition CONFIG__INIT :: Config where
  "CONFIG__INIT = \<lparr>network = Null, board = Null, host = Null, has_port = 0, port = 1883,
     has_alive_period = 0, alive_period = 0, has_secure = 0, secure = 0\<rparr>"

definition COMMAND__INIT :: Command where
  "COMMAND__INIT = \<lparr>c_id = 0, c_has_seq = 0, c_seq = 0, c_svals = [], c_ivals = []\<rparr>"

definition ACK__INIT :: Ack where
  "ACK__INIT = \<lparr>a_id = 0, a_has_seq = 0, a_seq = 0, has_status = 0, status = 0\<rparr>"

definition EVENT__INIT :: Event where
  "EVENT__INIT = \<lparr>e_id = 0, e_svals = [], e_fvals = [], e_ivals = []\<rparr>"

definition SECRET__INIT :: Secret where
  "SECRET__INIT = \<lparr>key = Null\<rparr>"

section \<open>The members of a struct\<close>

definition array_cell :: "('a \<Rightarrow> pval) \<Rightarrow> 'a list \<Rightarrow> cell" where
  "array_cell g xs = Rep (length xs) (map (Some \<circ> g) xs)"

definition profile_cells :: "Profile \<Rightarrow> cell list" where
  "profile_cells p = [Single 0 (VStr (uid p)), Single 0 (VStr (pwd p))]"

definition config_cells :: "Config \<Rightarrow> cell list" where
  "config_cells c =
     [Single 0 (VStr (network c)), Single 0 (VStr (board c)), Single 0 (VStr (host c)),
      Single (has_port c) (V32 (port c)), Single (has_alive_period c) (V32 (alive_period c)),
      Single (has_secure c) (VBool (secure c))]"

definition command_cells :: "Command \<Rightarrow> cell list" where
  "command_cells c =
     [Single 0 (V32 (c_id c)), Single (c_has_seq c) (V32 (c_seq c)),
      array_cell VStr (c_svals c), array_cell V32 (c_ivals c)]"

definition ack_cells :: "Ack \<Rightarrow> cell list" where
  "ack_cells a =
     [Single 0 (V32 (a_id a)), Single (a_has_seq a) (V32 (a_seq a)), Single (has_status a) (V32 (status a))]"

definition event_cells :: "Event \<Rightarrow> cell list" where
  "event_cells e =
     [Single 0 (V32 (e_id e)), array_cell VStr (e_svals e), array_cell V32 (e_fvals e),
      array_cell V32 (e_ivals e)]"

definition secret_cells :: "Secret \<Rightarrow> cell list" where
  "secret_cells s = [Single 0 (VStr (key s))]"

section \<open>Descriptors\<close>

definition fd :: "string \<Rightarrow> u32 \<Rightarrow> ProtobufCLabel \<Rightarrow> ProtobufCType \<Rightarrow> bool \<Rightarrow> pval option \<Rightarrow> field_desc" where
  "fd n i l t q d =
     \<lparr>fd_name = n, fd_id = i, fd_label = l, fd_type = t, has_quantifier = q, default_value = d,
      flag_packed = False\<rparr>"

definition profile__field_descriptors :: "field_desc list" where
  "profile__field_descriptors =
     [fd ''uid'' 1 LABEL_REQUIRED TYPE_STRING False None,
      fd ''pwd'' 2 LABEL_REQUIRED TYPE_STRING False None]"

definition profile__descriptor :: msg_desc where
  "profile__descriptor =
     \<lparr>m_name = ''Profile'', m_fields = profile__field_descriptors,
      m_ranges = [\<lparr>start_value = 1, orig_index = 0\<rparr>, \<lparr>start_value = 0, orig_index = 2\<rparr>],
      m_init = profile_cells PROFILE__INIT\<rparr>"

definition config__field_descriptors :: "field_desc list" where
  "config__field_descriptors =
     [fd ''network'' 1 LABEL_REQUIRED TYPE_STRING False None,
      fd ''board'' 2 LABEL_REQUIRED TYPE_STRING False None,
      fd ''host'' 3 LABEL_REQUIRED TYPE_STRING False None,
      fd ''port'' 4 LABEL_OPTIONAL TYPE_INT32 True (Some (V32 1883)),
      fd ''alive_period'' 5 LABEL_OPTIONAL TYPE_INT32 True None,
      fd ''secure'' 6 LABEL_OPTIONAL TYPE_BOOL True None]"

definition config__descriptor :: msg_desc where
  "config__descriptor =
     \<lparr>m_name = ''Config'', m_fields = config__field_descriptors,
      m_ranges = [\<lparr>start_value = 1, orig_index = 0\<rparr>, \<lparr>start_value = 0, orig_index = 6\<rparr>],
      m_init = config_cells CONFIG__INIT\<rparr>"

definition command__field_descriptors :: "field_desc list" where
  "command__field_descriptors =
     [fd ''id'' 1 LABEL_REQUIRED TYPE_INT32 False None,
      fd ''seq'' 2 LABEL_OPTIONAL TYPE_INT32 True None,
      fd ''svals'' 3 LABEL_REPEATED TYPE_STRING True None,
      fd ''ivals'' 4 LABEL_REPEATED TYPE_INT32 True None]"

definition command__descriptor :: msg_desc where
  "command__descriptor =
     \<lparr>m_name = ''Command'', m_fields = command__field_descriptors,
      m_ranges = [\<lparr>start_value = 1, orig_index = 0\<rparr>, \<lparr>start_value = 0, orig_index = 4\<rparr>],
      m_init = command_cells COMMAND__INIT\<rparr>"

definition ack__field_descriptors :: "field_desc list" where
  "ack__field_descriptors =
     [fd ''id'' 1 LABEL_REQUIRED TYPE_INT32 False None,
      fd ''seq'' 2 LABEL_OPTIONAL TYPE_INT32 True None,
      fd ''status'' 3 LABEL_OPTIONAL TYPE_INT32 True None]"

definition ack__descriptor :: msg_desc where
  "ack__descriptor =
     \<lparr>m_name = ''Ack'', m_fields = ack__field_descriptors,
      m_ranges = [\<lparr>start_value = 1, orig_index = 0\<rparr>, \<lparr>start_value = 0, orig_index = 3\<rparr>],
      m_init = ack_cells ACK__INIT\<rparr>"

definition event__field_descriptors :: "field_desc list" where
  "event__field_descriptors =
     [fd ''id'' 1 LABEL_REQUIRED TYPE_INT32 False None,
      fd ''svals'' 2 LABEL_REPEATED TYPE_STRING True None,
      fd ''fvals'' 3 LABEL_REPEATED TYPE_FLOAT True None,
      fd ''ivals'' 4 LABEL_REPEATED TYPE_SINT32 True None]"

definition event__descriptor :: msg_desc where
  "event__descriptor =
     \<lparr>m_name = ''Event'', m_fields = event__field_descriptors,
      m_ranges = [\<lparr>start_value = 1, orig_index = 0\<rparr>, \<lparr>start_value = 0, orig_index = 4\<rparr>],
      m_init = event_cells EVENT__INIT\<rparr>"

definition secret__field_descriptors :: "field_desc list" where
  "secret__field_descriptors = [fd ''key'' 1 LABEL_REQUIRED TYPE_STRING False None]"

definition secret__descriptor :: msg_desc where
  "secret__descriptor =
     \<lparr>m_name = ''Secret'', m_fields = secret__field_descriptors,
      m_ranges = [\<lparr>start_value = 1, orig_index = 0\<rparr>, \<lparr>start_value = 0, orig_index = 1\<rparr>],
      m_init = secret_cells SECRET__INIT\<rparr>"

section \<open>Objects\<close>

text \<open>A pointer to a message struct: what the program passes around as \<open>void *\<close>.\<close>

datatype proto_obj =
  OProfile Profile | OConfig Config | OAck Ack | OSecret Secret | OCommand Command | OEvent Event

fun obj_desc :: "proto_obj \<Rightarrow> msg_desc" where
  "obj_desc (OProfile _) = profile__descriptor"
| "obj_desc (OConfig _) = config__descriptor"
| "obj_desc (OAck _) = ack__descriptor"
| "obj_desc (OSecret _) = secret__descriptor"
| "obj_desc (OCommand _) = command__descriptor"
| "obj_desc (OEvent _) = event__descriptor"

fun obj_cells :: "proto_obj \<Rightarrow> cell list" where
  "obj_cells (OProfile p) = profile_cells p"
| "obj_cells (OConfig c) = config_cells c"
| "obj_cells (OAck a) = ack_cells a"
| "obj_cells (OSecret s) = secret_cells s"
| "obj_cells (OCommand c) = command_cells c"
| "obj_cells (OEvent e) = event_cells e"

definition obj_msg :: "proto_obj \<Rightarrow> pmessage" where
  "obj_msg ob = \<lparr>cells = obj_cells ob, unknown_fields = []\<rparr>"

section \<open>Messages survive the wire\<close>

text \<open>A text member is a heap string without NUL; an unset optional member has its initial value.\<close>

definition text_ok :: "cstr \<Rightarrow> bool" where
  "text_ok s = (case s of Heap bs \<Rightarrow> 0 \<notin> set bs \<and> length bs < 2 ^ 32 | _ \<Rightarrow> False)"

definition opt_ok :: "u32 \<Rightarrow> u32 \<Rightarrow> u32 \<Rightarrow> bool" where
  "opt_ok has v init \<longleftrightarrow> has = 1 \<or> has = 0 \<and> v = init"

fun wf_obj :: "proto_obj \<Rightarrow> bool" where
  "wf_obj (OProfile p) \<longleftrightarrow> text_ok (uid p) \<and> text_ok (pwd p)"
| "wf_obj (OConfig c) \<longleftrightarrow> text_ok (network c) \<and> text_ok (board c) \<and> text_ok (host c) \<and>
     opt_ok (has_port c) (port c) 1883 \<and> opt_ok (has_alive_period c) (alive_period c) 0 \<and>
     opt_ok (has_secure c) (secure c) 0 \<and> (secure c = 0 \<or> secure c = 1)"
| "wf_obj (OAck a) \<longleftrightarrow> opt_ok (a_has_seq a) (a_seq a) 0 \<and> opt_ok (has_status a) (status a) 0"
| "wf_obj (OSecret s) \<longleftrightarrow> text_ok (key s)"
| "wf_obj (OCommand c) \<longleftrightarrow> opt_ok (c_has_seq c) (c_seq c) 0 \<and> list_all text_ok (c_svals c)"
| "wf_obj (OEvent e) \<longleftrightarrow> list_all text_ok (e_svals e)"

lemmas descriptor_defs =
  profile__descriptor_def config__descriptor_def ack__descriptor_def secret__descriptor_def
  command__descriptor_def event__descriptor_def
  profile__field_descriptors_def config__field_descriptors_def ack__field_descriptors_def
  secret__field_descriptors_def command__field_descriptors_def event__field_descriptors_def fd_def

lemmas cells_defs =
  profile_cells_def config_cells_def ack_cells_def secret_cells_def command_cells_def event_cells_def
  PROFILE__INIT_def CONFIG__INIT_def ACK__INIT_def SECRET__INIT_def COMMAND__INIT_def EVENT__INIT_def

lemma lookup_one_range:
  "int_range_lookup (Suc 0) [\<lparr>start_value = 1, orig_index = 0\<rparr>, \<lparr>start_value = 0, orig_index = n\<rparr>] v =
     Some (if 1 \<le> v \<and> v < 1 + n then v - 1 else - 1)"
  by (simp add: int_range_lookup_def lookup_loop.simps)

lemma obj_desc_wf: "wf_desc (obj_desc ob)"
  by (cases ob) (simp_all add: wf_desc_def descriptor_defs lookup_one_range upt_rec)

lemma array_wf:
  assumes "fd_label f = LABEL_REPEATED" "\<And>x. x \<in> set xs \<Longrightarrow> wf_val (fd_type f) (g x) \<and> val_short (g x)"
  shows "wf_cell f (Rep 0 []) (array_cell g xs)"
  using assms by (auto simp: array_cell_def list_all_iff)

lemma obj_cells_wf:
  assumes "wf_obj ob"
  shows "list_all (\<lambda>j. wf_cell (m_fields (obj_desc ob) ! j) (m_init (obj_desc ob) ! j) (obj_cells ob ! j))
    [0..<length (m_fields (obj_desc ob))]"
  using assms
  by (cases ob) (auto simp: descriptor_defs cells_defs upt_rec text_ok_def opt_ok_def val_short_def
      array_cell_def list_all_iff split: cstr.splits)

lemma text_ok_chars: "text_ok s \<Longrightarrow> str_chars f s \<noteq> None"
  by (cases s) (simp_all add: text_ok_def)

lemma array_strings_there:
  "list_all text_ok ss \<Longrightarrow> strings_there f (array_cell VStr ss)"
  "strings_there f (array_cell V32 xs)"
  using text_ok_chars by (auto simp: strings_there_def array_cell_def list_all_iff)

lemma obj_strings_there:
  "wf_obj ob \<Longrightarrow> list_all2 strings_there (m_fields (obj_desc ob)) (obj_cells ob)"
  by (cases ob) (auto simp: descriptor_defs cells_defs array_strings_there, simp_all add: strings_there_def)

lemma messages_unpack_pack:
  assumes "wf_obj ob"
  shows "\<exists>out. protobuf_c_message_pack (obj_desc ob) (obj_msg ob) = Some out \<and>
    protobuf_c_message_get_packed_size (obj_desc ob) (obj_msg ob) = Some (length out) \<and>
    (length out < 2 ^ 27 \<longrightarrow>
       protobuf_c_message_unpack (obj_desc ob) (of_nat (length out)) (out @ rest) = Some (Some (obj_msg ob)))"
proof -
  have wf: "wf_cell (m_fields (obj_desc ob) ! j) (m_init (obj_desc ob) ! j) (cells (obj_msg ob) ! j)"
    if "j < length (m_fields (obj_desc ob))" for j
    using obj_cells_wf [OF assms] that by (simp add: list_all_iff obj_msg_def)
  have len: "length (cells (obj_msg ob)) = length (m_fields (obj_desc ob))"
    "length (m_init (obj_desc ob)) = length (m_fields (obj_desc ob))" "m_fields (obj_desc ob) \<noteq> []"
    by (cases ob; simp add: obj_msg_def descriptor_defs cells_defs)+
  from pack_succeeds [OF obj_desc_wf len(1) wf] obtain out
    where out: "protobuf_c_message_pack (obj_desc ob) (obj_msg ob) = Some out" by blast
  moreover have "protobuf_c_message_get_packed_size (obj_desc ob) (obj_msg ob) = Some (length out)"
    using out obj_strings_there [OF assms] by (intro message_size) (simp_all add: obj_msg_def)
  ultimately show ?thesis
    using unpack_pack [OF obj_desc_wf len(3,2,1) _ wf out] by (simp add: obj_msg_def)
qed

text \<open>
  C6: Every message of the program can be packed, fills exactly the size computed for it, and is
  unpacked to the same members: strings, repeated strings, integers and floats, set and unset
  optional members with their defaults. This is stated for packed messages below 128 MB.
\<close>

theorem messages_roundtrip:
  assumes "wf_obj ob"
  shows "\<exists>out. protobuf_c_message_pack (obj_desc ob) (obj_msg ob) = Some out \<and>
    protobuf_c_message_get_packed_size (obj_desc ob) (obj_msg ob) = Some (length out) \<and>
    (length out < 2 ^ 27 \<longrightarrow>
       protobuf_c_message_unpack (obj_desc ob) (of_nat (length out)) (out @ rest) = Some (Some (obj_msg ob)))"
  using assms by (rule messages_unpack_pack)

theorem messages_roundtrip_witness:
  "protobuf_c_message_unpack ack__descriptor 4 [8, 5, 24, 1] =
     Some (Some (obj_msg (OAck \<lparr>a_id = 5, a_has_seq = 0, a_seq = 0, has_status = 1, status = 1\<rparr>)))"
proof -
  let ?ob = "OAck \<lparr>a_id = 5, a_has_seq = 0, a_seq = 0, has_status = 1, status = 1\<rparr>"
  have "protobuf_c_message_pack (obj_desc ?ob) (obj_msg ?ob) = Some [8, 5, 24, 1]"
    by (simp add: descriptor_defs cells_defs obj_msg_def protobuf_c_message_pack_def field_pack_def
        required_field_pack_def optional_field_pack_def or_wire_type_def tag_pack_b128 int32_pack_def
        uint32_pack_def b128_small word_le_nat_alt)
  then show ?thesis using messages_roundtrip [of ?ob "[]"] by (simp add: opt_ok_def)
qed

end
