(* ===== verification/Nais.thy ===== *)
theory Nais
  imports Nais_Messages
begin

text \<open>
  The NAIS payload, \<^verbatim>\<open>burba/sys/bocia/nais.c\<close> and \<^verbatim>\<open>burba/sys/include/nais.h\<close>: a start byte, the
  message type, three routing bytes, the base-128 length, a protobuf message and an end byte.

  Objects of fixed size (the 256 bytes of \<open>protobuf\<close>, the buffer of the serial line) are lists,
  a write outside them is \<^term>\<open>None\<close>. \<open>int\<close> is an integer where it cannot overflow and a 32-bit
  word, read with \<^const>\<open>sint\<close>, where it can.
\<close>

section \<open>Constants and headers\<close>

definition RECORD_START :: byte where "RECORD_START = 0x1E"

definition RECORD_END :: byte where "RECORD_END = 0x17"

datatype nais_message_type =
  PROFILE_TYPE | CONFIG_TYPE | ACK_TYPE | SECRET_TYPE | COMMAND_TYPE | EVENT_TYPE

fun type_code :: "nais_message_type \<Rightarrow> byte" where
  "type_code PROFILE_TYPE = 1"
| "type_code CONFIG_TYPE = 2"
| "type_code ACK_TYPE = 3"
| "type_code SECRET_TYPE = 4"
| "type_code COMMAND_TYPE = 5"
| "type_code EVENT_TYPE = 6"

datatype command_types =
  REBOOT_CMD | TOGGLE_WIFI_MODE_CMD | FACTORY_RESET_CMD | OTA_CMD | GET_CONFIG_CMD

fun command_code :: "command_types \<Rightarrow> u32" where
  "command_code REBOOT_CMD = 1"
| "command_code TOGGLE_WIFI_MODE_CMD = 2"
| "command_code FACTORY_RESET_CMD = 3"
| "command_code OTA_CMD = 4"
| "command_code GET_CONFIG_CMD = 5"

record proto_msg_t =
  pm_type :: byte
  dline :: byte
  flags :: byte

text \<open>The descriptors by message type, starting with type 1.\<close>

definition md :: "msg_desc list" where
  "md = [profile__descriptor, config__descriptor, ack__descriptor, secret__descriptor,
         command__descriptor, event__descriptor]"

section \<open>Writing a payload\<close>

text \<open>
  The length loop of \<open>nais_setup_header\<close>: the digit is stored, and gets its continuation bit when
  something is left.
\<close>

function header_loop :: "int \<Rightarrow> nat \<Rightarrow> int \<Rightarrow> byte list \<Rightarrow> (int \<times> byte list) option" where
  "header_loop len len_index hlen buff =
     do {
       buff \<leftarrow> wr buff len_index (word_of_int (len smod 128));
       let len = len sdiv 128;
       (hlen, buff) \<leftarrow>
         (if len > 0 then do {
            b \<leftarrow> rd buff len_index;
            buff \<leftarrow> wr buff len_index (b + 128);
            Some (hlen + 1, buff) }
          else Some (hlen, buff));
       if len \<noteq> 0 then header_loop len (len_index + 1) hlen buff else Some (hlen, buff)
     }"
  by auto
termination
  by (relation "measure (\<lambda>(len, len_index, hlen, buff). nat \<bar>len\<bar>)") (auto dest: sdiv_smaller)

declare header_loop.simps [simp del]

definition nais_setup_header :: "proto_msg_t \<Rightarrow> int \<Rightarrow> byte list \<Rightarrow> (int \<times> byte list) option" where
  "nais_setup_header msg_type msg_len buff =
     do {
       buff \<leftarrow> wr buff 0 RECORD_START;
       buff \<leftarrow> wr buff 1 (pm_type msg_type);
       buff \<leftarrow> wr buff 2 0;
       buff \<leftarrow> wr buff 3 (dline msg_type);
       buff \<leftarrow> wr buff 4 (flags msg_type);
       (hlen, buff) \<leftarrow> header_loop msg_len 5 6 buff;
       buff \<leftarrow> (if 0 \<le> msg_len + hlen then wr buff (nat (msg_len + hlen)) RECORD_END else None);
       Some (hlen, buff)
     }"

text \<open>
  The serialization buffer is \<open>protobuf\<close>; the result is the payload length and the buffer. The object
  is a message with the descriptor its \<open>base\<close> points to.
\<close>

type_synonym pobj = "msg_desc \<times> pmessage"

definition nais_marshall_msg :: "proto_msg_t \<Rightarrow> pobj \<Rightarrow> byte list \<Rightarrow> (int \<times> byte list) option" where
  "nais_marshall_msg type obj protobuf =
     do {
       blen \<leftarrow> protobuf_c_message_get_packed_size (fst obj) (snd obj);
       (hlen, protobuf) \<leftarrow> nais_setup_header type (int blen) protobuf;
       out \<leftarrow> protobuf_c_message_pack (fst obj) (snd obj);
       protobuf \<leftarrow> wr_block protobuf (nat hlen) out;
       Some (int blen + hlen + 1, protobuf)
     }"

definition pobj :: "proto_obj \<Rightarrow> pobj" where
  "pobj ob = (obj_desc ob, obj_msg ob)"

lemma pobj_sel [simp]: "fst (pobj ob) = obj_desc ob" "snd (pobj ob) = obj_msg ob"
  by (simp_all add: pobj_def)

definition nais_marshall :: "proto_msg_t \<Rightarrow> proto_obj \<Rightarrow> byte list \<Rightarrow> (int \<times> byte list) option" where
  "nais_marshall type ob = nais_marshall_msg type (pobj ob)"

section \<open>Reading a payload\<close>

text \<open>The length, and what is behind it; \<open>int\<close> arithmetic wraps.\<close>

fun unmarshall_len :: "byte list \<Rightarrow> u32 \<Rightarrow> u32 \<Rightarrow> (u32 \<times> byte list) option" where
  "unmarshall_len [] len multiplier = None"
| "unmarshall_len (c # r) len multiplier =
     (let len = len + ucast (c AND 127) * multiplier; multiplier = multiplier * 128
      in if c AND 128 \<noteq> 0 then unmarshall_len r len multiplier else Some (len, r))"

text \<open>
  The dump of the message, with its 16-bit counter: \<^term>\<open>None\<close> when it reads outside the memory
  or does not come to an end.
\<close>

partial_function (option) debug_dump :: "u32 \<Rightarrow> byte list \<Rightarrow> u16 \<Rightarrow> unit option" where
  "debug_dump len data i =
     (if int (unat i) < sint len + 1
      then do { b \<leftarrow> rd data (unat i); debug_dump len data (i + 1) }
      else Some ())"

text \<open>
  The object is \<^term>\<open>None\<close> for the null pointer. A type above EVENT_TYPE is read as a command;
  a type of 0 reads in front of the descriptor table.
\<close>

definition nais_unmarshall :: "byte list \<Rightarrow> (proto_msg_t \<times> pmessage option) option" where
  "nais_unmarshall data =
     do {
       t \<leftarrow> rd data 0;
       dl \<leftarrow> rd data 1;
       _ \<leftarrow> rd data 2;
       fl \<leftarrow> rd data 3;
       let ptype = \<lparr>pm_type = t, dline = dl, flags = fl\<rparr>;
       (len, cptr) \<leftarrow> unmarshall_len (drop 4 data) 0 1;
       debug_dump len cptr 0;
       let type = (if t > type_code EVENT_TYPE then type_code COMMAND_TYPE else t);
       desc \<leftarrow> (if type = 0 then None else rd md (unat type - 1));
       obj \<leftarrow> protobuf_c_message_unpack desc len cptr;
       Some (ptype, obj)
     }"

definition is_nais_payload :: "byte list \<Rightarrow> int \<Rightarrow> bool option" where
  "is_nais_payload buff len =
     do {
       b \<leftarrow> rd buff 0;
       if b = RECORD_START then do {
         e \<leftarrow> (if 1 \<le> len then rd buff (nat (len - 1)) else None);
         Some (e = RECORD_END) }
       else Some False
     }"

section \<open>The length field is a base-128 number\<close>

lemma wr_take_drop:
  "p < length m \<Longrightarrow> wr m p x = Some (take p m @ x # drop (Suc p) m)"
  by (simp add: wr_def upd_conv_take_nth_drop)

lemma header_loop_b128:
  "header_loop (int n) idx hlen buff =
     (if idx + length (b128 n) \<le> length buff
      then Some (hlen + int (length (b128 n)) - 1, take idx buff @ b128 n @ drop (idx + length (b128 n)) buff)
      else None)"
proof (induction n arbitrary: idx hlen buff rule: b128.induct)
  case (1 n)
  have d: "int n smod 128 = int (n mod 128)" "int n sdiv 128 = int (n div 128)"
    by (simp_all add: smod_nonneg sdiv_nonneg zmod_int zdiv_int)
  show ?case
  proof (cases "idx < length buff")
    case False
    obtain k where "length (b128 n) = Suc k" by (cases "b128 n") auto
    with False show ?thesis
      by (subst header_loop.simps) (simp add: wr_def)
  next
    case True
    show ?thesis
    proof (cases "n < 128")
      case small: True
      then show ?thesis using True d
        by (subst header_loop.simps) (simp add: wr_take_drop b128_small Let_def)
    next
      case False
      have digit: "word_of_int (int (n mod 128)) + 128 = (of_nat (n mod 128 + 128) :: byte)"
        by simp
      define buff1 where "buff1 = take idx buff @ of_nat (n mod 128 + 128) # drop (Suc idx) buff"
      have l1: "length buff1 = length buff" "take (Suc idx) buff1 = take idx buff @ [of_nat (n mod 128 + 128)]"
        "drop (Suc idx + k) buff1 = drop (Suc idx + k) buff" for k
        using True by (simp_all add: buff1_def add.commute)
      let ?b0 = "take idx buff @ of_nat (n mod 128) # drop (Suc idx) buff"
      have m: "wr buff idx (of_nat (n mod 128)) = Some ?b0"
        "rd ?b0 idx = Some (of_nat (n mod 128))" "wr ?b0 idx (of_nat (n mod 128) + 128) = Some buff1"
        using True by (simp_all add: wr_take_drop rd_def nth_append wr_append buff1_def add.commute)
      have "0 < n div 128" using False by (simp add: div_greater_zero_iff)
      then have "header_loop (int n) idx hlen buff = header_loop (int (n div 128)) (Suc idx) (hlen + 1) buff1"
        by (subst header_loop.simps) (simp add: Let_def d m digit del: of_nat_add)
      then show ?thesis
        using False 1 [of "Suc idx" "hlen + 1" buff1] l1 by (auto simp: b128_big simp del: of_nat_add)
    qed
  qed
qed

text \<open>The header of a payload and the place of its end byte.\<close>

definition nais_header :: "proto_msg_t \<Rightarrow> nat \<Rightarrow> byte list" where
  "nais_header t n = [RECORD_START, pm_type t, 0, dline t, flags t] @ b128 n"

lemma length_nais_header: "length (nais_header t n) = 5 + length (b128 n)"
  by (simp add: nais_header_def)

lemma setup_header_eq:
  "nais_setup_header t (int n) buff =
     (let h = length (nais_header t n) in
      if h + n < length buff
      then Some (int h, nais_header t n @ take n (drop h buff) @ RECORD_END # drop (Suc (h + n)) buff)
      else None)"
proof (cases "5 \<le> length buff")
  case False
  then have "length buff = 0 \<or> length buff = 1 \<or> length buff = 2 \<or> length buff = 3 \<or> length buff = 4" by arith
  then show ?thesis
    by (elim disjE) (auto simp: nais_setup_header_def wr_def Let_def length_nais_header)
next
  case True
  then obtain a b c d e r where buff: "buff = a # b # c # d # e # r"
    by (auto simp: numeral_eq_Suc Suc_le_length_iff)
  let ?pre = "[RECORD_START, pm_type t, 0, dline t, flags t]"
  have w: "nais_setup_header t (int n) buff = do {
       (hlen, buff) \<leftarrow> header_loop (int n) 5 6 (?pre @ r);
       buff \<leftarrow> (if 0 \<le> int n + hlen then wr buff (nat (int n + hlen)) RECORD_END else None);
       Some (hlen, buff) }"
    by (simp add: nais_setup_header_def buff wr_def numeral_eq_Suc)
  show ?thesis
  proof (cases "length (b128 n) \<le> length r")
    case False
    then show ?thesis unfolding w by (simp add: header_loop_b128 buff Let_def length_nais_header)
  next
    case True
    have h: "nat (int n + (5 + int (length (b128 n)))) = 5 + length (b128 n) + n"
      by (simp add: nat_eq_iff)
    have loop: "header_loop (int n) 5 6 (?pre @ r) =
        Some (6 + int (length (b128 n)) - 1, nais_header t n @ drop (length (b128 n)) r)"
      using True by (simp add: header_loop_b128 nais_header_def numeral_eq_Suc)
    have len: "length (nais_header t n @ drop (length (b128 n)) r) = length buff"
      using True by (simp add: length_nais_header buff)
    have split: "take (length (nais_header t n) + n) (nais_header t n @ drop (length (b128 n)) r) =
        nais_header t n @ take n (drop (length (nais_header t n)) buff)"
      "drop (Suc (length (nais_header t n) + n)) (nais_header t n @ drop (length (b128 n)) r) =
        drop (Suc (length (nais_header t n) + n)) buff"
      by (simp_all add: length_nais_header buff numeral_eq_Suc add.commute)
    show ?thesis
    proof (cases "length (nais_header t n) + n < length buff")
      case fits: True
      then have "wr (nais_header t n @ drop (length (b128 n)) r) (length (nais_header t n) + n) RECORD_END =
          Some (nais_header t n @ take n (drop (length (nais_header t n)) buff) @
                RECORD_END # drop (Suc (length (nais_header t n) + n)) buff)"
        by (subst wr_take_drop) (simp_all only: len split append_assoc)
      with fits show ?thesis unfolding w loop by (simp add: h Let_def length_nais_header)
    next
      case False
      then have "wr (nais_header t n @ drop (length (b128 n)) r) (length (nais_header t n) + n) RECORD_END = None"
        by (simp only: wr_def len if_False)
      with False show ?thesis unfolding w loop by (simp add: h Let_def length_nais_header)
    qed
  qed
qed

section \<open>Payloads written and read back\<close>

fun obj_type :: "proto_obj \<Rightarrow> nais_message_type" where
  "obj_type (OProfile _) = PROFILE_TYPE"
| "obj_type (OConfig _) = CONFIG_TYPE"
| "obj_type (OAck _) = ACK_TYPE"
| "obj_type (OSecret _) = SECRET_TYPE"
| "obj_type (OCommand _) = COMMAND_TYPE"
| "obj_type (OEvent _) = EVENT_TYPE"

text \<open>A message type names the descriptor of an object; every type above the last one a command.\<close>

definition carries :: "proto_msg_t \<Rightarrow> proto_obj \<Rightarrow> bool" where
  "carries t ob \<longleftrightarrow>
     (if pm_type t > type_code EVENT_TYPE then type_code COMMAND_TYPE else pm_type t) = type_code (obj_type ob)"

definition payload :: "proto_msg_t \<Rightarrow> byte list \<Rightarrow> byte list" where
  "payload t out = nais_header t (length out) @ out @ [RECORD_END]"

lemma length_payload: "length (payload t out) = length (nais_header t (length out)) + length out + 1"
  by (simp add: payload_def)

lemma marshall_payload:
  assumes "protobuf_c_message_pack (obj_desc ob) (obj_msg ob) = Some out"
    and "protobuf_c_message_get_packed_size (obj_desc ob) (obj_msg ob) = Some (length out)"
  shows "nais_marshall t ob buff =
    (if length (payload t out) \<le> length buff
     then Some (int (length (payload t out)), payload t out @ drop (length (payload t out)) buff)
     else None)"
proof -
  let ?h = "length (nais_header t (length out))"
  have b: "wr_block (nais_header t (length out) @ take (length out) (drop ?h buff) @
       RECORD_END # drop (Suc (?h + length out)) buff) ?h out =
      Some (nais_header t (length out) @ out @ RECORD_END # drop (Suc (?h + length out)) buff)"
    if "?h + length out < length buff"
    using that by (subst wr_block_append) simp_all
  show ?thesis
  proof (cases "?h + length out < length buff")
    case True
    then have "length (payload t out) \<le> length buff" by (simp add: length_payload)
    then show ?thesis
      using True assms b [OF True]
      by (simp add: nais_marshall_def nais_marshall_msg_def setup_header_eq Let_def length_payload) (simp add: payload_def)
  next
    case False
    then show ?thesis using assms by (simp add: nais_marshall_def nais_marshall_msg_def setup_header_eq Let_def length_payload)
  qed
qed

lemma unmarshall_len_b128:
  "unmarshall_len (b128 n @ r) len multiplier = Some (len + of_nat n * multiplier, r)"
proof (induction n arbitrary: len multiplier rule: b128.induct)
  case (1 n)
  show ?case
  proof (cases rule: b128_cases [of n])
    case last
    then show ?thesis by (simp add: and_128_eq_0_unat ucast_digit Let_def del: and_128_eq_0)
  next
    case (more b)
    have "of_nat (n mod 128) + of_nat (n div 128) * 128 = (of_nat (n mod 128 + n div 128 * 128) :: u32)"
      by (simp only: of_nat_add of_nat_mult of_nat_numeral)
    also have "\<dots> = of_nat n" by (simp only: mod_div_mult_eq)
    finally have "(of_nat (n mod 128) + of_nat (n div 128) * 128) * multiplier = of_nat n * multiplier"
      by simp
    with more show ?thesis
      using "1.IH" [of "len + of_nat (n mod 128) * multiplier" "multiplier * 128"]
      by (simp add: and_128_eq_0_unat ucast_digit Let_def algebra_simps del: and_128_eq_0)
  qed
qed

lemma unat_of_nat_16: "n < 65536 \<Longrightarrow> unat (of_nat n :: u16) = n"
  by (simp add: unat_of_nat)

lemma sint_of_nat_small: "n < 2 ^ 31 \<Longrightarrow> sint (of_nat n :: u32) = int n"
  by (simp add: signed_of_nat signed_take_bit_int_eq_self)

text \<open>The dump ends for lengths its counter can reach, and reads one byte more than the message.\<close>

lemma debug_dump_ends:
  assumes "n < length data" "n < 65535" "i \<le> n + 1"
  shows "debug_dump (of_nat n) data (of_nat i) = Some ()"
  using assms(3)
proof (induction "n + 1 - i" arbitrary: i)
  case 0
  have "unat (of_nat i :: u16) = i" using 0 assms(2) by (intro unat_of_nat_16) simp
  moreover have "sint (of_nat n :: u32) = int n" using assms(2) by (simp add: sint_of_nat_small)
  ultimately show ?case using 0 by (subst debug_dump.simps) simp
next
  case (Suc k)
  have "unat (of_nat i :: u16) = i" using Suc assms(2) by (intro unat_of_nat_16) simp
  moreover have "sint (of_nat n :: u32) = int n" using assms(2) by (simp add: sint_of_nat_small)
  moreover have "debug_dump (of_nat n) data (of_nat i + 1) = Some ()"
    using Suc.hyps(1) [of "i + 1"] Suc.hyps(2) Suc.prems by (simp add: add.commute)
  ultimately show ?case using Suc assms(1) by (subst debug_dump.simps) (simp add: rd_def)
qed

lemma wf_obj_payload:
  assumes "wf_obj ob"
  obtains out where "protobuf_c_message_pack (obj_desc ob) (obj_msg ob) = Some out"
    "protobuf_c_message_get_packed_size (obj_desc ob) (obj_msg ob) = Some (length out)"
    "\<And>r. length out < 2 ^ 27 \<Longrightarrow>
       protobuf_c_message_unpack (obj_desc ob) (of_nat (length out)) (out @ r) = Some (Some (obj_msg ob))"
  using messages_unpack_pack [OF assms] by (metis option.inject)

lemma unmarshall_header:
  assumes "wf_obj ob" "protobuf_c_message_pack (obj_desc ob) (obj_msg ob) = Some out"
    and "length out < 65535" "carries t ob"
  shows "nais_unmarshall (drop 1 (nais_header t (length out) @ out @ x # rest)) =
    Some (\<lparr>pm_type = pm_type t, dline = 0, flags = flags t\<rparr>, Some (obj_msg ob))"
proof -
  have up: "protobuf_c_message_unpack (obj_desc ob) (of_nat (length out)) (out @ r) = Some (Some (obj_msg ob))" for r
  proof (rule wf_obj_payload [OF assms(1)])
    fix out' assume "protobuf_c_message_pack (obj_desc ob) (obj_msg ob) = Some out'"
      and "\<And>r. length out' < 2 ^ 27 \<Longrightarrow>
        protobuf_c_message_unpack (obj_desc ob) (of_nat (length out')) (out' @ r) = Some (Some (obj_msg ob))"
    with assms(2,3) show ?thesis by simp
  qed
  have dump: "debug_dump (of_nat (length out)) (out @ x # rest) 0 = Some ()"
    using debug_dump_ends [of "length out" "out @ x # rest" 0] assms(3) by simp
  have type: "(if pm_type t > type_code EVENT_TYPE then type_code COMMAND_TYPE else pm_type t) = type_code (obj_type ob)"
    "type_code (obj_type ob) \<noteq> 0" "rd md (unat (type_code (obj_type ob)) - 1) = Some (obj_desc ob)"
    using assms(4) by (cases ob; simp add: md_def word_less_nat_alt carries_def)+
  have "unmarshall_len (b128 (length out) @ out @ x # rest) 0 1 =
      Some (of_nat (length out), out @ x # rest)"
    using unmarshall_len_b128 [of "length out" _ 0 1] by simp
  then show ?thesis
    using type dump up
    by (simp add: nais_unmarshall_def nais_header_def numeral_eq_Suc)
qed

lemma unmarshall_frame:
  assumes "wf_obj ob" "protobuf_c_message_pack (obj_desc ob) (obj_msg ob) = Some out"
    and "length out < 65535" "carries t ob"
  shows "nais_unmarshall (drop 1 (payload t out @ rest)) =
    Some (\<lparr>pm_type = pm_type t, dline = 0, flags = flags t\<rparr>, Some (obj_msg ob))"
  using unmarshall_header [OF assms, of RECORD_END rest] by (simp add: payload_def)

text \<open>The byte that follows the type is the line, which a junction sets on behalf of the peer.\<close>

lemma unmarshall_line:
  "nais_unmarshall (ty # l # rest) = map_option (apfst (\<lambda>t. t\<lparr>dline := l\<rparr>)) (nais_unmarshall (ty # l' # rest))"
  by (simp add: nais_unmarshall_def option.map_comp o_def Let_def split_beta split: option.splits bind_splits)

lemma unmarshall_from_line:
  assumes "wf_obj ob" "protobuf_c_message_pack (obj_desc ob) (obj_msg ob) = Some out"
    and "length out < 65535" "carries t ob"
  shows "nais_unmarshall (drop 1 ((payload t out)[2 := l] @ rest)) =
    Some (\<lparr>pm_type = pm_type t, dline = l, flags = flags t\<rparr>, Some (obj_msg ob))"
  using unmarshall_frame [OF assms, of rest]
    unmarshall_line [of "pm_type t" l "drop 3 (payload t out) @ rest" 0]
  by (simp add: payload_def nais_header_def numeral_eq_Suc)

lemma payload_recognised:
  "is_nais_payload (payload t out @ rest) (int (length (payload t out))) = Some True"
proof -
  have "rd (payload t out @ rest) (length (payload t out) - 1) = Some RECORD_END"
    by (simp add: rd_def nth_append length_payload) (simp add: payload_def nth_append)
  moreover have "rd (payload t out @ rest) 0 = Some RECORD_START"
    by (simp add: payload_def nais_header_def)
  ultimately show ?thesis by (simp add: is_nais_payload_def length_payload nat_int_add)
qed

text \<open>
  C1: Marshalling a message fills a buffer that is large enough with one complete payload and
  nothing else. The payload is recognised as one, and unmarshalling what follows its start byte
  gives the type, the flags and the message back; the line comes back as 0, since a payload's
  source line is always sent as 0.
\<close>

theorem payload_roundtrip:
  assumes "wf_obj ob" "carries t ob"
    and "protobuf_c_message_get_packed_size (obj_desc ob) (obj_msg ob) = Some n" "n < 65535"
    and "6 + length (b128 n) + n \<le> length buff"
  shows "\<exists>buff'. nais_marshall t ob buff = Some (int (6 + length (b128 n) + n), buff') \<and>
    length buff' = length buff \<and>
    drop (6 + length (b128 n) + n) buff' = drop (6 + length (b128 n) + n) buff \<and>
    is_nais_payload buff' (int (6 + length (b128 n) + n)) = Some True \<and>
    nais_unmarshall (drop 1 buff') =
      Some (\<lparr>pm_type = pm_type t, dline = 0, flags = flags t\<rparr>, Some (obj_msg ob))"
proof -
  from wf_obj_payload [OF assms(1)] obtain out where out:
    "protobuf_c_message_pack (obj_desc ob) (obj_msg ob) = Some out"
    "protobuf_c_message_get_packed_size (obj_desc ob) (obj_msg ob) = Some (length out)" by blast
  then have n: "n = length out" using assms(3) by simp
  have l: "length (payload t out) = 6 + length (b128 n) + n"
    by (simp add: length_payload length_nais_header n)
  let ?b = "payload t out @ drop (length (payload t out)) buff"
  have "nais_marshall t ob buff = Some (int (length (payload t out)), ?b)"
    using assms(5) by (simp add: marshall_payload [OF out] l)
  moreover have "nais_unmarshall (drop 1 ?b) =
      Some (\<lparr>pm_type = pm_type t, dline = 0, flags = flags t\<rparr>, Some (obj_msg ob))"
    using assms(4) n by (intro unmarshall_frame [OF assms(1) out(1) _ assms(2)]) simp
  moreover have "length ?b = length buff" using assms(5) l by simp
  moreover have "drop (length (payload t out)) ?b = drop (length (payload t out)) buff" by simp
  ultimately show ?thesis using payload_recognised [of t out] unfolding l by blast
qed

theorem payload_roundtrip_witness:
  "\<exists>buff'. nais_marshall \<lparr>pm_type = 3, dline = 1, flags = 2\<rparr>
      (OAck \<lparr>a_id = 5, a_has_seq = 0, a_seq = 0, has_status = 1, status = 1\<rparr>) (replicate 16 0) = Some (11, buff') \<and>
    is_nais_payload buff' 11 = Some True \<and>
    nais_unmarshall (drop 1 buff') = Some (\<lparr>pm_type = 3, dline = 0, flags = 2\<rparr>,
      Some (obj_msg (OAck \<lparr>a_id = 5, a_has_seq = 0, a_seq = 0, has_status = 1, status = 1\<rparr>)))"
proof -
  let ?ob = "OAck \<lparr>a_id = 5, a_has_seq = 0, a_seq = 0, has_status = 1, status = 1\<rparr>"
  let ?t = "\<lparr>pm_type = 3, dline = 1, flags = 2\<rparr>"
  have "wf_obj ?ob" by (simp add: opt_ok_def)
  moreover have "carries ?t ?ob" by (simp add: carries_def word_less_nat_alt)
  moreover have "protobuf_c_message_get_packed_size (obj_desc ?ob) (obj_msg ?ob) = Some 4"
    by (simp add: descriptor_defs cells_defs obj_msg_def protobuf_c_message_get_packed_size_def
        field_get_packed_size_def required_field_get_packed_size_def optional_field_get_packed_size_def
        int32_size_def get_tag_size_def word_less_nat_alt)
  ultimately show ?thesis
    using payload_roundtrip [of ?ob ?t 4 "replicate 16 0"] by (auto simp: b128_small)
qed

text \<open>
  The buffer is not checked: a message whose payload does not fit makes \<open>nais_marshall\<close> write
  outside it. With the 256 bytes of the program every message packed into 249 bytes or more does.
\<close>

theorem marshall_overruns:
  assumes "wf_obj ob"
    and "protobuf_c_message_get_packed_size (obj_desc ob) (obj_msg ob) = Some n"
    and "length buff < 6 + length (b128 n) + n"
  shows "nais_marshall t ob buff = None"
proof -
  from wf_obj_payload [OF assms(1)] obtain out where out:
    "protobuf_c_message_pack (obj_desc ob) (obj_msg ob) = Some out"
    "protobuf_c_message_get_packed_size (obj_desc ob) (obj_msg ob) = Some (length out)" by blast
  with assms(2,3) show ?thesis
    by (simp add: marshall_payload [OF out] length_payload length_nais_header)
qed

theorem marshall_overruns_witness:
  "nais_marshall \<lparr>pm_type = 4, dline = 0, flags = 0\<rparr> (OSecret \<lparr>key = Heap (replicate 300 1)\<rparr>)
     (replicate 256 0) = None"
proof -
  let ?ob = "OSecret \<lparr>key = Heap (replicate 300 1)\<rparr>"
  have "wf_obj ?ob" by (simp add: text_ok_def)
  moreover have "chars (replicate 300 1) = replicate 300 1" by (simp add: chars_def)
  then have "protobuf_c_message_get_packed_size (obj_desc ?ob) (obj_msg ?ob) = Some 303"
    by (simp add: descriptor_defs cells_defs obj_msg_def protobuf_c_message_get_packed_size_def
        field_get_packed_size_def required_field_get_packed_size_def
        uint32_size_def get_tag_size_def word_less_nat_alt)
  ultimately show ?thesis by (rule marshall_overruns) simp
qed

text \<open>
  A payload of type 0 selects the descriptor in front of the table: unmarshalling it never
  succeeds and never reports an error either.
\<close>

theorem type_zero_reads_before_table:
  "nais_unmarshall (0 # data) = None"
  by (simp add: nais_unmarshall_def bind_eq_None_conv Let_def split: prod.splits)

text \<open>
  Types above the last one are taken for commands: the same message bytes give the same
  command under any of these types.
\<close>

theorem unknown_types_are_commands:
  assumes "type_code EVENT_TYPE < t"
  shows "nais_unmarshall (t # data) =
    map_option (\<lambda>(p, m). (p\<lparr>pm_type := t\<rparr>, m)) (nais_unmarshall (type_code COMMAND_TYPE # data))"
proof -
  have "t \<noteq> 0" using assms by auto
  define unpack where "unpack = (\<lambda>len cptr. do {
    debug_dump len cptr 0; desc \<leftarrow> rd md 4; protobuf_c_message_unpack desc len cptr })"
  have u: "nais_unmarshall (x # data) = do {
      dl \<leftarrow> rd data 0; _ \<leftarrow> rd data 1; fl \<leftarrow> rd data 2;
      (len, cptr) \<leftarrow> unmarshall_len (drop 3 data) 0 1; ob \<leftarrow> unpack len cptr;
      Some (\<lparr>pm_type = x, dline = dl, flags = fl\<rparr>, ob) }" if "x = 5 \<or> x = t" for x
    using that assms \<open>t \<noteq> 0\<close>
    by (auto simp: nais_unmarshall_def Let_def unpack_def drop_Cons' bind_assoc split_beta)
  show ?thesis
    by (simp add: u) (auto split: bind_splits option.splits prod.splits)
qed

theorem unknown_types_are_commands_witness:
  "nais_unmarshall (9 # [1, 0, 0, 2, 8, 1, 0x17]) =
    map_option (\<lambda>(p, m). (p\<lparr>pm_type := 9\<rparr>, m))
      (nais_unmarshall (type_code COMMAND_TYPE # [1, 0, 0, 2, 8, 1, 0x17]))"
  by (rule unknown_types_are_commands) (simp add: word_less_nat_alt)

lemma debug_dump_none: "65535 \<le> sint len \<Longrightarrow> debug_dump len data i = None"
proof -
  have "sint len < 65535" if "debug_dump len data i = Some u" for u
  proof (rule debug_dump.raw_induct [where P = "\<lambda>len data i u. sint len < 65535", OF _ that])
    fix dump :: "u32 \<Rightarrow> byte list \<Rightarrow> u16 \<Rightarrow> unit option" and len data i u
    assume IH: "\<And>len data i u. dump len data i = Some u \<Longrightarrow> sint len < 65535"
      and r: "(if int (unat i) < sint len + 1 then do { b \<leftarrow> rd data (unat i); dump len data (i + 1) }
        else Some ()) = Some u"
    have "uint i < 65536" using uint_lt2p [of i] by simp
    then show "sint len < 65535" using r IH by (auto simp: bind_eq_Some_conv split: if_splits)
  qed
  then show "65535 \<le> sint len \<Longrightarrow> debug_dump len data i = None"
    by (cases "debug_dump len data i") force+
qed

text \<open>
  A message that announces 65535 bytes or more is never parsed: the 16-bit counter of the debug
  dump cannot reach the length, so the dump leaves the memory or runs forever.
\<close>

theorem long_messages_never_parsed:
  assumes "unmarshall_len (drop 4 data) 0 1 = Some (len, rest)" "65535 \<le> sint len"
  shows "nais_unmarshall data = None"
  using assms by (auto simp: nais_unmarshall_def debug_dump_none Let_def bind_eq_None_conv)

theorem long_messages_never_parsed_witness:
  "nais_unmarshall [5, 0, 0, 0, 0xff, 0xff, 3, 1] = None"
proof (rule long_messages_never_parsed)
  have "unmarshall_len [0xff, 0xff, 3, 1] 0 1 = Some (65535, [1])"
    using unmarshall_len_b128 [of 65535 "[1]" 0 1] by (simp add: b128.simps)
  then show "unmarshall_len (drop 4 [5, 0, 0, 0, 0xff, 0xff, 3, 1]) 0 1 = Some (65535, [1])"
    by (simp add: drop_Cons')
qed simp

end
