(* ===== verification/Bocia_Uart.thy ===== *)
theory Bocia_Uart
  imports Nais
begin

text \<open>
  The serial line, \<^verbatim>\<open>burba/sys/bocia/bocia_uart.c\<close>: sending a payload and the state machine
  that collects one from the characters received. A received payload is handed to
  \<open>bocia_unmarshall\<close>; here the step reports the buffer it hands over. A step is \<^term>\<open>None\<close> when it
  writes behind the receive buffer.
\<close>

definition MAX_BIN_SIZE :: nat where "MAX_BIN_SIZE = 512"

section \<open>Sending\<close>

text \<open>The bytes written to the line and the transmit buffer; the message goes to offset 6.\<close>

definition protobuf_to_uart :: "proto_msg_t \<Rightarrow> pobj \<Rightarrow> byte list \<Rightarrow> (byte list \<times> byte list) option" where
  "protobuf_to_uart type obj txbuff =
     do {
       blen \<leftarrow> protobuf_c_message_get_packed_size (fst obj) (snd obj);
       (hlen, txbuff) \<leftarrow> nais_setup_header type (int blen) txbuff;
       out \<leftarrow> protobuf_c_message_pack (fst obj) (snd obj);
       txbuff \<leftarrow> wr_block txbuff 6 out;
       Some (take (nat hlen + blen + 1) txbuff, txbuff)
     }"

section \<open>Receiving\<close>

datatype uart_sts =
  WAIT_START | MSG_TYPE | SLINE | DLINE | FLAGS | LEN | BIN_BLOCK | EXPECT_END

record uart =
  sts :: uart_sts
  rxbuff :: "byte list"
  line_pos :: nat
  binlen :: u32
  multiplier :: u32

definition uart_init :: uart where
  "uart_init = \<lparr>sts = WAIT_START, rxbuff = replicate MAX_BIN_SIZE 0, line_pos = 0, binlen = 0, multiplier = 1\<rparr>"

text \<open>\<open>*line_buf_ptr++ = c\<close>\<close>

definition put :: "int \<Rightarrow> uart \<Rightarrow> uart option" where
  "put c u = do { b \<leftarrow> wr (rxbuff u) (line_pos u) (word_of_int c);
                  Some (u\<lparr>rxbuff := b, line_pos := line_pos u + 1\<rparr>) }"

text \<open>One round of the loop on the character \<open>c\<close>.\<close>

definition serial_step :: "int \<Rightarrow> uart \<Rightarrow> (uart \<times> byte list option) option" where
  "serial_step c u =
     (if c = uint RECORD_END \<and> sts u = EXPECT_END
      then Some (u\<lparr>sts := WAIT_START, line_pos := 0, binlen := 0\<rparr>, Some (rxbuff u))
      else
        map_option (\<lambda>u. (u, None))
          (case sts u of
             WAIT_START \<Rightarrow>
               Some (if c = uint RECORD_START then u\<lparr>sts := MSG_TYPE, multiplier := 1\<rparr> else u)
           | MSG_TYPE \<Rightarrow> do { u \<leftarrow> put c u; Some (u\<lparr>sts := SLINE\<rparr>) }
           | SLINE \<Rightarrow> do { u \<leftarrow> put c u; Some (u\<lparr>sts := DLINE\<rparr>) }
           | DLINE \<Rightarrow> do { u \<leftarrow> put c u; Some (u\<lparr>sts := FLAGS\<rparr>) }
           | FLAGS \<Rightarrow> do { u \<leftarrow> put c u; Some (u\<lparr>sts := LEN\<rparr>) }
           | LEN \<Rightarrow>
               (let u = u\<lparr>binlen := binlen u + (word_of_int c AND 127) * multiplier u,
                          multiplier := multiplier u * 128\<rparr>;
                    u = (if c AND 128 = 0 then u\<lparr>sts := BIN_BLOCK\<rparr> else u)
                in put c u)
           | BIN_BLOCK \<Rightarrow> do {
               u \<leftarrow> put c u;
               Some (if int (line_pos u) = sint (binlen u + 5) then u\<lparr>sts := EXPECT_END\<rparr> else u) }
           | EXPECT_END \<Rightarrow> Some u))"

text \<open>The buffers handed over while a sequence of characters comes in.\<close>

fun serial_run :: "int list \<Rightarrow> uart \<Rightarrow> (uart \<times> byte list list) option" where
  "serial_run [] u = Some (u, [])"
| "serial_run (c # cs) u =
     do {
       (u, d) \<leftarrow> serial_step c u;
       (u, ds) \<leftarrow> serial_run cs u;
       Some (u, (case d of None \<Rightarrow> ds | Some b \<Rightarrow> b # ds))
     }"

section \<open>Characters collected\<close>

lemma serial_run_append:
  "serial_run (cs @ ds) u =
     do { (u, a) \<leftarrow> serial_run cs u; (u, b) \<leftarrow> serial_run ds u; Some (u, a @ b) }"
proof (induction cs arbitrary: u)
  case Nil
  then show ?case by (cases "serial_run ds u") auto
next
  case (Cons c cs)
  show ?case
    by (cases "serial_step c u")
       (auto simp: Cons split: option.splits bind_splits prod.splits)
qed

abbreviation chars_of :: "byte list \<Rightarrow> int list" where
  "chars_of bs \<equiv> map uint bs"

lemma put_byte [simp]:
  "line_pos u < length (rxbuff u) \<Longrightarrow>
     put (uint b) u = Some (u\<lparr>rxbuff := (rxbuff u)[line_pos u := b], line_pos := line_pos u + 1\<rparr>)"
  by (simp add: put_def wr_def)

text \<open>The payload itself: everything up to the expected length is stored, whatever it is.\<close>

lemma bin_block_run:
  assumes "sts u = BIN_BLOCK" "line_pos u + length bs \<le> length (rxbuff u)" "bs \<noteq> []"
    and "int (line_pos u) + int (length bs) = sint (binlen u + 5)"
  shows "serial_run (chars_of bs) u =
    Some (u\<lparr>sts := EXPECT_END, line_pos := line_pos u + length bs,
            rxbuff := take (line_pos u) (rxbuff u) @ bs @ drop (line_pos u + length bs) (rxbuff u)\<rparr>, [])"
  using assms
proof (induction bs arbitrary: u)
  case (Cons b bs)
  let ?p = "line_pos u"
  let ?u = "u\<lparr>rxbuff := (rxbuff u)[?p := b], line_pos := ?p + 1\<rparr>"
  have p: "?p < length (rxbuff u)" using Cons.prems(2) by simp
  show ?case
  proof (cases "bs = []")
    case True
    with Cons.prems p show ?thesis
      by (simp add: serial_step_def upd_conv_take_nth_drop)
  next
    case False
    then have "1 + int ?p \<noteq> sint (binlen u + 5)" using Cons.prems(4) by (cases bs) simp_all
    then have "serial_step (uint b) u = Some (?u, None)"
      using Cons.prems p by (simp add: serial_step_def)
    moreover have "serial_run (chars_of bs) ?u = Some (u\<lparr>sts := EXPECT_END, line_pos := ?p + 1 + length bs,
        rxbuff := take (?p + 1) ((rxbuff u)[?p := b]) @ bs @ drop (?p + 1 + length bs) ((rxbuff u)[?p := b])\<rparr>, [])"
      using Cons.IH [of ?u] Cons.prems False by simp
    moreover have "take (?p + 1) ((rxbuff u)[?p := b]) = take ?p (rxbuff u) @ [b]"
      using p by (simp add: take_Suc_conv_app_nth)
    ultimately show ?thesis using p by simp
  qed
qed simp

text \<open>Characters in front of a payload are skipped.\<close>

lemma noise_run:
  "sts u = WAIT_START \<Longrightarrow> RECORD_START \<notin> set noise \<Longrightarrow> serial_run (chars_of noise) u = Some (u, [])"
  by (induction noise) (auto simp: serial_step_def word_uint_eq_iff)

text \<open>The header of a payload with a length of one byte.\<close>

definition idle :: "uart \<Rightarrow> bool" where
  "idle u \<longleftrightarrow> sts u = WAIT_START \<and> line_pos u = 0 \<and> binlen u = 0 \<and> length (rxbuff u) = MAX_BIN_SIZE"

lemma idle_init: "idle uart_init"
  by (simp add: idle_def uart_init_def)

lemma put_byte_int:
  "line_pos u < length (rxbuff u) \<Longrightarrow>
     put c u = Some (u\<lparr>rxbuff := (rxbuff u)[line_pos u := word_of_int c], line_pos := line_pos u + 1\<rparr>)"
  by (simp add: put_def wr_def)

lemma of_byte_and_127: "(word_of_int (uint (c::byte)) AND 127 :: u32) = ucast (c AND 127)"
  by (rule bit_word_eqI) (use bit_imp_le_length [of c] in \<open>force simp: bit_simps\<close>)

lemma len_step:
  assumes "sts u = LEN" "line_pos u < length (rxbuff u)"
  shows "serial_step (uint (c::byte)) u =
    Some (u\<lparr>sts := (if c AND 128 = 0 then BIN_BLOCK else LEN),
            binlen := binlen u + ucast (c AND 127) * multiplier u, multiplier := multiplier u * 128,
            rxbuff := (rxbuff u)[line_pos u := c], line_pos := line_pos u + 1\<rparr>, None)"
proof -
  have "uint c AND 128 = uint (c AND 128)" by (simp add: uint_and del: and_128_eq_0)
  then have "uint c AND 128 = 0 \<longleftrightarrow> c AND 128 = 0" by (simp only: unsigned_eq_0_iff)
  moreover have "(ucast c AND 127 :: u32) = ucast (c AND 127)"
    using of_byte_and_127 [of c] by simp
  ultimately show ?thesis
    using assms by (cases u) (simp add: serial_step_def put_byte_int Let_def del: and_128_eq_0)
qed

lemma len_run:
  assumes "sts u = LEN" "line_pos u + length (b128 n) \<le> length (rxbuff u)"
  shows "serial_run (chars_of (b128 n)) u =
    Some (u\<lparr>sts := BIN_BLOCK, line_pos := line_pos u + length (b128 n),
            binlen := binlen u + of_nat n * multiplier u, multiplier := multiplier u * 128 ^ length (b128 n),
            rxbuff := take (line_pos u) (rxbuff u) @ b128 n @ drop (line_pos u + length (b128 n)) (rxbuff u)\<rparr>, [])"
  using assms
proof (induction n arbitrary: u rule: b128.induct)
  case (1 n)
  let ?p = "line_pos u"
  show ?case
  proof (cases rule: b128_cases [of n])
    case last
    with 1(2,3) show ?thesis
      by (simp add: len_step and_128_eq_0_unat ucast_digit upd_conv_take_nth_drop
          del: and_128_eq_0 uint_of_nat_byte)
  next
    case (more b)
    then have p: "?p < length (rxbuff u)" using 1(3) by simp
    let ?u = "u\<lparr>binlen := binlen u + of_nat (n mod 128) * multiplier u, multiplier := multiplier u * 128,
        rxbuff := (rxbuff u)[?p := b], line_pos := ?p + 1\<rparr>"
    have step: "serial_step (uint b) u = Some (?u, None)"
      using more 1(2) p by (simp add: len_step and_128_eq_0_unat ucast_digit del: and_128_eq_0)
    have "of_nat (n mod 128) + of_nat (n div 128) * 128 = (of_nat (n mod 128 + n div 128 * 128) :: u32)"
      by (simp only: of_nat_add of_nat_mult of_nat_numeral)
    also have "\<dots> = of_nat n" by (simp only: mod_div_mult_eq)
    finally have digits: "of_nat (n mod 128) + of_nat (n div 128) * 128 = (of_nat n :: u32)" .
    have bin: "of_nat (n mod 128) * m + of_nat (n div 128) * (m * 128) = of_nat n * (m :: u32)" for m
    proof -
      have "of_nat (n mod 128) * m + of_nat (n div 128) * (m * 128) =
          (of_nat (n mod 128) + of_nat (n div 128) * 128) * m" by (simp add: algebra_simps)
      then show ?thesis using digits by simp
    qed
    have "take (?p + 1) ((rxbuff u)[?p := b]) = take ?p (rxbuff u) @ [b]"
      using p by (simp add: take_Suc_conv_app_nth)
    moreover have "serial_run (chars_of (b128 (n div 128))) ?u =
       Some (?u\<lparr>sts := BIN_BLOCK, line_pos := ?p + 1 + length (b128 (n div 128)),
            binlen := binlen u + of_nat n * multiplier u,
            multiplier := multiplier u * 128 * 128 ^ length (b128 (n div 128)),
            rxbuff := take (?p + 1) ((rxbuff u)[?p := b]) @ b128 (n div 128) @
              drop (?p + 1 + length (b128 (n div 128))) ((rxbuff u)[?p := b])\<rparr>, [])"
      using 1(1) [of ?u] more 1(2,3) bin [of "multiplier u"] by (simp add: add.assoc)
    ultimately show ?thesis
      using step p by (simp add: more mult.assoc)
  qed
qed

lemma header_run:
  assumes "idle u" "length (nais_header t n) \<le> 513"
  shows "serial_run (chars_of (nais_header t n)) u =
    Some (u\<lparr>sts := BIN_BLOCK, line_pos := length (nais_header t n) - 1, binlen := of_nat n,
            multiplier := 128 ^ length (b128 n),
            rxbuff := drop 1 (nais_header t n) @ drop (length (nais_header t n) - 1) (rxbuff u)\<rparr>, [])"
proof -
  have "5 \<le> length (rxbuff u)" using assms(1) by (simp add: idle_def MAX_BIN_SIZE_def)
  then obtain a b c d r where rx: "rxbuff u = a # b # c # d # r"
    by (auto simp: numeral_eq_Suc Suc_le_length_iff)
  have "serial_run (chars_of [RECORD_START, pm_type t, 0, dline t, flags t]) u =
     Some (u\<lparr>sts := LEN, line_pos := 4, rxbuff := pm_type t # 0 # dline t # flags t # r, multiplier := 1\<rparr>, [])"
    using assms rx by (simp add: idle_def serial_step_def put_byte_int RECORD_START_def RECORD_END_def)
  moreover have drop4: "drop (4 + k) (x1 # x2 # x3 # x4 # r) = drop k r" for k and x1 x2 x3 x4 :: byte
    by (simp add: numeral_eq_Suc)
  have "serial_run (chars_of (b128 n))
      (u\<lparr>sts := LEN, line_pos := 4, rxbuff := pm_type t # 0 # dline t # flags t # r, multiplier := 1\<rparr>) =
    Some (u\<lparr>sts := BIN_BLOCK, line_pos := 4 + length (b128 n), binlen := of_nat n, multiplier := 128 ^ length (b128 n),
            rxbuff := pm_type t # 0 # dline t # flags t # b128 n @ drop (length (b128 n)) r\<rparr>, [])"
    using assms rx drop4
    by (subst len_run) (auto simp: length_nais_header idle_def MAX_BIN_SIZE_def)
  ultimately show ?thesis
    unfolding nais_header_def map_append serial_run_append using rx drop4 by simp
qed

text \<open>A complete payload whose length fits one byte is handed over, whatever its bytes are.\<close>

lemma frame_run:
  assumes "idle u" "RECORD_START \<notin> set noise" "out \<noteq> []" "length out < 128"
  shows "\<exists>u' x rest. serial_run (chars_of (noise @ payload t out)) u =
      Some (u', [drop 1 (nais_header t (length out) @ out @ x # rest)]) \<and> idle u'"
proof -
  let ?n = "length out" and ?h = "nais_header t (length out)"
  let ?u = "u\<lparr>sts := BIN_BLOCK, line_pos := 5, binlen := of_nat ?n, multiplier := 128,
            rxbuff := drop 1 ?h @ drop 5 (rxbuff u)\<rparr>"
  have h: "length ?h = 6" using assms(4) by (simp add: length_nais_header b128_small)
  then have l: "length (rxbuff ?u) = 512" "take 5 (rxbuff ?u) = drop 1 ?h"
    using assms(1) by (simp_all add: idle_def MAX_BIN_SIZE_def)
  define tail where "tail = drop (5 + ?n) (rxbuff ?u)"
  have "length tail = 507 - ?n" unfolding tail_def length_drop l by simp
  then obtain x rest where rest: "tail = x # rest" "length (x # rest) = 507 - ?n"
    using assms(4) by (cases tail) auto
  have "(of_nat ?n + 5 :: u32) = of_nat (?n + 5)" by simp
  moreover have "sint (of_nat (?n + 5) :: u32) = int (?n + 5)"
    by (rule sint_of_nat_small) (use assms(4) in simp)
  ultimately have run: "serial_run (chars_of out) ?u = Some (?u\<lparr>sts := EXPECT_END, line_pos := 5 + ?n,
      rxbuff := drop 1 ?h @ out @ x # rest\<rparr>, [])"
    using bin_block_run [of ?u out] l assms(3,4) rest by (simp add: tail_def)
  have "serial_run (chars_of (noise @ ?h @ out @ [RECORD_END])) u =
      Some (u\<lparr>sts := WAIT_START, line_pos := 0, binlen := 0, multiplier := 128,
              rxbuff := drop 1 ?h @ out @ x # rest\<rparr>, [drop 1 ?h @ out @ x # rest])"
    unfolding map_append serial_run_append
    using noise_run [OF _ assms(2), of u] header_run [OF assms(1), of t ?n] run assms(1) h
    by (simp add: serial_step_def idle_def b128_small assms(4))
  moreover have "length (drop 1 ?h @ out @ x # rest) = 512"
    using rest(2) h assms(4) by simp
  ultimately show ?thesis
    using h by (auto simp: payload_def idle_def MAX_BIN_SIZE_def)
qed

section \<open>Messages over the line\<close>

text \<open>What is sent for one message: any noise, then its marshalled payload.\<close>

type_synonym sending = "byte list \<times> proto_msg_t \<times> proto_obj"

fun sendable :: "sending \<Rightarrow> bool" where
  "sendable (noise, t, ob) \<longleftrightarrow> RECORD_START \<notin> set noise \<and> wf_obj ob \<and>
     carries t ob \<and>
     (case protobuf_c_message_get_packed_size (obj_desc ob) (obj_msg ob) of
        Some n \<Rightarrow> 0 < n \<and> n < 128 | None \<Rightarrow> False)"

fun sent_bytes :: "sending \<Rightarrow> byte list" where
  "sent_bytes (noise, t, ob) =
     noise @ (case nais_marshall t ob (replicate 256 0) of
                Some (len, buff) \<Rightarrow> take (nat len) buff | None \<Rightarrow> [])"

fun received_as :: "sending \<Rightarrow> byte list \<Rightarrow> bool" where
  "received_as (noise, t, ob) b \<longleftrightarrow>
     nais_unmarshall b = Some (\<lparr>pm_type = pm_type t, dline = 0, flags = flags t\<rparr>, Some (obj_msg ob))"

lemma sending_run:
  assumes "sendable m" "idle u"
  shows "\<exists>u' b. serial_run (chars_of (sent_bytes m)) u = Some (u', [b]) \<and> received_as m b \<and> idle u'"
proof -
  obtain noise t ob where m: "m = (noise, t, ob)" by (cases m) auto
  with assms(1) have wf: "wf_obj ob" "RECORD_START \<notin> set noise" "carries t ob" by auto
  from wf_obj_payload [OF wf(1)] obtain out where out:
    "protobuf_c_message_pack (obj_desc ob) (obj_msg ob) = Some out"
    "protobuf_c_message_get_packed_size (obj_desc ob) (obj_msg ob) = Some (length out)" by blast
  with assms(1) m have n: "0 < length out" "length out < 128" by auto
  then have "length (payload t out) \<le> 256" by (simp add: length_payload length_nais_header b128_small)
  then have "sent_bytes m = noise @ payload t out"
    using m by (simp add: marshall_payload [OF out])
  moreover obtain u' x rest where "serial_run (chars_of (noise @ payload t out)) u =
      Some (u', [drop 1 (nais_header t (length out) @ out @ x # rest)])" "idle u'"
    using frame_run [OF assms(2) wf(2), of out t] n by auto
  moreover have "received_as m (drop 1 (nais_header t (length out) @ out @ x # rest))"
    using unmarshall_header [OF wf(1) out(1) _ wf(3), of x rest] n m by (simp del: drop_append)
  ultimately show ?thesis by auto
qed

lemma serial_run_messages:
  assumes "list_all sendable ms" "idle u"
  shows "\<exists>u' bs. serial_run (chars_of (concat (map sent_bytes ms))) u = Some (u', bs) \<and>
    list_all2 received_as ms bs \<and> idle u'"
  using assms
proof (induction ms arbitrary: u)
  case (Cons m ms)
  then obtain u1 b where 1: "serial_run (chars_of (sent_bytes m)) u = Some (u1, [b])" "received_as m b" "idle u1"
    using sending_run [of m u] by auto
  with Cons obtain u2 bs where 2: "serial_run (chars_of (concat (map sent_bytes ms))) u1 = Some (u2, bs)"
    "list_all2 received_as ms bs" "idle u2" by force
  have "serial_run (chars_of (concat (map sent_bytes (m # ms)))) u = Some (u2, b # bs)"
    unfolding list.map concat.simps map_append serial_run_append 1 2(1) bind.bind_lunit prod.case
    using 2(1) by simp
  with 1(2) 2(2,3) show ?case by auto
qed simp

text \<open>
  C4: Every message of a sequence arrives, in order, each exactly once, and the receiver is ready
  again: for messages of 1 to 127 bytes with any characters but the start byte between them, the
  receive loop hands over one buffer per message and unmarshalling it gives the message back.
\<close>

theorem serial_delivers:
  assumes "list_all sendable ms" "idle u"
  shows "\<exists>u' bs. serial_run (chars_of (concat (map sent_bytes ms))) u = Some (u', bs) \<and>
    list_all2 received_as ms bs \<and> idle u'"
  using assms by (rule serial_run_messages)

theorem serial_delivers_witness:
  "\<exists>u' bs. serial_run (chars_of (concat (map sent_bytes
       [([0x0A], \<lparr>pm_type = 3, dline = 1, flags = 2\<rparr>, OAck \<lparr>a_id = 5, a_has_seq = 0, a_seq = 0, has_status = 1, status = 1\<rparr>),
        ([], \<lparr>pm_type = 3, dline = 0, flags = 0\<rparr>, OAck \<lparr>a_id = 5, a_has_seq = 0, a_seq = 0, has_status = 1, status = 1\<rparr>)])))
     uart_init = Some (u', bs) \<and> length bs = 2"
proof -
  let ?ob = "OAck \<lparr>a_id = 5, a_has_seq = 0, a_seq = 0, has_status = 1, status = 1\<rparr>"
  let ?ms = "[([0x0A], \<lparr>pm_type = 3, dline = 1, flags = 2\<rparr>, ?ob), ([], \<lparr>pm_type = 3, dline = 0, flags = 0\<rparr>, ?ob)]"
  have "protobuf_c_message_get_packed_size (obj_desc ?ob) (obj_msg ?ob) = Some 4"
    by (simp add: descriptor_defs cells_defs obj_msg_def protobuf_c_message_get_packed_size_def
        field_get_packed_size_def required_field_get_packed_size_def optional_field_get_packed_size_def
        int32_size_def get_tag_size_def word_less_nat_alt)
  then have "list_all sendable ?ms" by (simp add: opt_ok_def RECORD_START_def carries_def word_less_nat_alt)
  from serial_delivers [OF this idle_init] obtain u' bs where
    "serial_run (chars_of (concat (map sent_bytes ?ms))) uart_init = Some (u', bs)"
    "list_all2 received_as ?ms bs" by blast
  moreover from this(2) have "length bs = 2" by (auto dest: list_all2_lengthD)
  ultimately show ?thesis by blast
qed

section \<open>Longer payloads\<close>


lemma expected_end:
  "n < 2 ^ 30 \<Longrightarrow> sint (of_nat n + 5 :: u32) = int n + 5"
proof -
  assume n: "n < 2 ^ 30"
  have "(of_nat n + 5 :: u32) = of_nat (n + 5)" by simp
  moreover have "sint (of_nat (n + 5) :: u32) = int (n + 5)"
    by (rule sint_of_nat_small) (use n in simp)
  ultimately show ?thesis by simp
qed

lemma bin_block_overflow:
  assumes "sts u = BIN_BLOCK" "line_pos u \<le> length (rxbuff u)" "length (rxbuff u) < line_pos u + length bs"
    and "int (length (rxbuff u)) < sint (binlen u + 5)"
  shows "serial_run (chars_of bs) u = None"
  using assms
proof (induction bs arbitrary: u)
  case (Cons b bs)
  show ?case
  proof (cases "line_pos u < length (rxbuff u)")
    case True
    let ?u = "u\<lparr>rxbuff := (rxbuff u)[line_pos u := b], line_pos := line_pos u + 1\<rparr>"
    have "serial_step (uint b) u = Some (?u, None)"
      using Cons.prems True by (simp add: serial_step_def)
    then show ?thesis using Cons.IH [of ?u] Cons.prems True by simp
  next
    case False
    then show ?thesis using Cons.prems by (simp add: serial_step_def put_def wr_def)
  qed
qed simp

text \<open>
  C40: The end of a payload is expected five bytes after its announced length, which leaves room for
  a length of one byte only: of a message of 128 to 507 bytes the last byte is lost, and the buffer
  handed over ends with what it held before.
\<close>

theorem long_message_loses_last_byte:
  assumes "idle u" "n = length bs + 1" "128 \<le> n" "n \<le> 507"
  shows "\<exists>u'. serial_run (chars_of (payload t (bs @ [c]))) u =
      Some (u', [drop 1 (nais_header t n) @ bs @ drop (n + 5) (rxbuff u)]) \<and> idle u'"
proof -
  have L: "length (b128 n) = 2"
    using length_b128_le [of 1 n] length_b128_le [of 2 n] assms(3,4) by simp
  then have h: "length (nais_header t n) = 7" by (simp add: length_nais_header)
  have rx: "length (rxbuff u) = 512" using assms(1) by (simp add: idle_def MAX_BIN_SIZE_def)
  let ?u = "u\<lparr>sts := BIN_BLOCK, line_pos := 6, binlen := of_nat n, multiplier := 16384,
            rxbuff := drop 1 (nais_header t n) @ drop 6 (rxbuff u)\<rparr>"
  let ?b = "drop 1 (nais_header t n) @ bs @ drop (n + 5) (rxbuff u)"
  let ?e = "u\<lparr>sts := EXPECT_END, line_pos := n + 5, binlen := of_nat n, multiplier := 16384, rxbuff := ?b\<rparr>"
  have "serial_run (chars_of (nais_header t n)) u = Some (?u, [])"
    using header_run [OF assms(1), of t n] h by (simp add: L)
  moreover have "bs \<noteq> []" using assms(2,3) by auto
  then have "serial_run (chars_of bs) ?u = Some (?e, [])"
    using bin_block_run [of ?u bs] expected_end [of n] h rx assms by (simp add: add.commute)
  moreover have "serial_run (chars_of [c, RECORD_END]) ?e =
      Some (u\<lparr>sts := WAIT_START, line_pos := 0, binlen := 0, multiplier := 16384, rxbuff := ?b\<rparr>, [?b])"
    by (cases "c = RECORD_END") (simp_all add: serial_step_def RECORD_START_def RECORD_END_def word_uint_eq_iff)
  ultimately have "serial_run (chars_of (nais_header t n @ bs @ [c, RECORD_END])) u =
      Some (u\<lparr>sts := WAIT_START, line_pos := 0, binlen := 0, multiplier := 16384, rxbuff := ?b\<rparr>, [?b])"
    unfolding map_append serial_run_append by (simp only: bind.bind_lunit prod.case append_Nil)
  then show ?thesis
    using assms(2,3,4) h rx by (simp add: payload_def idle_def MAX_BIN_SIZE_def)
qed

theorem long_message_loses_last_byte_witness:
  "\<exists>u'. serial_run (chars_of (payload \<lparr>pm_type = 6, dline = 0, flags = 0\<rparr> (replicate 199 1 @ [7]))) uart_init =
      Some (u', [drop 1 (nais_header \<lparr>pm_type = 6, dline = 0, flags = 0\<rparr> 200) @ replicate 199 1 @ replicate 307 0])"
  using long_message_loses_last_byte [OF idle_init, of 200 "replicate 199 1" "\<lparr>pm_type = 6, dline = 0, flags = 0\<rparr>" 7]
  by (auto simp: uart_init_def MAX_BIN_SIZE_def)

text \<open>
  The receive loop never checks its buffer: a message of 508 bytes or more is written past the
  end of the 512 bytes before it is complete.
\<close>

theorem serial_overflow:
  assumes "idle u" "508 \<le> length out" "length out < 2 ^ 30"
  shows "serial_run (chars_of (payload t out)) u = None"
proof -
  have "length (b128 (length out)) \<le> 5"
    using length_b128_le [of 5 "length out"] assms(3) by simp
  then have h: "length (nais_header t (length out)) \<le> 513" "5 \<le> length (nais_header t (length out)) - 1"
    using length_b128_pos [of "length out"] by (simp_all add: length_nais_header del: length_greater_0_conv)
  have rx: "length (rxbuff u) = 512" using assms(1) by (simp add: idle_def MAX_BIN_SIZE_def)
  let ?u = "u\<lparr>sts := BIN_BLOCK, line_pos := length (nais_header t (length out)) - 1, binlen := of_nat (length out),
            multiplier := 128 ^ length (b128 (length out)),
            rxbuff := drop 1 (nais_header t (length out)) @ drop (length (nais_header t (length out)) - 1) (rxbuff u)\<rparr>"
  have "length (rxbuff ?u) = 512" using rx h by simp
  then have "serial_run (chars_of out) ?u = None"
    using h assms(2) expected_end [OF assms(3)] by (intro bin_block_overflow) simp_all
  then have "serial_run (chars_of (nais_header t (length out) @ out @ [RECORD_END])) u = None"
    unfolding map_append serial_run_append header_run [OF assms(1) h(1)]
    by (simp only: bind.bind_lunit bind.bind_lzero prod.case)
  then show ?thesis by (simp add: payload_def)
qed

theorem serial_overflow_witness:
  "serial_run (chars_of (payload \<lparr>pm_type = 6, dline = 0, flags = 0\<rparr> (replicate 600 1))) uart_init = None"
  by (rule serial_overflow) (simp_all add: idle_init)

section \<open>What is sent\<close>

lemma long_header_split:
  assumes "length h = 7" "0 < n" "n + 7 \<le> length txbuff"
  shows "h @ take n (drop 7 txbuff) @ r =
    take 6 h @ ([h ! 6] @ take (n - 1) (drop 7 txbuff)) @ [txbuff ! (n + 6)] @ r"
proof -
  have "h = take 6 h @ [h ! 6]" using assms(1) take_Suc_conv_app_nth [of 6 h] by simp
  moreover have "take n (drop 7 txbuff) = take (n - 1) (drop 7 txbuff) @ [txbuff ! (n + 6)]"
    using take_Suc_conv_app_nth [of "n - 1" "drop 7 txbuff"] assms(2,3) by (simp add: add.commute)
  ultimately show ?thesis by (metis append_assoc)
qed

text \<open>
  Sending over the serial line writes the payload of the message while its length fits one byte.
  From 128 bytes on the message goes over the second byte of the length, and a byte the buffer held
  before ends up between the message and the end byte.
\<close>

theorem uart_sends:
  assumes "wf_obj ob" "protobuf_c_message_get_packed_size (obj_desc ob) (obj_msg ob) = Some n"
    and "n < 16384" "n + 8 \<le> length txbuff"
  shows "\<exists>out tx. protobuf_c_message_pack (obj_desc ob) (obj_msg ob) = Some out \<and> length out = n \<and>
    protobuf_to_uart t (pobj ob) txbuff =
      Some (if n < 128 then payload t out
            else take 6 (nais_header t n) @ out @ [txbuff ! (n + 6), RECORD_END], tx)"
proof -
  from wf_obj_payload [OF assms(1)] obtain out where out:
    "protobuf_c_message_pack (obj_desc ob) (obj_msg ob) = Some out"
    "protobuf_c_message_get_packed_size (obj_desc ob) (obj_msg ob) = Some (length out)" by blast
  with assms(2) have n: "length out = n" by simp
  have "protobuf_to_uart t (pobj ob) txbuff = do {
      (hlen, txbuff) \<leftarrow> nais_setup_header t (int n) txbuff;
      txbuff \<leftarrow> wr_block txbuff 6 out;
      Some (take (nat hlen + n + 1) txbuff, txbuff) }"
    by (simp add: protobuf_to_uart_def out n)
  moreover have "\<exists>tx. (do {
      (hlen, txbuff) \<leftarrow> nais_setup_header t (int n) txbuff;
      txbuff \<leftarrow> wr_block txbuff 6 out;
      Some (take (nat hlen + n + 1) txbuff, txbuff) }) = Some (if n < 128 then payload t out
            else take 6 (nais_header t n) @ out @ [txbuff ! (n + 6), RECORD_END], tx)"
  proof (cases "n < 128")
    case True
    then have h: "length (nais_header t n) = 6" by (simp add: length_nais_header b128_small)
    then show ?thesis
      using True assms(4) n by (simp add: setup_header_eq Let_def wr_block_append payload_def)
  next
    case False
    then have L: "length (b128 n) = 2"
      using length_b128_le [of 1 n] length_b128_le [of 2 n] assms(3) by simp
    then have h: "length (nais_header t n) = 7" by (simp add: length_nais_header)
    let ?h = "nais_header t n" and ?r = "RECORD_END # drop (8 + n) txbuff"
    from False have split: "?h @ take n (drop 7 txbuff) @ ?r =
        take 6 ?h @ ([?h ! 6] @ take (n - 1) (drop 7 txbuff)) @ [txbuff ! (n + 6)] @ ?r"
      using long_header_split [OF h, of n txbuff ?r] assms(4) by simp
    have "wr_block (take 6 ?h @ ([?h ! 6] @ take (n - 1) (drop 7 txbuff)) @ [txbuff ! (n + 6)] @ ?r) 6 out =
        Some (take 6 ?h @ out @ [txbuff ! (n + 6)] @ ?r)"
      by (rule wr_block_append) (use h False assms(4) n in simp_all)
    then have "wr_block (?h @ take n (drop 7 txbuff) @ ?r) 6 out =
        Some (take 6 ?h @ out @ [txbuff ! (n + 6)] @ ?r)" by (simp only: split)
    then show ?thesis
      using False assms(4) h n by (simp add: setup_header_eq Let_def)
  qed
  ultimately show ?thesis using out n by auto
qed

theorem uart_sends_witness:
  "\<exists>out tx. length out = 4 \<and> protobuf_to_uart \<lparr>pm_type = 3, dline = 0, flags = 0\<rparr>
      (pobj (OAck \<lparr>a_id = 5, a_has_seq = 0, a_seq = 0, has_status = 1, status = 1\<rparr>)) (replicate 512 0) =
    Some (payload \<lparr>pm_type = 3, dline = 0, flags = 0\<rparr> out, tx)"
proof -
  let ?ob = "OAck \<lparr>a_id = 5, a_has_seq = 0, a_seq = 0, has_status = 1, status = 1\<rparr>"
  have "wf_obj ?ob" by (simp add: opt_ok_def)
  moreover have "protobuf_c_message_get_packed_size (obj_desc ?ob) (obj_msg ?ob) = Some 4"
    by (simp add: descriptor_defs cells_defs obj_msg_def protobuf_c_message_get_packed_size_def
        field_get_packed_size_def required_field_get_packed_size_def optional_field_get_packed_size_def
        int32_size_def get_tag_size_def word_less_nat_alt)
  ultimately show ?thesis
    using uart_sends [of ?ob 4 "replicate 512 0" "\<lparr>pm_type = 3, dline = 0, flags = 0\<rparr>"] by auto
qed

end
