(* ===== verification/Board.thy ===== *)
theory Board
  imports Bocia_Uart Mqtt_Faults
begin

text \<open>
  The state the modules of \<^verbatim>\<open>burba/sys/bocia\<close> share, and their calls to the outside: the network
  processor (the SimpleLink driver), the kernel, the flash file system and the application. What
  such a call does is a parameter: a function from the call and the state of the outside to a reply
  and a new state. The calls made are recorded in \<open>trace\<close>, which the program itself never reads.
\<close>

section \<open>The outside\<close>

datatype (plugins only: code size) syscall =
    sl_Socket int
  | sl_Bind int u16
  | sl_Listen int
  | sl_Accept int
  | sl_Connect int u32 u16
  | sl_Recv int int
  | sl_Send int int "byte list"
  | sl_Close int
  | sl_Select int "int list"
  | sl_NetAppDnsGetHostByName "byte list"
  | sl_FsGetInfo string
  | sl_FsOpen string u32
  | sl_FsWrite int nat "byte list"
  | sl_FsRead int nat u32
  | sl_FsClose int
  | sl_FsDel string
  | sl_Start
  | sl_Stop int
  | sl_WlanSetMode int
  | sl_WlanSet nat nat "byte list"
  | sl_WlanGet nat nat
  | sl_WlanPolicySet nat nat
  | sl_WlanProfileAdd "byte list" "byte list"
  | sl_WlanProfileGet int
  | sl_WlanProfileDel int
  | sl_WlanSmartConfigStart
  | sl_WlanDisconnect
  | sl_WlanRxFilterSet nat "byte list"
  | sl_DevGet nat nat
  | sl_NetCfgSet nat nat "byte list"
  | sl_NetAppMDNSUnRegisterService
  | simplelink_to_default_state
  | VStartSimpleLinkSpawnTask
  | VDeleteSimpleLinkSpawnTask
  | PRCMOCRRegisterWrite nat u32
  | cc3200_reset
  | uart_stdio_write "byte list"
  | msg_send int int
  | thread_create string
  | thread_getpid
  | xtimer_set u32
  | xtimer_set_msg u32 int int
  | call_handle_command byte pmessage

text \<open>
  A reply: the value returned, the bytes, the number and the descriptors written through pointers.
\<close>

record reply =
  rc :: int
  out_bytes :: "byte list"
  out_word :: u32
  out_fds :: "int list"

type_synonym 'w os = "syscall \<Rightarrow> 'w \<Rightarrow> reply \<times> 'w"

section \<open>Channels\<close>

text \<open>
  The functions \<open>handler\<close> and \<open>send\<close> of a channel can point to: those the program registers.
\<close>

datatype handler_fn = H_tcp_receive | H_tcp_accept | H_mqtt_receiver

datatype send_fn = S_uart | S_tcp | S_mqtt

record bocia_channel_t =
  target_pid :: int
  ch_fd :: int
  handler :: "handler_fn option"
  send :: "send_fn option"
  close_pending :: bool
  debug :: bool

definition SBAPI_SOCKETS :: nat where "SBAPI_SOCKETS = 8"

definition no_channel :: bocia_channel_t where
  "no_channel = \<lparr>target_pid = 0, ch_fd = 0, handler = None, send = None, close_pending = False, debug = False\<rparr>"

text \<open>A channel pointer: an entry of \<open>fd_map\<close> or the local channel of the serial thread.\<close>

datatype chan_ptr = Slot nat | Serial

section \<open>The state\<close>

definition ROLE_STA :: int where "ROLE_STA = 0"
definition ROLE_AP :: int where "ROLE_AP = 2"

record nwp_t =
  nwp_status :: u16
  ssid :: "byte list"
  bssid :: "byte list"
  ip :: u32
  gw_ip :: u32
  role :: u16

text \<open>The timer callbacks of the link supervision, and its variables.\<close>

datatype sig_callback = retry_connection | smartconfig_still_active

record sbapi_t =
  main_pid :: int
  sig_tim :: "sig_callback option"
  options :: u32
  parent_thr :: int
  counter :: int

datatype app_state = GROUND | WARNING | NORMAL

record 'w board_state =
  world :: 'w
  trace :: "syscall list"
  fd_map :: "bocia_channel_t list"
  serial_chan :: bocia_channel_t
  mutex :: bool
  loop_status :: app_state
  stored_config :: "pmessage option"
  server_fd :: int
  mqtt_handler :: "nat option"
  topic_buff :: "byte list"
  mqtt_buf :: "byte list"
  tcp_buff :: "byte list"
  cfg_buff :: "byte list"
  protobuf :: "byte list"
  uart_txbuff :: "byte list"
  nwp :: nwp_t
  sbapi :: sbapi_t

text \<open>The static variables as the program starts with them.\<close>

definition boot :: "'w \<Rightarrow> 'w board_state" where
  "boot w = \<lparr>world = w, trace = [], fd_map = replicate SBAPI_SOCKETS no_channel,
     serial_chan = no_channel\<lparr>send := Some S_uart\<rparr>, mutex = False, loop_status = GROUND,
     stored_config = None, server_fd = 0, mqtt_handler = None,
     topic_buff = replicate 64 0, mqtt_buf = replicate 256 0, tcp_buff = replicate 256 0,
     cfg_buff = replicate 128 0, protobuf = replicate 256 0, uart_txbuff = replicate 512 0,
     nwp = \<lparr>nwp_status = 0, ssid = replicate 33 0, bssid = replicate 7 0, ip = 0, gw_ip = 0, role = 0\<rparr>,
     sbapi = \<lparr>main_pid = 0, sig_tim = None, options = 0, parent_thr = 0, counter = 0\<rparr>\<rparr>"

definition sys :: "'w os \<Rightarrow> syscall \<Rightarrow> 'w board_state \<Rightarrow> reply \<times> 'w board_state" where
  "sys os c b =
     (let (r, w) = os c (world b) in (r, b\<lparr>world := w, trace := trace b @ [c]\<rparr>))"

definition get_chan :: "chan_ptr \<Rightarrow> 'w board_state \<Rightarrow> bocia_channel_t option" where
  "get_chan p b = (case p of Slot i \<Rightarrow> rd (fd_map b) i | Serial \<Rightarrow> Some (serial_chan b))"

definition put_chan :: "chan_ptr \<Rightarrow> bocia_channel_t \<Rightarrow> 'w board_state \<Rightarrow> 'w board_state" where
  "put_chan p c b =
     (case p of Slot i \<Rightarrow> b\<lparr>fd_map := (fd_map b)[i := c]\<rparr> | Serial \<Rightarrow> b\<lparr>serial_chan := c\<rparr>)"

section \<open>Members of a message\<close>

text \<open>
  Reading a member through a struct pointer. \<^term>\<open>None\<close> when the object has no such member.
\<close>

definition member :: "nat \<Rightarrow> pmessage \<Rightarrow> (u32 \<times> pval) option" where
  "member i m = (case rd (cells m) i of Some (Single has v) \<Rightarrow> Some (has, v) | _ \<Rightarrow> None)"

definition text_member :: "nat \<Rightarrow> pmessage \<Rightarrow> cstr option" where
  "text_member i m = do { (_, v) \<leftarrow> member i m; asstr v }"

definition int_member :: "nat \<Rightarrow> pmessage \<Rightarrow> (u32 \<times> u32) option" where
  "int_member i m = do { (has, v) \<leftarrow> member i m; x \<leftarrow> as32 v; Some (has, x) }"

text \<open>
  The characters of a C string: \<^term>\<open>None\<close> for a null pointer. The messages of the program
  have no default strings, their \<open>Default\<close> is the null pointer too.
\<close>

fun c_chars :: "cstr \<Rightarrow> byte list option" where
  "c_chars Null = None"
| "c_chars Default = None"
| "c_chars (Heap bs) = Some (chars bs)"

section \<open>Host and network byte order\<close>

definition sl_Htons :: "u16 \<Rightarrow> u16" where
  "sl_Htons v = push_bit 8 v OR drop_bit 8 v"

definition sl_Htonl :: "u32 \<Rightarrow> u32" where
  "sl_Htonl v = push_bit 24 v OR (push_bit 8 v AND 0xFF0000) OR (drop_bit 8 v AND 0xFF00) OR drop_bit 24 v"

lemma sl_Htons_twice [simp]: "sl_Htons (sl_Htons v) = v"
  by (rule bit_word_eqI) (auto simp: sl_Htons_def bit_simps)

lemma sys_trace: "trace (snd (sys os c b)) = trace b @ [c]"
  by (simp add: sys_def split_beta)

end
