(* ===== verification/Channels.thy ===== *)
theory Channels
  imports Board
begin

text \<open>
  The channel table and the functions that send on a channel: the registration part of
  \<^verbatim>\<open>burba/sys/bocia/eventloop.c\<close>, \<open>bocia_tcp_send\<close> of \<^verbatim>\<open>bocia_tcp.c\<close>,
  \<open>mqtt_transmitter_handler\<close> of \<^verbatim>\<open>bocia_mqtt.c\<close> and the serial sender on the shared state.
\<close>

section \<open>The channel table\<close>

definition bocia_channel_is_connected :: "chan_ptr option \<Rightarrow> 'w board_state \<Rightarrow> bool option" where
  "bocia_channel_is_connected p b =
     (case p of None \<Rightarrow> Some False | Some p \<Rightarrow> map_option (\<lambda>c. ch_fd c > 0) (get_chan p b))"

definition bocia_loop_init :: "'w os \<Rightarrow> 'w board_state \<Rightarrow> 'w board_state" where
  "bocia_loop_init os b =
     (if loop_status b = GROUND
      then snd (sys os (thread_create ''subscribe'') (b\<lparr>loop_status := NORMAL\<rparr>)) else b)"

text \<open>The search for a free entry.\<close>

fun find_free :: "bocia_channel_t list \<Rightarrow> nat \<Rightarrow> nat option" where
  "find_free [] i = None"
| "find_free (c # cs) i = (if ch_fd c = 0 then Some i else find_free cs (Suc i))"

definition bocia_register_handlers ::
  "int \<Rightarrow> int \<Rightarrow> handler_fn option \<Rightarrow> send_fn option \<Rightarrow> 'w board_state \<Rightarrow> nat option \<times> 'w board_state" where
  "bocia_register_handlers sock thread_id hnd tx b =
     (case find_free (fd_map b) 0 of
        None \<Rightarrow> (None, b)
      | Some i \<Rightarrow>
          (Some i, b\<lparr>fd_map := (fd_map b)[i := (fd_map b ! i)
             \<lparr>ch_fd := sock, target_pid := thread_id, handler := hnd, send := tx\<rparr>], mutex := False\<rparr>))"

definition bocia_close_soon :: "chan_ptr \<Rightarrow> 'w board_state \<Rightarrow> 'w board_state option" where
  "bocia_close_soon p b = do { c \<leftarrow> get_chan p b; Some (put_chan p (c\<lparr>close_pending := True\<rparr>) b) }"

section \<open>Senders\<close>

definition uart_send :: "'w os \<Rightarrow> proto_msg_t \<Rightarrow> pobj \<Rightarrow> 'w board_state \<Rightarrow> 'w board_state option" where
  "uart_send os type obj b =
     do {
       (out, tx) \<leftarrow> protobuf_to_uart type obj (uart_txbuff b);
       Some (snd (sys os (uart_stdio_write out) (b\<lparr>uart_txbuff := tx\<rparr>)))
     }"

definition bocia_tcp_send ::
  "'w os \<Rightarrow> bocia_channel_t \<Rightarrow> proto_msg_t \<Rightarrow> pobj \<Rightarrow> 'w board_state \<Rightarrow> 'w board_state option" where
  "bocia_tcp_send os ch type obj b =
     do {
       (len, payload) \<leftarrow> nais_marshall_msg type obj (protobuf b);
       Some (snd (sys os (sl_Send (ch_fd ch) len (take (nat len) payload)) (b\<lparr>protobuf := payload\<rparr>)))
     }"

text \<open>The string in \<open>topic_buff\<close>; without a NUL it is read beyond the buffer.\<close>

definition topic_string :: "'w board_state \<Rightarrow> nat \<Rightarrow> MQTTString option" where
  "topic_string b off =
     (if 0 \<in> set (drop off (topic_buff b))
      then Some (MQTTString_initializer\<lparr>cstring := Some (chars (drop off (topic_buff b)))\<rparr>) else None)"

text \<open>Sending the first \<open>len\<close> bytes of \<open>buf\<close>, after \<open>out\<close> has been written to it.\<close>

definition send_buf :: "'w os \<Rightarrow> int \<Rightarrow> int \<times> byte list \<Rightarrow> 'w board_state \<Rightarrow> 'w board_state option" where
  "send_buf os sock r b =
     do {
       buf \<leftarrow> wr_block (mqtt_buf b) 0 (snd r);
       Some (snd (sys os (sl_Send sock (fst r) (take (nat (fst r)) buf)) (b\<lparr>mqtt_buf := buf\<rparr>)))
     }"

definition mqtt_transmitter_handler ::
  "'w os \<Rightarrow> bocia_channel_t \<Rightarrow> proto_msg_t \<Rightarrow> pobj \<Rightarrow> 'w board_state \<Rightarrow> 'w board_state option" where
  "mqtt_transmitter_handler os ch type obj b =
     do {
       (payloadlen, payload) \<leftarrow> nais_marshall_msg type obj (protobuf b);
       let b = b\<lparr>protobuf := payload\<rparr>;
       topicString \<leftarrow> topic_string b 0;
       r \<leftarrow> MQTTSerialize_publish 256 0 1 0 0 topicString payload payloadlen;
       send_buf os (ch_fd ch) r b
     }"

text \<open>\<open>rd->send (rd, type, obj)\<close>; a null object is dereferenced.\<close>

definition chan_send ::
  "'w os \<Rightarrow> chan_ptr \<Rightarrow> proto_msg_t \<Rightarrow> pobj option \<Rightarrow> 'w board_state \<Rightarrow> 'w board_state option" where
  "chan_send os p type obj b =
     do {
       c \<leftarrow> get_chan p b;
       f \<leftarrow> send c;
       obj \<leftarrow> obj;
       (case f of
          S_uart \<Rightarrow> uart_send os type obj b
        | S_tcp \<Rightarrow> bocia_tcp_send os c type obj b
        | S_mqtt \<Rightarrow> mqtt_transmitter_handler os c type obj b)
     }"

section \<open>Registration\<close>

lemma find_free_Some:
  assumes "find_free cs k = Some i"
  shows "\<exists>n. i = k + n \<and> n < length cs \<and> ch_fd (cs ! n) = 0 \<and> (\<forall>j < n. ch_fd (cs ! j) \<noteq> 0)"
  using assms
proof (induction cs arbitrary: k)
  case (Cons c cs)
  show ?case
  proof (cases "ch_fd c = 0")
    case True
    with Cons.prems show ?thesis by auto
  next
    case False
    with Cons.prems have "find_free cs (Suc k) = Some i" by simp
    from Cons.IH [OF this] obtain n where
      n: "i = Suc k + n" "n < length cs" "ch_fd (cs ! n) = 0" "\<forall>j < n. ch_fd (cs ! j) \<noteq> 0" by blast
    have "ch_fd ((c # cs) ! j) \<noteq> 0" if "j < Suc n" for j
      using that n(4) False by (cases j) simp_all
    with n show ?thesis by (intro exI [of _ "Suc n"]) simp
  qed
qed simp

lemma find_free_0:
  assumes "find_free cs 0 = Some i"
  shows "i < length cs" "ch_fd (cs ! i) = 0" "\<forall>j < i. ch_fd (cs ! j) \<noteq> 0"
  using find_free_Some [OF assms] by auto

lemma find_free_None: "find_free cs k = None \<longleftrightarrow> (\<forall>c \<in> set cs. ch_fd c \<noteq> 0)"
  by (induction cs arbitrary: k) auto

text \<open>What sending leaves alone.\<close>

definition same_tables :: "'w board_state \<Rightarrow> 'w board_state \<Rightarrow> bool" where
  "same_tables b b' \<longleftrightarrow> fd_map b' = fd_map b \<and> serial_chan b' = serial_chan b \<and> mutex b' = mutex b \<and>
     stored_config b' = stored_config b \<and> topic_buff b' = topic_buff b \<and> server_fd b' = server_fd b \<and>
     mqtt_handler b' = mqtt_handler b \<and> nwp b' = nwp b \<and> sbapi b' = sbapi b \<and> loop_status b' = loop_status b"

lemma same_tables_refl [simp]: "same_tables b b"
  by (simp add: same_tables_def)

lemma same_tables_trans: "same_tables a b \<Longrightarrow> same_tables b c \<Longrightarrow> same_tables a c"
  by (simp add: same_tables_def)

lemma same_tables_sys [simp]: "same_tables b (snd (sys os c b')) = same_tables b b'"
  by (simp add: same_tables_def sys_def split_beta)

lemma same_tables_buffers [simp]:
  "same_tables b (b'\<lparr>protobuf := x\<rparr>) = same_tables b b'"
  "same_tables b (b'\<lparr>mqtt_buf := x\<rparr>) = same_tables b b'"
  "same_tables b (b'\<lparr>tcp_buff := x\<rparr>) = same_tables b b'"
  "same_tables b (b'\<lparr>cfg_buff := x\<rparr>) = same_tables b b'"
  "same_tables b (b'\<lparr>uart_txbuff := x\<rparr>) = same_tables b b'"
  "same_tables (b\<lparr>protobuf := x\<rparr>) b' = same_tables b b'"
  by (simp_all add: same_tables_def)

lemma send_buf_same: "send_buf os sock r b = Some b' \<Longrightarrow> same_tables b b'"
  by (auto simp: send_buf_def bind_eq_Some_conv)

lemma senders_same:
  "uart_send os t ob b = Some b' \<Longrightarrow> same_tables b b'"
  "bocia_tcp_send os ch t ob b = Some b' \<Longrightarrow> same_tables b b'"
  "mqtt_transmitter_handler os ch t ob b = Some b' \<Longrightarrow> same_tables b b'"
  by (auto simp: uart_send_def bocia_tcp_send_def mqtt_transmitter_handler_def Let_def bind_eq_Some_conv
      dest!: send_buf_same)

lemma chan_send_same:
  assumes "chan_send os p t ob b = Some b'"
  shows "same_tables b b'"
proof -
  from assms obtain c f x where "(case f of
          S_uart \<Rightarrow> uart_send os t x b
        | S_tcp \<Rightarrow> bocia_tcp_send os c t x b
        | S_mqtt \<Rightarrow> mqtt_transmitter_handler os c t x b) = Some b'"
    by (auto simp: chan_send_def bind_eq_Some_conv)
  then show ?thesis by (cases f) (auto dest: senders_same)
qed

end
