(* ===== verification/Bocia_File.thy ===== *)
theory Bocia_File
  imports Channels
begin

text \<open>
  The configuration file, \<^verbatim>\<open>burba/sys/bocia/bocia_file.c\<close>, with the mode words of the file system
  driver (\<^verbatim>\<open>fs.h\<close>, \<open>_sl_GetCreateFsMode\<close> of \<^verbatim>\<open>fs.c\<close>). What the calls of the file system do is
  stated as the hypothesis \<open>flash_ok\<close>.
\<close>

section \<open>Mode words\<close>

definition FS_MODE :: "u32 \<Rightarrow> u32 \<Rightarrow> u32 \<Rightarrow> u32 \<Rightarrow> u32" where
  "FS_MODE acc gran sz flg =
     push_bit 12 (acc AND 0xF) OR push_bit 8 (gran AND 0xF) OR (sz AND 0xFF) OR push_bit 16 (flg AND 0xFF)"

definition FS_MODE_OPEN_READ :: u32 where "FS_MODE_OPEN_READ = FS_MODE 0 0 0 0"
definition FS_MODE_OPEN_WRITE :: u32 where "FS_MODE_OPEN_WRITE = FS_MODE 1 0 0 0"

definition granTable :: "u32 list" where
  "granTable = [256, 1024, 4096, 16384, 65536]"

definition sl_GetCreateFsMode :: "u32 \<Rightarrow> u32 \<Rightarrow> u32 option" where
  "sl_GetCreateFsMode maxSizeInBytes accessFlags =
     (let granIdx = length (takeWhile (\<lambda>g. g * 255 < maxSizeInBytes) granTable) in
      do {
        g \<leftarrow> rd granTable granIdx;
        let granNum = maxSizeInBytes div g + (if maxSizeInBytes mod g \<noteq> 0 then 1 else 0);
        Some (FS_MODE 3 (of_nat granIdx) granNum accessFlags)
      })"

section \<open>Files\<close>

definition BOCIA_CFG_FILE :: string where "BOCIA_CFG_FILE = ''bocia.cfg''"

definition SL_FS_ERR_FILE_NOT_EXISTS :: int where "SL_FS_ERR_FILE_NOT_EXISTS = -11"

definition bocia_write_proto ::
  "'w os \<Rightarrow> string \<Rightarrow> byte list \<Rightarrow> 'w board_state \<Rightarrow> (int \<times> 'w board_state) option" where
  "bocia_write_proto os fname buff b =
     (let (info, b) = sys os (sl_FsGetInfo fname) b in
      do {
        mode \<leftarrow> (if rc info = 0 then Some (Inr FS_MODE_OPEN_WRITE)
                   else if rc info = SL_FS_ERR_FILE_NOT_EXISTS
                   then map_option Inr (sl_GetCreateFsMode 1 0)
                   else Some (Inl (rc info)));
        (case mode of
           Inl e \<Rightarrow> Some (e, b)
         | Inr m \<Rightarrow>
             (let (opn, b) = sys os (sl_FsOpen fname m) b in
              if rc opn < 0 then Some (rc opn, b)
              else do {
                h \<leftarrow> rd (out_fds opn) 0;
                let (w, b) = sys os (sl_FsWrite h 0 buff) b;
                let (_, b) = sys os (sl_FsClose h) b;
                Some (rc w, b)
              }))
      })"

text \<open>The message is packed into a buffer of 128 bytes.\<close>

definition bocia_write_cfg :: "'w os \<Rightarrow> pmessage \<Rightarrow> 'w board_state \<Rightarrow> (int \<times> 'w board_state) option" where
  "bocia_write_cfg os cfg b =
     do {
       blen \<leftarrow> protobuf_c_message_get_packed_size config__descriptor cfg;
       out \<leftarrow> protobuf_c_message_pack config__descriptor cfg;
       buff \<leftarrow> wr_block (cfg_buff b) 0 out;
       bocia_write_proto os BOCIA_CFG_FILE (take blen buff) (b\<lparr>cfg_buff := buff\<rparr>)
     }"

text \<open>The null pointer is \<^term>\<open>None\<close>. The driver writes what it reads into the buffer.\<close>

definition bocia_read_cfg :: "'w os \<Rightarrow> 'w board_state \<Rightarrow> (pmessage option \<times> 'w board_state) option" where
  "bocia_read_cfg os b =
     (let (info, b) = sys os (sl_FsGetInfo BOCIA_CFG_FILE) b in
      if rc info < 0 then Some (None, b)
      else
        (let (opn, b) = sys os (sl_FsOpen BOCIA_CFG_FILE FS_MODE_OPEN_READ) b in
         if rc opn < 0 then Some (None, b)
         else do {
           h \<leftarrow> rd (out_fds opn) 0;
           let (r, b) = sys os (sl_FsRead h 0 (out_word info)) b;
           buff \<leftarrow> wr_block (cfg_buff b) 0 (out_bytes r);
           let (_, b) = sys os (sl_FsClose h) (b\<lparr>cfg_buff := buff\<rparr>);
           obj \<leftarrow> protobuf_c_message_unpack config__descriptor (out_word info) buff;
           Some (obj, b)
         }))"

definition bocia_delete_file :: "'w os \<Rightarrow> string \<Rightarrow> 'w board_state \<Rightarrow> int \<times> 'w board_state" where
  "bocia_delete_file os fname b = (let (r, b) = sys os (sl_FsDel fname) b in (rc r, b))"

section \<open>What the file system promises\<close>

text \<open>
  \<open>flash\<close> is the content of the files and \<open>open_file\<close> the file of a handle. Opening for writing or
  creating a file empties it, writing at offset 0 sets its content, reading returns it.
\<close>

type_synonym 'w flash = "'w \<Rightarrow> string \<Rightarrow> byte list option"
type_synonym 'w handles = "'w \<Rightarrow> int \<Rightarrow> string option"

definition info_ok :: "'w os \<Rightarrow> 'w flash \<Rightarrow> bool" where
  "info_ok os flash \<longleftrightarrow> (\<forall>w f.
     flash (snd (os (sl_FsGetInfo f) w)) = flash w \<and>
     (flash w f = None \<longrightarrow> rc (fst (os (sl_FsGetInfo f) w)) = SL_FS_ERR_FILE_NOT_EXISTS) \<and>
     (\<forall>bs. flash w f = Some bs \<longrightarrow> rc (fst (os (sl_FsGetInfo f) w)) = 0 \<and>
        out_word (fst (os (sl_FsGetInfo f) w)) = of_nat (length bs)))"

definition open_ok :: "'w os \<Rightarrow> 'w flash \<Rightarrow> 'w handles \<Rightarrow> 'w \<Rightarrow> string \<Rightarrow> u32 \<Rightarrow> (string \<Rightarrow> byte list option) \<Rightarrow> bool" where
  "open_ok os flash hnd w f m content \<longleftrightarrow>
     (\<exists>h. rc (fst (os (sl_FsOpen f m) w)) = 0 \<and> out_fds (fst (os (sl_FsOpen f m) w)) = [h] \<and>
          hnd (snd (os (sl_FsOpen f m) w)) h = Some f \<and> flash (snd (os (sl_FsOpen f m) w)) = content)"

definition opens_ok :: "'w os \<Rightarrow> 'w flash \<Rightarrow> 'w handles \<Rightarrow> bool" where
  "opens_ok os flash hnd \<longleftrightarrow> (\<forall>w f.
     (flash w f \<noteq> None \<longrightarrow> open_ok os flash hnd w f FS_MODE_OPEN_WRITE ((flash w)(f \<mapsto> [])) \<and>
                          open_ok os flash hnd w f FS_MODE_OPEN_READ (flash w)) \<and>
     (\<forall>m. flash w f = None \<and> sl_GetCreateFsMode 1 0 = Some m \<longrightarrow>
          open_ok os flash hnd w f m ((flash w)(f \<mapsto> []))))"

definition write_ok :: "'w os \<Rightarrow> 'w flash \<Rightarrow> 'w handles \<Rightarrow> bool" where
  "write_ok os flash hnd \<longleftrightarrow> (\<forall>w h f bs. hnd w h = Some f \<longrightarrow> length bs \<le> 256 \<longrightarrow>
     rc (fst (os (sl_FsWrite h 0 bs) w)) = int (length bs) \<and>
     flash (snd (os (sl_FsWrite h 0 bs) w)) = (flash w)(f \<mapsto> bs))"

definition read_ok :: "'w os \<Rightarrow> 'w flash \<Rightarrow> 'w handles \<Rightarrow> bool" where
  "read_ok os flash hnd \<longleftrightarrow> (\<forall>w h f bs. hnd w h = Some f \<longrightarrow> flash w f = Some bs \<longrightarrow>
     out_bytes (fst (os (sl_FsRead h 0 (of_nat (length bs))) w)) = bs \<and>
     flash (snd (os (sl_FsRead h 0 (of_nat (length bs))) w)) = flash w)"

definition close_ok :: "'w os \<Rightarrow> 'w flash \<Rightarrow> bool" where
  "close_ok os flash \<longleftrightarrow> (\<forall>w h. flash (snd (os (sl_FsClose h) w)) = flash w)"

definition flash_ok :: "'w os \<Rightarrow> 'w flash \<Rightarrow> 'w handles \<Rightarrow> bool" where
  "flash_ok os flash hnd \<longleftrightarrow>
     info_ok os flash \<and> opens_ok os flash hnd \<and> write_ok os flash hnd \<and> read_ok os flash hnd \<and> close_ok os flash"

lemmas flash_laws = info_ok_def opens_ok_def write_ok_def read_ok_def close_ok_def

section \<open>The configuration survives\<close>

lemma sys_world [simp]: "world (snd (sys os c b)) = snd (os c (world b))"
  and sys_reply [simp]: "fst (sys os c b) = fst (os c (world b))"
  and sys_cfg_buff [simp]: "cfg_buff (snd (sys os c b)) = cfg_buff b"
  by (simp_all add: sys_def split_beta)

lemma opens_okD:
  assumes "opens_ok os flash hnd"
  shows "flash w f = Some bs \<Longrightarrow> open_ok os flash hnd w f FS_MODE_OPEN_WRITE ((flash w)(f \<mapsto> []))"
    and "flash w f = Some bs \<Longrightarrow> open_ok os flash hnd w f FS_MODE_OPEN_READ (flash w)"
    and "flash w f = None \<Longrightarrow> sl_GetCreateFsMode 1 0 = Some m \<Longrightarrow> open_ok os flash hnd w f m ((flash w)(f \<mapsto> []))"
  using assms by (auto simp: opens_ok_def)

lemma info_okD:
  assumes "info_ok os flash"
  shows "flash (snd (os (sl_FsGetInfo f) w)) = flash w"
    and "flash w f = None \<Longrightarrow> rc (fst (os (sl_FsGetInfo f) w)) = -11"
    and "flash w f = Some bs \<Longrightarrow> rc (fst (os (sl_FsGetInfo f) w)) = 0"
    and "flash w f = Some bs \<Longrightarrow> out_word (fst (os (sl_FsGetInfo f) w)) = of_nat (length bs)"
  using assms by (auto simp: info_ok_def SL_FS_ERR_FILE_NOT_EXISTS_def)

lemma write_proto_ok:
  assumes ok: "flash_ok os flash hnd" and len: "length buff \<le> 256"
  shows "\<exists>b'. bocia_write_proto os f buff b = Some (int (length buff), b') \<and>
    flash (world b') = (flash (world b))(f \<mapsto> buff) \<and> cfg_buff b' = cfg_buff b \<and> same_tables b b'"
proof -
  note laws = ok [unfolded flash_ok_def]
  let ?i = "sys os (sl_FsGetInfo f) b"
  let ?b1 = "snd ?i"
  have info: "flash (world ?b1) = flash (world b)"
    using laws by (simp add: info_okD)
  have mode: "\<exists>m. sl_GetCreateFsMode 1 0 = Some m"
    by (simp add: sl_GetCreateFsMode_def granTable_def word_less_nat_alt)
  have "\<exists>m. (if rc (fst ?i) = 0 then Some (Inr FS_MODE_OPEN_WRITE)
       else if rc (fst ?i) = SL_FS_ERR_FILE_NOT_EXISTS then map_option Inr (sl_GetCreateFsMode 1 0)
       else Some (Inl (rc (fst ?i)))) = Some (Inr m :: int + u32) \<and>
    open_ok os flash hnd (world ?b1) f m ((flash (world b))(f \<mapsto> []))"
  proof (cases "flash (world b) f")
    case None
    obtain m where "sl_GetCreateFsMode 1 0 = Some m" using mode by blast
    with None opens_okD(3) [of os flash hnd "world ?b1" f m] info_okD(2) [of os flash "world b" f] laws info show ?thesis
      by (simp add: SL_FS_ERR_FILE_NOT_EXISTS_def)
  next
    case (Some bs)
    with opens_okD(1) [of os flash hnd "world ?b1" f bs] info_okD(3) [of os flash "world b" f bs] laws info show ?thesis
      by simp
  qed
  then obtain m where m: "(if rc (fst ?i) = 0 then Some (Inr FS_MODE_OPEN_WRITE)
       else if rc (fst ?i) = SL_FS_ERR_FILE_NOT_EXISTS then map_option Inr (sl_GetCreateFsMode 1 0)
       else Some (Inl (rc (fst ?i)))) = Some (Inr m :: int + u32)"
    "open_ok os flash hnd (world ?b1) f m ((flash (world b))(f \<mapsto> []))" by blast
  let ?b2 = "snd (sys os (sl_FsOpen f m) ?b1)"
  from m(2) obtain h where h: "rc (fst (sys os (sl_FsOpen f m) ?b1)) = 0" "out_fds (fst (sys os (sl_FsOpen f m) ?b1)) = [h]"
    "hnd (world ?b2) h = Some f" "flash (world ?b2) = (flash (world b))(f \<mapsto> [])"
    by (auto simp: open_ok_def)
  let ?b3 = "snd (sys os (sl_FsWrite h 0 buff) ?b2)"
  have w: "rc (fst (sys os (sl_FsWrite h 0 buff) ?b2)) = int (length buff)"
    "flash (world ?b3) = (flash (world b))(f \<mapsto> buff)"
    using ok h len by (simp_all add: flash_ok_def write_ok_def)
  have "flash (world (snd (sys os (sl_FsClose h) ?b3))) = (flash (world b))(f \<mapsto> buff)"
    using ok w(2) by (simp add: flash_ok_def close_ok_def)
  then show ?thesis
    using m(1) h(1,2) w(1)
    by (simp add: bocia_write_proto_def split_beta Let_def del: sys_reply sys_world)
qed

lemma write_cfg_ok:
  assumes "flash_ok os flash hnd" "length (cfg_buff b) = 128"
    and "protobuf_c_message_pack config__descriptor cfg = Some out"
    and "protobuf_c_message_get_packed_size config__descriptor cfg = Some (length out)" "length out \<le> 128"
  shows "\<exists>b'. bocia_write_cfg os cfg b = Some (int (length out), b') \<and>
    flash (world b') = (flash (world b))(BOCIA_CFG_FILE \<mapsto> out) \<and> length (cfg_buff b') = 128 \<and> same_tables b b'"
proof -
  let ?buff = "out @ drop (length out) (cfg_buff b)"
  have "wr_block (cfg_buff b) 0 out = Some ?buff"
    using assms(2,5) by (simp add: wr_block_def)
  moreover obtain b' where "bocia_write_proto os BOCIA_CFG_FILE out (b\<lparr>cfg_buff := ?buff\<rparr>) = Some (int (length out), b')"
    "flash (world b') = (flash (world b))(BOCIA_CFG_FILE \<mapsto> out)" "cfg_buff b' = ?buff" "same_tables b b'"
    using write_proto_ok [OF assms(1), of out BOCIA_CFG_FILE "b\<lparr>cfg_buff := ?buff\<rparr>"] assms(5)
    by (auto simp: same_tables_def)
  ultimately show ?thesis
    using assms by (simp add: bocia_write_cfg_def)
qed

text \<open>A message larger than the buffer overruns it.\<close>

lemma write_cfg_overruns:
  assumes "length (cfg_buff b) = 128"
    and "protobuf_c_message_pack config__descriptor cfg = Some out"
    and "protobuf_c_message_get_packed_size config__descriptor cfg = Some (length out)" "128 < length out"
  shows "bocia_write_cfg os cfg b = None"
  using assms by (simp add: bocia_write_cfg_def wr_block_def)

text \<open>The calls that read the configuration.\<close>

definition cfg_reading :: "int \<Rightarrow> nat \<Rightarrow> syscall list" where
  "cfg_reading h n = [sl_FsGetInfo BOCIA_CFG_FILE, sl_FsOpen BOCIA_CFG_FILE FS_MODE_OPEN_READ, sl_FsRead h 0 (of_nat n), sl_FsClose h]"

lemma read_cfg_ok:
  assumes ok: "flash_ok os flash hnd" and buff: "length (cfg_buff b) = 128"
    and stored: "flash (world b) BOCIA_CFG_FILE = Some out" "length out \<le> 128"
  shows "\<exists>b' r h. bocia_read_cfg os b =
      map_option (\<lambda>ob. (ob, b')) (protobuf_c_message_unpack config__descriptor (of_nat (length out)) (out @ r)) \<and>
    trace b' = trace b @ cfg_reading h (length out) \<and>
    flash (world b') = flash (world b) \<and> length (cfg_buff b') = 128 \<and> same_tables b b'"
proof -
  note laws = ok [unfolded flash_ok_def]
  let ?f = BOCIA_CFG_FILE and ?n = "of_nat (length out) :: u32"
  let ?b1 = "snd (sys os (sl_FsGetInfo ?f) b)"
  have 1: "flash (world ?b1) = flash (world b)" "rc (fst (sys os (sl_FsGetInfo ?f) b)) = 0"
    "out_word (fst (sys os (sl_FsGetInfo ?f) b)) = ?n"
    using laws stored info_okD [where w = "world b" and f = ?f and os = os and flash = flash] by auto
  let ?o = "sys os (sl_FsOpen ?f FS_MODE_OPEN_READ) ?b1"
  have "open_ok os flash hnd (world ?b1) ?f FS_MODE_OPEN_READ (flash (world ?b1))"
    using laws 1 stored opens_okD(2) [of os flash hnd "world ?b1" ?f] by simp
  then obtain h where 2: "rc (fst ?o) = 0" "out_fds (fst ?o) = [h]" "hnd (world (snd ?o)) h = Some ?f"
    "flash (world (snd ?o)) = flash (world b)" using 1 by (auto simp: open_ok_def)
  let ?r = "sys os (sl_FsRead h 0 ?n) (snd ?o)"
  have 3: "out_bytes (fst ?r) = out" "flash (world (snd ?r)) = flash (world b)"
    using laws 2 stored by (auto simp: read_ok_def)
  let ?buff = "out @ drop (length out) (cfg_buff b)"
  let ?b3 = "(snd ?r)\<lparr>cfg_buff := ?buff\<rparr>"
  have "wr_block (cfg_buff (snd ?r)) 0 out = Some ?buff"
    using buff stored(2) by (simp add: wr_block_def)
  then have "bocia_read_cfg os b = map_option (\<lambda>ob. (ob, snd (sys os (sl_FsClose h) ?b3)))
      (protobuf_c_message_unpack config__descriptor ?n ?buff)"
    using 1(2,3) 2(1,2) 3(1)
    by (simp add: bocia_read_cfg_def split_beta Let_def map_option_case del: sys_reply sys_world)
       (auto split: option.splits bind_splits)
  moreover have "flash (world (snd (sys os (sl_FsClose h) ?b3))) = flash (world b)"
    using laws 3(2) by (simp add: close_ok_def)
  moreover have "length (cfg_buff (snd (sys os (sl_FsClose h) ?b3))) = 128"
    using buff stored(2) by simp
  moreover have "same_tables b (snd (sys os (sl_FsClose h) ?b3))" by simp
  moreover have "trace (snd (sys os (sl_FsClose h) ?b3)) = trace b @ cfg_reading h (length out)"
    by (simp add: sys_trace cfg_reading_def)
  ultimately show ?thesis by blast
qed

end
