(* ===== verification/Sbapi.thy ===== *)
theory Sbapi
  imports Channels
begin

text \<open>
  The link supervision, \<^verbatim>\<open>burba/sys/sbapi_cc3200/sbapi_cc3200.c\<close>: the event callbacks of the
  network processor, its settings, and the thread that waits for an address and restarts the
  connection attempts. \<open>simplelink_to_default_state\<close> waits in busy loops on a status another
  thread changes, and is one of the calls to the outside. \<open>PANIC\<close> does not return: \<^term>\<open>None\<close>.
\<close>

section \<open>Status bits\<close>

datatype e_StatusBits =
    STATUS_BIT_NWP_INIT | STATUS_BIT_CONNECTION | STATUS_BIT_IP_LEASED | STATUS_BIT_IP_ACQUIRED
  | STATUS_BIT_SMARTCONFIG_START | STATUS_BIT_P2P_DEV_FOUND | STATUS_BIT_P2P_REQ_RECEIVED
  | STATUS_BIT_CONNECTION_FAILED | STATUS_BIT_PING_DONE

fun status_bit :: "e_StatusBits \<Rightarrow> nat" where
  "status_bit STATUS_BIT_NWP_INIT = 0"
| "status_bit STATUS_BIT_CONNECTION = 1"
| "status_bit STATUS_BIT_IP_LEASED = 2"
| "status_bit STATUS_BIT_IP_ACQUIRED = 3"
| "status_bit STATUS_BIT_SMARTCONFIG_START = 4"
| "status_bit STATUS_BIT_P2P_DEV_FOUND = 5"
| "status_bit STATUS_BIT_P2P_REQ_RECEIVED = 6"
| "status_bit STATUS_BIT_CONNECTION_FAILED = 7"
| "status_bit STATUS_BIT_PING_DONE = 8"

definition SET_STATUS_BIT :: "e_StatusBits \<Rightarrow> u16 \<Rightarrow> u16" where
  "SET_STATUS_BIT i s = s OR push_bit (status_bit i) 1"

definition CLR_STATUS_BIT :: "e_StatusBits \<Rightarrow> u16 \<Rightarrow> u16" where
  "CLR_STATUS_BIT i s = s AND NOT (push_bit (status_bit i) 1)"

definition GET_STATUS_BIT :: "e_StatusBits \<Rightarrow> u16 \<Rightarrow> bool" where
  "GET_STATUS_BIT i s \<longleftrightarrow> s AND push_bit (status_bit i) 1 \<noteq> 0"

definition on_status :: "(u16 \<Rightarrow> u16) \<Rightarrow> 'w board_state \<Rightarrow> 'w board_state" where
  "on_status f b = b\<lparr>nwp := (nwp b)\<lparr>nwp_status := f (nwp_status (nwp b))\<rparr>\<rparr>"

abbreviation IS_IP_ACQUIRED :: "'w board_state \<Rightarrow> bool" where
  "IS_IP_ACQUIRED b \<equiv> GET_STATUS_BIT STATUS_BIT_IP_ACQUIRED (nwp_status (nwp b))"

abbreviation IS_CONNECTED :: "'w board_state \<Rightarrow> bool" where
  "IS_CONNECTED b \<equiv> GET_STATUS_BIT STATUS_BIT_CONNECTION (nwp_status (nwp b))"

section \<open>Messages of the supervision thread\<close>

datatype nwp_event =
    AUTO_CONNECTION_TIME_SLOT | SMARTCONFIG_ACTIVE | WLAN_CONNECTED | WLAN_DISCONNECTED | IP_ACQUIRED
  | SOCKET_CONNECTION | LOST_IN_PANIC

fun event_code :: "nwp_event \<Rightarrow> int" where
  "event_code AUTO_CONNECTION_TIME_SLOT = 0"
| "event_code SMARTCONFIG_ACTIVE = 1"
| "event_code WLAN_CONNECTED = 2"
| "event_code WLAN_DISCONNECTED = 3"
| "event_code IP_ACQUIRED = 4"
| "event_code SOCKET_CONNECTION = 5"
| "event_code LOST_IN_PANIC = 6"

definition SBAPI_IP_ACQUIRED :: int where "SBAPI_IP_ACQUIRED = 0x1001"
definition SBAPI_LINK_DOWN :: int where "SBAPI_LINK_DOWN = 0x1002"

definition notify :: "'w os \<Rightarrow> nwp_event \<Rightarrow> 'w board_state \<Rightarrow> 'w board_state" where
  "notify os e b = snd (sys os (msg_send (event_code e) (main_pid (sbapi b))) b)"

section \<open>Events of the network processor\<close>

datatype wlan_event =
    SL_WLAN_CONNECT "byte list" "byte list"
  | SL_WLAN_DISCONNECT byte
  | SL_WLAN_STA_CONNECTED
  | SL_WLAN_STA_DISCONNECTED
  | SL_WLAN_SMART_CONFIG_COMPLETE
  | SL_WLAN_SMART_CONFIG_STOP
  | SL_WLAN_P2P_DEV_FOUND
  | SL_WLAN_P2P_NEG_REQ_RECEIVED
  | SL_WLAN_CONNECTION_FAILED
  | SL_WLAN_OTHER u32

definition SimpleLinkWlanEventHandler ::
  "'w os \<Rightarrow> wlan_event \<Rightarrow> 'w board_state \<Rightarrow> 'w board_state option" where
  "SimpleLinkWlanEventHandler os ev b =
     (case ev of
        SL_WLAN_CONNECT ssid_name bssid' \<Rightarrow>
          (let b = on_status (SET_STATUS_BIT STATUS_BIT_CONNECTION) b in
           do {
             s \<leftarrow> wr_block (ssid (nwp b)) 0 ssid_name;
             m \<leftarrow> wr_block (bssid (nwp b)) 0 (take 6 bssid');
             Some (notify os WLAN_CONNECTED (b\<lparr>nwp := (nwp b)\<lparr>ssid := s, bssid := m\<rparr>\<rparr>))
           })
      | SL_WLAN_DISCONNECT reason_code \<Rightarrow>
          (let b = on_status (CLR_STATUS_BIT STATUS_BIT_CONNECTION) b;
               b = on_status (CLR_STATUS_BIT STATUS_BIT_IP_ACQUIRED) b;
               b = b\<lparr>nwp := (nwp b)\<lparr>ssid := replicate 33 0, bssid := replicate 7 0\<rparr>\<rparr>
           in Some (notify os WLAN_DISCONNECTED b))
      | SL_WLAN_STA_CONNECTED \<Rightarrow>
          (let b = on_status (SET_STATUS_BIT STATUS_BIT_CONNECTION) b
           in Some (on_status (CLR_STATUS_BIT STATUS_BIT_CONNECTION_FAILED) b))
      | SL_WLAN_STA_DISCONNECTED \<Rightarrow>
          (let b = on_status (CLR_STATUS_BIT STATUS_BIT_CONNECTION) b
           in Some (on_status (CLR_STATUS_BIT STATUS_BIT_IP_LEASED) b))
      | SL_WLAN_SMART_CONFIG_COMPLETE \<Rightarrow> Some (on_status (SET_STATUS_BIT STATUS_BIT_SMARTCONFIG_START) b)
      | SL_WLAN_SMART_CONFIG_STOP \<Rightarrow> Some (on_status (CLR_STATUS_BIT STATUS_BIT_SMARTCONFIG_START) b)
      | SL_WLAN_P2P_DEV_FOUND \<Rightarrow> Some (on_status (SET_STATUS_BIT STATUS_BIT_P2P_DEV_FOUND) b)
      | SL_WLAN_P2P_NEG_REQ_RECEIVED \<Rightarrow> Some (on_status (SET_STATUS_BIT STATUS_BIT_P2P_REQ_RECEIVED) b)
      | SL_WLAN_CONNECTION_FAILED \<Rightarrow> Some (on_status (SET_STATUS_BIT STATUS_BIT_CONNECTION_FAILED) b)
      | SL_WLAN_OTHER _ \<Rightarrow> Some b)"

datatype netapp_event =
    SL_NETAPP_IPV4_IPACQUIRED u32 u32
  | SL_NETAPP_IP_LEASED
  | SL_NETAPP_IP_RELEASED
  | SL_NETAPP_OTHER u32

definition SimpleLinkNetAppEventHandler ::
  "'w os \<Rightarrow> netapp_event \<Rightarrow> 'w board_state \<Rightarrow> 'w board_state" where
  "SimpleLinkNetAppEventHandler os ev b =
     (case ev of
        SL_NETAPP_IPV4_IPACQUIRED addr gateway \<Rightarrow>
          (let b = on_status (SET_STATUS_BIT STATUS_BIT_IP_ACQUIRED) b
           in notify os IP_ACQUIRED (b\<lparr>nwp := (nwp b)\<lparr>ip := addr, gw_ip := gateway\<rparr>\<rparr>))
      | SL_NETAPP_IP_LEASED \<Rightarrow> on_status (SET_STATUS_BIT STATUS_BIT_IP_LEASED) b
      | SL_NETAPP_IP_RELEASED \<Rightarrow> on_status (CLR_STATUS_BIT STATUS_BIT_IP_LEASED) b
      | SL_NETAPP_OTHER _ \<Rightarrow> b)"

section \<open>Settings\<close>

definition SL_WLAN_CFG_AP_ID :: nat where "SL_WLAN_CFG_AP_ID = 0"
definition SL_WLAN_CFG_GENERAL_PARAM_ID :: nat where "SL_WLAN_CFG_GENERAL_PARAM_ID = 1"
definition WLAN_AP_OPT_SECURITY_TYPE :: nat where "WLAN_AP_OPT_SECURITY_TYPE = 6"
definition WLAN_AP_OPT_PASSWORD :: nat where "WLAN_AP_OPT_PASSWORD = 7"
definition WLAN_GENERAL_PARAM_OPT_AP_TX_POWER :: nat where "WLAN_GENERAL_PARAM_OPT_AP_TX_POWER = 11"
definition SL_SEC_TYPE_OPEN :: byte where "SL_SEC_TYPE_OPEN = 0"
definition SL_SEC_TYPE_WPA_WPA2 :: byte where "SL_SEC_TYPE_WPA_WPA2 = 2"
definition SL_POLICY_CONNECTION :: nat where "SL_POLICY_CONNECTION = 0x10"

definition is_open :: "'w os \<Rightarrow> 'w board_state \<Rightarrow> (int \<times> 'w board_state) option" where
  "is_open os b =
     (let (r, b) = sys os (sl_WlanGet SL_WLAN_CFG_AP_ID WLAN_AP_OPT_SECURITY_TYPE) b
      in do { v \<leftarrow> rd (out_bytes r) 0; Some (if v = SL_SEC_TYPE_OPEN then 1 else 0, b) })"

definition set_to_open :: "'w os \<Rightarrow> 'w board_state \<Rightarrow> int \<times> 'w board_state" where
  "set_to_open os b =
     (let (r, b) = sys os (sl_WlanSet SL_WLAN_CFG_AP_ID WLAN_AP_OPT_SECURITY_TYPE [SL_SEC_TYPE_OPEN]) b
      in (rc r, b))"

definition set_ap_password :: "'w os \<Rightarrow> cstr \<Rightarrow> 'w board_state \<Rightarrow> (int \<times> 'w board_state) option" where
  "set_ap_password os pw b =
     (let (_, b) = sys os (sl_WlanSet SL_WLAN_CFG_AP_ID WLAN_AP_OPT_SECURITY_TYPE [SL_SEC_TYPE_WPA_WPA2]) b in
      do {
        p \<leftarrow> c_chars pw;
        let (r, b) = sys os (sl_WlanSet SL_WLAN_CFG_AP_ID WLAN_AP_OPT_PASSWORD p) b;
        Some (rc r, b)
      })"

definition sbapi_set_mode :: "'w os \<Rightarrow> int \<Rightarrow> 'w board_state \<Rightarrow> u16 \<times> 'w board_state" where
  "sbapi_set_mode os mode b =
     (let b = (if mode \<noteq> uint (role (nwp b))
               then (let (_, b) = sys os (sl_WlanSetMode mode) b;
                         (_, b) = sys os (sl_Stop 200) b;
                         (r, b) = sys os sl_Start b
                     in b\<lparr>nwp := (nwp b)\<lparr>role := word_of_int (rc r)\<rparr>\<rparr>)
               else b)
      in (role (nwp b), b))"

definition smartconfig_connect :: "'w os \<Rightarrow> 'w board_state \<Rightarrow> int \<times> 'w board_state" where
  "smartconfig_connect os b =
     (let (r, b) = sys os (sl_WlanPolicySet SL_POLICY_CONNECTION 1) b
      in if rc r = 0 then (let (r, b) = sys os sl_WlanSmartConfigStart b in (rc r, b)) else (rc r, b))"

definition set_max_power :: "'w os \<Rightarrow> 'w board_state \<Rightarrow> int \<times> 'w board_state" where
  "set_max_power os b =
     (let (r, b) = sys os (sl_WlanSet SL_WLAN_CFG_GENERAL_PARAM_ID WLAN_GENERAL_PARAM_OPT_AP_TX_POWER [0xFF]) b
      in (rc r, b))"

text \<open>A name of 32 bytes would be terminated outside its buffer.\<close>

fun get_profiles_loop :: "'w os \<Rightarrow> int list \<Rightarrow> u16 \<Rightarrow> 'w board_state \<Rightarrow> (u16 \<times> 'w board_state) option" where
  "get_profiles_loop os [] i b = Some (i, b)"
| "get_profiles_loop os (j # js) i b =
     (let (r, b) = sys os (sl_WlanProfileGet j) b in
      if rc r = -1 then get_profiles_loop os js i b
      else do { _ \<leftarrow> wr (replicate 32 (0::byte)) (length (out_bytes r)) 0; get_profiles_loop os js (i + 1) b })"

definition sbapi_get_profiles :: "'w os \<Rightarrow> 'w board_state \<Rightarrow> (u16 \<times> 'w board_state) option" where
  "sbapi_get_profiles os b = get_profiles_loop os [0, 1, 2, 3, 4, 5, 6] 0 b"

definition net_atoi :: "'w os \<Rightarrow> cstr \<Rightarrow> 'w board_state \<Rightarrow> (u32 \<times> 'w board_state) option" where
  "net_atoi os name b =
     do {
       n \<leftarrow> c_chars name;
       let (r, b) = sys os (sl_NetAppDnsGetHostByName n) b;
       Some (sl_Htonl (out_word r), b)
     }"

definition sbapi_is_connected :: "'w board_state \<Rightarrow> bool" where
  "sbapi_is_connected b = IS_IP_ACQUIRED b"

definition sbapi_add_profile :: "'w os \<Rightarrow> cstr \<Rightarrow> cstr \<Rightarrow> 'w board_state \<Rightarrow> (int \<times> 'w board_state) option" where
  "sbapi_add_profile os ssid' pw b =
     do {
       p \<leftarrow> c_chars pw;
       s \<leftarrow> c_chars ssid';
       let (r, b) = sys os (sl_WlanProfileAdd s p) b;
       Some (rc r, b)
     }"

definition sbapi_delete_all_profiles :: "'w os \<Rightarrow> 'w board_state \<Rightarrow> int \<times> 'w board_state" where
  "sbapi_delete_all_profiles os b = (let (r, b) = sys os (sl_WlanProfileDel 0xFF) b in (rc r, b))"

section \<open>The supervision thread\<close>

definition SBAPI_SMARTCONFIG :: u32 where "SBAPI_SMARTCONFIG = 1"
definition IP_ACQUIRED_FAST_TIMEOUT :: u32 where "IP_ACQUIRED_FAST_TIMEOUT = 100000"
definition IP_ACQUIRED_SLOW_TIMEOUT :: u32 where "IP_ACQUIRED_SLOW_TIMEOUT = 200000"
definition MAX_CONN_COUNTER_VAL :: int where "MAX_CONN_COUNTER_VAL = 10000000 div 100000"

text \<open>
  \<open>sbapi_init\<close> for the thread \<open>parent\<close>; a failing start or policy is a \<open>PANIC\<close>.
\<close>

definition sbapi_init :: "'w os \<Rightarrow> u32 \<Rightarrow> 'w board_state \<Rightarrow> (int \<times> 'w board_state) option" where
  "sbapi_init os opts b =
     (let (parent, b) = sys os thread_getpid b;
          b = b\<lparr>sbapi := (sbapi b)\<lparr>options := opts\<rparr>\<rparr> in
      if main_pid (sbapi b) = 0
      then (let (v, b) = sys os VStartSimpleLinkSpawnTask b in
            if rc v < 0 then None
            else
              (let (s, b) = sys os sl_Start b;
                   b = b\<lparr>nwp := (nwp b)\<lparr>role := word_of_int (rc s)\<rparr>\<rparr>;
                   (p, b) = sys os (sl_WlanPolicySet SL_POLICY_CONNECTION 1) b in
               if rc p < 0 then None
               else
                 (let (t, b) = sys os (thread_create ''sbapi'') b;
                      b = b\<lparr>sbapi := (sbapi b)\<lparr>main_pid := rc t, parent_thr := rc parent\<rparr>\<rparr>
                  in Some (main_pid (sbapi b), b))))
      else Some (main_pid (sbapi b), b))"

definition sbapi_stop :: "'w os \<Rightarrow> 'w board_state \<Rightarrow> int \<times> 'w board_state" where
  "sbapi_stop os b =
     (let b = b\<lparr>sbapi := (sbapi b)\<lparr>main_pid := 0\<rparr>\<rparr>;
          (r, b) = sys os (sl_Stop 2000) b;
          (_, b) = sys os VDeleteSimpleLinkSpawnTask b
      in (rc r, b))"

text \<open>What the timer does when it fires.\<close>

definition sig_fires :: "'w os \<Rightarrow> 'w board_state \<Rightarrow> 'w board_state option" where
  "sig_fires os b =
     (case sig_tim (sbapi b) of
        None \<Rightarrow> None
      | Some retry_connection \<Rightarrow> Some (notify os AUTO_CONNECTION_TIME_SLOT b)
      | Some smartconfig_still_active \<Rightarrow> Some (notify os SMARTCONFIG_ACTIVE b))"

definition set_sig_tim :: "'w os \<Rightarrow> u32 \<Rightarrow> 'w board_state \<Rightarrow> 'w board_state" where
  "set_sig_tim os t b = snd (sys os (xtimer_set t) b)"

text \<open>The start of the thread, and one message.\<close>

definition sbapi_loop_start :: "'w os \<Rightarrow> 'w board_state \<Rightarrow> 'w board_state" where
  "sbapi_loop_start os b =
     (let (p, b) = sys os thread_getpid b;
          b = b\<lparr>sbapi := (sbapi b)\<lparr>main_pid := rc p, sig_tim := Some retry_connection, counter := 0\<rparr>\<rparr>
      in set_sig_tim os IP_ACQUIRED_FAST_TIMEOUT b)"

definition sbapi_loop_step :: "'w os \<Rightarrow> int \<Rightarrow> 'w board_state \<Rightarrow> 'w board_state option" where
  "sbapi_loop_step os msg_type b =
     (if msg_type = event_code SMARTCONFIG_ACTIVE
      then Some (if \<not> IS_IP_ACQUIRED b then set_sig_tim os IP_ACQUIRED_SLOW_TIMEOUT b else b)
      else if msg_type = event_code AUTO_CONNECTION_TIME_SLOT
      then if counter (sbapi b) = MAX_CONN_COUNTER_VAL
           then (let b = b\<lparr>sbapi := (sbapi b)\<lparr>counter := 0\<rparr>\<rparr> in
                 do {
                   b \<leftarrow> (if options (sbapi b) AND SBAPI_SMARTCONFIG \<noteq> 0
                        then (let (r, b) = smartconfig_connect os b in
                              if r < 0 then None
                              else Some (b\<lparr>sbapi := (sbapi b)\<lparr>sig_tim := Some smartconfig_still_active\<rparr>\<rparr>))
                        else Some b);
                   Some (set_sig_tim os IP_ACQUIRED_SLOW_TIMEOUT b)
                 })
           else if \<not> IS_IP_ACQUIRED b
           then Some (set_sig_tim os IP_ACQUIRED_FAST_TIMEOUT
                  (b\<lparr>sbapi := (sbapi b)\<lparr>counter := counter (sbapi b) + 1\<rparr>\<rparr>))
           else Some b
      else if msg_type = event_code WLAN_CONNECTED then Some b
      else if msg_type = event_code WLAN_DISCONNECTED
      then Some (snd (sys os (msg_send SBAPI_LINK_DOWN (parent_thr (sbapi b))) b))
      else if msg_type = event_code IP_ACQUIRED
      then (let b = bocia_loop_init os b
            in Some (snd (sys os (msg_send SBAPI_IP_ACQUIRED (parent_thr (sbapi b))) b)))
      else Some b)"

section \<open>Runs\<close>

text \<open>The thread interleaved with its timer and the events of the network processor.\<close>

inductive sbapi_step :: "'w os \<Rightarrow> 'w board_state \<Rightarrow> 'w board_state \<Rightarrow> bool" for os where
  message: "sbapi_loop_step os t b = Some b' \<Longrightarrow> sbapi_step os b b'"
| timer: "sig_fires os b = Some b' \<Longrightarrow> sbapi_step os b b'"
| wlan: "SimpleLinkWlanEventHandler os ev b = Some b' \<Longrightarrow> sbapi_step os b b'"
| netapp: "sbapi_step os b (SimpleLinkNetAppEventHandler os nev b)"

inductive sbapi_reachable :: "'w os \<Rightarrow> 'w board_state \<Rightarrow> bool" for os where
  start: "sbapi_reachable os (sbapi_loop_start os b)"
| step: "sbapi_reachable os b \<Longrightarrow> sbapi_step os b b' \<Longrightarrow> sbapi_reachable os b'"

lemma sys_sbapi [simp]: "sbapi (snd (sys os c b)) = sbapi b"
  and sys_nwp [simp]: "nwp (snd (sys os c b)) = nwp b"
  and sys_status [simp]: "loop_status (snd (sys os c b)) = loop_status b"
  by (simp_all add: sys_def split_beta)

lemma on_status_sbapi [simp]: "sbapi (on_status f b) = sbapi b"
  by (simp add: on_status_def)

lemma notify_sbapi [simp]: "sbapi (notify os e b) = sbapi b"
  by (simp add: notify_def)

lemma events_sbapi:
  "SimpleLinkWlanEventHandler os ev b = Some b' \<Longrightarrow> sbapi b' = sbapi b"
  "sbapi (SimpleLinkNetAppEventHandler os nev b) = sbapi b"
  "sig_fires os b = Some b' \<Longrightarrow> sbapi b' = sbapi b"
  by (auto simp: SimpleLinkWlanEventHandler_def SimpleLinkNetAppEventHandler_def sig_fires_def Let_def
      bind_eq_Some_conv split: wlan_event.splits netapp_event.splits option.splits sig_callback.splits)

definition link_ok :: "sbapi_t \<Rightarrow> bool" where
  "link_ok s \<longleftrightarrow> 0 \<le> counter s \<and> counter s \<le> MAX_CONN_COUNTER_VAL \<and>
     (sig_tim s = Some retry_connection \<or>
      sig_tim s = Some smartconfig_still_active \<and> options s AND SBAPI_SMARTCONFIG \<noteq> 0)"

abbreviation supervised :: "'w board_state \<Rightarrow> bool" where
  "supervised b \<equiv> link_ok (sbapi b)"

lemma loop_step_supervised:
  assumes "sbapi_loop_step os t b = Some b'" "supervised b"
  shows "supervised b'"
proof (cases "t = event_code AUTO_CONNECTION_TIME_SLOT \<and> counter (sbapi b) = MAX_CONN_COUNTER_VAL")
  case True
  then show ?thesis
    using assms by (auto simp: sbapi_loop_step_def link_ok_def Let_def bind_eq_Some_conv set_sig_tim_def
        smartconfig_connect_def split_beta MAX_CONN_COUNTER_VAL_def split: if_splits)
next
  case False
  then have "sbapi b' = sbapi b \<or>
      counter (sbapi b) \<noteq> MAX_CONN_COUNTER_VAL \<and> sbapi b' = (sbapi b)\<lparr>counter := counter (sbapi b) + 1\<rparr>"
    using assms(1) by (auto simp: sbapi_loop_step_def Let_def set_sig_tim_def bocia_loop_init_def split: if_splits)
  with assms(2) show ?thesis by (auto simp: link_ok_def)
qed

text \<open>
  C13: However messages, timer and events of the network processor are interleaved, the supervision
  thread has a timer callback, counts at most 100 unsuccessful slots, and waits for SmartConfig only
  when it was asked to use it.
\<close>

theorem supervision_invariant:
  assumes "sbapi_reachable os b"
  shows "supervised b"
  using assms
proof induction
  case (start b)
  show ?case by (simp add: sbapi_loop_start_def split_beta Let_def set_sig_tim_def link_ok_def MAX_CONN_COUNTER_VAL_def)
next
  case (step b b')
  from step.hyps(2) show ?case
  proof (cases rule: sbapi_step.cases)
    case (message t)
    with step.IH show ?thesis by (blast intro: loop_step_supervised)
  qed (use step.IH events_sbapi in \<open>metis+\<close>)
qed

text \<open>An outside where every call succeeds and nothing is returned.\<close>

definition quiet_os :: "unit os" where
  "quiet_os c w = (\<lparr>rc = 0, out_bytes = [], out_word = 0, out_fds = []\<rparr>, w)"

theorem supervision_invariant_witness:
  "link_ok (sbapi (snd (sys quiet_os (msg_send 0 0) (sbapi_loop_start quiet_os (boot ())))))"
proof -
  let ?b = "sbapi_loop_start quiet_os (boot ())"
  have "sig_fires quiet_os ?b = Some (snd (sys quiet_os (msg_send 0 0) ?b))"
    by (simp add: sig_fires_def notify_def sbapi_loop_start_def Let_def split_beta set_sig_tim_def sys_def quiet_os_def)
  then have "sbapi_reachable quiet_os (snd (sys quiet_os (msg_send 0 0) ?b))"
    by (intro sbapi_reachable.step [OF sbapi_reachable.start] sbapi_step.timer)
  then show ?thesis by (rule supervision_invariant)
qed

section \<open>Attempts to connect\<close>

text \<open>\<open>n\<close> slots of the connection timer, one after the other.\<close>

fun slots :: "'w os \<Rightarrow> nat \<Rightarrow> 'w board_state \<Rightarrow> 'w board_state option" where
  "slots os 0 b = Some b"
| "slots os (Suc n) b = do { b \<leftarrow> sbapi_loop_step os (event_code AUTO_CONNECTION_TIME_SLOT) b; slots os n b }"

lemma slots_add: "slots os (m + n) b = do { b \<leftarrow> slots os m b; slots os n b }"
proof (induction m arbitrary: b)
  case (Suc m)
  then show ?case by (cases "sbapi_loop_step os (event_code AUTO_CONNECTION_TIME_SLOT) b") simp_all
qed simp

lemma slots_counting:
  assumes "\<not> IS_IP_ACQUIRED b" "0 \<le> counter (sbapi b)" "counter (sbapi b) + int n \<le> MAX_CONN_COUNTER_VAL"
  shows "\<exists>b'. slots os n b = Some b' \<and>
    trace b' = trace b @ replicate n (xtimer_set IP_ACQUIRED_FAST_TIMEOUT) \<and> nwp b' = nwp b \<and>
    sbapi b' = (sbapi b)\<lparr>counter := counter (sbapi b) + int n\<rparr>"
  using assms
proof (induction n arbitrary: b)
  case (Suc n)
  let ?b = "set_sig_tim os IP_ACQUIRED_FAST_TIMEOUT (b\<lparr>sbapi := (sbapi b)\<lparr>counter := counter (sbapi b) + 1\<rparr>\<rparr>)"
  have "sbapi_loop_step os (event_code AUTO_CONNECTION_TIME_SLOT) b = Some ?b"
    using Suc.prems by (simp add: sbapi_loop_step_def)
  moreover have "trace ?b = trace b @ [xtimer_set IP_ACQUIRED_FAST_TIMEOUT]" "nwp ?b = nwp b"
    "sbapi ?b = (sbapi b)\<lparr>counter := counter (sbapi b) + 1\<rparr>"
    by (simp_all add: set_sig_tim_def sys_trace)
  moreover from this Suc.prems Suc.IH [of ?b] obtain b' where "slots os n ?b = Some b'"
    "trace b' = trace ?b @ replicate n (xtimer_set IP_ACQUIRED_FAST_TIMEOUT)" "nwp b' = nwp b"
    "sbapi b' = (sbapi b)\<lparr>counter := counter (sbapi b) + 1 + int n\<rparr>" by auto
  ultimately show ?case by (auto simp: algebra_simps)
qed simp

text \<open>
  Without an address the thread tries for 100 slots, rearming the fast timer each time, and with
  the next slot it starts SmartConfig, exactly once, and waits for it with the slow timer.
\<close>

theorem smartconfig_after_100_slots:
  assumes "\<not> IS_IP_ACQUIRED b" "counter (sbapi b) = 0" "options (sbapi b) AND SBAPI_SMARTCONFIG \<noteq> 0"
    and "\<And>w. rc (fst (os (sl_WlanPolicySet SL_POLICY_CONNECTION 1) w)) = 0"
    and "\<And>w. 0 \<le> rc (fst (os sl_WlanSmartConfigStart w))"
  shows "\<exists>b'. slots os 101 b = Some b' \<and>
    trace b' = trace b @ replicate 100 (xtimer_set IP_ACQUIRED_FAST_TIMEOUT) @
      [sl_WlanPolicySet SL_POLICY_CONNECTION 1, sl_WlanSmartConfigStart, xtimer_set IP_ACQUIRED_SLOW_TIMEOUT] \<and>
    sig_tim (sbapi b') = Some smartconfig_still_active \<and> counter (sbapi b') = 0"
proof -
  obtain b1 where b1: "slots os 100 b = Some b1"
    "trace b1 = trace b @ replicate 100 (xtimer_set IP_ACQUIRED_FAST_TIMEOUT)"
    "sbapi b1 = (sbapi b)\<lparr>counter := 100\<rparr>"
    using slots_counting [of b 100 os] assms(1,2) by (auto simp: MAX_CONN_COUNTER_VAL_def)
  have "slots os 101 b = slots os 1 b1"
    using slots_add [of os 100 1 b] b1(1) by simp
  moreover have "\<exists>b'. slots os 1 b1 = Some b' \<and> trace b' = trace b1 @
      [sl_WlanPolicySet SL_POLICY_CONNECTION 1, sl_WlanSmartConfigStart, xtimer_set IP_ACQUIRED_SLOW_TIMEOUT] \<and>
      sbapi b' = (sbapi b1)\<lparr>counter := 0, sig_tim := Some smartconfig_still_active\<rparr>"
    using assms(3,4,5) b1(3)
    by (simp add: sbapi_loop_step_def smartconfig_connect_def Let_def split_beta set_sig_tim_def sys_def
        MAX_CONN_COUNTER_VAL_def not_less)
  ultimately show ?thesis using b1(2) by auto
qed

theorem smartconfig_after_100_slots_witness:
  "\<exists>b'. slots quiet_os 101 ((boot ())\<lparr>sbapi := (sbapi (boot ()))\<lparr>options := 1\<rparr>\<rparr>) = Some b' \<and>
     length (trace b') = 103"
proof -
  let ?b = "(boot ())\<lparr>sbapi := (sbapi (boot ()))\<lparr>options := 1\<rparr>\<rparr>"
  have "\<not> IS_IP_ACQUIRED ?b" "counter (sbapi ?b) = 0" "options (sbapi ?b) AND SBAPI_SMARTCONFIG \<noteq> 0"
    by (simp_all add: boot_def GET_STATUS_BIT_def SBAPI_SMARTCONFIG_def)
  from smartconfig_after_100_slots [OF this, of quiet_os] show ?thesis
    by (auto simp: quiet_os_def boot_def)
qed

text \<open>
  The supervision ends with the first slot that finds an address: nothing starts it again when
  the link is lost later, the application is told and no timer is set.
\<close>

theorem lost_link_is_not_supervised:
  assumes "IS_IP_ACQUIRED b" "counter (sbapi b) < MAX_CONN_COUNTER_VAL"
  shows "sbapi_loop_step os (event_code AUTO_CONNECTION_TIME_SLOT) b = Some b \<and>
    (\<exists>b1 b2. SimpleLinkWlanEventHandler os (SL_WLAN_DISCONNECT r) b = Some b1 \<and> \<not> IS_IP_ACQUIRED b1 \<and>
      sbapi_loop_step os (event_code WLAN_DISCONNECTED) b1 = Some b2 \<and>
      trace b2 = trace b @ [msg_send (event_code WLAN_DISCONNECTED) (main_pid (sbapi b)),
                            msg_send SBAPI_LINK_DOWN (parent_thr (sbapi b))])"
proof -
  have "\<not> GET_STATUS_BIT i (CLR_STATUS_BIT i s)" for i s
    by (simp add: GET_STATUS_BIT_def CLR_STATUS_BIT_def and.assoc)
  with assms show ?thesis
    by (simp add: SimpleLinkWlanEventHandler_def sbapi_loop_step_def Let_def notify_def sys_trace on_status_def)
qed

theorem lost_link_is_not_supervised_witness:
  "\<exists>b1 b2. SimpleLinkWlanEventHandler quiet_os (SL_WLAN_DISCONNECT 200)
      (SimpleLinkNetAppEventHandler quiet_os (SL_NETAPP_IPV4_IPACQUIRED 1 2) (boot ())) = Some b1 \<and>
    sbapi_loop_step quiet_os (event_code WLAN_DISCONNECTED) b1 = Some b2"
proof -
  let ?b = "SimpleLinkNetAppEventHandler quiet_os (SL_NETAPP_IPV4_IPACQUIRED 1 2) (boot ())"
  have "nwp_status (nwp ?b) = 8"
    by (simp add: SimpleLinkNetAppEventHandler_def Let_def on_status_def SET_STATUS_BIT_def notify_def boot_def)
  then have "IS_IP_ACQUIRED ?b" by (simp add: GET_STATUS_BIT_def)
  moreover have "counter (sbapi ?b) < MAX_CONN_COUNTER_VAL"
    by (simp add: events_sbapi boot_def MAX_CONN_COUNTER_VAL_def)
  ultimately show ?thesis using lost_link_is_not_supervised [of ?b quiet_os 200] by blast
qed

end
