(* ===== verification/Bocia.thy ===== *)
theory Bocia
  imports Bocia_File Sbapi
begin

text \<open>
  Dispatching what comes in, \<^verbatim>\<open>burba/sys/bocia/bocia.c\<close>: the input handler and its
  acknowledgements, the board commands, the cached configuration, broadcasts and the remote console.
\<close>

definition REBOOT_REQUEST :: int where "REBOOT_REQUEST = 0x2001"
definition INPUTHANDLER_OK :: int where "INPUTHANDLER_OK = 0"
definition INPUTHANDLER_ERR :: int where "INPUTHANDLER_ERR = 1"
definition DEBUG_OPTION_BIT :: nat where "DEBUG_OPTION_BIT = 0"

section \<open>Configuration\<close>

text \<open>\<open>stored_config\<close> is the static pointer \<open>config\<close>. Freeing an object has no effect here.\<close>

definition bocia_set_cfg :: "'w os \<Rightarrow> pmessage \<Rightarrow> 'w board_state \<Rightarrow> 'w board_state option" where
  "bocia_set_cfg os new_config b =
     do { (_, b) \<leftarrow> bocia_write_cfg os new_config b; Some (b\<lparr>stored_config := None\<rparr>) }"

definition bocia_get_config :: "'w os \<Rightarrow> 'w board_state \<Rightarrow> (pmessage option \<times> 'w board_state) option" where
  "bocia_get_config os b =
     (case stored_config b of
        Some c \<Rightarrow> Some (Some c, b)
      | None \<Rightarrow> do { (c, b) \<leftarrow> bocia_read_cfg os b; Some (c, b\<lparr>stored_config := c\<rparr>) })"

definition bocia_toggle_board_mode :: "'w os \<Rightarrow> 'w board_state \<Rightarrow> (pmessage option \<times> 'w board_state) option" where
  "bocia_toggle_board_mode os b =
     do {
       (nprofiles, b) \<leftarrow> sbapi_get_profiles os b;
       (c, b) \<leftarrow> bocia_get_config os b;
       let b = b\<lparr>stored_config := c\<rparr>;
       let b = (if c \<noteq> None \<and> uint (role (nwp b)) = ROLE_AP \<and> sint nprofiles > 0
                then snd (sbapi_set_mode os ROLE_STA b)
                else if c = None \<and> uint (role (nwp b)) = ROLE_STA
                then snd (sbapi_set_mode os ROLE_AP b)
                else b);
       Some (c, b)
     }"

section \<open>Commands\<close>

definition set_reboot_mode :: "'w os \<Rightarrow> int \<Rightarrow> 'w board_state \<Rightarrow> 'w board_state" where
  "set_reboot_mode os mode b =
     (if mode = 1
      then (let (_, b) = sys os simplelink_to_default_state b;
                (_, b) = bocia_delete_file os BOCIA_CFG_FILE b
            in snd (sys os (PRCMOCRRegisterWrite 0 0) b))
      else snd (sys os (PRCMOCRRegisterWrite 0 1) b))"

definition delayed_reboot :: "'w os \<Rightarrow> chan_ptr \<Rightarrow> 'w board_state \<Rightarrow> 'w board_state option" where
  "delayed_reboot os p b =
     do { c \<leftarrow> get_chan p b; Some (snd (sys os (msg_send REBOOT_REQUEST (target_pid c)) b)) }"

definition bocia_command :: "'w os \<Rightarrow> chan_ptr \<Rightarrow> pmessage \<Rightarrow> 'w board_state \<Rightarrow> 'w board_state option" where
  "bocia_command os p cmd b =
     do {
       (_, i) \<leftarrow> int_member 0 cmd;
       if i = command_code REBOOT_CMD then delayed_reboot os p b
       else if i = command_code TOGGLE_WIFI_MODE_CMD then delayed_reboot os p (set_reboot_mode os 0 b)
       else if i = command_code FACTORY_RESET_CMD then delayed_reboot os p (set_reboot_mode os 1 b)
       else if i = command_code GET_CONFIG_CMD
       then do {
         b \<leftarrow> (if stored_config b = None
              then do { (c, b) \<leftarrow> bocia_get_config os b; Some (b\<lparr>stored_config := c\<rparr>) }
              else Some b);
         chan_send os p \<lparr>pm_type = type_code CONFIG_TYPE, dline = 0, flags = 0\<rparr>
           (map_option (Pair config__descriptor) (stored_config b)) b
       }
       else Some b
     }"

section \<open>Input\<close>

definition ack_for :: "byte \<Rightarrow> u32 option \<Rightarrow> pobj" where
  "ack_for i st =
     pobj (OAck (case st of None \<Rightarrow> ACK__INIT\<lparr>a_id := ucast i\<rparr>
                 | Some s \<Rightarrow> ACK__INIT\<lparr>a_id := ucast i, status := s, has_status := 1\<rparr>))"

definition bocia_input_handler ::
  "'w os \<Rightarrow> chan_ptr \<Rightarrow> proto_msg_t \<Rightarrow> pmessage \<Rightarrow> 'w board_state \<Rightarrow> (int \<times> 'w board_state) option" where
  "bocia_input_handler os p command_id obj b =
     (let ack_type = \<lparr>pm_type = type_code ACK_TYPE, dline = dline command_id, flags = 0\<rparr>;
          t = pm_type command_id in
      do {
        b \<leftarrow>
          (if t = type_code COMMAND_TYPE then bocia_command os p obj b
           else if t = type_code SECRET_TYPE
           then do {
             k \<leftarrow> text_member 0 obj;
             (_, b) \<leftarrow> set_ap_password os k b;
             Some (snd (sys os cc3200_reset b)) }
           else if t = type_code CONFIG_TYPE
           then do { b \<leftarrow> bocia_set_cfg os obj b; chan_send os p ack_type (Some (ack_for t None)) b }
           else if t = type_code PROFILE_TYPE
           then do {
             u \<leftarrow> text_member 0 obj;
             w \<leftarrow> text_member 1 obj;
             (_, b) \<leftarrow> sbapi_add_profile os u w b;
             chan_send os p ack_type (Some (ack_for t None)) b }
           else
             (let (r, b) = sys os (call_handle_command t obj) b
              in chan_send os p ack_type (Some (ack_for t (Some (word_of_int (rc r))))) b));
        Some (INPUTHANDLER_OK, b)
      })"

text \<open>\<open>data\<close> is the payload behind its start byte.\<close>

definition bocia_unmarshall ::
  "chan_ptr \<Rightarrow> byte list \<Rightarrow>
   (chan_ptr \<Rightarrow> proto_msg_t \<Rightarrow> pmessage \<Rightarrow> 'w board_state \<Rightarrow> (int \<times> 'w board_state) option) \<Rightarrow>
   'w board_state \<Rightarrow> (int \<times> 'w board_state) option" where
  "bocia_unmarshall p data hnd b =
     do {
       (ptype, obj) \<leftarrow> nais_unmarshall data;
       (case obj of
          None \<Rightarrow> Some (INPUTHANDLER_ERR, b)
        | Some obj \<Rightarrow>
            do {
              b \<leftarrow> (if flags ptype AND push_bit DEBUG_OPTION_BIT 1 \<noteq> 0
                   then do { c \<leftarrow> get_chan p b; Some (put_chan p (c\<lparr>debug := True\<rparr>) b) } else Some b);
              hnd p ptype obj b
            })
     }"

section \<open>All channels\<close>

text \<open>The pointer is not advanced: the first channel is looked at eight times.\<close>

definition bocia_remote_console :: "'w board_state \<Rightarrow> bool option" where
  "bocia_remote_console b =
     do { c \<leftarrow> get_chan (Slot 0) b; Some (\<exists>i \<in> set [0..<SBAPI_SOCKETS]. debug c) }"

fun remote_write_loop :: "'w os \<Rightarrow> byte list \<Rightarrow> nat list \<Rightarrow> 'w board_state \<Rightarrow> 'w board_state option" where
  "remote_write_loop os data [] b = Some b"
| "remote_write_loop os data (i # is) b =
     do {
       c \<leftarrow> get_chan (Slot i) b;
       remote_write_loop os data is
         (if debug c then snd (sys os (sl_Send (ch_fd c) (int (length data)) data) b) else b)
     }"

definition bocia_remote_write :: "'w os \<Rightarrow> byte list \<Rightarrow> 'w board_state \<Rightarrow> (int \<times> 'w board_state) option" where
  "bocia_remote_write os data b =
     do { b \<leftarrow> remote_write_loop os data [0..<SBAPI_SOCKETS] b; Some (int (length data), b) }"

fun broadcast_loop :: "'w os \<Rightarrow> proto_msg_t \<Rightarrow> pobj option \<Rightarrow> nat list \<Rightarrow> 'w board_state \<Rightarrow> 'w board_state option" where
  "broadcast_loop os type obj [] b = Some b"
| "broadcast_loop os type obj (i # is) b =
     do {
       c \<leftarrow> get_chan (Slot i) b;
       b \<leftarrow> (if send c \<noteq> None then chan_send os (Slot i) type obj b else Some b);
       broadcast_loop os type obj is b
     }"

definition bocia_broadcast :: "'w os \<Rightarrow> proto_msg_t \<Rightarrow> pobj option \<Rightarrow> 'w board_state \<Rightarrow> 'w board_state option" where
  "bocia_broadcast os type obj b = broadcast_loop os type obj [0..<SBAPI_SOCKETS] b"

section \<open>The configuration survives\<close>

lemma set_cfg_ok:
  assumes ok: "flash_ok os flash hnd" and buff: "length (cfg_buff b) = 128"
    and wf: "wf_obj (OConfig c)"
    and size: "protobuf_c_message_get_packed_size config__descriptor (obj_msg (OConfig c)) = Some n" "n \<le> 128"
  shows "\<exists>b' out. bocia_set_cfg os (obj_msg (OConfig c)) b = Some b' \<and> stored_config b' = None \<and>
    protobuf_c_message_pack config__descriptor (obj_msg (OConfig c)) = Some out \<and> length out = n \<and>
    flash (world b') = (flash (world b))(BOCIA_CFG_FILE \<mapsto> out) \<and> length (cfg_buff b') = 128 \<and>
    fd_map b' = fd_map b \<and> serial_chan b' = serial_chan b"
proof -
  from wf_obj_payload [OF wf] obtain out where out:
    "protobuf_c_message_pack config__descriptor (obj_msg (OConfig c)) = Some out"
    "protobuf_c_message_get_packed_size config__descriptor (obj_msg (OConfig c)) = Some (length out)" by auto
  then have n: "length out = n" using size(1) by simp
  from write_cfg_ok [OF ok buff out] size(2) n obtain b1 where
    "bocia_write_cfg os (obj_msg (OConfig c)) b = Some (int n, b1)"
    "flash (world b1) = (flash (world b))(BOCIA_CFG_FILE \<mapsto> out)" "length (cfg_buff b1) = 128" "same_tables b b1"
    by auto
  then show ?thesis using out(1) n by (auto simp: bocia_set_cfg_def same_tables_def)
qed

lemma get_config_ok:
  assumes ok: "flash_ok os flash hnd" and buff: "length (cfg_buff b) = 128" and none: "stored_config b = None"
    and wf: "wf_obj (OConfig c)"
    and out: "protobuf_c_message_pack config__descriptor (obj_msg (OConfig c)) = Some out"
    and stored: "flash (world b) BOCIA_CFG_FILE = Some out" "length out \<le> 128"
  shows "\<exists>b'. bocia_get_config os b = Some (Some (obj_msg (OConfig c)), b') \<and>
    stored_config b' = Some (obj_msg (OConfig c)) \<and> (\<exists>h. trace b' = trace b @ cfg_reading h (length out))"
proof -
  from read_cfg_ok [OF ok buff stored] obtain b1 r h where
    1: "bocia_read_cfg os b = map_option (\<lambda>ob. (ob, b1))
      (protobuf_c_message_unpack config__descriptor (of_nat (length out)) (out @ r))"
      "trace b1 = trace b @ cfg_reading h (length out)" by blast
  have "protobuf_c_message_unpack config__descriptor (of_nat (length out)) (out @ r) = Some (Some (obj_msg (OConfig c)))"
    by (rule wf_obj_payload [OF wf]) (use out stored(2) in auto)
  with 1 none show ?thesis by (auto simp: bocia_get_config_def)
qed

text \<open>
  C7: A configuration that is set survives: on a file system that keeps what is written, setting one
  of at most 128 bytes and asking for it afterwards gives it back, read from the file, and it stays
  cached.
\<close>

theorem config_persists:
  assumes "flash_ok os flash hnd" "length (cfg_buff b) = 128" "wf_obj (OConfig c)"
    and "protobuf_c_message_get_packed_size config__descriptor (obj_msg (OConfig c)) = Some n" "n \<le> 128"
  shows "\<exists>b1 b2. bocia_set_cfg os (obj_msg (OConfig c)) b = Some b1 \<and> stored_config b1 = None \<and>
    bocia_get_config os b1 = Some (Some (obj_msg (OConfig c)), b2) \<and>
    bocia_get_config os b2 = Some (Some (obj_msg (OConfig c)), b2)"
proof -
  from set_cfg_ok [OF assms] obtain b1 out where 1:
    "bocia_set_cfg os (obj_msg (OConfig c)) b = Some b1" "stored_config b1 = None"
    "protobuf_c_message_pack config__descriptor (obj_msg (OConfig c)) = Some out" "length out = n"
    "flash (world b1) = (flash (world b))(BOCIA_CFG_FILE \<mapsto> out)" "length (cfg_buff b1) = 128" by blast
  from get_config_ok [OF assms(1) 1(6,2) assms(3) 1(3)] 1(4,5) assms(5) obtain b2 where
    "bocia_get_config os b1 = Some (Some (obj_msg (OConfig c)), b2)"
    "stored_config b2 = Some (obj_msg (OConfig c))" by auto
  moreover from this(2) have "bocia_get_config os b2 = Some (Some (obj_msg (OConfig c)), b2)"
    by (simp add: bocia_get_config_def)
  ultimately show ?thesis using 1(1,2) by blast
qed

text \<open>A file system in memory: the files, the handles in use, and replies for every other call.\<close>

type_synonym ram_world = "(string \<Rightarrow> byte list option) \<times> (int \<Rightarrow> string option)"

definition plain_reply :: "int \<Rightarrow> reply" where
  "plain_reply r = \<lparr>rc = r, out_bytes = [], out_word = 0, out_fds = []\<rparr>"

fun ram_os :: "ram_world os" where
  "ram_os (sl_FsGetInfo f) (fs, hs) =
     (case fs f of None \<Rightarrow> (plain_reply (-11), fs, hs)
      | Some bs \<Rightarrow> ((plain_reply 0)\<lparr>out_word := of_nat (length bs)\<rparr>, fs, hs))"
| "ram_os (sl_FsOpen f m) (fs, hs) =
     ((plain_reply 0)\<lparr>out_fds := [1]\<rparr>, if m = FS_MODE_OPEN_READ then fs else fs(f \<mapsto> []), hs(1 \<mapsto> f))"
| "ram_os (sl_FsWrite h off bs) (fs, hs) =
     (plain_reply (int (length bs)), case hs h of None \<Rightarrow> fs | Some f \<Rightarrow> fs(f \<mapsto> bs), hs)"
| "ram_os (sl_FsRead h off n) (fs, hs) =
     (case hs h of None \<Rightarrow> (plain_reply (-1), fs, hs)
      | Some f \<Rightarrow> (case fs f of None \<Rightarrow> (plain_reply (-1), fs, hs)
                 | Some bs \<Rightarrow> ((plain_reply (int (length bs)))\<lparr>out_bytes := bs\<rparr>, fs, hs)))"
| "ram_os _ w = (plain_reply 0, w)"

lemma ram_flash_ok: "flash_ok ram_os fst snd"
proof -
  have "sl_GetCreateFsMode 1 0 = Some 0x3001"
    by (simp add: sl_GetCreateFsMode_def granTable_def word_less_nat_alt FS_MODE_def)
  moreover have "FS_MODE_OPEN_WRITE = 0x1000" "FS_MODE_OPEN_READ = 0"
    by (simp_all add: FS_MODE_OPEN_WRITE_def FS_MODE_OPEN_READ_def FS_MODE_def)
  ultimately show ?thesis
    by (auto simp: flash_ok_def flash_laws open_ok_def SL_FS_ERR_FILE_NOT_EXISTS_def plain_reply_def
        split: option.split)
qed

theorem config_persists_witness:
  "\<exists>b1 b2. bocia_set_cfg ram_os (obj_msg (OConfig (CONFIG__INIT\<lparr>network := Heap [1], board := Heap [2], host := Heap [3]\<rparr>)))
      (boot (\<lambda>_. None, \<lambda>_. None)) = Some b1 \<and>
    bocia_get_config ram_os b1 =
      Some (Some (obj_msg (OConfig (CONFIG__INIT\<lparr>network := Heap [1], board := Heap [2], host := Heap [3]\<rparr>))), b2)"
proof -
  let ?c = "CONFIG__INIT\<lparr>network := Heap [1], board := Heap [2], host := Heap [3]\<rparr>"
  have "wf_obj (OConfig ?c)" by (simp add: text_ok_def opt_ok_def CONFIG__INIT_def)
  moreover have "protobuf_c_message_get_packed_size config__descriptor (obj_msg (OConfig ?c)) = Some 9"
    by (simp add: descriptor_defs cells_defs obj_msg_def protobuf_c_message_get_packed_size_def CONFIG__INIT_def
        field_get_packed_size_def required_field_get_packed_size_def optional_field_get_packed_size_def
        uint32_size_def get_tag_size_def word_less_nat_alt chars_def)
  ultimately show ?thesis
    using config_persists [OF ram_flash_ok, of "boot (\<lambda>_. None, \<lambda>_. None)" ?c 9] by (auto simp: boot_def)
qed

end
