(* ===== verification/Bocia_Tcp.thy ===== *)
theory Bocia_Tcp
  imports Bocia
begin

text \<open>
  Channels over TCP, \<^verbatim>\<open>burba/sys/bocia/bocia_tcp.c\<close>: the server, accepting, connecting and
  receiving.
\<close>

section \<open>Server\<close>

definition bocia_create_tcp_server :: "'w os \<Rightarrow> u16 \<Rightarrow> 'w board_state \<Rightarrow> int \<times> 'w board_state" where
  "bocia_create_tcp_server os pt b =
     (let (r, b) = sys os (sl_Socket 0) b; sock = rc r in
      if sock < 0 then (sock, b)
      else
        (let (r, b) = sys os (sl_Bind sock (sl_Htons pt)) b in
         if rc r < 0 then (rc r, snd (sys os (sl_Close sock) b))
         else
           (let (r, b) = sys os (sl_Listen sock) b in
            if rc r < 0 then (rc r, snd (sys os (sl_Close sock) b))
            else (sock, b))))"

definition bocia_destroy_tcp_server :: "'w os \<Rightarrow> 'w board_state \<Rightarrow> 'w board_state" where
  "bocia_destroy_tcp_server os b =
     (let (_, b) = sys os (sl_Close (server_fd b)) b in b\<lparr>server_fd := 0\<rparr>)"

definition bocia_tcp_accept :: "'w os \<Rightarrow> chan_ptr \<Rightarrow> 'w board_state \<Rightarrow> 'w board_state option" where
  "bocia_tcp_accept os p b =
     do {
       c \<leftarrow> get_chan p b;
       let (r, b) = sys os (sl_Accept (ch_fd c)) b;
       Some (if rc r > 0
             then snd (bocia_register_handlers (rc r) (target_pid c) (Some H_tcp_receive) (Some S_tcp) b)
             else b)
     }"

text \<open>The check of the descriptor follows its creation only: one that failed before is registered.\<close>

definition bocia_tcp_server :: "'w os \<Rightarrow> u16 \<Rightarrow> int \<Rightarrow> 'w board_state \<Rightarrow> int \<times> 'w board_state" where
  "bocia_tcp_server os pt pid b =
     (let (created, b) =
            (if server_fd b = 0
             then (let (f, b) = bocia_create_tcp_server os pt b in (f, b\<lparr>server_fd := f\<rparr>)) else (0, b)) in
      if created < 0 then (created, b)
      else (0, snd (bocia_register_handlers (server_fd b) pid (Some H_tcp_accept) None b)))"

section \<open>Receiving\<close>

definition bocia_tcp_receive :: "'w os \<Rightarrow> chan_ptr \<Rightarrow> 'w board_state \<Rightarrow> 'w board_state option" where
  "bocia_tcp_receive os p b =
     do {
       c \<leftarrow> get_chan p b;
       let (r, b) = sys os (sl_Recv (ch_fd c) 256) b;
       buff \<leftarrow> wr_block (tcp_buff b) 0 (out_bytes r);
       let b = b\<lparr>tcp_buff := buff\<rparr>;
       if rc r > 0
       then do {
         buff \<leftarrow> wr (tcp_buff b) (nat (rc r)) 0;
         (_, b) \<leftarrow> bocia_unmarshall p (drop 1 buff) (bocia_input_handler os) (b\<lparr>tcp_buff := buff\<rparr>);
         Some b }
       else if rc r = 0
       then Some (put_chan p (c\<lparr>ch_fd := 0\<rparr>) (snd (sys os (sl_Close (ch_fd c)) b)))
       else Some b
     }"

section \<open>Client\<close>

definition bocia_tcp_connect :: "'w os \<Rightarrow> cstr \<Rightarrow> u16 \<Rightarrow> 'w board_state \<Rightarrow> (int \<times> 'w board_state) option" where
  "bocia_tcp_connect os hostname server_port b =
     do {
       n \<leftarrow> c_chars hostname;
       let (d, b) = sys os (sl_NetAppDnsGetHostByName n) b;
       let (r, b) = sys os (sl_Socket 0) b;
       let sock = rc r;
       if sock < 0 then Some (sock, b)
       else
         (let (r, b) = sys os (sl_Connect sock (sl_Htonl (out_word d)) (sl_Htons server_port)) b
          in Some (if rc r < 0 then (rc r, snd (sys os (sl_Close sock) b)) else (sock, b)))
     }"

text \<open>The members of a configuration.\<close>

abbreviation cfg_network :: "pmessage \<Rightarrow> cstr option" where "cfg_network \<equiv> text_member 0"
abbreviation cfg_board :: "pmessage \<Rightarrow> cstr option" where "cfg_board \<equiv> text_member 1"
abbreviation cfg_host :: "pmessage \<Rightarrow> cstr option" where "cfg_host \<equiv> text_member 2"
abbreviation cfg_port :: "pmessage \<Rightarrow> (u32 \<times> u32) option" where "cfg_port \<equiv> int_member 3"
abbreviation cfg_alive_period :: "pmessage \<Rightarrow> (u32 \<times> u32) option" where "cfg_alive_period \<equiv> int_member 4"

definition the_config :: "'w os \<Rightarrow> pmessage option \<Rightarrow> 'w board_state \<Rightarrow> (pmessage option \<times> 'w board_state) option" where
  "the_config os cfg b = (case cfg of None \<Rightarrow> bocia_get_config os b | Some c \<Rightarrow> Some (Some c, b))"

definition bocia_tcp_init ::
  "'w os \<Rightarrow> pmessage option \<Rightarrow> 'w board_state \<Rightarrow> (nat option \<times> 'w board_state) option" where
  "bocia_tcp_init os cfg b =
     do {
       (cfg, b) \<leftarrow> the_config os cfg b;
       (case cfg of
          None \<Rightarrow> Some (None, b)
        | Some cfg \<Rightarrow>
            do {
              h \<leftarrow> cfg_host cfg;
              if h = Null then Some (None, b)
              else do {
                (_, pt) \<leftarrow> cfg_port cfg;
                (sock, b) \<leftarrow> bocia_tcp_connect os h (ucast pt) b;
                if sock < 0 then Some (None, b)
                else
                  (let (t, b) = sys os thread_getpid b
                   in Some (bocia_register_handlers sock (rc t) (Some H_tcp_receive) (Some S_tcp) b))
              }
            })
     }"

section \<open>Acknowledgements\<close>

lemma ack_packed:
  "\<exists>n. protobuf_c_message_get_packed_size ack__descriptor (obj_msg (OAck a)) = Some n \<and> n \<le> 33"
proof -
  have "int32_size x \<le> 10" for x by (simp add: int32_size_def)
  note this [of "a_id a"] this [of "a_seq a"] this [of "status a"]
  then show ?thesis
    by (simp add: descriptor_defs cells_defs obj_msg_def protobuf_c_message_get_packed_size_def
        field_get_packed_size_def required_field_get_packed_size_def optional_field_get_packed_size_def
        get_tag_size_def word_less_nat_alt)
qed

text \<open>A message that fits the serialization buffer goes out as its payload, in one call.\<close>

lemma tcp_sends:
  assumes "get_chan p b = Some c" "send c = Some S_tcp" "wf_obj ob"
    and "protobuf_c_message_get_packed_size (obj_desc ob) (obj_msg ob) = Some n" "n < 128"
    and "length (protobuf b) = 256"
  shows "\<exists>b' out. chan_send os p t (Some (pobj ob)) b = Some b' \<and> length out = n \<and>
    protobuf_c_message_pack (obj_desc ob) (obj_msg ob) = Some out \<and>
    trace b' = trace b @ [sl_Send (ch_fd c) (int (length (payload t out))) (payload t out)] \<and> same_tables b b' \<and>
    world b' = snd (os (sl_Send (ch_fd c) (int (length (payload t out))) (payload t out)) (world b))"
proof -
  from wf_obj_payload [OF assms(3)] obtain out where out:
    "protobuf_c_message_pack (obj_desc ob) (obj_msg ob) = Some out"
    "protobuf_c_message_get_packed_size (obj_desc ob) (obj_msg ob) = Some (length out)" by blast
  with assms(4) have n: "length out = n" by simp
  then have "length (payload t out) \<le> length (protobuf b)"
    using assms(5,6) by (simp add: length_payload length_nais_header b128_small)
  then have m: "nais_marshall_msg t (pobj ob) (protobuf b) =
      Some (int (length (payload t out)), payload t out @ drop (length (payload t out)) (protobuf b))"
    using marshall_payload [OF out, of t "protobuf b"] by (simp add: nais_marshall_def)
  let ?b = "snd (sys os (sl_Send (ch_fd c) (int (length (payload t out))) (payload t out))
    (b\<lparr>protobuf := payload t out @ drop (length (payload t out)) (protobuf b)\<rparr>))"
  have "chan_send os p t (Some (pobj ob)) b = Some ?b"
    using assms(1,2) m by (simp add: chan_send_def bocia_tcp_send_def)
  moreover have "same_tables b ?b" by simp
  moreover have "trace ?b = trace b @ [sl_Send (ch_fd c) (int (length (payload t out))) (payload t out)]"
    by (simp add: sys_trace)
  moreover have "world ?b = snd (os (sl_Send (ch_fd c) (int (length (payload t out))) (payload t out)) (world b))"
    by (simp add: sys_def split_beta)
  ultimately show ?thesis using out(1) n by blast
qed

lemma same_tables_chan: "same_tables b b' \<Longrightarrow> get_chan p b' = get_chan p b"
  by (simp add: same_tables_def get_chan_def split: chan_ptr.splits)

definition ack_of :: "byte \<Rightarrow> int \<Rightarrow> Ack" where
  "ack_of t r = \<lparr>a_id = ucast t, a_has_seq = 0, a_seq = 0, has_status = 1, status = word_of_int r\<rparr>"

lemma ack_for_of: "ack_for t (Some (word_of_int r)) = pobj (OAck (ack_of t r))"
  by (simp add: ack_for_def ack_of_def ACK__INIT_def)

lemma wf_ack_of: "wf_obj (OAck (ack_of t r))"
  by (simp add: ack_of_def opt_ok_def)

text \<open>The types the application handles.\<close>

definition custom_type :: "byte \<Rightarrow> bool" where
  "custom_type t \<longleftrightarrow> t \<noteq> type_code COMMAND_TYPE \<and> t \<noteq> type_code SECRET_TYPE \<and>
     t \<noteq> type_code CONFIG_TYPE \<and> t \<noteq> type_code PROFILE_TYPE"

lemma custom_acknowledged:
  assumes "custom_type (pm_type t)" "get_chan p b = Some c" "send c = Some S_tcp" "length (protobuf b) = 256"
    and "rc (fst (os (call_handle_command (pm_type t) ob) (world b))) = r"
  shows "\<exists>b' ack. bocia_input_handler os p t ob b = Some (INPUTHANDLER_OK, b') \<and> same_tables b b' \<and>
    trace b' = trace b @ [call_handle_command (pm_type t) ob, sl_Send (ch_fd c) (int (length ack)) ack] \<and>
    nais_unmarshall (drop 1 ack) =
      Some (\<lparr>pm_type = type_code ACK_TYPE, dline = 0, flags = 0\<rparr>, Some (obj_msg (OAck (ack_of (pm_type t) r)))) \<and>
    rd ack 3 = Some (dline t) \<and>
    world b' = snd (os (sl_Send (ch_fd c) (int (length ack)) ack) (snd (os (call_handle_command (pm_type t) ob) (world b))))"
proof -
  let ?b = "snd (sys os (call_handle_command (pm_type t) ob) b)"
  let ?ob = "OAck (ack_of (pm_type t) r)" and ?t = "\<lparr>pm_type = type_code ACK_TYPE, dline = dline t, flags = 0\<rparr>"
  obtain n where n: "protobuf_c_message_get_packed_size (obj_desc ?ob) (obj_msg ?ob) = Some n" "n \<le> 33"
    using ack_packed by auto
  have c: "get_chan p ?b = Some c" using assms(2) by (simp add: same_tables_chan [of b ?b])
  have "length (protobuf ?b) = 256" using assms(4) by (simp add: sys_def split_beta)
  from tcp_sends [OF c assms(3) wf_ack_of n(1) _ this, of os ?t] n(2) obtain b' out where
    1: "chan_send os p ?t (Some (pobj ?ob)) ?b = Some b'" "length out = n"
    "protobuf_c_message_pack (obj_desc ?ob) (obj_msg ?ob) = Some out"
    "trace b' = trace ?b @ [sl_Send (ch_fd c) (int (length (payload ?t out))) (payload ?t out)]" "same_tables ?b b'"
    "world b' = snd (os (sl_Send (ch_fd c) (int (length (payload ?t out))) (payload ?t out)) (world ?b))"
    by auto
  have "nais_unmarshall (drop 1 (payload ?t out)) =
      Some (\<lparr>pm_type = type_code ACK_TYPE, dline = 0, flags = 0\<rparr>, Some (obj_msg ?ob))"
    using unmarshall_frame [OF wf_ack_of 1(3), of ?t "[]"] 1(2) n(2) by (simp add: carries_def word_less_nat_alt)
  moreover have "rd (payload ?t out) 3 = Some (dline t)"
    by (simp add: payload_def nais_header_def rd_def numeral_eq_Suc)
  moreover have "bocia_input_handler os p t ob b = Some (INPUTHANDLER_OK, b')"
    using assms(1,5) 1(1) by (simp add: bocia_input_handler_def custom_type_def Let_def split_beta ack_for_of)
  moreover have "same_tables b b'" using 1(5) same_tables_trans [of b ?b b'] by simp
  moreover have "world ?b = snd (os (call_handle_command (pm_type t) ob) (world b))" by (simp add: sys_def split_beta)
  ultimately show ?thesis using 1(4,6) by (auto simp: sys_trace)
qed

lemma tcp_acknowledged:
  assumes "get_chan p b = Some c" "send c = Some S_tcp"
    and "length (tcp_buff b) = 256" "length (protobuf b) = 256"
    and "wf_obj ob" "carries t ob" "custom_type (pm_type t)" "flags t AND 1 = 0"
    and "nais_marshall t ob (replicate 256 0) = Some (len, sent)" "len < 256"
    and "os (sl_Recv (ch_fd c) 256) (world b) = (r1, w1)" "rc r1 = len" "out_bytes r1 = (take (nat len) sent)[2 := l]"
    and "rc (fst (os (call_handle_command (pm_type t) (obj_msg ob)) w1)) = r"
  shows "\<exists>b' ack. bocia_tcp_receive os p b = Some b' \<and> fd_map b' = fd_map b \<and>
    trace b' = trace b @ [sl_Recv (ch_fd c) 256, call_handle_command (pm_type t) (obj_msg ob),
                          sl_Send (ch_fd c) (int (length ack)) ack] \<and>
    nais_unmarshall (drop 1 ack) =
      Some (\<lparr>pm_type = type_code ACK_TYPE, dline = 0, flags = 0\<rparr>, Some (obj_msg (OAck (ack_of (pm_type t) r)))) \<and>
    rd ack 3 = Some l \<and>
    world b' = snd (os (sl_Send (ch_fd c) (int (length ack)) ack) (snd (os (call_handle_command (pm_type t) (obj_msg ob)) w1)))"
proof -
  from wf_obj_payload [OF assms(5)] obtain out where out:
    "protobuf_c_message_pack (obj_desc ob) (obj_msg ob) = Some out"
    "protobuf_c_message_get_packed_size (obj_desc ob) (obj_msg ob) = Some (length out)" by blast
  let ?pl = "(payload t out)[2 := l]"
  have fits: "length (payload t out) \<le> 256"
    using assms(9) marshall_payload [OF out, of t "replicate 256 0"] by (auto split: if_splits)
  then have len: "len = int (length ?pl)" "(take (nat len) sent)[2 := l] = ?pl"
    using assms(9) by (auto simp: marshall_payload [OF out])
  then have l: "length ?pl < 256" using assms(10) by simp
  let ?t = "\<lparr>pm_type = pm_type t, dline = l, flags = flags t\<rparr>"
  let ?buff = "?pl @ 0 # drop (Suc (length ?pl)) (tcp_buff b)"
  let ?b = "b\<lparr>world := w1, trace := trace b @ [sl_Recv (ch_fd c) 256], tcp_buff := ?buff\<rparr>"
  have recv: "sys os (sl_Recv (ch_fd c) 256) b = (r1, b\<lparr>world := w1, trace := trace b @ [sl_Recv (ch_fd c) 256]\<rparr>)"
    using assms(11) by (simp add: sys_def)
  have buff: "wr_block (tcp_buff b) 0 ?pl = Some (?pl @ drop (length ?pl) (tcp_buff b))"
    "wr (?pl @ drop (length ?pl) (tcp_buff b)) (length ?pl) 0 = Some ?buff"
    using l assms(3) by (simp_all add: wr_block_def wr_take_drop)
  have pos: "0 < length ?pl" by (simp add: length_payload)
  have un: "nais_unmarshall (drop 1 ?buff) = Some (?t, Some (obj_msg ob))"
    using unmarshall_from_line [OF assms(5) out(1) _ assms(6)] l by (simp add: length_payload)
  have "get_chan p ?b = Some c"
    using assms(1) by (simp add: get_chan_def split: chan_ptr.splits)
  then obtain b' ack where 1: "bocia_input_handler os p ?t (obj_msg ob) ?b = Some (INPUTHANDLER_OK, b')"
    "same_tables ?b b'"
    "trace b' = trace ?b @ [call_handle_command (pm_type t) (obj_msg ob), sl_Send (ch_fd c) (int (length ack)) ack]"
    "nais_unmarshall (drop 1 ack) =
      Some (\<lparr>pm_type = type_code ACK_TYPE, dline = 0, flags = 0\<rparr>, Some (obj_msg (OAck (ack_of (pm_type t) r))))"
    "rd ack 3 = Some l"
    "world b' = snd (os (sl_Send (ch_fd c) (int (length ack)) ack) (snd (os (call_handle_command (pm_type t) (obj_msg ob)) w1)))"
    using custom_acknowledged [of ?t p ?b c os "obj_msg ob" r] assms(2,4,7,14) by auto
  have "bocia_tcp_receive os p b = Some b'"
    using assms(1,8,12,13) recv buff pos un 1(1) len
    by (simp add: bocia_tcp_receive_def bocia_unmarshall_def DEBUG_OPTION_BIT_def del: drop_append)
  with 1 show ?thesis by (auto simp: same_tables_def)
qed

text \<open>A request that does not name a line, and is small.\<close>

lemma small_request_acknowledged:
  assumes "get_chan p b = Some c" "send c = Some S_tcp"
    and "length (tcp_buff b) = 256" "length (protobuf b) = 256"
    and "wf_obj ob" "carries t ob" "custom_type (pm_type t)" "flags t AND 1 = 0"
    and "protobuf_c_message_get_packed_size (obj_desc ob) (obj_msg ob) = Some n" "n < 128"
    and "nais_marshall t ob (replicate 256 0) = Some (len, sent)"
    and "os (sl_Recv (ch_fd c) 256) (world b) = (r1, w1)" "rc r1 = len" "out_bytes r1 = take (nat len) sent"
    and "rc (fst (os (call_handle_command (pm_type t) (obj_msg ob)) w1)) = r"
  shows "\<exists>b' ack. bocia_tcp_receive os p b = Some b' \<and> fd_map b' = fd_map b \<and>
    trace b' = trace b @ [sl_Recv (ch_fd c) 256, call_handle_command (pm_type t) (obj_msg ob),
                          sl_Send (ch_fd c) (int (length ack)) ack] \<and>
    nais_unmarshall (drop 1 ack) =
      Some (\<lparr>pm_type = type_code ACK_TYPE, dline = 0, flags = 0\<rparr>, Some (obj_msg (OAck (ack_of (pm_type t) r)))) \<and>
    world b' = snd (os (sl_Send (ch_fd c) (int (length ack)) ack) (snd (os (call_handle_command (pm_type t) (obj_msg ob)) w1)))"
proof -
  from wf_obj_payload [OF assms(5)] obtain out where out:
    "protobuf_c_message_pack (obj_desc ob) (obj_msg ob) = Some out"
    "protobuf_c_message_get_packed_size (obj_desc ob) (obj_msg ob) = Some (length out)" by blast
  with assms(9,10) have l: "length (payload t out) < 256" by (simp add: length_payload length_nais_header b128_small)
  then have "len = int (length (payload t out))" "take (nat len) sent = payload t out"
    using assms(11) by (auto simp: marshall_payload [OF out])
  then have "len < 256" "out_bytes r1 = (take (nat len) sent)[2 := 0]"
    using l assms(14) by (auto simp: payload_def nais_header_def)
  from tcp_acknowledged [OF assms(1-8,11) this(1) assms(12,13) this(2) assms(15)] show ?thesis by blast
qed

text \<open>
  C2: A request without the debug flag that arrives on a TCP channel in one segment of less than 256
  bytes, as a peer marshalled it and with the line it came from in its header, is handed to the
  application, and answered with exactly one message: an acknowledgement with the type of the request,
  the status the application returned and the line of the request, which the peer can unmarshal.
\<close>

theorem tcp_request_acknowledged:
  assumes "get_chan p b = Some c" "send c = Some S_tcp"
    and "length (tcp_buff b) = 256" "length (protobuf b) = 256"
    and "wf_obj ob" "carries t ob" "custom_type (pm_type t)" "flags t AND 1 = 0"
    and "nais_marshall t ob (replicate 256 0) = Some (len, sent)" "len < 256"
    and "os (sl_Recv (ch_fd c) 256) (world b) = (r1, w1)" "rc r1 = len" "out_bytes r1 = (take (nat len) sent)[2 := l]"
    and "rc (fst (os (call_handle_command (pm_type t) (obj_msg ob)) w1)) = r"
  shows "\<exists>b' ack. bocia_tcp_receive os p b = Some b' \<and> fd_map b' = fd_map b \<and>
    trace b' = trace b @ [sl_Recv (ch_fd c) 256, call_handle_command (pm_type t) (obj_msg ob),
                          sl_Send (ch_fd c) (int (length ack)) ack] \<and>
    nais_unmarshall (drop 1 ack) =
      Some (\<lparr>pm_type = type_code ACK_TYPE, dline = 0, flags = 0\<rparr>, Some (obj_msg (OAck (ack_of (pm_type t) r)))) \<and>
    rd ack 3 = Some l"
  using tcp_acknowledged [OF assms] by blast

text \<open>An outside where one segment comes in and every other call returns 0.\<close>

fun segment_os :: "byte list \<Rightarrow> unit os" where
  "segment_os seg (sl_Recv _ _) w = ((plain_reply (int (length seg)))\<lparr>out_bytes := seg\<rparr>, w)"
| "segment_os seg _ w = (plain_reply 0, w)"

definition tcp_board :: "unit board_state" where
  "tcp_board = (boot ())\<lparr>fd_map := (replicate 8 no_channel)
     [0 := no_channel\<lparr>ch_fd := 5, handler := Some H_tcp_receive, send := Some S_tcp\<rparr>]\<rparr>"

theorem tcp_request_acknowledged_witness:
  "\<exists>seg b' ack. seg ! 2 = 9 \<and> rd ack 3 = Some 9 \<and> bocia_tcp_receive (segment_os seg) (Slot 0) tcp_board = Some b' \<and>
     trace b' = [sl_Recv 5 256, call_handle_command 10 (obj_msg (OCommand (COMMAND__INIT\<lparr>c_id := 1\<rparr>))),
                 sl_Send 5 (int (length ack)) ack]"
proof -
  let ?ob = "OCommand (COMMAND__INIT\<lparr>c_id := 1\<rparr>)" and ?t = "\<lparr>pm_type = 10, dline = 0, flags = 0\<rparr>"
  have wf: "wf_obj ?ob" by (simp add: COMMAND__INIT_def opt_ok_def)
  have size: "protobuf_c_message_get_packed_size (obj_desc ?ob) (obj_msg ?ob) = Some 2"
    by (simp add: descriptor_defs cells_defs obj_msg_def protobuf_c_message_get_packed_size_def COMMAND__INIT_def
        field_get_packed_size_def required_field_get_packed_size_def optional_field_get_packed_size_def
        repeated_field_get_packed_size_def array_cell_def int32_size_def get_tag_size_def word_less_nat_alt)
  from wf_obj_payload [OF wf] obtain out where out: "protobuf_c_message_pack (obj_desc ?ob) (obj_msg ?ob) = Some out"
    "protobuf_c_message_get_packed_size (obj_desc ?ob) (obj_msg ?ob) = Some (length out)" by blast
  with size have n: "length out = 2" by simp
  let ?pl = "payload ?t out"
  have l: "length ?pl \<le> 256" using n by (simp add: length_payload length_nais_header b128_small)
  have short: "length ?pl < 256" using n by (simp add: length_payload length_nais_header b128_small)
  from l have m: "nais_marshall ?t ?ob (replicate 256 0) = Some (int (length ?pl), ?pl @ drop (length ?pl) (replicate 256 0))"
    by (simp add: marshall_payload [OF out])
  have b: "get_chan (Slot 0) tcp_board = Some (no_channel\<lparr>ch_fd := 5, handler := Some H_tcp_receive, send := Some S_tcp\<rparr>)"
    "length (tcp_buff tcp_board) = 256" "length (protobuf tcp_board) = 256" "trace tcp_board = []"
    by (simp_all add: tcp_board_def boot_def get_chan_def rd_def)
  have "carries ?t ?ob" "custom_type (pm_type ?t)"
    by (simp_all add: carries_def custom_type_def word_less_nat_alt)
  from tcp_request_acknowledged [OF b(1) _ b(2,3) wf this(1,2) _ m, where os = "segment_os (?pl[2 := 9])" and l = 9 and
      ?r1.0 = "(plain_reply (int (length ?pl)))\<lparr>out_bytes := ?pl[2 := 9]\<rparr>" and ?w1.0 = "()" and r = 0]
  obtain b' ack where "bocia_tcp_receive (segment_os (?pl[2 := 9])) (Slot 0) tcp_board = Some b'"
    "trace b' = [sl_Recv 5 256, call_handle_command 10 (obj_msg ?ob), sl_Send 5 (int (length ack)) ack]" "rd ack 3 = Some 9"
    using b(4) short by (auto simp: plain_reply_def)
  moreover have "?pl[2 := 9] ! 2 = 9" by (simp add: length_payload length_nais_header)
  ultimately show ?thesis by blast
qed

end
