(* ===== verification/Bocia_Mqtt.thy ===== *)
theory Bocia_Mqtt
  imports Bocia_Tcp
begin

text \<open>
  Channels over an MQTT broker, \<^verbatim>\<open>burba/sys/bocia/bocia_mqtt.c\<close>, without the parts that are compiled
  for a secure connection only (\<open>BOCIA_SECURE\<close> is 0).
\<close>

definition MAX_MQTT_PKT_SIZE :: int where "MAX_MQTT_PKT_SIZE = 256"
definition TOPIC_PREFIX :: "byte list" where "TOPIC_PREFIX = ascii ''hb/''"

section \<open>Receiving\<close>

definition mqtt_close :: "'w os \<Rightarrow> int \<Rightarrow> 'w board_state \<Rightarrow> int \<times> 'w board_state" where
  "mqtt_close os sock b = (0, snd (sys os (sl_Close sock) b))"

text \<open>The function packets are read with: no bytes at all count as a lost connection.\<close>

definition sock_receive :: "'w os \<Rightarrow> int \<Rightarrow> 'w board_state getfn" where
  "sock_receive os sock b count =
     (let (r, b) = sys os (sl_Recv sock count) b;
          b = (if rc r = 0 then snd (mqtt_close os sock b) else b)
      in Some (rc r, out_bytes r, b))"

definition read_packet :: "'w os \<Rightarrow> int \<Rightarrow> 'w board_state \<Rightarrow> (int \<times> 'w board_state) option" where
  "read_packet os sock b =
     do {
       (t, bytes, b) \<leftarrow> MQTTPacket_read (sock_receive os sock) b MAX_MQTT_PKT_SIZE;
       buf \<leftarrow> wr_block (mqtt_buf b) 0 bytes;
       Some (t, b\<lparr>mqtt_buf := buf\<rparr>)
     }"

definition mqtt_receive :: "'w os \<Rightarrow> chan_ptr \<Rightarrow> 'w board_state \<Rightarrow> (int \<times> 'w board_state) option" where
  "mqtt_receive os p b =
     do {
       c \<leftarrow> get_chan p b;
       (pkt_type, b) \<leftarrow> read_packet os (ch_fd c) b;
       Some (pkt_type, if pkt_type = -1 then put_chan p (c\<lparr>ch_fd := 0\<rparr>) b else b)
     }"

text \<open>The result of the deserializer is not looked at: what it has not set is used all the same.\<close>

definition mqtt_receiver_handler :: "'w os \<Rightarrow> chan_ptr \<Rightarrow> 'w board_state \<Rightarrow> 'w board_state option" where
  "mqtt_receiver_handler os p b =
     do {
       (type, b) \<leftarrow> mqtt_receive os p b;
       c \<leftarrow> get_chan p b;
       if ch_fd c \<noteq> 0 \<and> type = uint (msg_code PUBLISH)
       then do {
         (_, out) \<leftarrow> MQTTDeserialize_publish MQTTString_initializer (mqtt_buf b);
         payload_in \<leftarrow> o_payload out;
         payloadlen_in \<leftarrow> o_payloadlen out;
         nais \<leftarrow> is_nais_payload (drop payload_in (mqtt_buf b)) payloadlen_in;
         if nais
         then do {
           (_, b) \<leftarrow> bocia_unmarshall p (drop (payload_in + 1) (mqtt_buf b)) (bocia_input_handler os) b;
           Some b }
         else Some b }
       else Some b
     }"

section \<open>Connecting\<close>

definition mqtt_connect ::
  "'w os \<Rightarrow> cstr \<Rightarrow> u16 \<Rightarrow> byte list \<Rightarrow> u16 \<Rightarrow> byte \<Rightarrow> 'w board_state \<Rightarrow> (int \<times> 'w board_state) option" where
  "mqtt_connect os hostname pt client alive clean b =
     do {
       (ip_server, b) \<leftarrow> net_atoi os hostname b;
       let (r, b) = sys os (sl_Socket 0) b;
       let sock = rc r;
       if sock < 0 then Some (sock, b)
       else
         (let (r, b) = sys os (sl_Connect sock ip_server (sl_Htons pt)) b in
          if rc r < 0 then Some (mqtt_close os sock b)
          else do {
            let conn_data = MQTTPacket_connectData_initializer
              \<lparr>clientID := MQTTString_initializer\<lparr>cstring := Some client\<rparr>,
               keepAliveInterval := alive, cleansession := clean\<rparr>;
            r \<leftarrow> MQTTSerialize_connect MAX_MQTT_PKT_SIZE conn_data;
            b \<leftarrow> send_buf os sock r b;
            (st, b) \<leftarrow> read_packet os sock b;
            if st = uint (msg_code CONNACK)
            then do {
              (ok, out) \<leftarrow> MQTTDeserialize_connack (mqtt_buf b);
              refused \<leftarrow> (if ok \<noteq> 1 then Some True
                         else map_option (\<lambda>c. c \<noteq> 0) (c_connack_rc out));
              Some (if refused then mqtt_close os sock b else (sock, b)) }
            else if st = -1 then Some (mqtt_close os sock b)
            else Some (sock, b)
          })
     }"

definition mqtt_subscribe :: "'w os \<Rightarrow> int \<Rightarrow> MQTTString \<Rightarrow> 'w board_state \<Rightarrow> 'w board_state option" where
  "mqtt_subscribe os sock topic b =
     do { r \<leftarrow> MQTTSerialize_subscribe MAX_MQTT_PKT_SIZE 0 1 [(topic, 1)]; send_buf os sock r b }"

definition mqtt_unsubscribe :: "'w os \<Rightarrow> int \<Rightarrow> MQTTString \<Rightarrow> 'w board_state \<Rightarrow> 'w board_state option" where
  "mqtt_unsubscribe os sock topic b =
     do { r \<leftarrow> MQTTSerialize_unsubscribe MAX_MQTT_PKT_SIZE 0 1 [topic]; send_buf os sock r b }"

definition mqtt_disconnect :: "'w os \<Rightarrow> int \<Rightarrow> 'w board_state \<Rightarrow> 'w board_state option" where
  "mqtt_disconnect os sock b = send_buf os sock (MQTTSerialize_disconnect MAX_MQTT_PKT_SIZE) b"

definition mqtt_is_up :: "int \<Rightarrow> int" where
  "mqtt_is_up sock = (if sock > 0 then 1 else 0)"

text \<open>The topic name is put together in 64 bytes.\<close>

definition set_topic :: "byte list \<Rightarrow> byte list \<Rightarrow> byte list \<Rightarrow> byte list option" where
  "set_topic net brd topic =
     do {
       t \<leftarrow> wr_block topic 0 TOPIC_PREFIX;
       t \<leftarrow> wr_block t 3 net;
       t \<leftarrow> wr t (3 + length net) 0x2F;
       t \<leftarrow> wr_block t (4 + length net) brd;
       wr t (4 + length net + length brd) 0
     }"

text \<open>The old connection, if there is one, is told to end and closed by the event loop.\<close>

definition drop_old_connection :: "'w os \<Rightarrow> 'w board_state \<Rightarrow> 'w board_state option" where
  "drop_old_connection os b =
     (case mqtt_handler b of
        None \<Rightarrow> Some b
      | Some i \<Rightarrow>
          do {
            c \<leftarrow> get_chan (Slot i) b;
            if ch_fd c > 0
            then do { b \<leftarrow> mqtt_disconnect os (ch_fd c) b; bocia_close_soon (Slot i) b }
            else Some b
          })"

definition bocia_mqtt_init ::
  "'w os \<Rightarrow> pmessage option \<Rightarrow> 'w board_state \<Rightarrow> (nat option \<times> 'w board_state) option" where
  "bocia_mqtt_init os cfg b =
     do {
       (cfg, b) \<leftarrow> the_config os cfg b;
       (case cfg of
          None \<Rightarrow> Some (None, b)
        | Some cfg \<Rightarrow>
            do {
              net \<leftarrow> Option.bind (cfg_network cfg) c_chars;
              brd \<leftarrow> Option.bind (cfg_board cfg) c_chars;
              topic \<leftarrow> set_topic net brd (topic_buff b);
              b \<leftarrow> drop_old_connection os (b\<lparr>topic_buff := topic\<rparr>);
              (hp, pt) \<leftarrow> cfg_port cfg;
              (ha, al) \<leftarrow> cfg_alive_period cfg;
              h \<leftarrow> cfg_host cfg;
              (sock, b) \<leftarrow> mqtt_connect os h (if hp \<noteq> 0 then ucast pt else 1883) (ascii ''me'')
                            (if ha \<noteq> 0 then ucast al else 120) 1 b;
              if sock > 0
              then do {
                let (t, b) = sys os thread_getpid b;
                let (hd', b) = bocia_register_handlers sock (rc t) (Some H_mqtt_receiver) (Some S_mqtt) b;
                topic \<leftarrow> topic_string b 3;
                b \<leftarrow> mqtt_subscribe os sock topic (b\<lparr>mqtt_handler := hd'\<rparr>);
                Some (mqtt_handler b, b) }
              else Some (None, b\<lparr>mqtt_handler := None\<rparr>)
            })
     }"

end
