(* ===== verification/Eventloop.thy ===== *)
theory Eventloop
  imports Bocia_Mqtt
begin

text \<open>
  The event loop, \<open>bocia_loop_run\<close> of \<^verbatim>\<open>burba/sys/bocia/eventloop.c\<close>, one step at a time, and \<open>bocia_init\<close> of
  \<^verbatim>\<open>bocia.c\<close>. The other threads run between the steps.
\<close>

definition BOCIA_SOCK_CLOSED :: int where "BOCIA_SOCK_CLOSED = 11"

definition chan_handler :: "'w os \<Rightarrow> chan_ptr \<Rightarrow> 'w board_state \<Rightarrow> 'w board_state option" where
  "chan_handler os p b =
     do {
       c \<leftarrow> get_chan p b;
       f \<leftarrow> handler c;
       (case f of
          H_tcp_receive \<Rightarrow> bocia_tcp_receive os p b
        | H_tcp_accept \<Rightarrow> bocia_tcp_accept os p b
        | H_mqtt_receiver \<Rightarrow> mqtt_receiver_handler os p b)
     }"

text \<open>The channels that are listened on.\<close>

definition open_fds :: "'w board_state \<Rightarrow> int list" where
  "open_fds b = filter (\<lambda>f. f \<noteq> 0) (map ch_fd (fd_map b))"

text \<open>One channel after \<open>sl_Select\<close> has reported the descriptors \<open>readfs\<close>.\<close>

definition service :: "'w os \<Rightarrow> int list \<Rightarrow> nat \<Rightarrow> 'w board_state \<Rightarrow> 'w board_state option" where
  "service os readfs i b =
     do {
       c \<leftarrow> get_chan (Slot i) b;
       let b = (if close_pending c
                then put_chan (Slot i) (c\<lparr>ch_fd := 0, close_pending := False\<rparr>)
                       (snd (sys os (sl_Close (ch_fd c)) b))
                else b);
       c \<leftarrow> get_chan (Slot i) b;
       if ch_fd c \<noteq> 0 \<and> ch_fd c \<in> set readfs
       then do {
         b \<leftarrow> chan_handler os (Slot i) b;
         c \<leftarrow> get_chan (Slot i) b;
         Some (if ch_fd c = 0 then snd (sys os (msg_send BOCIA_SOCK_CLOSED (target_pid c)) b) else b) }
       else Some b
     }"

text \<open>
  The thread between its calls: about to look for open channels, at the mutex, where it waits until
  \<open>bocia_register_handlers\<close> unlocks it, or going through the channels.
\<close>

datatype loop_pc = Scan | Lock | Serve "int list" "nat list"

definition bocia_loop_run :: "'w os \<Rightarrow> loop_pc \<Rightarrow> 'w board_state \<Rightarrow> (loop_pc \<times> 'w board_state) option" where
  "bocia_loop_run os pc b =
     (case pc of
        Scan \<Rightarrow>
          if open_fds b = [] then Some (Lock, b)
          else
            (let nfds = Max (set (0 # open_fds b));
                 (r, b) = sys os (sl_Select (nfds + 1) (open_fds b)) b
             in Some (if rc r \<le> 0 then Scan else Serve (out_fds r) [0..<SBAPI_SOCKETS], b))
      | Lock \<Rightarrow> Some (if mutex b then (Lock, b) else (Scan, b\<lparr>mutex := True\<rparr>))
      | Serve readfs [] \<Rightarrow> Some (Scan, b)
      | Serve readfs (i # is) \<Rightarrow> map_option (Pair (Serve readfs is)) (service os readfs i b))"

section \<open>Starting\<close>

definition BOCIA_NETWORK_FOR_TCP :: "byte list" where "BOCIA_NETWORK_FOR_TCP = ascii ''_tcp_''"

definition bocia_init :: "'w os \<Rightarrow> pmessage option \<Rightarrow> 'w board_state \<Rightarrow> (nat option \<times> 'w board_state) option" where
  "bocia_init os cfg b =
     do {
       (cfg, b) \<leftarrow> the_config os cfg b;
       (case cfg of
          None \<Rightarrow> Some (None, b)
        | Some cfg \<Rightarrow>
            do {
              h \<leftarrow> cfg_host cfg;
              if h = Null then Some (None, b)
              else do {
                net \<leftarrow> Option.bind (cfg_network cfg) c_chars;
                if net = BOCIA_NETWORK_FOR_TCP then bocia_tcp_init os None b
                else bocia_mqtt_init os None b
              }
            })
     }"

end
