(* ===== verification/Mqtt_Link.thy ===== *)
theory Mqtt_Link
  imports Bocia_Mqtt
begin

text \<open>
  Messages over a broker: a socket is a transport for the packet layer, what one board publishes
  another board hands to its input handler, and the edge cases of the receive path.
\<close>

section \<open>A socket is a transport\<close>

text \<open>
  What the program relies on: asked for at most as many bytes as have arrived, \<open>sl_Recv\<close> returns
  them. \<open>avail\<close> is what has arrived on the socket and has not been read.
\<close>

definition delivers :: "'w os \<Rightarrow> ('w \<Rightarrow> byte list) \<Rightarrow> int \<Rightarrow> bool" where
  "delivers os avail sock \<longleftrightarrow> (\<forall>w n. 0 < n \<longrightarrow> n \<le> int (length (avail w)) \<longrightarrow>
     rc (fst (os (sl_Recv sock n) w)) = n \<and> out_bytes (fst (os (sl_Recv sock n) w)) = take (nat n) (avail w) \<and>
     avail (snd (os (sl_Recv sock n) w)) = drop (nat n) (avail w))"

lemma sock_transport:
  assumes "delivers os avail sock"
  shows "transport (sock_receive os sock) (\<lambda>b. avail (world b))"
proof
  fix n :: int and b :: "'a board_state"
  assume "0 < n" "n \<le> int (length (avail (world b)))"
  with assms show "\<exists>b'. sock_receive os sock b n = Some (n, take (nat n) (avail (world b)), b') \<and>
      avail (world b') = drop (nat n) (avail (world b))"
    by (simp add: delivers_def sock_receive_def split_beta Let_def)
qed

text \<open>A network of byte streams, one for every socket.\<close>

fun stream_os :: "(int \<Rightarrow> byte list) os" where
  "stream_os (sl_Recv sock n) w =
     ((plain_reply (min n (int (length (w sock)))))\<lparr>out_bytes := take (nat n) (w sock)\<rparr>,
      w(sock := drop (nat n) (w sock)))"
| "stream_os _ w = (plain_reply 0, w)"

lemma stream_delivers: "delivers stream_os (\<lambda>w. w sock) sock"
  by (simp add: delivers_def plain_reply_def)

interpretation stream: transport "sock_receive stream_os sock" "\<lambda>b. world b sock" for sock
  using sock_transport [OF stream_delivers] by simp

section \<open>Reading a packet on a board\<close>

text \<open>What reading from a socket leaves alone.\<close>

lemma sock_receive_same:
  assumes "sock_receive os sock b n = Some (r, bs, b')"
  shows "same_tables b b' \<and> mqtt_buf b' = mqtt_buf b \<and> protobuf b' = protobuf b \<and> tcp_buff b' = tcp_buff b \<and>
    cfg_buff b' = cfg_buff b \<and> uart_txbuff b' = uart_txbuff b"
  using assms by (auto simp: sock_receive_def mqtt_close_def split_beta Let_def sys_def same_tables_def split: if_splits)

definition same_state :: "'w board_state \<Rightarrow> 'w board_state \<Rightarrow> bool" where
  "same_state b b' \<longleftrightarrow> same_tables b b' \<and> protobuf b' = protobuf b \<and> tcp_buff b' = tcp_buff b \<and>
    cfg_buff b' = cfg_buff b \<and> uart_txbuff b' = uart_txbuff b"

lemma packet_read_same:
  assumes "MQTTPacket_read (sock_receive os sock) b n = Some (t, bs, b')"
  shows "same_state b b' \<and> mqtt_buf b' = mqtt_buf b"
proof (rule read_keeps [where P = "\<lambda>s. same_state b s \<and> mqtt_buf s = mqtt_buf b", OF _ _ assms])
  show "same_state b b \<and> mqtt_buf b = mqtt_buf b" by (simp add: same_state_def)
qed (auto simp: same_state_def dest: sock_receive_same same_tables_trans)

lemma read_packet_frame:
  assumes "delivers os avail sock" "avail (world b) = frame h body @ r" "body \<noteq> []"
    and "length (frame h body) \<le> 256" "length (mqtt_buf b) = 256"
  shows "\<exists>b'. read_packet os sock b = Some (uint (mtype (header_of_byte h)), b') \<and>
    mqtt_buf b' = frame h body @ drop (length (frame h body)) (mqtt_buf b) \<and> avail (world b') = r \<and> same_state b b'"
proof -
  have len: "length body < 2 ^ 28" using assms(4) by (simp add: frame_def)
  have fits: "int (length (frame h body)) \<le> MAX_MQTT_PKT_SIZE" using assms(4) by (simp add: MAX_MQTT_PKT_SIZE_def)
  from transport.read_frame [OF sock_transport [OF assms(1)], OF assms(2) len fits assms(3)] obtain b1 where
    1: "MQTTPacket_read (sock_receive os sock) b MAX_MQTT_PKT_SIZE =
      Some (uint (mtype (header_of_byte h)), frame h body, b1)" "avail (world b1) = r" by blast
  with packet_read_same [OF 1(1)] assms(4,5) show ?thesis
    by (simp add: read_packet_def wr_block_def same_state_def same_tables_def)
qed

section \<open>Publishing\<close>

lemma topic_string_ok:
  assumes "topic_string b off = Some ts" "length (topic_buff b) \<le> 64"
  shows "string_ok ts"
proof -
  have "length (chars (drop off (topic_buff b))) \<le> length (drop off (topic_buff b))"
    unfolding chars_def by (rule length_takeWhile_le)
  with assms show ?thesis
    by (auto simp: topic_string_def string_ok_def MQTTString_initializer_def split: if_splits)
qed

lemma serialize_publish_prefix:
  "MQTTSerialize_publish buflen d q r i ts (pl @ x) (int (length pl)) =
   MQTTSerialize_publish buflen d q r i ts pl (int (length pl))"
proof -
  have "memcpy out (pl @ x) (int (length pl)) = Some (out @ pl)" for out
    by (simp add: memcpy_def)
  then show ?thesis by (simp add: MQTTSerialize_publish_def Let_def)
qed

abbreviation published :: "MQTTString \<Rightarrow> byte list \<Rightarrow> byte list" where
  "published ts pl \<equiv> frame (publish_header 0 1 0) (publish_body 1 0 (topic_bytes ts) pl)"

lemma transmitter_publishes:
  assumes "wf_obj ob" "protobuf_c_message_get_packed_size (obj_desc ob) (obj_msg ob) = Some n" "n < 128"
    and "protobuf_c_message_pack (obj_desc ob) (obj_msg ob) = Some out"
    and "length (protobuf a) = 256" "length (mqtt_buf a) = 256" "length (topic_buff a) = 64"
    and "topic_string a 0 = Some ts" "length (topic_bytes ts) + n \<le> 242"
  shows "length out = n \<and> length (published ts (payload t out)) \<le> 256 \<and>
    (\<exists>a'. mqtt_transmitter_handler os ch t (pobj ob) a = Some a' \<and>
      trace a' = trace a @ [sl_Send (ch_fd ch) (int (length (published ts (payload t out)))) (published ts (payload t out))])"
proof -
  from wf_obj_payload [OF assms(1)] assms(4) have
    size: "protobuf_c_message_get_packed_size (obj_desc ob) (obj_msg ob) = Some (length out)" by auto
  with assms(2) have n: "length out = n" by simp
  let ?pl = "payload t out" and ?p = "published ts (payload t out)"
  let ?body = "publish_body 1 0 (topic_bytes ts) ?pl"
  have l: "length ?pl = 7 + n" using n assms(3) by (simp add: length_payload length_nais_header b128_small)
  have body: "length ?body = 11 + length (topic_bytes ts) + n" by (simp add: publish_body_def l)
  then have bound: "length ?body \<le> 253" using assms(9) by simp
  then have pl: "MQTTPacket_len (int (length ?body)) \<le> 256"
    by (simp add: MQTTPacket_len_def Let_def)
  have "length (b128 (length ?body)) \<le> 2" using length_b128_le [of 2 "length ?body"] bound by simp
  then have fl: "length ?p \<le> 256" using bound by (simp add: frame_def encode_int)
  let ?buf = "?pl @ drop (length ?pl) (protobuf a)"
  have m: "nais_marshall_msg t (pobj ob) (protobuf a) = Some (int (length ?pl), ?buf)"
    using marshall_payload [OF assms(4) size, of t "protobuf a"] l assms(3,5) by (simp add: nais_marshall_def)
  have "string_ok ts" using topic_string_ok [OF assms(8)] assms(7) by simp
  then have s: "MQTTSerialize_publish 256 0 1 0 0 ts ?buf (int (length ?pl)) = Some (int (length ?p), ?p)"
    unfolding serialize_publish_prefix using pl by (simp add: serialize_publish_frame Let_def)
  have "topic_string (a\<lparr>protobuf := ?buf\<rparr>) 0 = Some ts" using assms(8) by (auto simp: topic_string_def split: if_splits)
  with m s fl assms(6) n show ?thesis
    by (simp add: mqtt_transmitter_handler_def send_buf_def wr_block_def sys_trace)
qed

lemma receiver_gets:
  assumes "get_chan p b = Some c" "ch_fd c \<noteq> 0" "delivers os avail (ch_fd c)" "length (mqtt_buf b) = 256"
    and "wf_obj ob" "carries t ob" "flags t AND 1 = 0"
    and "protobuf_c_message_pack (obj_desc ob) (obj_msg ob) = Some out" "length out < 65535"
    and "avail (world b) = published ts (payload t out) @ rest" "length (published ts (payload t out)) \<le> 256"
    and "length (topic_bytes ts) < 65536"
  shows "\<exists>b'. mqtt_receiver_handler os p b =
      map_option snd (bocia_input_handler os p \<lparr>pm_type = pm_type t, dline = 0, flags = flags t\<rparr> (obj_msg ob) b') \<and>
    avail (world b') = rest \<and> same_state b b'"
proof -
  let ?pl = "payload t out"
  let ?body = "publish_body 1 0 (topic_bytes ts) ?pl"
  have ne: "?body \<noteq> []" by (simp add: publish_body_def utf_field_def int16_bytes_def writeInt_def)
  from read_packet_frame [OF assms(3,10) ne assms(11,4)] obtain b1 where
    1: "read_packet os (ch_fd c) b = Some (uint (msg_code PUBLISH), b1)"
      "mqtt_buf b1 = published ts ?pl @ drop (length (published ts ?pl)) (mqtt_buf b)"
      "avail (world b1) = rest" "same_state b b1"
    by auto
  define r where "r = drop (length (published ts ?pl)) (mqtt_buf b)"
  have "length ?body < 2 ^ 28" using assms(11) by (simp add: frame_def)
  from deserialize_publish_frame [OF this assms(12) _ _ 1(2) [folded r_def], of MQTTString_initializer] obtain pos out' where
    2: "MQTTDeserialize_publish MQTTString_initializer (mqtt_buf b1) = Some (1, out')"
      "o_payload out' = Some pos" "o_payloadlen out' = Some (int (length ?pl))" "drop pos (mqtt_buf b1) = ?pl @ r"
    by auto
  have "drop (pos + 1) (mqtt_buf b1) = drop 1 (?pl @ r)"
    using 2(4) by (metis add.commute drop_drop)
  then have "nais_unmarshall (drop (pos + 1) (mqtt_buf b1)) =
      Some (\<lparr>pm_type = pm_type t, dline = 0, flags = flags t\<rparr>, Some (obj_msg ob))"
    using unmarshall_frame [OF assms(5,8,9,6)] by simp
  then have h: "bocia_unmarshall p (drop (pos + 1) (mqtt_buf b1)) (bocia_input_handler os) b1 =
      bocia_input_handler os p \<lparr>pm_type = pm_type t, dline = 0, flags = flags t\<rparr> (obj_msg ob) b1"
    using assms(7) by (simp add: bocia_unmarshall_def DEBUG_OPTION_BIT_def)
  have "get_chan p b1 = Some c" using 1(4) assms(1) same_tables_chan [of b b1 p] by (simp add: same_state_def)
  then have "mqtt_receiver_handler os p b =
      map_option snd (bocia_input_handler os p \<lparr>pm_type = pm_type t, dline = 0, flags = flags t\<rparr> (obj_msg ob) b1)"
    using 1(1) 2 h assms(1,2) payload_recognised [of t out r]
    by (simp add: mqtt_receiver_handler_def mqtt_receive_def) (auto split: option.splits bind_splits)
  with 1(3,4) show ?thesis by blast
qed

text \<open>
  C3: What one board sends on its MQTT channel, another board that receives it on its own channel
  hands to its input handler: the transmitter makes exactly one send, of one publish packet, and a
  receiver whose socket delivers that packet, followed by anything, dispatches the message with its
  type and flags, leaves what follows on the socket, and changes nothing else before.
\<close>

theorem published_message_arrives:
  assumes "wf_obj ob" "carries t ob" "flags t AND 1 = 0"
    and "protobuf_c_message_get_packed_size (obj_desc ob) (obj_msg ob) = Some n" "n < 128"
    and "length (protobuf a) = 256" "length (mqtt_buf a) = 256" "length (topic_buff a) = 64"
    and "topic_string a 0 = Some ts" "length (topic_bytes ts) + n \<le> 242"
    and "get_chan p b = Some c" "ch_fd c \<noteq> 0" "delivers os avail (ch_fd c)" "length (mqtt_buf b) = 256"
  shows "\<exists>a' pkt. mqtt_transmitter_handler os_a ch t (pobj ob) a = Some a' \<and>
    trace a' = trace a @ [sl_Send (ch_fd ch) (int (length pkt)) pkt] \<and>
    (\<forall>rest. avail (world b) = pkt @ rest \<longrightarrow>
      (\<exists>b'. mqtt_receiver_handler os p b = map_option snd
          (bocia_input_handler os p \<lparr>pm_type = pm_type t, dline = 0, flags = flags t\<rparr> (obj_msg ob) b') \<and>
        avail (world b') = rest \<and> same_state b b'))"
proof -
  from wf_obj_payload [OF assms(1)] obtain out where out:
    "protobuf_c_message_pack (obj_desc ob) (obj_msg ob) = Some out" by blast
  from transmitter_publishes [OF assms(1,4,5) out assms(6-10), of t os_a ch] obtain a' where
    1: "length out = n" "length (published ts (payload t out)) \<le> 256"
      "mqtt_transmitter_handler os_a ch t (pobj ob) a = Some a'"
      "trace a' = trace a @ [sl_Send (ch_fd ch) (int (length (published ts (payload t out)))) (published ts (payload t out))]"
    by blast
  have "length out < 65535" "length (topic_bytes ts) < 65536" using 1(1) assms(5,10) by simp_all
  with receiver_gets [OF assms(11-14,1,2,3) out _ _ 1(2)] 1(3,4) show ?thesis by blast
qed

definition mqtt_board :: "'w \<Rightarrow> 'w board_state" where
  "mqtt_board w = (boot w)\<lparr>fd_map := (replicate 8 no_channel)
     [0 := no_channel\<lparr>ch_fd := 3, handler := Some H_mqtt_receiver, send := Some S_mqtt\<rparr>],
     topic_buff := [0x68, 0x62, 0x2F, 0x61] @ replicate 60 0\<rparr>"

lemma mqtt_board_ok:
  "get_chan (Slot 0) (mqtt_board w) =
     Some (no_channel\<lparr>ch_fd := 3, handler := Some H_mqtt_receiver, send := Some S_mqtt\<rparr>)"
  "length (protobuf (mqtt_board w)) = 256" "length (mqtt_buf (mqtt_board w)) = 256"
  "length (topic_buff (mqtt_board w)) = 64"
  "topic_string (mqtt_board w) 0 = Some (MQTTString_initializer\<lparr>cstring := Some [0x68, 0x62, 0x2F, 0x61]\<rparr>)"
  by (simp_all add: mqtt_board_def boot_def get_chan_def rd_def topic_string_def chars_def)

theorem published_message_arrives_witness:
  "\<exists>a' pkt b'. mqtt_transmitter_handler quiet_os no_channel \<lparr>pm_type = 3, dline = 0, flags = 0\<rparr>
      (pobj (OAck \<lparr>a_id = 5, a_has_seq = 0, a_seq = 0, has_status = 1, status = 1\<rparr>)) (mqtt_board ()) = Some a' \<and>
    mqtt_receiver_handler stream_os (Slot 0) (mqtt_board (\<lambda>_. pkt)) = map_option snd
      (bocia_input_handler stream_os (Slot 0) \<lparr>pm_type = 3, dline = 0, flags = 0\<rparr>
        (obj_msg (OAck \<lparr>a_id = 5, a_has_seq = 0, a_seq = 0, has_status = 1, status = 1\<rparr>)) b')"
proof -
  let ?ob = "OAck \<lparr>a_id = 5, a_has_seq = 0, a_seq = 0, has_status = 1, status = 1\<rparr>"
  let ?t = "\<lparr>pm_type = 3, dline = 0, flags = 0\<rparr>"
  have wf: "wf_obj ?ob" by (simp add: opt_ok_def)
  have t: "carries ?t ?ob" "flags ?t AND 1 = 0" by (simp_all add: carries_def word_less_nat_alt)
  have size: "protobuf_c_message_get_packed_size (obj_desc ?ob) (obj_msg ?ob) = Some 4"
    by (simp add: descriptor_defs cells_defs obj_msg_def protobuf_c_message_get_packed_size_def
        field_get_packed_size_def required_field_get_packed_size_def optional_field_get_packed_size_def
        int32_size_def get_tag_size_def word_less_nat_alt)
  have d: "delivers stream_os (\<lambda>w. w 3) (ch_fd (no_channel\<lparr>ch_fd := 3, handler := Some H_mqtt_receiver, send := Some S_mqtt\<rparr>))"
    using stream_delivers [of 3] by simp
  have P: "\<exists>a' pkt. mqtt_transmitter_handler quiet_os no_channel ?t (pobj ?ob) (mqtt_board ()) = Some a' \<and>
      (\<forall>rest. q = pkt @ rest \<longrightarrow>
        (\<exists>b'. mqtt_receiver_handler stream_os (Slot 0) (mqtt_board (\<lambda>_. q)) = map_option snd
            (bocia_input_handler stream_os (Slot 0) ?t (obj_msg ?ob) b'))) \<and>
      trace a' = trace (mqtt_board ()) @ [sl_Send 0 (int (length pkt)) pkt]" for q
    using published_message_arrives [OF wf t size _ mqtt_board_ok(2-5) _ mqtt_board_ok(1) _ d,
        where os_a = quiet_os and ch = no_channel]
    by (fastforce simp: mqtt_board_def boot_def topic_bytes_def MQTTString_initializer_def no_channel_def mqtt_board_ok(3))
  from P [of "[]"] obtain a' pkt where a: "mqtt_transmitter_handler quiet_os no_channel ?t (pobj ?ob) (mqtt_board ()) = Some a'"
    "trace a' = trace (mqtt_board ()) @ [sl_Send 0 (int (length pkt)) pkt]" by blast
  from P [of pkt] a have "\<exists>b'. mqtt_receiver_handler stream_os (Slot 0) (mqtt_board (\<lambda>_. pkt)) = map_option snd
      (bocia_input_handler stream_os (Slot 0) ?t (obj_msg ?ob) b')" by force
  with a(1) show ?thesis by blast
qed

section \<open>Packets without a body\<close>

lemma sock_one:
  assumes "delivers os avail sock" "avail (world b) = x # xs"
  shows "\<exists>b'. sock_receive os sock b 1 = Some (1, [x], b') \<and> avail (world b') = xs"
  using transport.get_many [OF sock_transport [OF assms(1)], of 1 b] assms(2) by simp

text \<open>
  A packet without a body, such as the answer to a ping, ends with a read of 0 bytes. Where such
  a read returns 0 the socket is closed as if the broker had gone, while the packet counts as
  received and the channel keeps the descriptor of the closed socket.
\<close>

theorem empty_packet_closes_socket:
  assumes "get_chan p b = Some c" "ch_fd c \<noteq> 0" "delivers os avail (ch_fd c)" "length (mqtt_buf b) = 256"
    and "avail (world b) = h # 0 # rest" "mtype (header_of_byte h) \<noteq> msg_code PUBLISH"
    and "\<And>w. rc (fst (os (sl_Recv (ch_fd c) 0) w)) = 0 \<and> out_bytes (fst (os (sl_Recv (ch_fd c) 0) w)) = []"
  shows "\<exists>b'. mqtt_receiver_handler os p b = Some b' \<and> last (trace b') = sl_Close (ch_fd c) \<and> get_chan p b' = Some c"
proof -
  let ?get = "sock_receive os (ch_fd c)"
  obtain b1 where b1: "?get b 1 = Some (1, [h], b1)" "avail (world b1) = 0 # rest"
    using sock_one [OF assms(3,5)] by blast
  obtain b2 where b2: "?get b1 1 = Some (1, [0], b2)" using sock_one [OF assms(3) b1(2)] by blast
  let ?r = "sys os (sl_Recv (ch_fd c) 0) b2"
  let ?b3 = "snd (sys os (sl_Close (ch_fd c)) (snd ?r))"
  have b3: "?get b2 0 = Some (0, [], ?b3)"
    using assms(7) [of "world b2"] by (simp add: sock_receive_def mqtt_close_def split_beta Let_def)
  have dec: "MQTTPacket_decode ?get b1 = Some (1, 0, b2)"
    using b2 by (simp add: MQTTPacket_decode_def decode_loop.simps Let_def)
  have enc: "MQTTPacket_encode 0 = [0]" by (simp add: encode_b128 b128_small)
  have t: "uint (mtype (header_of_byte h)) \<noteq> -1" "uint (mtype (header_of_byte h)) \<noteq> 3"
    using uint_ge_0 [of "mtype (header_of_byte h)"] assms(6) by (linarith, simp add: word_uint_eq_iff)
  have read: "MQTTPacket_read ?get b MAX_MQTT_PKT_SIZE = Some (uint (mtype (header_of_byte h)), [h, 0], ?b3)"
    using b1(1) dec b3 by (simp add: MQTTPacket_read_def enc MAX_MQTT_PKT_SIZE_def)
  with packet_read_same [OF read] assms(4) have
    rp: "read_packet os (ch_fd c) b = Some (uint (mtype (header_of_byte h)), ?b3\<lparr>mqtt_buf := h # 0 # drop 2 (mqtt_buf b)\<rparr>)"
    by (simp add: read_packet_def wr_block_def numeral_2_eq_2)
  let ?b4 = "?b3\<lparr>mqtt_buf := h # 0 # drop 2 (mqtt_buf b)\<rparr>"
  have "same_tables b ?b4" using packet_read_same [OF read] by (simp add: same_state_def)
  then have "get_chan p ?b4 = Some c" using assms(1) same_tables_chan [of b ?b4 p] by simp
  moreover have "mqtt_receiver_handler os p b = Some ?b4"
    using assms(1,6) rp t calculation
    by (auto simp: mqtt_receiver_handler_def mqtt_receive_def)
  moreover have "last (trace ?b4) = sl_Close (ch_fd c)" by (simp add: sys_trace)
  ultimately show ?thesis by blast
qed

theorem empty_packet_closes_socket_witness:
  "\<exists>b'. mqtt_receiver_handler stream_os (Slot 0) (mqtt_board (\<lambda>_. [0xD0, 0])) = Some b' \<and>
     last (trace b') = sl_Close 3"
proof -
  let ?c = "no_channel\<lparr>ch_fd := 3, handler := Some H_mqtt_receiver, send := Some S_mqtt\<rparr>"
  have d: "delivers stream_os (\<lambda>w. w 3) (ch_fd ?c)" using stream_delivers [of 3] by simp
  have h: "mtype (header_of_byte 0xD0) \<noteq> msg_code PUBLISH"
    by (simp add: header_of_byte_def)
  have "\<exists>b'. mqtt_receiver_handler stream_os (Slot 0) (mqtt_board (\<lambda>_. [0xD0, 0])) = Some b' \<and>
     last (trace b') = sl_Close (ch_fd ?c) \<and> get_chan (Slot 0) b' = Some ?c"
    by (rule empty_packet_closes_socket [OF mqtt_board_ok(1) _ d mqtt_board_ok(3) _ h])
       (simp_all add: mqtt_board_def boot_def plain_reply_def)
  then show ?thesis by auto
qed

section \<open>The topic name\<close>

text \<open>
  The topic of a board is \<open>hb/network/board\<close>, terminated, and the subscription skips its prefix.
  Names of 60 bytes and more in total are written outside the buffer.
\<close>

theorem topic_name_exact:
  assumes "length topic = 64"
  shows "set_topic net brd topic =
    (if length net + length brd < 60
     then Some (TOPIC_PREFIX @ net @ 0x2F # brd @ 0 # drop (5 + length net + length brd) topic) else None)"
proof -
  have p: "length TOPIC_PREFIX = 3" by (simp add: TOPIC_PREFIX_def ascii_def)
  show ?thesis
  proof (cases "length net + length brd < 60")
    case True
    let ?t1 = "TOPIC_PREFIX @ drop 3 topic"
    let ?t2 = "(TOPIC_PREFIX @ net) @ drop (3 + length net) topic"
    let ?t3 = "(TOPIC_PREFIX @ net @ [0x2F]) @ drop (4 + length net) topic"
    let ?t4 = "(TOPIC_PREFIX @ net @ 0x2F # brd) @ drop (4 + length net + length brd) topic"
    have "wr_block topic 0 TOPIC_PREFIX = Some ?t1" using assms p by (simp add: wr_block_def)
    moreover have "wr_block ?t1 3 net = Some ?t2" using assms p True by (simp add: wr_block_def add.commute)
    moreover have "wr ?t2 (3 + length net) 0x2F = Some ?t3"
      using assms p True by (simp add: wr_take_drop)
    moreover have "wr_block ?t3 (4 + length net) brd = Some ?t4"
      using assms p True by (simp add: wr_block_def add.commute add.left_commute)
    moreover have "wr ?t4 (4 + length net + length brd) 0 =
        Some (TOPIC_PREFIX @ net @ 0x2F # brd @ 0 # drop (5 + length net + length brd) topic)"
      using assms p True by (simp add: wr_take_drop add.assoc)
    ultimately show ?thesis using True by (simp only: set_topic_def bind.bind_lunit if_True)
  next
    case False
    have "set_topic net brd topic = Some t \<Longrightarrow> length net + length brd < 60" for t
      using assms p by (auto simp: set_topic_def bind_eq_Some_conv wr_def wr_block_def split: if_splits)
    with False show ?thesis by (cases "set_topic net brd topic") auto
  qed
qed

theorem topic_name_exact_witness:
  "set_topic [1] [2, 3] (replicate 64 0) = Some (TOPIC_PREFIX @ [1, 0x2F, 2, 3, 0] @ replicate 56 0)"
  using topic_name_exact [of "replicate 64 0" "[1]" "[2, 3]"] by simp

end
