(* ===== verification/Board_Run.thy ===== *)
theory Board_Run
  imports Eventloop Mqtt_Link
begin

text \<open>
  The board as a whole: the event loop interleaved with the threads that register channels, send,
  broadcast and reconfigure. The invariants of the channel table and of the buffers, and the
  hand-over between registration and the waiting loop.
\<close>

section \<open>What an operation leaves alone\<close>

lemma sys_sel [simp]:
  "fd_map (snd (sys os c b)) = fd_map b" "serial_chan (snd (sys os c b)) = serial_chan b"
  "mutex (snd (sys os c b)) = mutex b" "mqtt_handler (snd (sys os c b)) = mqtt_handler b"
  "topic_buff (snd (sys os c b)) = topic_buff b" "mqtt_buf (snd (sys os c b)) = mqtt_buf b"
  "tcp_buff (snd (sys os c b)) = tcp_buff b" "protobuf (snd (sys os c b)) = protobuf b"
  "uart_txbuff (snd (sys os c b)) = uart_txbuff b" "stored_config (snd (sys os c b)) = stored_config b"
  "server_fd (snd (sys os c b)) = server_fd b"
  by (simp_all add: sys_def split_beta)

text \<open>What the invariants depend on: two states with the same view are alike.\<close>

definition core :: "bocia_channel_t \<Rightarrow> int \<times> handler_fn option \<times> send_fn option" where
  "core c = (ch_fd c, handler c, send c)"

definition view :: "'w board_state \<Rightarrow> (int \<times> handler_fn option \<times> send_fn option) list \<times> bool \<times> nat option \<times> nat list" where
  "view b = (map core (fd_map b), mutex b, mqtt_handler b,
     [length (topic_buff b), length (mqtt_buf b), length (tcp_buff b), length (cfg_buff b),
      length (protobuf b), length (uart_txbuff b)])"

lemma view_sys [simp]: "view (snd (sys os c b)) = view b"
  by (simp add: view_def)

lemma view_other [simp]:
  "view (b\<lparr>stored_config := x\<rparr>) = view b" "view (b\<lparr>nwp := n\<rparr>) = view b" "view (b\<lparr>sbapi := s\<rparr>) = view b"
  "view (b\<lparr>world := w\<rparr>) = view b" "view (b\<lparr>trace := t\<rparr>) = view b" "view (b\<lparr>server_fd := f\<rparr>) = view b"
  "view (b\<lparr>loop_status := l\<rparr>) = view b" "view (b\<lparr>serial_chan := c\<rparr>) = view b"
  by (simp_all add: view_def)

lemma view_buffers:
  "length x = length (protobuf b) \<Longrightarrow> view (b\<lparr>protobuf := x\<rparr>) = view b"
  "length x = length (mqtt_buf b) \<Longrightarrow> view (b\<lparr>mqtt_buf := x\<rparr>) = view b"
  "length x = length (tcp_buff b) \<Longrightarrow> view (b\<lparr>tcp_buff := x\<rparr>) = view b"
  "length x = length (cfg_buff b) \<Longrightarrow> view (b\<lparr>cfg_buff := x\<rparr>) = view b"
  "length x = length (topic_buff b) \<Longrightarrow> view (b\<lparr>topic_buff := x\<rparr>) = view b"
  "length x = length (uart_txbuff b) \<Longrightarrow> view (b\<lparr>uart_txbuff := x\<rparr>) = view b"
  by (simp_all add: view_def)

lemma view_put_chan: "get_chan p b = Some c \<Longrightarrow> core c' = core c \<Longrightarrow> view (put_chan p c' b) = view b"
  by (auto simp: view_def put_chan_def get_chan_def rd_def map_update list_update_same_conv
      split: chan_ptr.splits if_splits)

subsection \<open>Senders\<close>

lemma setup_header_length:
  "nais_setup_header t (int n) buff = Some (h, buff') \<Longrightarrow> length buff' = length buff"
  by (auto simp: setup_header_eq Let_def split: if_splits)

lemma marshall_length: "nais_marshall_msg t ob buff = Some (n, buff') \<Longrightarrow> length buff' = length buff"
  by (auto simp: nais_marshall_msg_def bind_eq_Some_conv dest!: setup_header_length wr_block_length)

lemma to_uart_length: "protobuf_to_uart t ob buff = Some (out, buff') \<Longrightarrow> length buff' = length buff"
  by (auto simp: protobuf_to_uart_def bind_eq_Some_conv dest!: setup_header_length wr_block_length)

lemma send_buf_view: "send_buf os sock r b = Some b' \<Longrightarrow> view b' = view b"
  by (auto simp: send_buf_def bind_eq_Some_conv view_buffers dest!: wr_block_length)

lemma senders_view:
  "uart_send os t ob b = Some b' \<Longrightarrow> view b' = view b"
  "bocia_tcp_send os ch t ob b = Some b' \<Longrightarrow> view b' = view b"
  "mqtt_transmitter_handler os ch t ob b = Some b' \<Longrightarrow> view b' = view b"
  by (auto simp: uart_send_def bocia_tcp_send_def mqtt_transmitter_handler_def Let_def bind_eq_Some_conv
      view_buffers dest!: send_buf_view marshall_length to_uart_length)

lemma chan_send_view:
  assumes "chan_send os p t ob b = Some b'"
  shows "view b' = view b"
proof -
  from assms obtain c f x where "(case f of
          S_uart \<Rightarrow> uart_send os t x b
        | S_tcp \<Rightarrow> bocia_tcp_send os c t x b
        | S_mqtt \<Rightarrow> mqtt_transmitter_handler os c t x b) = Some b'"
    by (auto simp: chan_send_def bind_eq_Some_conv)
  then show ?thesis by (cases f) (auto dest: senders_view)
qed

lemma broadcast_loop_view: "broadcast_loop os t ob is b = Some b' \<Longrightarrow> view b' = view b"
  by (induction "is" arbitrary: b) (auto simp: bind_eq_Some_conv split: if_splits dest!: chan_send_view)

subsection \<open>Configuration and commands\<close>

lemma write_proto_view: "bocia_write_proto os f buff b = Some (r, b') \<Longrightarrow> view b' = view b"
  by (auto simp: bocia_write_proto_def Let_def split_beta bind_eq_Some_conv split: if_splits)

lemma write_cfg_view: "bocia_write_cfg os cfg b = Some (r, b') \<Longrightarrow> view b' = view b"
  by (auto simp: bocia_write_cfg_def bind_eq_Some_conv view_buffers dest!: write_proto_view wr_block_length)

lemma read_cfg_view: "bocia_read_cfg os b = Some (r, b') \<Longrightarrow> view b' = view b"
  by (auto simp: bocia_read_cfg_def Let_def split_beta bind_eq_Some_conv view_buffers
      split: if_splits dest!: wr_block_length)

lemma config_view:
  "bocia_set_cfg os cfg b = Some b' \<Longrightarrow> view b' = view b"
  "bocia_get_config os b = Some (r, b') \<Longrightarrow> view b' = view b"
  "the_config os cfg' b = Some (r, b') \<Longrightarrow> view b' = view b"
  by (auto simp: bocia_set_cfg_def bocia_get_config_def the_config_def bind_eq_Some_conv
      split: option.splits dest!: write_cfg_view read_cfg_view)

lemma settings_view:
  "set_ap_password os pw b = Some (r, b') \<Longrightarrow> view b' = view b"
  "sbapi_add_profile os s pw b = Some (r, b') \<Longrightarrow> view b' = view b"
  "net_atoi os h b = Some (ip', b') \<Longrightarrow> view b' = view b"
  by (auto simp: set_ap_password_def sbapi_add_profile_def net_atoi_def Let_def split_beta bind_eq_Some_conv)

lemma command_view: "bocia_command os p cmd b = Some b' \<Longrightarrow> view b' = view b"
  by (auto simp: bocia_command_def delayed_reboot_def set_reboot_mode_def bocia_delete_file_def Let_def split_beta
      bind_eq_Some_conv split: if_splits dest!: chan_send_view config_view)

lemma input_handler_view: "bocia_input_handler os p t ob b = Some (r, b') \<Longrightarrow> view b' = view b"
  by (auto simp: bocia_input_handler_def Let_def split_beta bind_eq_Some_conv split: if_splits
      dest!: chan_send_view config_view command_view settings_view)

lemma unmarshall_view:
  "bocia_unmarshall p data (bocia_input_handler os) b = Some (r, b') \<Longrightarrow> view b' = view b"
  by (auto simp: bocia_unmarshall_def bind_eq_Some_conv split: if_splits option.splits
      dest!: input_handler_view) (auto simp: view_put_chan core_def)

subsection \<open>The network\<close>

lemma packet_read_view: "MQTTPacket_read (sock_receive os sock) b n = Some (t, bs, b') \<Longrightarrow> view b' = view b"
  by (rule read_keeps [where P = "\<lambda>s. view s = view b"])
    (auto simp: sock_receive_def mqtt_close_def split_beta Let_def)

lemma read_packet_view: "read_packet os sock b = Some (t, b') \<Longrightarrow> view b' = view b"
  by (auto simp: read_packet_def bind_eq_Some_conv view_buffers dest!: packet_read_view wr_block_length)

lemma tcp_connect_view: "bocia_tcp_connect os h pt b = Some (r, b') \<Longrightarrow> view b' = view b"
  by (auto simp: bocia_tcp_connect_def Let_def split_beta bind_eq_Some_conv split: if_splits)

lemma mqtt_connect_view:
  assumes "mqtt_connect os h pt cl al cn b = Some (r, b')"
  shows "view b' = view b"
proof -
  from assms obtain ip' b1 where b1: "net_atoi os h b = Some (ip', b1)" by (auto simp: mqtt_connect_def bind_eq_Some_conv)
  let ?s = "sys os (sl_Socket 0) b1"
  let ?c = "sys os (sl_Connect (rc (fst ?s)) ip' (sl_Htons pt)) (snd ?s)"
  note v = settings_view(3) [OF b1]
  consider "rc (fst ?s) < 0" | "\<not> rc (fst ?s) < 0" "rc (fst ?c) < 0"
    | x b2 st b3 where "\<not> rc (fst ?s) < 0" "\<not> rc (fst ?c) < 0"
      "send_buf os (rc (fst ?s)) x (snd ?c) = Some b2" "read_packet os (rc (fst ?s)) b2 = Some (st, b3)"
      "b' = b3 \<or> b' = snd (mqtt_close os (rc (fst ?s)) b3)"
    using assms b1
    by (simp add: mqtt_connect_def Let_def split_beta bind_eq_Some_conv split: if_split_asm)
       (metis snd_conv)+
  then show ?thesis
  proof cases
    case 1
    then show ?thesis using assms b1 v by (auto simp: mqtt_connect_def Let_def split_beta)
  next
    case 2
    then show ?thesis using assms b1 v by (auto simp: mqtt_connect_def mqtt_close_def Let_def split_beta)
  next
    case 3
    have "view b2 = view b" using send_buf_view [OF 3(3)] v by simp
    with read_packet_view [OF 3(4)] 3(5) show ?thesis by (auto simp: mqtt_close_def)
  qed
qed

lemma create_server_view: "view (snd (bocia_create_tcp_server os pt b)) = view b"
  by (simp add: bocia_create_tcp_server_def Let_def split_beta)

lemma close_soon_view: "bocia_close_soon p b = Some b' \<Longrightarrow> view b' = view b"
  by (auto simp: bocia_close_soon_def bind_eq_Some_conv view_put_chan core_def)

lemma drop_old_view: "drop_old_connection os b = Some b' \<Longrightarrow> view b' = view b"
  by (auto simp: drop_old_connection_def mqtt_disconnect_def bind_eq_Some_conv
      split: option.splits if_splits dest!: send_buf_view close_soon_view)

lemma set_topic_length: "set_topic net brd topic = Some t \<Longrightarrow> length t = length topic"
  by (auto simp: set_topic_def bind_eq_Some_conv dest!: wr_length wr_block_length)

section \<open>The invariants\<close>

text \<open>
  The functions of an entry belong together, and an entry with a descriptor has a handler. The buffers
  keep their sizes.
\<close>

definition core_ok :: "int \<times> handler_fn option \<times> send_fn option \<Rightarrow> bool" where
  "core_ok x \<longleftrightarrow> snd x \<in> {(Some H_tcp_accept, None), (Some H_tcp_receive, Some S_tcp), (Some H_mqtt_receiver, Some S_mqtt)} \<or>
     x = (0, None, None)"

definition view_ok :: "(int \<times> handler_fn option \<times> send_fn option) list \<times> bool \<times> nat option \<times> nat list \<Rightarrow> bool" where
  "view_ok v = (case v of (cs, m, h, ls) \<Rightarrow>
     length cs = SBAPI_SOCKETS \<and> list_all core_ok cs \<and> (\<forall>i. h = Some i \<longrightarrow> i < SBAPI_SOCKETS) \<and>
     ls = [64, 256, 256, 128, 256, 512])"

definition tables_ok :: "'w board_state \<Rightarrow> bool" where
  "tables_ok b = view_ok (view b)"

lemma open_fds_view: "open_fds b = filter (\<lambda>f. f \<noteq> 0) (map fst (fst (view b)))"
  by (simp add: open_fds_def view_def core_def comp_def)

text \<open>
  How operations change the board: they keep the tables well-formed, and while the mutex stays
  locked no channel is opened.
\<close>

definition evolves :: "'w board_state \<Rightarrow> 'w board_state \<Rightarrow> bool" where
  "evolves b b' \<longleftrightarrow> (tables_ok b \<longrightarrow> tables_ok b') \<and>
     (mutex b' \<longrightarrow> mutex b \<and> set (open_fds b') \<subseteq> set (open_fds b))"

lemma evolves_trans: "evolves a b \<Longrightarrow> evolves b c \<Longrightarrow> evolves a c"
  by (auto simp: evolves_def)

lemma evolves_view:
  assumes "view b' = view b"
  shows "evolves b b'"
proof -
  have "mutex b' = mutex b" using assms by (simp add: view_def)
  then show ?thesis using assms by (simp add: evolves_def tables_ok_def open_fds_view)
qed

lemma evolves_view_left: "view b = view a \<Longrightarrow> evolves b c \<Longrightarrow> evolves a c"
  by (blast intro: evolves_trans evolves_view)

lemma list_all_update: "list_all P xs \<Longrightarrow> P x \<Longrightarrow> list_all P (xs[i := x])"
  using set_update_subset_insert [of xs i x] by (auto simp: list_all_iff)

lemma evolves_register:
  assumes "core_ok (sock, hnd, tx)" "hnd \<noteq> None"
  shows "evolves b (snd (bocia_register_handlers sock tid hnd tx b))"
  using assms
  by (auto simp: bocia_register_handlers_def evolves_def tables_ok_def view_ok_def view_def map_update core_def
      list_all_update split: option.splits)

lemma registered_slot:
  assumes "fst (bocia_register_handlers sock tid hnd tx b) = Some i"
  shows "i < length (fd_map b)"
  using assms find_free_0 [of "fd_map b"] by (auto simp: bocia_register_handlers_def split: option.splits)

lemma evolves_closing:
  assumes "get_chan (Slot i) b = Some c" "core c' = (0, snd (core c))"
  shows "evolves b (put_chan (Slot i) c' b)"
proof -
  have i: "i < length (fd_map b)" "fd_map b ! i = c" using assms(1) by (auto simp: get_chan_def rd_def split: if_splits)
  have "core_ok (core c')" if "list_all core_ok (map core (fd_map b))"
  proof -
    have "core_ok (core c)" using that i by (auto simp: list_all_length)
    then show ?thesis using assms(2) by (auto simp: core_ok_def core_def)
  qed
  then have "tables_ok b \<longrightarrow> tables_ok (put_chan (Slot i) c' b)"
    by (auto simp: tables_ok_def view_ok_def view_def put_chan_def map_update list_all_update)
  moreover have "set (open_fds (put_chan (Slot i) c' b)) \<subseteq> set (open_fds b)"
    using assms(2) set_update_subset_insert [of "map ch_fd (fd_map b)" i 0]
    by (auto simp: open_fds_def put_chan_def map_update core_def)
  ultimately show ?thesis by (simp add: evolves_def put_chan_def)
qed

lemma evolves_mqtt_handler:
  assumes "evolves a b" "\<forall>i. h = Some i \<longrightarrow> tables_ok b \<longrightarrow> i < length (fd_map b)"
  shows "evolves a (b\<lparr>mqtt_handler := h\<rparr>)"
proof -
  have "tables_ok (b\<lparr>mqtt_handler := h\<rparr>)" if "tables_ok b"
  proof -
    have "length (fd_map b) = SBAPI_SOCKETS" using that by (simp add: tables_ok_def view_ok_def view_def)
    with assms(2) that show ?thesis by (simp add: tables_ok_def view_ok_def view_def)
  qed
  with assms(1) show ?thesis by (simp add: evolves_def open_fds_def)
qed

section \<open>Every operation\<close>

lemma drop_old_topic_view:
  assumes "set_topic net brd (topic_buff b) = Some t" "drop_old_connection os (b\<lparr>topic_buff := t\<rparr>) = Some b'"
  shows "view b' = view b"
  using drop_old_view [OF assms(2)] set_topic_length [OF assms(1)] by (simp add: view_buffers)

lemma subscribe_view: "mqtt_subscribe os sock ts b = Some b' \<Longrightarrow> view b' = view b"
  by (auto simp: mqtt_subscribe_def bind_eq_Some_conv dest: send_buf_view)

lemma register_length: "length (fd_map (snd (bocia_register_handlers sock tid hnd tx b))) = length (fd_map b)"
  by (simp add: bocia_register_handlers_def split: option.splits)

text \<open>
  A way the board may change, as a relation between two states: the operations below are built from calls
  to the outside and changes of buffers, the registration of a connection, the closing of an entry and the
  choice of the connection kept for MQTT, and so all of them change the board in that way.
\<close>

locale board_change =
  fixes chg :: "'w board_state \<Rightarrow> 'w board_state \<Rightarrow> bool"
  assumes chg_view: "view b' = view b \<Longrightarrow> chg b b'"
    and chg_trans: "chg a b \<Longrightarrow> chg b c \<Longrightarrow> chg a c"
    and chg_register: "(hnd, tx) \<in> {(H_tcp_receive, S_tcp), (H_mqtt_receiver, S_mqtt)} \<Longrightarrow>
      chg b (snd (bocia_register_handlers sock tid (Some hnd) (Some tx) b))"
    and chg_closing: "get_chan (Slot i) b = Some ch \<Longrightarrow> core ch' = (0, snd (core ch)) \<Longrightarrow> chg b (put_chan (Slot i) ch' b)"
    and chg_mqtt_handler: "chg a b \<Longrightarrow> \<forall>i. h = Some i \<longrightarrow> tables_ok b \<longrightarrow> i < length (fd_map b) \<Longrightarrow>
      chg a (b\<lparr>mqtt_handler := h\<rparr>)"
begin

lemma chg_view_left: "view b = view a \<Longrightarrow> chg b c \<Longrightarrow> chg a c"
  by (blast intro: chg_trans chg_view)

lemma chg_view_right: "view c = view b \<Longrightarrow> chg a b \<Longrightarrow> chg a c"
  by (blast intro: chg_trans chg_view)

lemma chg_sys: "chg b (snd (sys os c b))"
  by (simp add: chg_view)

lemma chg_left_sys: "chg (snd (sys os c b)) b' \<Longrightarrow> chg b b'"
  by (rule chg_view_left [of "snd (sys os c b)"]) simp_all

lemma registers:
  "(hnd, tx) \<in> {(H_tcp_receive, S_tcp), (H_mqtt_receiver, S_mqtt)} \<Longrightarrow> view b' = view b \<Longrightarrow>
   chg b (snd (bocia_register_handlers sock tid (Some hnd) (Some tx) b'))"
  by (blast intro: chg_view_left chg_register)

lemma tcp_accept_chg: "bocia_tcp_accept os p b = Some b' \<Longrightarrow> chg b b'"
  by (auto simp: bocia_tcp_accept_def Let_def split_beta bind_eq_Some_conv split: if_splits
      intro!: registers chg_sys simp: core_ok_def)

lemma tcp_receive_chg:
  assumes "bocia_tcp_receive os (Slot i) b = Some b'"
  shows "chg b b'"
proof -
  from assms obtain c buff where c: "get_chan (Slot i) b = Some c"
    and buff: "wr_block (tcp_buff b) 0 (out_bytes (fst (sys os (sl_Recv (ch_fd c) 256) b))) = Some buff"
    by (auto simp: bocia_tcp_receive_def Let_def split_beta bind_eq_Some_conv)
  let ?r = "sys os (sl_Recv (ch_fd c) 256) b"
  let ?b = "(snd ?r)\<lparr>tcp_buff := buff\<rparr>"
  have v: "view ?b = view b" using wr_block_length [OF buff] by (simp add: view_buffers)
  consider "rc (fst ?r) > 0" | "rc (fst ?r) = 0" | "rc (fst ?r) < 0" by linarith
  then show ?thesis
  proof cases
    case 1
    with assms c buff have "view b' = view b"
      by (auto simp: bocia_tcp_receive_def Let_def split_beta bind_eq_Some_conv view_buffers
          dest!: unmarshall_view wr_length wr_block_length)
    then show ?thesis by (rule chg_view)
  next
    case 2
    let ?b1 = "snd (sys os (sl_Close (ch_fd c)) ?b)"
    have "get_chan (Slot i) ?b1 = Some c" using c by (simp add: get_chan_def)
    then have "chg ?b1 (put_chan (Slot i) (c\<lparr>ch_fd := 0\<rparr>) ?b1)"
      by (rule chg_closing) (simp add: core_def)
    moreover have "b' = put_chan (Slot i) (c\<lparr>ch_fd := 0\<rparr>) ?b1"
      using assms c buff 2 by (simp add: bocia_tcp_receive_def Let_def split_beta)
    ultimately show ?thesis using v by (auto intro: chg_view_left [of ?b1])
  next
    case 3
    then have "b' = ?b" using assms c buff by (simp add: bocia_tcp_receive_def Let_def split_beta)
    with v show ?thesis by (simp add: chg_view)
  qed
qed

lemma mqtt_receive_chg:
  assumes "mqtt_receive os (Slot i) b = Some (t, b')"
  shows "chg b b'"
proof -
  from assms obtain c b1 where c: "get_chan (Slot i) b = Some c" and r: "read_packet os (ch_fd c) b = Some (t, b1)"
    and b': "b' = (if t = -1 then put_chan (Slot i) (c\<lparr>ch_fd := 0\<rparr>) b1 else b1)"
    by (auto simp: mqtt_receive_def bind_eq_Some_conv)
  from r obtain bs b2 where p: "MQTTPacket_read (sock_receive os (ch_fd c)) b MAX_MQTT_PKT_SIZE = Some (t, bs, b2)"
    "fd_map b1 = fd_map b2" by (auto simp: read_packet_def bind_eq_Some_conv)
  then have "get_chan (Slot i) b1 = Some c"
    using packet_read_same [OF p(1)] c by (simp add: same_state_def same_tables_def get_chan_def)
  then have "chg b1 (put_chan (Slot i) (c\<lparr>ch_fd := 0\<rparr>) b1)"
    by (rule chg_closing) (simp add: core_def)
  then have "chg b1 b'" using b' by (simp add: chg_view)
  with read_packet_view [OF r] show ?thesis by (rule chg_view_left)
qed

lemma mqtt_receiver_chg:
  assumes "mqtt_receiver_handler os (Slot i) b = Some b'"
  shows "chg b b'"
proof -
  from assms obtain t b1 where 1: "mqtt_receive os (Slot i) b = Some (t, b1)" and "view b' = view b1"
    by (auto simp: mqtt_receiver_handler_def bind_eq_Some_conv split: if_splits dest!: unmarshall_view)
  with mqtt_receive_chg [OF 1] show ?thesis by (blast intro: chg_view_right)
qed

lemma chan_handler_chg:
  assumes "chan_handler os (Slot i) b = Some b'"
  shows "chg b b'"
proof -
  from assms obtain f where "(case f of
          H_tcp_receive \<Rightarrow> bocia_tcp_receive os (Slot i) b
        | H_tcp_accept \<Rightarrow> bocia_tcp_accept os (Slot i) b
        | H_mqtt_receiver \<Rightarrow> mqtt_receiver_handler os (Slot i) b) = Some b'"
    by (auto simp: chan_handler_def bind_eq_Some_conv)
  then show ?thesis
    by (cases f) (auto dest: tcp_receive_chg tcp_accept_chg mqtt_receiver_chg)
qed

lemma service_chg:
  assumes "service os readfs i b = Some b'"
  shows "chg b b'"
proof -
  from assms obtain c where c: "get_chan (Slot i) b = Some c" by (auto simp: service_def bind_eq_Some_conv)
  define b1 where "b1 = (if close_pending c
                then put_chan (Slot i) (c\<lparr>ch_fd := 0, close_pending := False\<rparr>)
                       (snd (sys os (sl_Close (ch_fd c)) b))
                else b)"
  have "get_chan (Slot i) (snd (sys os (sl_Close (ch_fd c)) b)) = Some c" using c by (simp add: get_chan_def)
  then have "chg (snd (sys os (sl_Close (ch_fd c)) b)) (put_chan (Slot i) (c\<lparr>ch_fd := 0, close_pending := False\<rparr>)
                       (snd (sys os (sl_Close (ch_fd c)) b)))"
    by (rule chg_closing) (simp add: core_def)
  then have 1: "chg b b1" unfolding b1_def by (auto intro: chg_left_sys chg_view)
  have "service os readfs i b = do {
       c \<leftarrow> get_chan (Slot i) b1;
       if ch_fd c \<noteq> 0 \<and> ch_fd c \<in> set readfs
       then do {
         b \<leftarrow> chan_handler os (Slot i) b1;
         c \<leftarrow> get_chan (Slot i) b;
         Some (if ch_fd c = 0 then snd (sys os (msg_send BOCIA_SOCK_CLOSED (target_pid c)) b) else b) }
       else Some b1 }"
    by (simp only: service_def c b1_def Let_def bind.bind_lunit)
  with assms have "b' = b1 \<or> (\<exists>b2. chan_handler os (Slot i) b1 = Some b2 \<and> view b' = view b2)"
    by (auto simp: bind_eq_Some_conv split: if_split_asm)
  with 1 show ?thesis by (blast intro: chg_trans chg_view_right chan_handler_chg)
qed

lemma mqtt_init_chg:
  assumes "bocia_mqtt_init os cfg b = Some (r, b')"
  shows "chg b b'"
proof -
  from assms obtain cfg' b1 where 1: "the_config os cfg b = Some (cfg', b1)"
    by (auto simp: bocia_mqtt_init_def bind_eq_Some_conv)
  note v1 = config_view(3) [OF 1]
  show ?thesis
  proof (cases cfg')
    case None
    with assms 1 have "b' = b1" by (simp add: bocia_mqtt_init_def)
    with v1 show ?thesis by (simp add: chg_view)
  next
    case (Some c)
    with assms 1 obtain net brd topic b2 h pt al sock b3 where
      2: "set_topic net brd (topic_buff b1) = Some topic" "drop_old_connection os (b1\<lparr>topic_buff := topic\<rparr>) = Some b2"
        "mqtt_connect os h pt (ascii ''me'') al 1 b2 = Some (sock, b3)" and
      3: "(if sock > 0
              then do {
                let (t, b) = sys os thread_getpid b3;
                let (hd', b) = bocia_register_handlers sock (rc t) (Some H_mqtt_receiver) (Some S_mqtt) b;
                topic \<leftarrow> topic_string b 3;
                b \<leftarrow> mqtt_subscribe os sock topic (b\<lparr>mqtt_handler := hd'\<rparr>);
                Some (mqtt_handler b, b) }
              else Some (None, b3\<lparr>mqtt_handler := None\<rparr>)) = Some (r, b')"
      by (auto simp: bocia_mqtt_init_def bind_eq_Some_conv)
    have v3: "view b3 = view b"
      using mqtt_connect_view [OF 2(3)] drop_old_topic_view [OF 2(1,2)] v1 by simp
    show ?thesis
    proof (cases "sock > 0")
      case False
      with 3 have "b' = b3\<lparr>mqtt_handler := None\<rparr>" by simp
      with v3 show ?thesis by (auto intro: chg_mqtt_handler chg_view)
    next
      case True
      let ?t = "sys os thread_getpid b3"
      let ?r = "bocia_register_handlers sock (rc (fst ?t)) (Some H_mqtt_receiver) (Some S_mqtt) (snd ?t)"
      let ?b4 = "(snd ?r)\<lparr>mqtt_handler := fst ?r\<rparr>"
      from True 3 obtain ts where "mqtt_subscribe os sock ts ?b4 = Some b'"
        by (auto simp: Let_def split_beta bind_eq_Some_conv)
      then have v: "view b' = view ?b4" by (rule subscribe_view)
      have "chg b (snd ?r)" by (rule registers) (use v3 in \<open>simp_all add: core_ok_def\<close>)
      moreover have "\<forall>i. fst ?r = Some i \<longrightarrow> tables_ok (snd ?r) \<longrightarrow> i < length (fd_map (snd ?r))"
        by (auto simp: register_length dest: registered_slot)
      ultimately have "chg b ?b4" by (rule chg_mqtt_handler)
      with v show ?thesis by (rule chg_view_right)
    qed
  qed
qed

lemma tcp_init_chg:
  assumes "bocia_tcp_init os cfg b = Some (r, b')"
  shows "chg b b'"
proof -
  from assms obtain cfg' b1 where 1: "the_config os cfg b = Some (cfg', b1)"
    by (auto simp: bocia_tcp_init_def bind_eq_Some_conv)
  note v1 = config_view(3) [OF 1]
  from assms 1 have "view b' = view b1 \<or> (\<exists>sock pid b2. view b2 = view b1 \<and>
      b' = snd (bocia_register_handlers sock pid (Some H_tcp_receive) (Some S_tcp) b2))"
    by (auto simp: bocia_tcp_init_def bind_eq_Some_conv Let_def split_beta split: option.splits if_splits
        dest!: tcp_connect_view) (metis prod.collapse snd_conv view_sys)
  with v1 show ?thesis by (auto intro: chg_view registers simp: core_ok_def)
qed

lemma init_chg:
  assumes "bocia_init os cfg b = Some (r, b')"
  shows "chg b b'"
proof -
  from assms obtain cfg' b1 where 1: "the_config os cfg b = Some (cfg', b1)"
    by (auto simp: bocia_init_def bind_eq_Some_conv)
  from assms 1 have "b' = b1 \<or> bocia_mqtt_init os None b1 = Some (r, b') \<or> bocia_tcp_init os None b1 = Some (r, b')"
    by (auto simp: bocia_init_def bind_eq_Some_conv split: option.splits if_splits)
  with config_view(3) [OF 1] show ?thesis
    by (blast intro: chg_view chg_view_left mqtt_init_chg tcp_init_chg)
qed

end

interpretation ev: board_change evolves
  by unfold_locales (auto intro: evolves_view evolves_register evolves_closing evolves_mqtt_handler dest: evolves_trans
    simp: core_ok_def)

lemma tcp_server_evolves: "evolves b (snd (bocia_tcp_server os pt pid b))"
  by (auto simp: bocia_tcp_server_def Let_def split_beta create_server_view core_ok_def
      intro: evolves_view intro!: evolves_view_left [OF _ evolves_register])

section \<open>The threads together\<close>

text \<open>
  The loop, the application's calls and the serial thread take turns; the outside and the link
  supervision change their own part of the state at any time.
\<close>

inductive board_step ::
  "'w os \<Rightarrow> loop_pc \<times> 'w board_state \<Rightarrow> loop_pc \<times> 'w board_state \<Rightarrow> bool" for os where
  loop: "bocia_loop_run os pc b = Some (pc', b') \<Longrightarrow> board_step os (pc, b) (pc', b')"
| connect: "bocia_init os cfg b = Some (r, b') \<Longrightarrow> board_step os (pc, b) (pc, b')"
| serve: "bocia_tcp_server os pt pid b = (r, b') \<Longrightarrow> board_step os (pc, b) (pc, b')"
| destroy: "board_step os (pc, b) (pc, bocia_destroy_tcp_server os b)"
| broadcast: "bocia_broadcast os t ob b = Some b' \<Longrightarrow> board_step os (pc, b) (pc, b')"
| close: "bocia_close_soon (Slot i) b = Some b' \<Longrightarrow> board_step os (pc, b) (pc, b')"
| serial: "bocia_unmarshall Serial data (bocia_input_handler os) b = Some (r, b') \<Longrightarrow> board_step os (pc, b) (pc, b')"
| outside: "board_step os (pc, b) (pc, b\<lparr>world := w, nwp := n, sbapi := s\<rparr>)"

inductive board_reachable :: "'w os \<Rightarrow> loop_pc \<times> 'w board_state \<Rightarrow> bool" for os where
  boot: "board_reachable os (Scan, boot w)"
| step: "board_reachable os x \<Longrightarrow> board_step os x y \<Longrightarrow> board_reachable os y"

definition board_ok :: "loop_pc \<times> 'w board_state \<Rightarrow> bool" where
  "board_ok x \<longleftrightarrow> tables_ok (snd x) \<and> (fst x = Lock \<and> mutex (snd x) \<longrightarrow> open_fds (snd x) = [])"

lemma board_ok_evolves: "board_ok (pc, b) \<Longrightarrow> evolves b b' \<Longrightarrow> board_ok (pc, b')"
  by (auto simp: board_ok_def evolves_def)

lemma board_ok_boot: "board_ok (Scan, boot w)"
  by (simp add: board_ok_def tables_ok_def view_ok_def view_def boot_def core_def core_ok_def no_channel_def SBAPI_SOCKETS_def
      list_all_iff)

lemma loop_run_ok:
  assumes "bocia_loop_run os pc b = Some (pc', b')" "board_ok (pc, b)"
  shows "board_ok (pc', b')"
proof (cases pc)
  case Scan
  then show ?thesis
    using assms by (auto simp: bocia_loop_run_def board_ok_def tables_ok_def Let_def split_beta split: if_splits)
next
  case Lock
  have "tables_ok (b\<lparr>mutex := True\<rparr>) = tables_ok b" by (simp add: tables_ok_def view_ok_def view_def)
  with Lock show ?thesis using assms by (auto simp: bocia_loop_run_def board_ok_def split: if_splits)
next
  case (Serve fds "is")
  then show ?thesis
  proof (cases "is")
    case Nil
    with Serve show ?thesis using assms by (auto simp: bocia_loop_run_def board_ok_def)
  next
    case (Cons j js)
    with Serve assms(1) have "service os fds j b = Some b'" "pc' = Serve fds js"
      by (auto simp: bocia_loop_run_def)
    with assms(2) ev.service_chg show ?thesis by (fastforce simp: board_ok_def evolves_def)
  qed
qed

lemma board_step_ok: "board_step os x y \<Longrightarrow> board_ok x \<Longrightarrow> board_ok y"
proof (induction rule: board_step.induct)
  case loop
  then show ?case by (blast intro: loop_run_ok)
next
  case connect
  then show ?case by (blast intro: board_ok_evolves ev.init_chg)
next
  case (serve pt pid b r b')
  then show ?case using tcp_server_evolves [of b os pt pid] by (auto intro: board_ok_evolves)
next
  case (destroy pc b)
  have "view (bocia_destroy_tcp_server os b) = view b" by (simp add: bocia_destroy_tcp_server_def split_beta Let_def)
  with destroy show ?case by (blast intro: board_ok_evolves evolves_view)
next
  case broadcast
  then show ?case
    unfolding bocia_broadcast_def by (blast intro: board_ok_evolves evolves_view broadcast_loop_view)
next
  case close
  then show ?case by (blast intro: board_ok_evolves evolves_view close_soon_view)
next
  case serial
  then show ?case by (blast intro: board_ok_evolves evolves_view unmarshall_view)
next
  case (outside pc b s n w)
  have "view (b\<lparr>world := w, nwp := n, sbapi := s\<rparr>) = view b" by (simp add: view_def)
  with outside show ?case by (blast intro: board_ok_evolves evolves_view)
qed

lemma board_reachable_ok: "board_reachable os x \<Longrightarrow> board_ok x"
  by (induction rule: board_reachable.induct) (auto intro: board_ok_boot board_step_ok)

section \<open>Properties\<close>

text \<open>
  C5: However the threads interleave, the channel table keeps its eight entries, an entry with a
  descriptor has the handler the loop calls, an entry is served by the functions of one kind of
  connection, the connection kept for MQTT is an entry, and no buffer changes its size.
\<close>

theorem tables_invariant:
  assumes "board_reachable os (pc, b)"
  shows "length (fd_map b) = SBAPI_SOCKETS \<and>
    (\<forall>c \<in> set (fd_map b).
       (ch_fd c \<noteq> 0 \<longrightarrow> handler c \<noteq> None) \<and>
       (send c = Some S_tcp \<longleftrightarrow> handler c = Some H_tcp_receive) \<and>
       (send c = Some S_mqtt \<longleftrightarrow> handler c = Some H_mqtt_receiver) \<and> send c \<noteq> Some S_uart) \<and>
    (\<forall>i. mqtt_handler b = Some i \<longrightarrow> i < SBAPI_SOCKETS) \<and>
    length (topic_buff b) = 64 \<and> length (mqtt_buf b) = 256 \<and> length (tcp_buff b) = 256 \<and>
    length (cfg_buff b) = 128 \<and> length (protobuf b) = 256 \<and> length (uart_txbuff b) = 512"
proof -
  have "tables_ok b" using board_reachable_ok [OF assms] by (simp add: board_ok_def)
  then show ?thesis
    by (auto simp: tables_ok_def view_ok_def view_def list_all_iff core_ok_def core_def)
qed

theorem tables_invariant_witness:
  "length (fd_map (snd (bocia_tcp_server (\<lambda>_ w. (plain_reply 7, w)) 80 3 (boot ())))) = 8 \<and>
   handler (hd (fd_map (snd (bocia_tcp_server (\<lambda>_ w. (plain_reply 7, w)) 80 3 (boot ()))))) \<noteq> None"
proof -
  let ?os = "\<lambda>_ w. (plain_reply 7, w) :: reply \<times> unit"
  let ?b = "snd (bocia_tcp_server ?os 80 3 (boot ()))"
  have "board_reachable ?os (Scan, ?b)"
    by (rule board_reachable.step [OF board_reachable.boot]) (rule board_step.serve, rule surjective_pairing)
  note t = tables_invariant [OF this]
  have "ch_fd (hd (fd_map ?b)) = 7"
    by (simp add: bocia_tcp_server_def bocia_create_tcp_server_def sys_def plain_reply_def boot_def
        bocia_register_handlers_def SBAPI_SOCKETS_def numeral_eq_Suc no_channel_def)
  moreover have "hd (fd_map ?b) \<in> set (fd_map ?b)" using t by (intro hd_in_set) (auto simp: SBAPI_SOCKETS_def)
  ultimately show ?thesis using t by (force simp: SBAPI_SOCKETS_def)
qed

text \<open>
  C9: No registration is lost: whenever the loop is at the mutex while a channel is open, it gets
  the mutex, and its next call is a \<open>sl_Select\<close> on every open descriptor.
\<close>

theorem loop_wakes:
  assumes "board_reachable os (Lock, b)" "c \<in> set (fd_map b)" "ch_fd c \<noteq> 0"
  shows "bocia_loop_run os Lock b = Some (Scan, b\<lparr>mutex := True\<rparr>) \<and>
    (\<exists>pc' b' nfds fds. bocia_loop_run os Scan (b\<lparr>mutex := True\<rparr>) = Some (pc', b') \<and>
       trace b' = trace b @ [sl_Select nfds fds] \<and> ch_fd c \<in> set fds \<and> (\<forall>f \<in> set fds. f < nfds))"
proof -
  have fds: "ch_fd c \<in> set (open_fds b)" using assms(2,3) by (simp add: open_fds_def)
  then have "open_fds b \<noteq> []" by auto
  moreover from this have "\<not> mutex b" using board_reachable_ok [OF assms(1)] by (auto simp: board_ok_def)
  moreover have "open_fds (b\<lparr>mutex := True\<rparr>) = open_fds b" by (simp add: open_fds_def)
  moreover have "\<forall>f \<in> set (open_fds b). f < Max (set (0 # open_fds b)) + 1"
    using Max_ge [of "set (0 # open_fds b)"] by fastforce
  ultimately show ?thesis using fds
    by (auto simp: bocia_loop_run_def Let_def split_beta sys_trace)
qed

theorem loop_wakes_witness:
  "bocia_loop_run (\<lambda>_ w. (plain_reply 7, w)) Lock (snd (bocia_tcp_server (\<lambda>_ w. (plain_reply 7, w)) 80 3 (boot ()))) =
   Some (Scan, (snd (bocia_tcp_server (\<lambda>_ w. (plain_reply 7, w)) 80 3 (boot ())))\<lparr>mutex := True\<rparr>)"
proof -
  let ?os = "\<lambda>_ w. (plain_reply 7, w) :: reply \<times> unit"
  let ?b = "snd (bocia_tcp_server ?os 80 3 (boot ()))"
  have "board_reachable ?os (Lock, boot ())"
    by (rule board_reachable.step [OF board_reachable.boot], rule board_step.loop)
       (simp add: bocia_loop_run_def open_fds_def boot_def no_channel_def)
  then have "board_reachable ?os (Lock, ?b)"
    by (rule board_reachable.step) (rule board_step.serve, rule surjective_pairing)
  moreover have "fd_map ?b = (replicate 8 no_channel)[0 := no_channel\<lparr>ch_fd := 7, target_pid := 3, handler := Some H_tcp_accept\<rparr>]"
    by (simp add: bocia_tcp_server_def bocia_create_tcp_server_def sys_def plain_reply_def boot_def
        bocia_register_handlers_def SBAPI_SOCKETS_def numeral_eq_Suc no_channel_def)
  ultimately show ?thesis
    using loop_wakes [of ?os ?b "no_channel\<lparr>ch_fd := 7, target_pid := 3, handler := Some H_tcp_accept\<rparr>"]
    by (simp add: numeral_eq_Suc)
qed

lemma sys_tcp_buff: "(snd (sys os x b))\<lparr>tcp_buff := tcp_buff b\<rparr> = snd (sys os x b)"
  by (simp add: sys_def split_beta)

text \<open>The loop serves a TCP channel whose peer has gone.\<close>

lemma peer_gone:
  assumes "get_chan (Slot i) b = Some c" "handler c = Some H_tcp_receive"
    and "\<not> close_pending c" "ch_fd c \<in> set readfs" "ch_fd c \<noteq> 0"
    and "rc (fst (os (sl_Recv (ch_fd c) 256) (world b))) = 0" "out_bytes (fst (os (sl_Recv (ch_fd c) 256) (world b))) = []"
  shows "\<exists>b1. service os readfs i b = Some b1 \<and> i < length (fd_map b) \<and> fd_map b1 = (fd_map b)[i := c\<lparr>ch_fd := 0\<rparr>] \<and>
    trace b1 = trace b @ [sl_Recv (ch_fd c) 256, sl_Close (ch_fd c), msg_send BOCIA_SOCK_CLOSED (target_pid c)] \<and>
    stored_config b1 = stored_config b \<and> protobuf b1 = protobuf b"
proof -
  let ?r = "sys os (sl_Recv (ch_fd c) 256) b"
  let ?c = "c\<lparr>ch_fd := 0\<rparr>"
  let ?b0 = "put_chan (Slot i) ?c (snd (sys os (sl_Close (ch_fd c)) (snd ?r)))"
  let ?b1 = "snd (sys os (msg_send BOCIA_SOCK_CLOSED (target_pid c)) ?b0)"
  have i: "i < length (fd_map b)" "fd_map b ! i = c" using assms(1) by (auto simp: get_chan_def rd_def split: if_splits)
  have "bocia_tcp_receive os (Slot i) b = Some ?b0"
    using assms(1,6,7) by (simp add: bocia_tcp_receive_def wr_block_def Let_def split_beta sys_tcp_buff)
  moreover have "get_chan (Slot i) ?b0 = Some ?c"
    using i by (simp add: get_chan_def put_chan_def rd_def)
  ultimately have "service os readfs i b = Some ?b1"
    using assms(1-5) by (simp add: service_def chan_handler_def)
  with i(1) show ?thesis by (auto simp: sys_trace put_chan_def)
qed

text \<open>
  When the peer of a TCP channel goes away, the loop closes the socket, frees the entry and tells
  the thread that owns the channel. The entry keeps its sender all the same, so that the next message
  for every channel is also sent, through it, on descriptor 0.
\<close>

theorem closed_channel_still_sends:
  assumes "get_chan (Slot i) b = Some c" "handler c = Some H_tcp_receive" "send c = Some S_tcp"
    and "\<not> close_pending c" "ch_fd c \<in> set readfs" "ch_fd c \<noteq> 0"
    and "rc (fst (os (sl_Recv (ch_fd c) 256) (world b))) = 0" "out_bytes (fst (os (sl_Recv (ch_fd c) 256) (world b))) = []"
    and "length (protobuf b) = 256" "wf_obj ob"
    and "protobuf_c_message_get_packed_size (obj_desc ob) (obj_msg ob) = Some n" "n < 128"
  shows "\<exists>b1 b2 out. service os readfs i b = Some b1 \<and> get_chan (Slot i) b1 = Some (c\<lparr>ch_fd := 0\<rparr>) \<and>
    trace b1 = trace b @ [sl_Recv (ch_fd c) 256, sl_Close (ch_fd c), msg_send BOCIA_SOCK_CLOSED (target_pid c)] \<and>
    protobuf_c_message_pack (obj_desc ob) (obj_msg ob) = Some out \<and>
    broadcast_loop os t (Some (pobj ob)) [i] b1 = Some b2 \<and>
    trace b2 = trace b1 @ [sl_Send 0 (int (length (payload t out))) (payload t out)]"
proof -
  let ?c = "c\<lparr>ch_fd := 0\<rparr>"
  from peer_gone [where os = os, OF assms(1,2,4-8)] obtain b1 where s: "service os readfs i b = Some b1" "i < length (fd_map b)"
    "fd_map b1 = (fd_map b)[i := ?c]"
    "trace b1 = trace b @ [sl_Recv (ch_fd c) 256, sl_Close (ch_fd c), msg_send BOCIA_SOCK_CLOSED (target_pid c)]"
    "protobuf b1 = protobuf b" by blast
  then have c1: "get_chan (Slot i) b1 = Some ?c" "length (protobuf b1) = 256" "send ?c = Some S_tcp"
    using assms(3,9) by (simp_all add: get_chan_def rd_def)
  from tcp_sends [OF c1(1,3) assms(10-12) c1(2), of os t] obtain b2 out where
    "chan_send os (Slot i) t (Some (pobj ob)) b1 = Some b2"
    "protobuf_c_message_pack (obj_desc ob) (obj_msg ob) = Some out"
    "trace b2 = trace b1 @ [sl_Send (ch_fd ?c) (int (length (payload t out))) (payload t out)]" by blast
  with s c1 show ?thesis by auto
qed

theorem closed_channel_still_sends_witness:
  "\<exists>b1 b2 out. service (segment_os []) [5] 0 tcp_board = Some b1 \<and>
    broadcast_loop (segment_os []) \<lparr>pm_type = 3, dline = 0, flags = 0\<rparr>
      (Some (pobj (OAck (ack_of 10 0)))) [0] b1 = Some b2 \<and>
    last (trace b2) = sl_Send 0 (int (length out)) out"
proof -
  let ?c = "no_channel\<lparr>ch_fd := 5, handler := Some H_tcp_receive, send := Some S_tcp\<rparr>"
  have b: "get_chan (Slot 0) tcp_board = Some ?c" "length (protobuf tcp_board) = 256"
    by (simp_all add: tcp_board_def boot_def get_chan_def rd_def)
  obtain n where n: "protobuf_c_message_get_packed_size (obj_desc (OAck (ack_of 10 0))) (obj_msg (OAck (ack_of 10 0))) = Some n" "n \<le> 33"
    using ack_packed by auto
  from closed_channel_still_sends [OF b(1), of "[5]" "segment_os []" "OAck (ack_of 10 0)" n "\<lparr>pm_type = 3, dline = 0, flags = 0\<rparr>"]
    b(2) n wf_ack_of show ?thesis
    by (fastforce simp: plain_reply_def no_channel_def)
qed

section \<open>Asking for the configuration\<close>

lemma read_cfg_chan: "bocia_read_cfg os b = Some (r, b') \<Longrightarrow> get_chan p b' = get_chan p b"
  by (auto simp: bocia_read_cfg_def Let_def split_beta bind_eq_Some_conv get_chan_def split: if_splits chan_ptr.splits)

lemma get_config_chan: "bocia_get_config os b = Some (r, b') \<Longrightarrow> get_chan p b' = get_chan p b"
  by (auto simp: bocia_get_config_def bind_eq_Some_conv get_chan_def split: option.splits chan_ptr.splits
      dest!: read_cfg_chan [where p = p])



end
