(* ===== verification/Timer_List.thy ===== *)
theory Timer_List
  imports Base128
begin

text \<open>
  The list of pending timers of \<^verbatim>\<open>burba/sys/xtimer_32/xtimer.c\<close>: a singly linked list of structs
  that the callers own, which is walked and changed through pointers to links. Timers live at
  addresses, and their contents are a map from addresses to structs. The abstraction is the list of
  the addresses in the order of their links.
\<close>

section \<open>Timers\<close>

text \<open>The functions the file registers as callbacks, and those of its callers.\<close>

datatype xtimer_callback_t = callback_unlock_mutex | callback_msg | callback_wakeup | user_callback nat

record xtimer_t =
  next_timer :: "nat option"
  target :: u32
  long_target :: u32
  callback :: "xtimer_callback_t option"
  arg :: int

text \<open>What the code does to the world: the low level timer, mutexes, messages, threads and waiting.\<close>

datatype xt_event =
    timer_set_absolute u32
  | xtimer_spin u32
  | mutex_lock int
  | mutex_unlock int
  | msg_send_int int int
  | thread_wakeup int
  | user_call nat int

text \<open>
  \<open>sender_pid\<close> is the member of the messages timers send. \<open>reads\<close> counts the readings of the clock,
  whose values are a parameter of the operations.
\<close>

record xt =
  timers :: "nat \<Rightarrow> xtimer_t"
  timer_list_head :: "nat option"
  in_handler :: bool
  wrap_counter :: u32
  sender_pid :: "int \<Rightarrow> int"
  reads :: nat
  events :: "xt_event list"

definition emit :: "xt_event \<Rightarrow> xt \<Rightarrow> xt" where
  "emit e s = s\<lparr>events := events s @ [e]\<rparr>"

definition lltimer_set :: "u32 \<Rightarrow> xt \<Rightarrow> xt" where
  "lltimer_set tgt s = (if in_handler s then s else emit (timer_set_absolute tgt) s)"

section \<open>Links\<close>

text \<open>A pointer to a link: to the list head or to the \<open>next\<close> of a timer.\<close>

datatype link = Head | Next nat

fun deref :: "link \<Rightarrow> xt \<Rightarrow> nat option" where
  "deref Head s = timer_list_head s"
| "deref (Next a) s = next_timer (timers s a)"

fun put_link :: "link \<Rightarrow> nat option \<Rightarrow> xt \<Rightarrow> xt" where
  "put_link Head p s = s\<lparr>timer_list_head := p\<rparr>"
| "put_link (Next a) p s = s\<lparr>timers := (timers s)(a := (timers s a)\<lparr>next_timer := p\<rparr>)\<rparr>"

text \<open>The loops of \<open>_add_timer_to_list\<close>; \<^term>\<open>None\<close> when they do not end.\<close>

partial_function (option) skip_long :: "nat \<Rightarrow> link \<Rightarrow> xt \<Rightarrow> link option" where
  "skip_long t l s =
     (case deref l s of
        None \<Rightarrow> Some l
      | Some a \<Rightarrow>
          if long_target (timers s a) < long_target (timers s t) then skip_long t (Next a) s else Some l)"

partial_function (option) skip_target :: "nat \<Rightarrow> link \<Rightarrow> xt \<Rightarrow> link option" where
  "skip_target t l s =
     (case deref l s of
        None \<Rightarrow> Some l
      | Some a \<Rightarrow>
          if target (timers s a) \<le> target (timers s t) \<and> long_target (timers s a) \<le> long_target (timers s t)
          then skip_target t (Next a) s else Some l)"

definition add_timer_to_list :: "nat \<Rightarrow> xt \<Rightarrow> xt option" where
  "add_timer_to_list t s =
     do {
       l \<leftarrow> skip_long t Head s;
       l \<leftarrow> skip_target t l s;
       let s = s\<lparr>timers := (timers s)(t := (timers s t)\<lparr>next_timer := deref l s\<rparr>)\<rparr>;
       let s = put_link l (Some t) s;
       Some (if timer_list_head s = Some t \<and> long_target (timers s t) = 0
             then lltimer_set (target (timers s t)) s else s)
     }"

partial_function (option) remove_timer_from_list :: "link \<Rightarrow> nat \<Rightarrow> xt \<Rightarrow> (int \<times> xt) option" where
  "remove_timer_from_list l t s =
     (case deref l s of
        None \<Rightarrow> Some (0, s)
      | Some a \<Rightarrow>
          if a = t then Some (1, put_link l (next_timer (timers s t)) s)
          else remove_timer_from_list (Next a) t s)"

text \<open>\<open>_remove\<close>: a new head is programmed as the next target, whatever its upper half.\<close>

definition remove_timer :: "nat \<Rightarrow> xt \<Rightarrow> xt option" where
  "remove_timer t s =
     (if timer_list_head s = Some t
      then let s = s\<lparr>timer_list_head := next_timer (timers s t)\<rparr>
           in Some (case timer_list_head s of None \<Rightarrow> s | Some a \<Rightarrow> lltimer_set (target (timers s a)) s)
      else map_option snd (remove_timer_from_list Head t s))"

definition is_set :: "nat \<Rightarrow> xt \<Rightarrow> bool" where
  "is_set t s \<longleftrightarrow> target (timers s t) \<noteq> 0"

definition xtimer_remove :: "nat \<Rightarrow> xt \<Rightarrow> xt option" where
  "xtimer_remove t s = (if is_set t s then remove_timer t s else Some s)"

section \<open>Segments\<close>

fun seg :: "(nat \<Rightarrow> xtimer_t) \<Rightarrow> nat option \<Rightarrow> nat list \<Rightarrow> nat option \<Rightarrow> bool" where
  "seg h p [] q \<longleftrightarrow> p = q"
| "seg h p (a # as) q \<longleftrightarrow> p = Some a \<and> seg h (next_timer (h a)) as q"

definition queue :: "xt \<Rightarrow> nat list \<Rightarrow> bool" where
  "queue s as \<longleftrightarrow> seg (timers s) (timer_list_head s) as None"

lemma seg_append: "seg h p (xs @ ys) q \<longleftrightarrow> (\<exists>r. seg h p xs r \<and> seg h r ys q)"
  by (induction xs arbitrary: p) auto

lemma seg_frame:
  "(\<And>a. a \<in> set xs \<Longrightarrow> next_timer (h' a) = next_timer (h a)) \<Longrightarrow> seg h' p xs q = seg h p xs q"
  by (induction xs arbitrary: p) auto

lemma seg_upd: "a \<notin> set xs \<Longrightarrow> seg (h(a := x)) p xs q = seg h p xs q"
  by (rule seg_frame) auto

lemma seg_unique: "seg h p xs None \<Longrightarrow> seg h p ys None \<Longrightarrow> xs = ys"
proof (induction xs arbitrary: p ys)
  case Nil
  then show ?case by (cases ys) auto
next
  case (Cons x xs)
  then show ?case by (cases ys) auto
qed

lemma seg_distinct: "seg h p xs None \<Longrightarrow> distinct xs"
proof (induction xs arbitrary: p)
  case (Cons x xs)
  have "x \<notin> set xs"
  proof
    assume "x \<in> set xs"
    then obtain us vs where xs: "xs = us @ x # vs" by (auto simp: in_set_conv_decomp)
    have p: "p = Some x" using Cons.prems by simp
    from Cons.prems xs have "seg h p ((x # us) @ (x # vs)) None" by simp
    then obtain r where "seg h r (x # vs) None" unfolding seg_append by blast
    then have "seg h p (x # vs) None" using p by simp
    from seg_unique [OF Cons.prems this] xs show False by simp
  qed
  with Cons show ?case by auto
qed simp

text \<open>The link behind the first timers of the list.\<close>

definition link_after :: "nat list \<Rightarrow> link" where
  "link_after pre = (if pre = [] then Head else Next (last pre))"

lemma link_after_snoc [simp]: "link_after (pre @ [a]) = Next a"
  by (simp add: link_after_def)

lemma link_after_Nil [simp]: "link_after [] = Head"
  by (simp add: link_after_def)

lemma deref_link_after: "seg (timers s) (timer_list_head s) pre r \<Longrightarrow> deref (link_after pre) s = r"
  by (cases pre rule: rev_cases) (auto simp: seg_append)

lemma skip_long_seg:
  assumes "seg (timers s) (timer_list_head s) (pre @ suf) None"
  shows "skip_long t (link_after pre) s =
    Some (link_after (pre @ takeWhile (\<lambda>a. long_target (timers s a) < long_target (timers s t)) suf))"
  using assms
proof (induction suf arbitrary: pre)
  case Nil
  then show ?case using deref_link_after [of s pre None] by (subst skip_long.simps) simp
next
  case (Cons a suf)
  then have "deref (link_after pre) s = Some a" by (auto simp: seg_append intro: deref_link_after)
  with Cons.IH [of "pre @ [a]"] Cons.prems show ?case
    by (subst skip_long.simps) simp
qed

lemma skip_target_seg:
  assumes "seg (timers s) (timer_list_head s) (pre @ suf) None"
  shows "skip_target t (link_after pre) s =
    Some (link_after (pre @ takeWhile (\<lambda>a. target (timers s a) \<le> target (timers s t) \<and>
      long_target (timers s a) \<le> long_target (timers s t)) suf))"
  using assms
proof (induction suf arbitrary: pre)
  case Nil
  then show ?case using deref_link_after [of s pre None] by (subst skip_target.simps) simp
next
  case (Cons a suf)
  then have "deref (link_after pre) s = Some a" by (auto simp: seg_append intro: deref_link_after)
  with Cons.IH [of "pre @ [a]"] Cons.prems show ?case
    by (subst skip_target.simps) simp
qed

section \<open>Insertion and removal\<close>

text \<open>The time a timer is due, in ticks since the clock last wrapped.\<close>

definition due :: "xt \<Rightarrow> nat \<Rightarrow> nat" where
  "due s a = unat (long_target (timers s a)) * 2 ^ 32 + unat (target (timers s a))"

lemma two_digits_less:
  assumes "(c::nat) < m" "d < m"
  shows "a * m + c < b * m + d \<longleftrightarrow> a < b \<or> a = b \<and> c < d"
proof -
  have "x * m + m \<le> y * m" if "x < y" for x y
    using mult_le_mono1 [of "Suc x" y m] that by simp
  from this [of a b] this [of b a] assms show ?thesis by (cases a b rule: linorder_cases) auto
qed

lemma due_less: "due s a < due s b \<longleftrightarrow>
    long_target (timers s a) < long_target (timers s b) \<or>
    long_target (timers s a) = long_target (timers s b) \<and> target (timers s a) < target (timers s b)"
proof -
  have "unat (target (timers s x)) < 2 ^ 32" for x by simp
  from two_digits_less [OF this [of a] this [of b]] show ?thesis
    by (simp add: due_def word_less_nat_alt word_unat_eq_iff)
qed

lemma due_le: "due s a \<le> due s b \<longleftrightarrow>
    long_target (timers s a) < long_target (timers s b) \<or>
    long_target (timers s a) = long_target (timers s b) \<and> target (timers s a) \<le> target (timers s b)"
  using due_less [of s b a] by (auto simp: not_less [symmetric])

text \<open>Behind the timers that are not due later.\<close>

definition insert_due :: "('a \<Rightarrow> nat) \<Rightarrow> 'a \<Rightarrow> 'a list \<Rightarrow> 'a list" where
  "insert_due k t as = takeWhile (\<lambda>a. k a \<le> k t) as @ t # dropWhile (\<lambda>a. k a \<le> k t) as"

lemma set_insert_due [simp]: "set (insert_due k t as) = insert t (set as)"
proof -
  have "set (takeWhile P as) \<union> set (dropWhile P as) = set as" for P
    using set_append [of "takeWhile P as" "dropWhile P as"] by simp
  then show ?thesis by (auto simp: insert_due_def)
qed

lemma sorted_dropWhile:
  "sorted (map k as) \<Longrightarrow> \<forall>x \<in> set (dropWhile (\<lambda>a. k a \<le> n) as). n < k x"
proof (induction as)
  case (Cons a as)
  then show ?case by (cases "k a \<le> n") (auto simp: not_le intro: less_le_trans)
qed simp

lemma sorted_insert_due:
  assumes "sorted (map k as)"
  shows "sorted (map k (insert_due k t as))"
proof -
  let ?P = "\<lambda>a. k a \<le> k t"
  have "sorted (map k (takeWhile ?P as))" "sorted (map k (dropWhile ?P as))"
    using assms sorted_append [of "map k (takeWhile ?P as)" "map k (dropWhile ?P as)"]
    by (simp_all add: map_append [symmetric] del: map_append)
  moreover have "\<forall>x \<in> set (dropWhile ?P as). k t \<le> k x" using sorted_dropWhile [OF assms] by force
  moreover have "\<forall>x \<in> set (takeWhile ?P as). k x \<le> k t" by (auto dest: set_takeWhileD)
  ultimately show ?thesis by (fastforce simp: insert_due_def sorted_append)
qed

lemma takeWhile_split:
  assumes "\<And>x. x \<in> set xs \<Longrightarrow> P x \<Longrightarrow> R x" "\<And>x. x \<in> set (dropWhile P xs) \<Longrightarrow> Q x = R x"
  shows "takeWhile P xs @ takeWhile Q (dropWhile P xs) = takeWhile R xs"
  using assms
proof (induction xs)
  case (Cons x xs)
  show ?case
  proof (cases "P x")
    case True
    with Cons show ?thesis by simp
  next
    case False
    with Cons.prems(2) have "takeWhile Q (x # xs) = takeWhile R (x # xs)"
      by (intro takeWhile_cong) auto
    with False show ?thesis by simp
  qed
qed simp

lemma skips_find_place:
  assumes "queue s as" "sorted (map (due s) as)"
  shows "do { l \<leftarrow> skip_long t Head s; skip_target t l s } =
    Some (link_after (takeWhile (\<lambda>a. due s a \<le> due s t) as))"
proof -
  let ?P = "\<lambda>a. long_target (timers s a) < long_target (timers s t)"
  let ?Q = "\<lambda>a. target (timers s a) \<le> target (timers s t) \<and> long_target (timers s a) \<le> long_target (timers s t)"
  have seg: "seg (timers s) (timer_list_head s) (takeWhile ?P as @ dropWhile ?P as) None"
    using assms(1) by (simp add: queue_def)
  have "skip_long t (link_after []) s = Some (link_after ([] @ takeWhile ?P as))"
    by (rule skip_long_seg) (use assms(1) in \<open>simp add: queue_def\<close>)
  moreover have "skip_target t (link_after (takeWhile ?P as)) s =
      Some (link_after (takeWhile ?P as @ takeWhile ?Q (dropWhile ?P as)))"
    by (rule skip_target_seg [OF seg])
  moreover have "takeWhile ?P as @ takeWhile ?Q (dropWhile ?P as) = takeWhile (\<lambda>a. due s a \<le> due s t) as"
  proof (rule takeWhile_split)
    fix x assume "x \<in> set (dropWhile ?P as)"
    then have "\<not> long_target (timers s x) < long_target (timers s t)"
      using assms(2)
    proof (induction as)
      case (Cons a as)
      then show ?case by (cases "?P a") (auto simp: due_le)
    qed simp
    then show "?Q x = (due s x \<le> due s t)" by (auto simp: due_le)
  qed (simp add: due_le)
  ultimately show ?thesis by simp
qed

lemma timers_put_link:
  "target (timers (put_link l p s) a) = target (timers s a)"
  "long_target (timers (put_link l p s) a) = long_target (timers s a)"
  "callback (timers (put_link l p s) a) = callback (timers s a)"
  "arg (timers (put_link l p s) a) = arg (timers s a)"
  by (cases l; simp)+

lemma queue_insert:
  assumes "seg (timers s) (timer_list_head s) (pre @ suf) None" "t \<notin> set pre" "t \<notin> set suf"
  shows "queue (put_link (link_after pre) (Some t)
    (s\<lparr>timers := (timers s)(t := (timers s t)\<lparr>next_timer := deref (link_after pre) s\<rparr>)\<rparr>)) (pre @ t # suf)"
proof -
  from assms(1) obtain r where r: "seg (timers s) (timer_list_head s) pre r" "seg (timers s) r suf None"
    by (auto simp: seg_append)
  let ?h = "(timers s)(t := (timers s t)\<lparr>next_timer := r\<rparr>)"
  have d: "deref (link_after pre) s = r" by (rule deref_link_after [OF r(1)])
  have suf: "seg ?h r suf None" using r(2) assms(3) by (simp add: seg_upd)
  show ?thesis
  proof (cases pre rule: rev_cases)
    case Nil
    with suf d show ?thesis by (simp add: queue_def)
  next
    case (snoc ps b)
    have dist: "distinct (ps @ b # suf)" using seg_distinct [OF assms(1)] snoc by simp
    let ?h' = "?h(b := (?h b)\<lparr>next_timer := Some t\<rparr>)"
    from r(1) snoc have "seg (timers s) (timer_list_head s) ps (Some b)" by (auto simp: seg_append)
    then have ps: "seg ?h' (timer_list_head s) ps (Some b)"
      using dist assms(2) snoc by (simp add: seg_upd)
    have "seg ?h' r suf None" using suf dist by (simp add: seg_upd)
    then have "seg ?h' (Some b) (b # t # suf) None" using assms(2) snoc by auto
    with ps have "seg ?h' (timer_list_head s) (ps @ b # t # suf) None" unfolding seg_append by blast
    with snoc d show ?thesis by (simp add: queue_def)
  qed
qed

lemma timers_emit [simp]: "timers (lltimer_set v s) = timers s" "timer_list_head (lltimer_set v s) = timer_list_head s"
  by (simp_all add: lltimer_set_def emit_def)

lemma due_emit [simp]: "due (lltimer_set v s) = due s" "queue (lltimer_set v s) = queue s"
  by (simp_all add: due_def queue_def fun_eq_iff)

lemma due_put_link [simp]: "due (put_link l p s) = due s"
  by (simp add: due_def timers_put_link fun_eq_iff)

lemma due_head [simp]: "due (s\<lparr>timer_list_head := p\<rparr>) = due s"
  by (simp add: due_def fun_eq_iff)

lemma due_next [simp]: "due (s\<lparr>timers := (timers s)(t := (timers s t)\<lparr>next_timer := p\<rparr>)\<rparr>) = due s"
  by (simp add: due_def fun_eq_iff)

lemma add_timer_ok:
  assumes "queue s as" "sorted (map (due s) as)" "t \<notin> set as"
  shows "\<exists>s'. add_timer_to_list t s = Some s' \<and> due s' = due s \<and> queue s' (insert_due (due s) t as) \<and>
    reads s' = reads s \<and> wrap_counter s' = wrap_counter s \<and> in_handler s' = in_handler s \<and>
    events s' = events s @
      (if hd (insert_due (due s) t as) = t \<and> long_target (timers s t) = 0 \<and> \<not> in_handler s
       then [timer_set_absolute (target (timers s t))] else [])"
proof -
  let ?pre = "takeWhile (\<lambda>a. due s a \<le> due s t) as" and ?suf = "dropWhile (\<lambda>a. due s a \<le> due s t) as"
  let ?l = "link_after ?pre"
  let ?s1 = "s\<lparr>timers := (timers s)(t := (timers s t)\<lparr>next_timer := deref ?l s\<rparr>)\<rparr>"
  let ?s2 = "put_link ?l (Some t) ?s1"
  from skips_find_place [OF assms(1,2), of t] obtain l where
    "skip_long t Head s = Some l" "skip_target t l s = Some ?l" by (auto simp: bind_eq_Some_conv)
  then have add: "add_timer_to_list t s =
      Some (if timer_list_head ?s2 = Some t \<and> long_target (timers ?s2 t) = 0
            then lltimer_set (target (timers ?s2 t)) ?s2 else ?s2)"
    by (simp add: add_timer_to_list_def Let_def)
  have q: "queue ?s2 (insert_due (due s) t as)"
    unfolding insert_due_def
  proof (rule queue_insert)
    show "seg (timers s) (timer_list_head s) (?pre @ ?suf) None" using assms(1) by (simp add: queue_def)
  qed (use assms(3) in \<open>auto dest: set_takeWhileD set_dropWhileD\<close>)
  then have head: "timer_list_head ?s2 = Some t \<longleftrightarrow> hd (insert_due (due s) t as) = t"
    by (cases "insert_due (due s) t as") (auto simp: queue_def insert_due_def)
  have "reads ?s2 = reads s \<and> wrap_counter ?s2 = wrap_counter s \<and> in_handler ?s2 = in_handler s \<and> events ?s2 = events s"
    by (cases ?l) auto
  then show ?thesis
    using q add head by (auto simp: timers_put_link lltimer_set_def emit_def due_def queue_def fun_eq_iff)
qed

text \<open>Removal.\<close>

lemma remove_from_seg:
  assumes "seg (timers s) (timer_list_head s) (pre @ suf) None"
  shows "remove_timer_from_list (link_after pre) t s =
    Some (if t \<in> set suf
          then (1, put_link (link_after (pre @ takeWhile (\<lambda>a. a \<noteq> t) suf)) (next_timer (timers s t)) s)
          else (0, s))"
  using assms
proof (induction suf arbitrary: pre)
  case Nil
  then show ?case using deref_link_after [of s pre None]
    by (subst remove_timer_from_list.simps) simp
next
  case (Cons a suf)
  then have "deref (link_after pre) s = Some a" by (auto simp: seg_append intro: deref_link_after)
  with Cons.IH [of "pre @ [a]"] Cons.prems show ?case
    by (subst remove_timer_from_list.simps) auto
qed

lemma queue_unlink:
  assumes "queue s (pre @ t # suf)"
  shows "queue (put_link (link_after pre) (next_timer (timers s t)) s) (pre @ suf)"
proof (cases pre rule: rev_cases)
  case Nil
  with assms show ?thesis by (simp add: queue_def)
next
  case (snoc ps b)
  have dist: "distinct (ps @ b # t # suf)" using seg_distinct assms snoc by (fastforce simp: queue_def)
  let ?h = "(timers s)(b := (timers s b)\<lparr>next_timer := next_timer (timers s t)\<rparr>)"
  from assms snoc have "seg (timers s) (timer_list_head s) ps (Some b)" "seg (timers s) (next_timer (timers s t)) suf None"
    by (auto simp: queue_def seg_append)
  with dist have "seg ?h (timer_list_head s) ps (Some b)" "seg ?h (next_timer (timers s t)) suf None"
    by (simp_all add: seg_upd)
  moreover from this have "seg ?h (Some b) (b # suf) None" by simp
  ultimately have "seg ?h (timer_list_head s) (ps @ b # suf) None" unfolding seg_append by blast
  with snoc show ?thesis by (simp add: queue_def)
qed

lemma remove1_split: "t \<in> set as \<Longrightarrow> \<exists>suf. as = takeWhile (\<lambda>a. a \<noteq> t) as @ t # suf \<and>
    remove1 t as = takeWhile (\<lambda>a. a \<noteq> t) as @ suf"
  by (induction as) auto

lemma remove_timer_ok:
  assumes "queue s as"
  shows "\<exists>s'. remove_timer t s = Some s' \<and> due s' = due s \<and> queue s' (remove1 t as) \<and>
    reads s' = reads s \<and> wrap_counter s' = wrap_counter s"
proof (cases "timer_list_head s = Some t")
  case True
  then obtain bs where as: "as = t # bs" using assms by (cases as) (auto simp: queue_def)
  let ?s = "s\<lparr>timer_list_head := next_timer (timers s t)\<rparr>"
  have "queue ?s bs" "due ?s = due s" using assms as by (auto simp: queue_def due_def fun_eq_iff)
  with True as show ?thesis
    by (cases "next_timer (timers s t)") (auto simp: remove_timer_def lltimer_set_def emit_def due_def queue_def fun_eq_iff Let_def)
next
  case False
  let ?pre = "takeWhile (\<lambda>a. a \<noteq> t) as"
  have r: "remove_timer_from_list (link_after []) t s =
    Some (if t \<in> set as then (1, put_link (link_after ([] @ ?pre)) (next_timer (timers s t)) s) else (0, s))"
    by (rule remove_from_seg) (use assms in \<open>simp add: queue_def\<close>)
  show ?thesis
  proof (cases "t \<in> set as")
    case True
    from remove1_split [OF this] obtain suf where "as = ?pre @ t # suf" "remove1 t as = ?pre @ suf" by blast
    with assms queue_unlink [of s ?pre t suf] True False r show ?thesis
      by (cases "link_after ?pre") (auto simp: remove_timer_def)
  next
    case absent: False
    with assms r \<open>timer_list_head s \<noteq> Some t\<close> show ?thesis by (simp add: remove_timer_def remove1_idem)
  qed
qed

section \<open>The interface\<close>

text \<open>
  What the operations of the file rely on: a queue ordered by the time the timers are due, and first
  in, first out among those due at the same time. The specification runs on the list of timers, and
  allows a timer to be set only when it is not set.
\<close>

datatype timer_op = Set nat | Remove nat

fun run_ops :: "(nat \<Rightarrow> 's \<Rightarrow> 's option) \<Rightarrow> (nat \<Rightarrow> 's \<Rightarrow> 's option) \<Rightarrow> timer_op list \<Rightarrow> 's \<Rightarrow> 's option" where
  "run_ops add rem [] s = Some s"
| "run_ops add rem (Set a # ops) s = do { s \<leftarrow> add a s; run_ops add rem ops s }"
| "run_ops add rem (Remove a # ops) s = do { s \<leftarrow> rem a s; run_ops add rem ops s }"

fun spec_ops :: "(nat \<Rightarrow> nat) \<Rightarrow> timer_op list \<Rightarrow> nat list \<Rightarrow> nat list option" where
  "spec_ops k [] as = Some as"
| "spec_ops k (Set a # ops) as = (if a \<in> set as then None else spec_ops k ops (insert_due k a as))"
| "spec_ops k (Remove a # ops) as = spec_ops k ops (remove1 a as)"

lemma sorted_remove1_map: "sorted (map k as) \<Longrightarrow> sorted (map k (remove1 a as))"
  by (induction as) (auto dest: subsetD [OF set_remove1_subset])

locale timer_queue =
  fixes queue :: "'s \<Rightarrow> nat list \<Rightarrow> bool"
    and key :: "'s \<Rightarrow> nat \<Rightarrow> nat"
    and add :: "nat \<Rightarrow> 's \<Rightarrow> 's option"
    and rem :: "nat \<Rightarrow> 's \<Rightarrow> 's option"
  assumes add: "queue s as \<Longrightarrow> sorted (map (key s) as) \<Longrightarrow> a \<notin> set as \<Longrightarrow>
      \<exists>s'. add a s = Some s' \<and> key s' = key s \<and> queue s' (insert_due (key s) a as)"
    and rem: "queue s as \<Longrightarrow> \<exists>s'. rem a s = Some s' \<and> key s' = key s \<and> queue s' (remove1 a as)"
begin

lemma run_refines:
  assumes "queue s as" "sorted (map (key s) as)" "spec_ops (key s) ops as = Some bs"
  shows "\<exists>s'. run_ops add rem ops s = Some s' \<and> key s' = key s \<and> queue s' bs \<and> sorted (map (key s) bs)"
  using assms
proof (induction ops arbitrary: s as)
  case Nil
  then show ?case by simp
next
  case (Cons op ops)
  show ?case
  proof (cases op)
    case (Set a)
    with Cons.prems have new: "a \<notin> set as" by (auto split: if_splits)
    from add [OF Cons.prems(1,2) new] obtain s1 where
      s1: "add a s = Some s1" "key s1 = key s" "queue s1 (insert_due (key s) a as)" by blast
    with Cons.IH [of s1 "insert_due (key s) a as"] Cons.prems Set new show ?thesis
      by (simp add: sorted_insert_due)
  next
    case (Remove a)
    from rem [OF Cons.prems(1), of a] obtain s1 where
      s1: "rem a s = Some s1" "key s1 = key s" "queue s1 (remove1 a as)" by blast
    with Cons.IH [of s1 "remove1 a as"] Cons.prems Remove show ?thesis
      by (simp add: sorted_remove1_map)
  qed
qed

end

interpretation timer_list: timer_queue queue due add_timer_to_list remove_timer
  by unfold_locales (metis add_timer_ok, metis remove_timer_ok)

text \<open>
  C19: The linked list implements a queue ordered by the time timers are due: any sequence of setting
  timers that are not set and removing timers returns, leaves exactly the timers that are set, in
  order, with those due at the same time in the order they were set, and changes no time.
\<close>

theorem timer_list_refines:
  assumes "queue s as" "sorted (map (due s) as)" "spec_ops (due s) ops as = Some bs"
  shows "\<exists>s'. run_ops add_timer_to_list remove_timer ops s = Some s' \<and> due s' = due s \<and>
    queue s' bs \<and> sorted (map (due s') bs)"
  using timer_list.run_refines [OF assms] by auto

text \<open>Timers at rest.\<close>

definition idle_timers :: "u32 list \<Rightarrow> xt" where
  "idle_timers ts = \<lparr>timers = (\<lambda>a. \<lparr>next_timer = None, target = (if a < length ts then ts ! a else 0),
     long_target = 0, callback = None, arg = int a\<rparr>), timer_list_head = None, in_handler = False,
     wrap_counter = 0, sender_pid = (\<lambda>_. 0), reads = 0, events = []\<rparr>"

theorem timer_list_refines_witness:
  "\<exists>s'. run_ops add_timer_to_list remove_timer [Set 0, Set 1, Set 2, Remove 0, Set 3] (idle_timers [5, 9, 7, 7]) = Some s' \<and>
     queue s' [2, 3, 1]"
proof -
  let ?s = "idle_timers [5, 9, 7, 7]"
  have "queue ?s []" by (simp add: queue_def idle_timers_def)
  moreover have "due ?s 0 = 5" "due ?s 1 = 9" "due ?s 2 = 7" "due ?s 3 = 7"
    by (simp_all add: due_def idle_timers_def)
  then have "spec_ops (due ?s) [Set 0, Set 1, Set 2, Remove 0, Set 3] [] = Some [2, 3, 1]"
    by (simp add: insert_due_def)
  ultimately show ?thesis using timer_list_refines [of ?s "[]"] by fastforce
qed

section \<open>Setting a timer twice\<close>

lemma skip_target_loops:
  assumes "skip_target t l s = Some r" "deref l s = Some a" "next_timer (timers s a) = Some a"
    and "target (timers s a) \<le> target (timers s t)" "long_target (timers s a) \<le> long_target (timers s t)"
  shows False
proof -
  have "\<not> (deref l s = Some a \<and> next_timer (timers s a) = Some a \<and>
    target (timers s a) \<le> target (timers s t) \<and> long_target (timers s a) \<le> long_target (timers s t))"
    by (rule skip_target.raw_induct [OF _ assms(1)]) (fastforce split: option.splits if_splits)
  with assms(2-) show False by blast
qed

lemma skip_long_loops:
  assumes "skip_long t l s = Some r" "deref l s = Some a" "next_timer (timers s a) = Some a"
    and "long_target (timers s a) < long_target (timers s t)"
  shows False
proof -
  have "\<not> (deref l s = Some a \<and> next_timer (timers s a) = Some a \<and>
    long_target (timers s a) < long_target (timers s t))"
    by (rule skip_long.raw_induct [OF _ assms(1)]) (fastforce split: option.splits if_splits)
  with assms(2-) show False by blast
qed

text \<open>
  Setting the only timer in the list again, without removing it first, links it to itself, and
  setting another timer that is not due earlier never returns.
\<close>

theorem set_twice_never_returns:
  assumes "queue s [a]" "due s a \<le> due s t" "t \<noteq> a"
  shows "\<exists>s'. add_timer_to_list a s = Some s' \<and> add_timer_to_list t s' = None"
proof -
  let ?s1 = "s\<lparr>timers := (timers s)(a := (timers s a)\<lparr>next_timer := None\<rparr>)\<rparr>"
  let ?s2 = "put_link (Next a) (Some a) ?s1"
  have q: "timer_list_head s = Some a" "next_timer (timers s a) = None" using assms(1) by (auto simp: queue_def)
  from skips_find_place [OF assms(1), of a] have
    "do { l \<leftarrow> skip_long a Head s; skip_target a l s } = Some (Next a)"
    by (simp add: link_after_def)
  then obtain l where "skip_long a Head s = Some l" "skip_target a l s = Some (Next a)"
    by (auto simp: bind_eq_Some_conv)
  then obtain s' where s': "add_timer_to_list a s = Some s'" "timers s' = timers ?s2" "timer_list_head s' = Some a"
    using q by (simp add: add_timer_to_list_def Let_def)
  have cyc: "next_timer (timers s' a) = Some a" using s'(2) by simp
  have keep: "target (timers s' x) = target (timers s x)" "long_target (timers s' x) = long_target (timers s x)" for x
    using s'(2) by simp_all
  have "add_timer_to_list t s' = None"
  proof (cases "long_target (timers s a) < long_target (timers s t)")
    case True
    then have "skip_long t Head s' = None"
      using skip_long_loops [of t Head s' _ a] s'(3) cyc keep by (cases "skip_long t Head s'") auto
    then show ?thesis by (simp add: add_timer_to_list_def)
  next
    case False
    then have "skip_long t Head s' = Some Head"
      using s'(3) keep by (subst skip_long.simps) simp
    moreover have "skip_target t Head s' = None"
      using skip_target_loops [of t Head s' _ a] s'(3) cyc keep assms(2) False
      by (cases "skip_target t Head s'") (auto simp: due_le)
    ultimately show ?thesis by (simp add: add_timer_to_list_def)
  qed
  with s'(1) show ?thesis by blast
qed

theorem set_twice_never_returns_witness:
  "\<exists>s s'. add_timer_to_list 0 (idle_timers [5, 9]) = Some s \<and> add_timer_to_list 0 s = Some s' \<and>
     add_timer_to_list 1 s' = None"
proof -
  let ?s = "idle_timers [5, 9]"
  have "queue ?s []" by (simp add: queue_def idle_timers_def)
  from add_timer_ok [OF this, of 0] obtain s where
    s: "add_timer_to_list 0 ?s = Some s" "due s = due ?s" "queue s [0]" by (auto simp: insert_due_def)
  have "due s 0 \<le> due s 1" by (simp add: s(2) due_def idle_timers_def)
  with set_twice_never_returns [OF s(3), of 1] s(1) show ?thesis by auto
qed

end
