(* ===== verification/Xtimer.thy ===== *)
theory Xtimer
  imports Timer_List
begin

text \<open>
  The timers of \<^verbatim>\<open>burba/sys/xtimer_32/xtimer.c\<close> over their list: setting them for a 64-bit time
  with a 32-bit counter, the interrupt of the counter reaching the next target, the interrupt of its
  wrapping round, and the waiting functions.

  The counter is read through a parameter \<open>clk\<close>, the value of each reading. Its hardware, spinning
  and the constants of the header \<^verbatim>\<open>xtimer.h\<close> (\<open>isr_backoff\<close>, \<open>periodic_spin\<close>, \<open>periodic_relative\<close>)
  are not part of the repository. Callbacks of callers do not set or remove timers.
\<close>

section \<open>Readings\<close>

definition XTIMER_BACKOFF :: u32 where "XTIMER_BACKOFF = 720"
definition XTIMER_OVERHEAD :: nat where "XTIMER_OVERHEAD = 320"

type_synonym clock = "nat \<Rightarrow> u32"

definition xtimer_now :: "clock \<Rightarrow> xt \<Rightarrow> u32 \<times> xt" where
  "xtimer_now clk s = (clk (reads s), s\<lparr>reads := Suc (reads s)\<rparr>)"

definition xtimer_now64 :: "clock \<Rightarrow> xt \<Rightarrow> u64 \<times> xt" where
  "xtimer_now64 clk s = (let (now, s) = xtimer_now clk s in (push_bit 32 (ucast (wrap_counter s)) + ucast now, s))"

definition time_left :: "clock \<Rightarrow> u32 \<Rightarrow> nat \<Rightarrow> xt \<Rightarrow> u64 \<times> xt" where
  "time_left clk reference t s =
     (let (now, s) = xtimer_now clk s in
      if now < reference then (0, s)
      else
        (let timer_val = push_bit 32 (ucast (long_target (timers s t))) + ucast (target (timers s t)) :: u64
         in (if timer_val > ucast now then timer_val - ucast now else 0, s)))"

section \<open>Firing\<close>

text \<open>The callbacks of this file and of its callers.\<close>

fun callback_event :: "xtimer_callback_t \<Rightarrow> int \<Rightarrow> xt \<Rightarrow> xt_event" where
  "callback_event callback_unlock_mutex x s = mutex_unlock x"
| "callback_event callback_msg x s = msg_send_int x (sender_pid s x)"
| "callback_event callback_wakeup x s = thread_wakeup x"
| "callback_event (user_callback f) x s = user_call f x"

text \<open>A null callback is called: \<^term>\<open>None\<close>.\<close>

definition shoot :: "nat \<Rightarrow> xt \<Rightarrow> xt option" where
  "shoot t s = map_option (\<lambda>f. emit (callback_event f (arg (timers s t)) s) s) (callback (timers s t))"

definition set_target :: "nat \<Rightarrow> u32 \<Rightarrow> xt \<Rightarrow> xt" where
  "set_target t v s = s\<lparr>timers := (timers s)(t := (timers s t)\<lparr>target := v\<rparr>)\<rparr>"

definition set_long_target :: "nat \<Rightarrow> u32 \<Rightarrow> xt \<Rightarrow> xt" where
  "set_long_target t v s = s\<lparr>timers := (timers s)(t := (timers s t)\<lparr>long_target := v\<rparr>)\<rparr>"

partial_function (option) spin_until :: "clock \<Rightarrow> u32 \<Rightarrow> nat \<Rightarrow> xt \<Rightarrow> xt option" where
  "spin_until clk reference t s =
     (case time_left clk reference t s of
        (l, s) \<Rightarrow> if l \<noteq> 0 then spin_until clk reference t s else Some s)"

partial_function (option) fire_due :: "clock \<Rightarrow> u64 \<Rightarrow> u32 \<Rightarrow> xt \<Rightarrow> xt option" where
  "fire_due clk isr_backoff reference s =
     (case timer_list_head s of
        None \<Rightarrow> Some s
      | Some t \<Rightarrow>
          (case time_left clk reference t s of
             (l, s) \<Rightarrow>
               if l < isr_backoff
               then do {
                 s \<leftarrow> spin_until clk reference t s;
                 s \<leftarrow> shoot t (set_target t 0 (s\<lparr>timer_list_head := next_timer (timers s t)\<rparr>));
                 fire_due clk isr_backoff reference s }
               else Some s))"

text \<open>The label \<open>in_the_past\<close> and what follows it.\<close>

partial_function (option) in_the_past :: "clock \<Rightarrow> u64 \<Rightarrow> u32 \<Rightarrow> xt \<Rightarrow> xt option" where
  "in_the_past clk isr_backoff reference s =
     do {
       s \<leftarrow> fire_due clk isr_backoff reference s;
       (case xtimer_now clk s of
          (reference, s) \<Rightarrow>
            (case timer_list_head s of
               None \<Rightarrow> Some (s\<lparr>in_handler := False\<rparr>)
             | Some t \<Rightarrow>
                 if long_target (timers s t) = 0
                 then if reference > target (timers s t) then in_the_past clk isr_backoff reference s
                      else Some (lltimer_set (target (timers s t)) (s\<lparr>in_handler := False\<rparr>))
                 else Some (s\<lparr>in_handler := False\<rparr>)))
     }"

definition timer_callback :: "clock \<Rightarrow> u64 \<Rightarrow> xt \<Rightarrow> xt option" where
  "timer_callback clk isr_backoff s =
     (let (reference, s) = xtimer_now clk (s\<lparr>in_handler := True\<rparr>) in in_the_past clk isr_backoff reference s)"

section \<open>The counter wraps round\<close>

definition shoot_now :: "nat \<Rightarrow> xt \<Rightarrow> xt option" where
  "shoot_now t s = do { s \<leftarrow> shoot t (set_target t 0 s); Some (s\<lparr>timer_list_head := next_timer (timers s t)\<rparr>) }"

text \<open>The assertion that no timer of the ended period is left fails: \<^term>\<open>None\<close>.\<close>

partial_function (option) wrap_loop :: "clock \<Rightarrow> nat option \<Rightarrow> bool \<Rightarrow> xt \<Rightarrow> xt option" where
  "wrap_loop clk list_head scheduled s =
     (case list_head of
        None \<Rightarrow> Some s
      | Some t \<Rightarrow>
          (case xtimer_now clk s of
             (reference, s) \<Rightarrow>
               if long_target (timers s t) = 0 then None
               else do {
                 let s = set_long_target t (long_target (timers s t) - 1) s;
                 if scheduled then wrap_loop clk (next_timer (timers s t)) scheduled s
                 else if long_target (timers s t) = 0 \<and> reference > target (timers s t)
                 then do { s \<leftarrow> shoot_now t s; wrap_loop clk (next_timer (timers s t)) scheduled s }
                 else do {
                   s \<leftarrow> (if long_target (timers s t) = 0
                        then map_option (\<lambda>h. lltimer_set (target (timers s h)) s) (timer_list_head s)
                        else Some s);
                   wrap_loop clk (next_timer (timers s t)) True s }
               }))"

definition timer_wrap :: "clock \<Rightarrow> xt \<Rightarrow> xt option" where
  "timer_wrap clk s =
     (let s = s\<lparr>wrap_counter := wrap_counter s + 1\<rparr> in wrap_loop clk (timer_list_head s) False s)"

definition periph_timer_callback :: "clock \<Rightarrow> u64 \<Rightarrow> int \<Rightarrow> xt \<Rightarrow> xt option" where
  "periph_timer_callback clk isr_backoff chan s =
     (if chan \<noteq> 0 then timer_wrap clk s else timer_callback clk isr_backoff s)"

section \<open>Setting\<close>

definition xtimer_set_absolute :: "nat \<Rightarrow> u32 \<Rightarrow> xt \<Rightarrow> xt option" where
  "xtimer_set_absolute t ticks_offset s =
     add_timer_to_list t (set_long_target t 0 (set_target t (ticks_offset - of_nat XTIMER_OVERHEAD) s))"

text \<open>The two halves of a 64-bit time.\<close>

definition set_halves :: "nat \<Rightarrow> u64 \<Rightarrow> u32 \<Rightarrow> xt \<Rightarrow> xt" where
  "set_halves t v long s = set_long_target t (ucast (drop_bit 32 v) + long) (set_target t (ucast v) s)"

definition xtimer_set_absolute64 :: "nat \<Rightarrow> u64 \<Rightarrow> xt \<Rightarrow> xt option" where
  "xtimer_set_absolute64 t ticks_offset s =
     add_timer_to_list t (set_halves t (ticks_offset - of_nat XTIMER_OVERHEAD) 0 s)"

definition xtimer_set64 :: "clock \<Rightarrow> nat \<Rightarrow> u32 \<Rightarrow> u32 \<Rightarrow> xt \<Rightarrow> xt option" where
  "xtimer_set64 clk t offset long_offset s =
     (let (now, s) = xtimer_now clk s
      in add_timer_to_list t (set_halves t (ucast now + ucast offset - of_nat XTIMER_OVERHEAD) long_offset s))"

definition xtimer_set :: "clock \<Rightarrow> nat \<Rightarrow> u32 \<Rightarrow> xt \<Rightarrow> xt option" where
  "xtimer_set clk t offset s =
     (if callback (timers s t) = None then Some s
      else do {
        s \<leftarrow> xtimer_remove t s;
        if offset < XTIMER_BACKOFF then shoot t (emit (xtimer_spin offset) s)
        else (let (now, s) = xtimer_now clk s in xtimer_set_absolute64 t (ucast now + ucast offset) s)
      })"

definition set_callback :: "nat \<Rightarrow> xtimer_callback_t \<Rightarrow> int \<Rightarrow> xt \<Rightarrow> xt" where
  "set_callback t f x s = s\<lparr>timers := (timers s)(t := (timers s t)\<lparr>callback := Some f, arg := x\<rparr>)\<rparr>"

text \<open>The lower half is compared with the whole, and the upper half is not reset.\<close>

definition xtimer_set_msg64 :: "clock \<Rightarrow> nat \<Rightarrow> u64 \<Rightarrow> int \<Rightarrow> int \<Rightarrow> xt \<Rightarrow> xt option" where
  "xtimer_set_msg64 clk t offset msg target_pid s =
     (let (now, s) = xtimer_now clk s;
          offset = ucast now + offset - of_nat XTIMER_OVERHEAD;
          s = set_target t (ucast offset) s;
          s = (if ucast (target (timers s t)) < offset then set_long_target t 1 s else s);
          s = s\<lparr>sender_pid := (sender_pid s)(msg := target_pid)\<rparr>;
          s = set_callback t callback_msg msg s
      in add_timer_to_list t s)"

definition xtimer_set_msg :: "clock \<Rightarrow> nat \<Rightarrow> u32 \<Rightarrow> int \<Rightarrow> int \<Rightarrow> xt \<Rightarrow> xt option" where
  "xtimer_set_msg clk t offset msg target_pid s = xtimer_set_msg64 clk t (ucast offset) msg target_pid s"

definition xtimer_set_wakeup :: "clock \<Rightarrow> nat \<Rightarrow> u32 \<Rightarrow> int \<Rightarrow> xt \<Rightarrow> xt option" where
  "xtimer_set_wakeup clk t offset pid s = xtimer_set clk t offset (set_callback t callback_wakeup pid s)"

definition xtimer_set_wakeup64 :: "clock \<Rightarrow> nat \<Rightarrow> u64 \<Rightarrow> int \<Rightarrow> xt \<Rightarrow> xt option" where
  "xtimer_set_wakeup64 clk t offset pid s =
     xtimer_set64 clk t (ucast offset) (ucast (drop_bit 32 offset)) (set_callback t callback_wakeup pid s)"

section \<open>Waiting\<close>

text \<open>
  The timer \<open>t\<close> and the mutex \<open>m\<close> are local variables; the functions end where the thread waits for
  the mutex the timer unlocks.
\<close>

definition xtimer_tsleep :: "clock \<Rightarrow> bool \<Rightarrow> nat \<Rightarrow> int \<Rightarrow> u32 \<Rightarrow> u32 \<Rightarrow> xt \<Rightarrow> xt option" where
  "xtimer_tsleep clk irq_is_in t m offset long_offset s =
     (if irq_is_in
      then if long_offset \<noteq> 0 then None else Some (emit (xtimer_spin offset) s)
      else do {
        let s = set_long_target t 0 (set_target t 0 (set_callback t callback_unlock_mutex m s));
        s \<leftarrow> xtimer_set64 clk t offset long_offset (emit (mutex_lock m) s);
        Some (emit (mutex_lock m) s)
      })"

definition xtimer_periodic_wakeup ::
  "clock \<Rightarrow> u32 \<Rightarrow> u32 \<Rightarrow> nat \<Rightarrow> int \<Rightarrow> u32 \<Rightarrow> u32 \<Rightarrow> xt \<Rightarrow> (u32 \<times> xt) option" where
  "xtimer_periodic_wakeup clk periodic_spin periodic_relative t m last_wakeup period s =
     (let s = set_callback t callback_unlock_mutex m s;
          tgt = last_wakeup + period;
          (now, s) = xtimer_now clk s;
          passed = (if now < last_wakeup then \<not> (now < tgt \<and> tgt < last_wakeup)
                    else last_wakeup \<le> tgt \<and> tgt \<le> now) in
      if passed then Some (tgt, s)
      else
        (let offset = tgt - now in
         if offset < periodic_spin then Some (tgt, emit (xtimer_spin offset) s)
         else do {
           let (tgt, s) = (if offset < periodic_relative
                           then (let (now, s) = xtimer_now clk s in (now + offset, s)) else (tgt, s));
           s \<leftarrow> xtimer_set_absolute t tgt (emit (mutex_lock m) s);
           Some (tgt, emit (mutex_lock m) s)
         }))"

text \<open>Receiving with a timeout; whether the message of the timer came first is up to the scheduler.\<close>

definition setup_timer_msg :: "nat \<Rightarrow> xt \<Rightarrow> xt" where
  "setup_timer_msg t s = set_target t 0 s"

definition msg_wait :: "bool \<Rightarrow> nat \<Rightarrow> xt \<Rightarrow> (int \<times> xt) option" where
  "msg_wait timer_msg_first t s =
     (if timer_msg_first then Some (-1, s) else map_option (Pair 1) (xtimer_remove t s))"

definition xtimer_msg_receive_timeout64 ::
  "clock \<Rightarrow> nat \<Rightarrow> int \<Rightarrow> int \<Rightarrow> bool \<Rightarrow> u64 \<Rightarrow> xt \<Rightarrow> (int \<times> xt) option" where
  "xtimer_msg_receive_timeout64 clk t tmsg pid timer_msg_first timeout_ticks s =
     do {
       s \<leftarrow> xtimer_set_msg64 clk t timeout_ticks tmsg pid (setup_timer_msg t s);
       msg_wait timer_msg_first t s
     }"

definition xtimer_msg_receive_timeout ::
  "clock \<Rightarrow> nat \<Rightarrow> int \<Rightarrow> int \<Rightarrow> bool \<Rightarrow> u32 \<Rightarrow> xt \<Rightarrow> (int \<times> xt) option" where
  "xtimer_msg_receive_timeout clk t tmsg pid timer_msg_first timeout_ticks s =
     do {
       s \<leftarrow> xtimer_set_msg clk t timeout_ticks tmsg pid (setup_timer_msg t s);
       msg_wait timer_msg_first t s
     }"

section \<open>Conversions\<close>

definition XTIMER_USEC_TO_TICKS_FACTOR :: nat where "XTIMER_USEC_TO_TICKS_FACTOR = 80"

definition xtimer_usec_from_ticks :: "u32 \<Rightarrow> u32" where
  "xtimer_usec_from_ticks ticks = ticks div of_nat XTIMER_USEC_TO_TICKS_FACTOR"

definition xtimer_usec_from_ticks64 :: "u64 \<Rightarrow> u64" where
  "xtimer_usec_from_ticks64 ticks = ticks div of_nat XTIMER_USEC_TO_TICKS_FACTOR"

definition xtimer_ticks_from_usec :: "u32 \<Rightarrow> u32" where
  "xtimer_ticks_from_usec usec = usec * of_nat XTIMER_USEC_TO_TICKS_FACTOR"

definition xtimer_ticks_from_usec64 :: "u64 \<Rightarrow> u64" where
  "xtimer_ticks_from_usec64 usec = usec * of_nat XTIMER_USEC_TO_TICKS_FACTOR"

text \<open>The time in seconds and microseconds, for a clock of \<open>hz\<close> ticks a second.\<close>

definition xtimer_now_timex :: "clock \<Rightarrow> u64 \<Rightarrow> xt \<Rightarrow> (u32 \<times> u32) \<times> xt" where
  "xtimer_now_timex clk hz s =
     (let (now, s) = xtimer_now64 clk s;
          seconds = ucast (now div hz) :: u32
      in ((seconds, ucast (now div of_nat XTIMER_USEC_TO_TICKS_FACTOR - ucast (seconds * 1000000))), s))"

section \<open>Periodic wake-ups\<close>

text \<open>The same with the time since the last wake-up, which needs no case distinction.\<close>

definition periodic_wakeup_spec ::
  "clock \<Rightarrow> u32 \<Rightarrow> u32 \<Rightarrow> nat \<Rightarrow> int \<Rightarrow> u32 \<Rightarrow> u32 \<Rightarrow> xt \<Rightarrow> (u32 \<times> xt) option" where
  "periodic_wakeup_spec clk periodic_spin periodic_relative t m last_wakeup period s =
     (let (now, s) = xtimer_now clk (set_callback t callback_unlock_mutex m s);
          elapsed = now - last_wakeup in
      if period \<le> elapsed then Some (last_wakeup + period, s)
      else if period - elapsed < periodic_spin
      then Some (last_wakeup + period, emit (xtimer_spin (period - elapsed)) s)
      else do {
        let (tgt, s) = (if period - elapsed < periodic_relative
                        then (let (now, s) = xtimer_now clk s in (now + (period - elapsed), s))
                        else (last_wakeup + period, s));
        s \<leftarrow> xtimer_set_absolute t tgt (emit (mutex_lock m) s);
        Some (tgt, emit (mutex_lock m) s)
      })"

lemma passed_elapsed:
  "(if (now::u32) < l then \<not> (now < l + p \<and> l + p < l) else l \<le> l + p \<and> l + p \<le> now) \<longleftrightarrow> p \<le> now - l"
proof -
  have "uint now < 4294967296" "uint l < 4294967296" "uint p < 4294967296"
    using uint_lt2p [of now] uint_lt2p [of l] uint_lt2p [of p] by simp_all
  moreover have "0 \<le> uint now" "0 \<le> uint l" "0 \<le> uint p" by simp_all
  ultimately show ?thesis
    unfolding word_less_def word_le_def uint_plus_if' uint_sub_if' by (simp; arith)
qed

text \<open>
  Whether or not the counter has wrapped since, the periodic wake-up returns at once exactly when
  a whole period has passed since the last one, and waits for the rest of the period otherwise.
\<close>

theorem periodic_wakeup_modular:
  "xtimer_periodic_wakeup clk periodic_spin periodic_relative t m last_wakeup period s =
   periodic_wakeup_spec clk periodic_spin periodic_relative t m last_wakeup period s"
proof -
  have rest: "last_wakeup + period - now = period - (now - last_wakeup)" for now :: u32 by (simp add: algebra_simps)
  show ?thesis
    unfolding xtimer_periodic_wakeup_def periodic_wakeup_spec_def Let_def split_beta passed_elapsed rest by (rule refl)
qed

section \<open>Firing the timers that are due\<close>

lemma unat_widen: "unat (ucast (v::u32) :: u64) = unat v"
proof -
  have "unat v < 18446744073709551616" using unat_u32 [of v] by linarith
  then show ?thesis by (simp add: unsigned_ucast_eq take_bit_eq_mod)
qed

lemma halves_less: "unat (l::u32) * 4294967296 + unat (v::u32) < 18446744073709551616"
  using unat_u32 [of l] unat_u32 [of v] by linarith

lemma unat_timer_val:
  "unat (push_bit 32 (ucast (l::u32)) + ucast (v::u32) :: u64) = unat l * 2 ^ 32 + unat v"
  using halves_less [of l v] by (simp add: push_bit_eq_mult unat_word_ariths unat_widen)

lemma time_left_eq:
  "time_left clk reference t s =
     (if clk (reads s) < reference then 0 else of_nat (due s t - unat (clk (reads s))), s\<lparr>reads := Suc (reads s)\<rparr>)"
proof -
  let ?v = "push_bit 32 (ucast (long_target (timers s t))) + ucast (target (timers s t)) :: u64"
  have v: "unat ?v = due s t" unfolding due_def by (rule unat_timer_val)
  have n: "unat (ucast (clk (reads s)) :: u64) = unat (clk (reads s))"
    by (rule unat_widen)
  have "?v - ucast (clk (reads s)) = of_nat (due s t - unat (clk (reads s)))" if "?v > ucast (clk (reads s))"
  proof -
    have "ucast (clk (reads s)) \<le> ?v" using that by simp
    then have "unat (?v - ucast (clk (reads s))) = due s t - unat (clk (reads s))"
      by (simp add: unat_sub v n)
    then show ?thesis by (metis of_nat_unat ucast_id)
  qed
  moreover have "\<not> ?v > ucast (clk (reads s)) \<Longrightarrow> due s t - unat (clk (reads s)) = 0"
    by (simp add: word_less_nat_alt v n)
  ultimately show ?thesis by (simp add: time_left_def xtimer_now_def Let_def)
qed

text \<open>A timer after it fired, and the timers after the first ones of the queue fired.\<close>

definition fired :: "xt \<Rightarrow> nat list \<Rightarrow> nat \<Rightarrow> xtimer_t" where
  "fired s as = (\<lambda>a. if a \<in> set as then (timers s a)\<lparr>target := 0\<rparr> else timers s a)"

definition the_event :: "xt \<Rightarrow> nat \<Rightarrow> xt_event" where
  "the_event s a = callback_event (the (callback (timers s a))) (arg (timers s a)) s"

text \<open>
  What is assumed of the clock within one period of the counter: it does not run backwards, stays
  away from the wrap by the back-off, and reaches the times of the timers that are due in it.
\<close>

definition clock_ok :: "clock \<Rightarrow> u64 \<Rightarrow> xt \<Rightarrow> nat list \<Rightarrow> bool" where
  "clock_ok clk isr_backoff s as \<longleftrightarrow>
     mono clk \<and> (\<forall>k. unat (clk k) + unat isr_backoff \<le> 2 ^ 32) \<and>
     (\<forall>a \<in> set as. long_target (timers s a) = 0 \<longrightarrow> (\<exists>k. target (timers s a) \<le> clk k))"

lemma unat_left: "unat (of_nat (due s t - v) :: u64) = due s t - v"
proof -
  have "due s t - v < 2 ^ LENGTH(64)"
    using halves_less [of "long_target (timers s t)" "target (timers s t)"] by (simp add: due_def)
  then show ?thesis by (simp only: unat_of_nat mod_less)
qed

lemma spin_until_ok:
  assumes "mono clk" "reference \<le> clk (reads s)" "due s t \<le> unat (clk k)"
  shows "\<exists>n \<ge> reads s. spin_until clk reference t s = Some (s\<lparr>reads := Suc n\<rparr>) \<and> due s t \<le> unat (clk n)"
  using assms(2-)
proof (induction "k - reads s" arbitrary: s rule: less_induct)
  case less
  show ?case
  proof (cases "due s t \<le> unat (clk (reads s))")
    case True
    then show ?thesis using less.prems by (intro exI [of _ "reads s"]) (subst spin_until.simps, simp add: time_left_eq not_less)
  next
    case False
    let ?s = "s\<lparr>reads := Suc (reads s)\<rparr>"
    have d: "due ?s t = due s t" by (simp add: due_def)
    have "reads s < k"
    proof (rule ccontr)
      assume "\<not> reads s < k"
      then have "clk k \<le> clk (reads s)" using assms(1) by (simp add: monoD)
      with False less.prems(2) show False by (simp add: word_le_nat_alt)
    qed
    moreover have "reference \<le> clk (Suc (reads s))"
      using less.prems(1) monoD [OF assms(1), of "reads s" "Suc (reads s)"] by simp
    moreover from \<open>reads s < k\<close> have "k - Suc (reads s) < k - reads s" by simp
    ultimately obtain n where n: "n \<ge> Suc (reads s)" "spin_until clk reference t ?s = Some (?s\<lparr>reads := Suc n\<rparr>)"
      "due s t \<le> unat (clk n)"
      using less.hyps [of ?s] less.prems(2) d by auto
    have "of_nat (due s t - unat (clk (reads s))) \<noteq> (0 :: u64)"
      using False unat_left [of s t "unat (clk (reads s))"] by (metis diff_is_0_eq unsigned_0)
    then have "spin_until clk reference t s = spin_until clk reference t ?s"
      using less.prems(1) by (subst spin_until.simps) (auto simp: time_left_eq)
    with n show ?thesis by (intro exI [of _ n]) simp
  qed
qed

text \<open>One timer fires.\<close>

definition fire_one :: "nat \<Rightarrow> nat \<Rightarrow> xt \<Rightarrow> xt" where
  "fire_one a n s = s\<lparr>timers := fired s [a], timer_list_head := next_timer (timers s a),
     events := events s @ [the_event s a], reads := n\<rparr>"

lemma fired_shoot:
  assumes "callback (timers s a) \<noteq> None"
  shows "shoot a (set_target a 0 (s\<lparr>reads := n, timer_list_head := next_timer (timers s a)\<rparr>)) = Some (fire_one a n s)"
proof -
  obtain f where f: "callback (timers s a) = Some f" using assms by blast
  have "callback_event f x (set_target a v (s\<lparr>reads := n, timer_list_head := p\<rparr>)) = callback_event f x s" for x v p
    by (cases f) (simp_all add: set_target_def)
  with f show ?thesis
    by (simp add: shoot_def fire_one_def the_event_def emit_def) (simp add: set_target_def fired_def fun_eq_iff)
qed

lemma fire_one_sel [simp]:
  "reads (fire_one a n s) = n" "in_handler (fire_one a n s) = in_handler s"
  "wrap_counter (fire_one a n s) = wrap_counter s" "sender_pid (fire_one a n s) = sender_pid s"
  "timer_list_head (fire_one a n s) = next_timer (timers s a)"
  "timers (fire_one a n s) = fired s [a]" "events (fire_one a n s) = events s @ [the_event s a]"
  by (simp_all add: fire_one_def)

lemma fired_other [simp]: "b \<noteq> a \<Longrightarrow> timers (fire_one a n s) b = timers s b"
  by (simp add: fired_def)

lemma queue_reads [simp]:
  "queue (s\<lparr>reads := r\<rparr>) = queue s" "queue (s\<lparr>in_handler := h\<rparr>) = queue s" "queue (s\<lparr>reads := r, in_handler := h\<rparr>) = queue s"
  "due (s\<lparr>reads := r\<rparr>) = due s"
  by (simp_all add: queue_def due_def fun_eq_iff)

lemma seg_fired [simp]: "seg (fired s xs) p as q = seg (timers s) p as q"
  by (rule seg_frame) (simp add: fired_def)

lemma queue_fire_one: "queue s (a # as) \<Longrightarrow> queue (fire_one a n s) as"
  by (simp add: queue_def)

lemma fire_one_keeps:
  assumes "a \<notin> set as"
  shows "map (due (fire_one a n s)) as = map (due s) as" "map (the_event (fire_one a n s)) as = map (the_event s) as"
    "clock_ok clk isr (fire_one a n s) as = clock_ok clk isr s as"
    "(\<forall>b \<in> set as. callback (timers (fire_one a n s) b) \<noteq> None) = (\<forall>b \<in> set as. callback (timers s b) \<noteq> None)"
    "fired (fire_one a n s) as = fired s (a # as)"
proof -
  have t: "timers (fire_one a n s) b = timers s b" if "b \<in> set as" for b using that assms by (intro fired_other) auto
  then show "map (due (fire_one a n s)) as = map (due s) as" by (simp add: due_def)
  have "callback_event f x (fire_one a n s) = callback_event f x s" for f x by (cases f) simp_all
  then show "map (the_event (fire_one a n s)) as = map (the_event s) as" using t by (simp add: the_event_def)
  show "clock_ok clk isr (fire_one a n s) as = clock_ok clk isr s as" using t by (simp add: clock_ok_def cong: ball_cong)
  show "(\<forall>b \<in> set as. callback (timers (fire_one a n s) b) \<noteq> None) = (\<forall>b \<in> set as. callback (timers s b) \<noteq> None)"
    using t by (simp cong: ball_cong)
  show "fired (fire_one a n s) as = fired s (a # as)" by (simp add: fired_def fun_eq_iff)
qed

text \<open>
  The outcome of firing the first \<open>n\<close> timers of the queue, each when a reading of the clock has
  reached its time.
\<close>

definition fires :: "clock \<Rightarrow> xt \<Rightarrow> nat list \<Rightarrow> nat \<Rightarrow> xt \<Rightarrow> bool" where
  "fires clk s as n s' \<longleftrightarrow>
     queue s' (drop n as) \<and> timers s' = fired s (take n as) \<and> reads s \<le> reads s' \<and>
     events s' = events s @ map (the_event s) (take n as) \<and>
     wrap_counter s' = wrap_counter s \<and> in_handler s' = in_handler s \<and> sender_pid s' = sender_pid s \<and>
     (\<forall>a \<in> set (take n as). due s a \<le> unat (clk (reads s')))"

lemma fires_Suc:
  assumes "fires clk (fire_one a k s) as n s'" "a \<notin> set as" "due s a \<le> unat (clk k)" "reads s \<le> k" "mono clk"
  shows "fires clk s (a # as) (Suc n) s'"
proof -
  have sub: "a \<notin> set (take n as)" using assms(2) by (auto dest: in_set_takeD)
  note keep = fire_one_keeps(1,2,5) [OF sub, where n = k and s = s]
  have "unat (clk k) \<le> unat (clk (reads s'))"
    using assms(1,5) by (simp add: fires_def monoD word_le_nat_alt [symmetric])
  moreover have "due (fire_one a k s) b = due s b" if "b \<in> set (take n as)" for b
    using keep(1) that by (simp add: map_eq_conv)
  ultimately show ?thesis using assms keep(2,3) by (auto simp: fires_def)
qed

lemma fire_due_ok:
  assumes "queue s as" "clock_ok clk isr s as" "\<forall>a \<in> set as. callback (timers s a) \<noteq> None" "reference \<le> clk (reads s)"
  shows "\<exists>n s'. n \<le> length as \<and> fire_due clk isr reference s = Some s' \<and> fires clk s as n s' \<and>
    (0 < isr \<longrightarrow> as \<noteq> [] \<longrightarrow> due s (hd as) \<le> unat reference \<longrightarrow> 0 < n)"
  using assms
proof (induction as arbitrary: s)
  case Nil
  then show ?case by (intro exI [of _ 0] exI [of _ s], subst fire_due.simps) (simp add: queue_def fires_def fired_def)
next
  case (Cons a as)
  have mono: "mono clk" using Cons.prems(2) by (simp add: clock_ok_def)
  have head: "timer_list_head s = Some a" "a \<notin> set as"
    using Cons.prems(1) seg_distinct [of "timers s" "timer_list_head s" "a # as"] by (auto simp: queue_def)
  let ?l = "of_nat (due s a - unat (clk (reads s))) :: u64"
  let ?s1 = "s\<lparr>reads := Suc (reads s)\<rparr>"
  have left: "time_left clk reference a s = (?l, ?s1)" using Cons.prems(4) by (simp add: time_left_eq not_less)
  have l: "unat ?l = due s a - unat (clk (reads s))" by (rule unat_left)
  show ?case
  proof (cases "?l < isr")
    case False
    then have "fire_due clk isr reference s = Some ?s1" using head left by (subst fire_due.simps) simp
    moreover have "\<not> (0 < isr \<and> due s a \<le> unat reference)"
      using False Cons.prems(4) l by (auto simp: word_less_nat_alt word_le_nat_alt)
    ultimately show ?thesis
      using Cons.prems(1) by (intro exI [of _ 0] exI [of _ ?s1]) (auto simp: fires_def fired_def queue_def)
  next
    case True
    have "unat (clk (reads s)) + unat isr \<le> 2 ^ 32" using Cons.prems(2) by (simp add: clock_ok_def)
    with True l have "due s a < 2 ^ 32" by (simp add: word_less_nat_alt)
    then have "long_target (timers s a) = 0" by (simp add: due_def word_unat_eq_iff)
    moreover from this obtain k where "target (timers s a) \<le> clk k"
      using Cons.prems(2) by (auto simp: clock_ok_def)
    ultimately have k: "due ?s1 a \<le> unat (clk k)" by (simp add: due_def word_le_nat_alt)
    have "reference \<le> clk (reads ?s1)"
      using Cons.prems(4) monoD [OF mono, of "reads s" "Suc (reads s)"] by simp
    from spin_until_ok [OF mono this k] obtain m where
      m: "m \<ge> Suc (reads s)" "spin_until clk reference a ?s1 = Some (s\<lparr>reads := Suc m\<rparr>)" "due s a \<le> unat (clk m)"
      by (auto simp: due_def)
    let ?s2 = "fire_one a (Suc m) s"
    have "callback (timers s a) \<noteq> None" using Cons.prems(3) by simp
    then have "fire_due clk isr reference s = fire_due clk isr reference ?s2"
      using head left True m(2) fired_shoot [of s a "Suc m"] by (subst fire_due.simps) simp
    moreover have ref: "reference \<le> clk (reads ?s2)"
      using Cons.prems(4) monoD [OF mono, of "reads s" "Suc m"] m(1) by simp
    have tl: "clock_ok clk isr s as" "\<forall>b \<in> set as. callback (timers s b) \<noteq> None"
      using Cons.prems(2,3) by (simp_all add: clock_ok_def)
    from Cons.IH [OF queue_fire_one [OF Cons.prems(1)] _ _ ref] tl fire_one_keeps(3,4) [OF head(2), where n = "Suc m" and s = s]
    obtain n s' where n: "n \<le> length as" "fire_due clk isr reference ?s2 = Some s'" "fires clk ?s2 as n s'"
      by blast
    moreover have "due s a \<le> unat (clk (Suc m))"
      using m(3) monoD [OF mono, of m "Suc m"] by (simp add: word_le_nat_alt)
    then have "fires clk s (a # as) (Suc n) s'"
      using fires_Suc [OF n(3) head(2) _ _ mono] m(1) by simp
    ultimately show ?thesis by (intro exI [of _ "Suc n"] exI [of _ s']) simp
  qed
qed

lemma fires_later:
  assumes "fires clk s as n s1" "distinct as" "b \<in> set (drop n as)"
  shows "timers s1 b = timers s b" "the_event s1 b = the_event s b" "due s1 b = due s b"
proof -
  have "b \<notin> set (take n as)"
    using assms(2,3) distinct_append [of "take n as" "drop n as"] by (auto simp del: distinct_append)
  then show t: "timers s1 b = timers s b" using assms(1) by (simp add: fires_def fired_def)
  then show "due s1 b = due s b" by (simp add: due_def)
  have "callback_event f x s1 = callback_event f x s" for f x
    using assms(1) by (cases f) (simp_all add: fires_def)
  with t show "the_event s1 b = the_event s b" by (simp add: the_event_def)
qed

text \<open>
  The outcome of the interrupt: some first timers of the queue have fired, in order, each when its
  time was reached, and the counter is programmed for the next one if it is due in this period.
\<close>

definition armed_for :: "xt \<Rightarrow> nat list \<Rightarrow> xt_event list" where
  "armed_for s as = (case as of [] \<Rightarrow> []
     | t # _ \<Rightarrow> if long_target (timers s t) = 0 then [timer_set_absolute (target (timers s t))] else [])"

definition callback_done :: "clock \<Rightarrow> xt \<Rightarrow> nat list \<Rightarrow> nat \<Rightarrow> xt \<Rightarrow> bool" where
  "callback_done clk s as n s' \<longleftrightarrow>
     queue s' (drop n as) \<and> timers s' = fired s (take n as) \<and> \<not> in_handler s' \<and> reads s \<le> reads s' \<and>
     events s' = events s @ map (the_event s) (take n as) @ armed_for s (drop n as) \<and>
     wrap_counter s' = wrap_counter s \<and>
     (\<forall>a \<in> set (take n as). due s a \<le> unat (clk (reads s'))) \<and>
     (drop n as \<noteq> [] \<longrightarrow> unat (clk (reads s' - 1)) \<le> due s (hd (drop n as)))"

lemma callback_done_compose:
  assumes "fires clk s as n s1" "distinct as" "mono clk" "callback_done clk (s1\<lparr>reads := r\<rparr>) (drop n as) m s'"
    and "reads s1 \<le> r"
  shows "callback_done clk s as (n + m) s'"
proof -
  let ?s1 = "s1\<lparr>reads := r\<rparr>"
  note later = fires_later [OF assms(1,2)]
  have split: "take (n + m) as = take n as @ take m (drop n as)" by (rule take_add)
  have ev: "the_event ?s1 b = the_event s b" "due ?s1 b = due s b" "timers ?s1 b = timers s b"
    if "b \<in> set (drop n as)" for b
  proof -
    have "callback_event f x ?s1 = callback_event f x s1" for f x by (cases f) simp_all
    then show "the_event ?s1 b = the_event s b" using later(2) [OF that] by (simp add: the_event_def)
    show "due ?s1 b = due s b" "timers ?s1 b = timers s b" using later(1,3) [OF that] by (simp_all add: due_def)
  qed
  have sub: "set (take m (drop n as)) \<subseteq> set (drop n as)" by (rule set_take_subset)
  have events: "map (the_event ?s1) (take m (drop n as)) = map (the_event s) (take m (drop n as))"
    using ev(1) sub by (intro map_cong) auto
  have armed: "armed_for ?s1 (drop m (drop n as)) = armed_for s (drop m (drop n as))"
  proof (cases "drop m (drop n as)")
    case (Cons t ts)
    then have "t \<in> set (drop n as)" using set_drop_subset [of m "drop n as"] by auto
    with Cons ev(3) show ?thesis by (simp add: armed_for_def)
  qed (simp add: armed_for_def)
  have fired: "fired ?s1 (take m (drop n as)) = fired s (take (n + m) as)"
    using assms(1) by (auto simp: fired_def fires_def split fun_eq_iff)
  have le: "reads s1 \<le> reads s'" using assms(4,5) by (simp add: callback_done_def)
  have "\<forall>a \<in> set (take n as). due s a \<le> unat (clk (reads s'))"
    using assms(1) monoD [OF assms(3) le] by (fastforce simp: fires_def word_le_nat_alt)
  moreover have "\<forall>a \<in> set (take m (drop n as)). due s a \<le> unat (clk (reads s'))"
    using assms(4) ev(2) sub by (fastforce simp: callback_done_def)
  ultimately have reached: "\<forall>a \<in> set (take (n + m) as). due s a \<le> unat (clk (reads s'))"
    unfolding split by auto
  have next_due: "drop m (drop n as) \<noteq> [] \<longrightarrow> unat (clk (reads s' - 1)) \<le> due s (hd (drop m (drop n as)))"
    using assms(4) ev(2) hd_in_set [of "drop m (drop n as)"] set_drop_subset [of m "drop n as"]
    by (fastforce simp: callback_done_def)
  have rest: "drop (n + m) as = drop m (drop n as)" by (simp add: add.commute)
  show ?thesis
    using assms(1,4) events armed fired next_due reached le
    unfolding callback_done_def rest fires_def split by (simp del: drop_drop)
qed

text \<open>One round of \<open>in_the_past\<close>: it is the last, or it goes on with a timer that is due.\<close>

lemma past_round:
  assumes "queue s as" "clock_ok clk isr s as" "\<forall>a \<in> set as. callback (timers s a) \<noteq> None"
    and "reference \<le> clk (reads s)"
  shows "\<exists>n s1. n \<le> length as \<and> fires clk s as n s1 \<and>
    (0 < isr \<longrightarrow> as \<noteq> [] \<longrightarrow> due s (hd as) \<le> unat reference \<longrightarrow> 0 < n) \<and>
    ((\<exists>s'. in_the_past clk isr reference s = Some s' \<and> callback_done clk s as n s') \<or>
     (in_the_past clk isr reference s = in_the_past clk isr (clk (reads s1)) (s1\<lparr>reads := Suc (reads s1)\<rparr>) \<and>
      drop n as \<noteq> [] \<and> due s1 (hd (drop n as)) \<le> unat (clk (reads s1))))"
proof -
  from fire_due_ok [OF assms] obtain n s1 where
    n: "n \<le> length as" "fire_due clk isr reference s = Some s1" "fires clk s as n s1"
      "0 < isr \<longrightarrow> as \<noteq> [] \<longrightarrow> due s (hd as) \<le> unat reference \<longrightarrow> 0 < n" by blast
  have mono: "mono clk" using assms(2) by (simp add: clock_ok_def)
  have dist: "distinct as" using assms(1) by (simp add: queue_def seg_distinct)
  let ?s2 = "s1\<lparr>reads := Suc (reads s1)\<rparr>"
  have run: "in_the_past clk isr reference s =
      (case timer_list_head s1 of
               None \<Rightarrow> Some (?s2\<lparr>in_handler := False\<rparr>)
             | Some t \<Rightarrow>
                 if long_target (timers s1 t) = 0
                 then if clk (reads s1) > target (timers s1 t) then in_the_past clk isr (clk (reads s1)) ?s2
                      else Some (lltimer_set (target (timers s1 t)) (?s2\<lparr>in_handler := False\<rparr>))
                 else Some (?s2\<lparr>in_handler := False\<rparr>))"
    using n(2) by (subst in_the_past.simps) (simp add: xtimer_now_def split: option.split)
  have reached: "\<forall>a \<in> set (take n as). due s a \<le> unat (clk (Suc (reads s1)))"
    using n(3) monoD [OF mono, of "reads s1" "Suc (reads s1)"] by (fastforce simp: fires_def word_le_nat_alt)
  show ?thesis
  proof (cases "drop n as")
    case Nil
    then have "timer_list_head s1 = None" using n(3) by (simp add: fires_def queue_def)
    then have "in_the_past clk isr reference s = Some (?s2\<lparr>in_handler := False\<rparr>)" using run by simp
    moreover have "callback_done clk s as n (?s2\<lparr>in_handler := False\<rparr>)"
      using n(3) Nil reached by (simp add: callback_done_def fires_def armed_for_def queue_def)
    ultimately show ?thesis using n(1,3,4) by blast
  next
    case (Cons t ts)
    then have head: "timer_list_head s1 = Some t" using n(3) by (simp add: fires_def queue_def)
    have t: "timers s1 t = timers s t" "due s1 t = due s t" using fires_later [OF n(3) dist, of t] Cons by simp_all
    show ?thesis
    proof (cases "long_target (timers s t) = 0 \<and> clk (reads s1) > target (timers s t)")
      case True
      then have "in_the_past clk isr reference s = in_the_past clk isr (clk (reads s1)) ?s2" using run head t by simp
      moreover have "due s1 t \<le> unat (clk (reads s1))" using True t by (simp add: due_def word_less_nat_alt)
      ultimately show ?thesis using n(1,3,4) Cons by (intro exI [of _ n] exI [of _ s1]) simp
    next
      case False
      let ?s' = "if long_target (timers s t) = 0 then lltimer_set (target (timers s t)) (?s2\<lparr>in_handler := False\<rparr>)
                 else ?s2\<lparr>in_handler := False\<rparr>"
      have "in_the_past clk isr reference s = Some ?s'" using run head t False by auto
      moreover have "unat (clk (reads s1)) \<le> due s t"
      proof (cases "long_target (timers s t) = 0")
        case True
        with False show ?thesis by (simp add: due_def word_less_nat_alt not_less)
      next
        case far: False
        then have "1 \<le> unat (long_target (timers s t))" by (simp add: Suc_leI unat_gt_0)
        then have "1 * 4294967296 \<le> unat (long_target (timers s t)) * 4294967296" by (rule mult_le_mono1)
        moreover have "due s t = unat (long_target (timers s t)) * 4294967296 + unat (target (timers s t))"
          by (simp add: due_def)
        ultimately show ?thesis using unat_u32 [of "clk (reads s1)"] by linarith
      qed
      then have "callback_done clk s as n ?s'"
        using n(3) Cons reached
        by (simp add: callback_done_def fires_def armed_for_def) (simp add: lltimer_set_def emit_def)
      ultimately show ?thesis using n(1,3,4) by blast
    qed
  qed
qed

lemma round_goes_on:
  assumes "fires clk s as n s1" "queue s as" "clock_ok clk isr s as" "\<forall>a \<in> set as. callback (timers s a) \<noteq> None"
  shows "queue (s1\<lparr>reads := r\<rparr>) (drop n as)" "clock_ok clk isr (s1\<lparr>reads := r\<rparr>) (drop n as)"
    "\<forall>a \<in> set (drop n as). callback (timers (s1\<lparr>reads := r\<rparr>) a) \<noteq> None"
proof -
  have d: "distinct as" using assms(2) by (simp add: queue_def seg_distinct)
  have "timers s1 a = timers s a \<and> a \<in> set as" if "a \<in> set (drop n as)" for a
    using fires_later [OF assms(1) d that] that by (auto dest: in_set_dropD)
  with assms show "clock_ok clk isr (s1\<lparr>reads := r\<rparr>) (drop n as)"
    "\<forall>a \<in> set (drop n as). callback (timers (s1\<lparr>reads := r\<rparr>) a) \<noteq> None"
    by (auto simp: clock_ok_def)
  show "queue (s1\<lparr>reads := r\<rparr>) (drop n as)" using assms(1) by (simp add: fires_def)
qed

lemma in_the_past_ok:
  assumes "queue s as" "clock_ok clk isr s as" "\<forall>a \<in> set as. callback (timers s a) \<noteq> None"
    and "reference \<le> clk (reads s)" "0 < isr" "as \<noteq> []" "due s (hd as) \<le> unat reference"
  shows "\<exists>n s'. n \<le> length as \<and> in_the_past clk isr reference s = Some s' \<and> callback_done clk s as n s'"
  using assms(1-4,6,7)
proof (induction "length as" arbitrary: s as reference rule: less_induct)
  case less
  from past_round [OF less.prems(1-4)] assms(5) less.prems(5,6) obtain n s1 where
    n: "n \<le> length as" "fires clk s as n s1" "0 < n" and
    last: "(\<exists>s'. in_the_past clk isr reference s = Some s' \<and> callback_done clk s as n s') \<or>
      (in_the_past clk isr reference s = in_the_past clk isr (clk (reads s1)) (s1\<lparr>reads := Suc (reads s1)\<rparr>) \<and>
       drop n as \<noteq> [] \<and> due s1 (hd (drop n as)) \<le> unat (clk (reads s1)))" by blast
  let ?s2 = "s1\<lparr>reads := Suc (reads s1)\<rparr>"
  note on = round_goes_on [OF n(2) less.prems(1-3), where r = "Suc (reads s1)"]
  have dist: "distinct as" using less.prems(1) by (simp add: queue_def seg_distinct)
  have mono: "mono clk" using less.prems(2) by (simp add: clock_ok_def)
  from last show ?case
  proof
    assume "\<exists>s'. in_the_past clk isr reference s = Some s' \<and> callback_done clk s as n s'"
    with n(1) show ?thesis by blast
  next
    assume go: "in_the_past clk isr reference s = in_the_past clk isr (clk (reads s1)) ?s2 \<and>
      drop n as \<noteq> [] \<and> due s1 (hd (drop n as)) \<le> unat (clk (reads s1))"
    have "length (drop n as) < length as" using n(3) less.prems(5) by simp
    moreover have "clk (reads s1) \<le> clk (reads ?s2)" using monoD [OF mono, of "reads s1" "Suc (reads s1)"] by simp
    moreover have "due ?s2 (hd (drop n as)) \<le> unat (clk (reads s1))" using go by (simp add: due_def)
    ultimately obtain m s' where m: "m \<le> length (drop n as)" "in_the_past clk isr (clk (reads s1)) ?s2 = Some s'"
      "callback_done clk ?s2 (drop n as) m s'"
      using less.hyps [of "drop n as" ?s2] on(1-3) go by blast
    from callback_done_compose [OF n(2) dist mono m(3)] have "callback_done clk s as (n + m) s'" by simp
    moreover have "n + m \<le> length as" using m(1) n(1) by simp
    ultimately show ?thesis using go m(2) by auto
  qed
qed

lemma in_the_past_returns:
  assumes "queue s as" "clock_ok clk isr s as" "\<forall>a \<in> set as. callback (timers s a) \<noteq> None"
    and "reference \<le> clk (reads s)" "0 < isr"
  shows "\<exists>n s'. n \<le> length as \<and> in_the_past clk isr reference s = Some s' \<and> callback_done clk s as n s'"
proof -
  from past_round [OF assms(1-4)] obtain n s1 where
    n: "n \<le> length as" "fires clk s as n s1" and
    last: "(\<exists>s'. in_the_past clk isr reference s = Some s' \<and> callback_done clk s as n s') \<or>
      (in_the_past clk isr reference s = in_the_past clk isr (clk (reads s1)) (s1\<lparr>reads := Suc (reads s1)\<rparr>) \<and>
       drop n as \<noteq> [] \<and> due s1 (hd (drop n as)) \<le> unat (clk (reads s1)))" by blast
  let ?s2 = "s1\<lparr>reads := Suc (reads s1)\<rparr>"
  note on = round_goes_on [OF n(2) assms(1-3), where r = "Suc (reads s1)"]
  have mono: "mono clk" using assms(2) by (simp add: clock_ok_def)
  have dist: "distinct as" using assms(1) by (simp add: queue_def seg_distinct)
  from last show ?thesis
  proof
    assume "\<exists>s'. in_the_past clk isr reference s = Some s' \<and> callback_done clk s as n s'"
    with n(1) show ?thesis by blast
  next
    assume go: "in_the_past clk isr reference s = in_the_past clk isr (clk (reads s1)) ?s2 \<and>
      drop n as \<noteq> [] \<and> due s1 (hd (drop n as)) \<le> unat (clk (reads s1))"
    have "clk (reads s1) \<le> clk (reads ?s2)" using monoD [OF mono, of "reads s1" "Suc (reads s1)"] by simp
    moreover have "due ?s2 (hd (drop n as)) \<le> unat (clk (reads s1))" using go by (simp add: due_def)
    ultimately obtain m s' where m: "m \<le> length (drop n as)" "in_the_past clk isr (clk (reads s1)) ?s2 = Some s'"
      "callback_done clk ?s2 (drop n as) m s'"
      using in_the_past_ok [OF on _ assms(5)] go by blast
    from callback_done_compose [OF n(2) dist mono m(3)] have "callback_done clk s as (n + m) s'" by simp
    moreover have "n + m \<le> length as" using m(1) n(1) by simp
    ultimately show ?thesis using go m(2) by auto
  qed
qed

text \<open>
  C20: The interrupt of the counter returns. It has fired some first timers of the queue, in their
  order, each when the clock had reached its time, and taken them out of the list; the other timers
  are unchanged, the clock had not passed the next one, and the counter is programmed for it when it
  is due before the counter wraps.
\<close>

theorem timer_callback_fires:
  assumes "queue s as" "clock_ok clk isr_backoff s as" "\<forall>a \<in> set as. callback (timers s a) \<noteq> None"
    and "0 < isr_backoff"
  shows "\<exists>n s'. n \<le> length as \<and> timer_callback clk isr_backoff s = Some s' \<and> callback_done clk s as n s'"
proof -
  let ?s = "s\<lparr>in_handler := True, reads := Suc (reads s)\<rparr>"
  have mono: "mono clk" using assms(2) by (simp add: clock_ok_def)
  have run: "timer_callback clk isr_backoff s = in_the_past clk isr_backoff (clk (reads s)) ?s"
    by (simp add: timer_callback_def xtimer_now_def)
  have h: "queue ?s as" "clock_ok clk isr_backoff ?s as" "\<forall>a \<in> set as. callback (timers ?s a) \<noteq> None"
    "clk (reads s) \<le> clk (reads ?s)"
    using assms(1-3) monoD [OF mono, of "reads s" "Suc (reads s)"] by (simp_all add: queue_def clock_ok_def)
  have same: "callback_done clk ?s as n s' \<Longrightarrow> callback_done clk s as n s'" for n s'
  proof -
    have "callback_event f x ?s = callback_event f x s" for f x by (cases f) simp_all
    then have "the_event ?s = the_event s" by (simp add: the_event_def fun_eq_iff)
    moreover have "due ?s = due s" "fired ?s = fired s" "armed_for ?s = armed_for s"
      by (simp_all add: due_def fired_def armed_for_def fun_eq_iff split: list.split)
    ultimately show "callback_done clk ?s as n s' \<Longrightarrow> callback_done clk s as n s'" by (simp add: callback_done_def)
  qed
  from in_the_past_returns [OF h assms(4)] run same show ?thesis by auto
qed

text \<open>A clock that is read at each tick.\<close>

definition ticking :: "u32 \<Rightarrow> clock" where
  "ticking limit n = (if n \<le> unat limit then of_nat n else limit)"

lemma unat_tick: "n \<le> unat (limit :: u32) \<Longrightarrow> unat (of_nat n :: u32) = n"
proof -
  assume "n \<le> unat limit"
  then have "n < 4294967296" using unat_u32 [of limit] by linarith
  then show ?thesis by (simp add: unat_of_nat)
qed

lemma ticking_mono: "mono (ticking limit)"
  by (rule monoI) (auto simp: ticking_def word_le_nat_alt unat_tick)

lemma ticking_le: "unat (ticking limit n) \<le> unat limit"
  by (simp add: ticking_def unat_tick)

theorem timer_callback_fires_witness:
  "\<exists>s n s'. queue s [0, 1] \<and> timer_callback (ticking 1000) 20 s = Some s' \<and> callback_done (ticking 1000) s [0, 1] n s'"
proof -
  let ?t = "\<lambda>p v. \<lparr>next_timer = p, target = v, long_target = 0, callback = Some (user_callback 7), arg = 1\<rparr>"
  let ?s = "(idle_timers [])\<lparr>timers := (\<lambda>_. ?t None 0)(0 := ?t (Some 1) 4, 1 := ?t None 900), timer_list_head := Some 0\<rparr>"
  have q: "queue ?s [0, 1]" by (simp add: queue_def)
  have "(20 :: u64) \<le> 20" by simp
  have "unat (ticking 1000 k) + unat (20 :: u64) \<le> 2 ^ 32" for k using ticking_le [of 1000 k] by simp
  moreover have "\<exists>k. 4 \<le> ticking 1000 k" "\<exists>k. 900 \<le> ticking 1000 k"
    by (intro exI [of _ 2000]; simp add: ticking_def)+
  ultimately have "clock_ok (ticking 1000) 20 ?s [0, 1]" by (simp add: clock_ok_def ticking_mono)
  from timer_callback_fires [OF q this] q show ?thesis by fastforce
qed

section \<open>The counter wraps round\<close>

text \<open>The time a timer is due, in ticks since the start.\<close>

definition due_since_start :: "xt \<Rightarrow> nat \<Rightarrow> nat" where
  "due_since_start s a = unat (wrap_counter s) * 2 ^ 32 + due s a"

definition one_period_less :: "xtimer_t \<Rightarrow> xtimer_t" where
  "one_period_less t = t\<lparr>long_target := long_target t - 1\<rparr>"

text \<open>The timers after the interrupt, when the first ones, \<open>fs\<close>, have fired.\<close>

definition wrapped :: "xt \<Rightarrow> nat list \<Rightarrow> nat list \<Rightarrow> nat \<Rightarrow> xtimer_t" where
  "wrapped s fs as = (\<lambda>a. if a \<in> set fs then (one_period_less (timers s a))\<lparr>target := 0\<rparr>
     else if a \<in> set as then one_period_less (timers s a) else timers s a)"

lemma seg_next_same:
  "(\<And>a. next_timer (h' a) = next_timer (h a)) \<Longrightarrow> seg h' p as q = seg h p as q"
  by (rule seg_frame) blast

lemma wrap_rest:
  assumes "seg (timers s) p as None" "\<forall>a \<in> set as. long_target (timers s a) \<noteq> 0"
  shows "wrap_loop clk p True s = Some (s\<lparr>timers := wrapped s [] as, reads := reads s + length as\<rparr>)"
  using assms
proof (induction as arbitrary: p s)
  case Nil
  then show ?case by (subst wrap_loop.simps) (simp add: wrapped_def)
next
  case (Cons a as)
  let ?s = "set_long_target a (long_target (timers s a) - 1) (s\<lparr>reads := Suc (reads s)\<rparr>)"
  have a: "p = Some a" "a \<notin> set as" using Cons.prems(1) seg_distinct by fastforce+
  have "wrap_loop clk p True s = wrap_loop clk (next_timer (timers s a)) True ?s"
    using a Cons.prems(2) by (subst wrap_loop.simps) (simp add: xtimer_now_def set_long_target_def)
  moreover have "wrap_loop clk (next_timer (timers s a)) True ?s =
      Some (?s\<lparr>timers := wrapped ?s [] as, reads := reads ?s + length as\<rparr>)"
  proof (rule Cons.IH)
    show "seg (timers ?s) (next_timer (timers s a)) as None"
      using Cons.prems(1) seg_next_same [of "timers ?s" "timers s"] by (simp add: set_long_target_def)
    show "\<forall>b \<in> set as. long_target (timers ?s b) \<noteq> 0"
      using Cons.prems(2) a(2) by (auto simp: set_long_target_def)
  qed
  moreover have "wrapped ?s [] as = wrapped s [] (a # as)"
    using a(2) by (auto simp: wrapped_def set_long_target_def one_period_less_def fun_eq_iff)
  ultimately show ?case by (simp add: set_long_target_def)
qed

text \<open>The timers that fire because their time has passed by the \<open>k\<close>-th reading.\<close>

definition overdue :: "clock \<Rightarrow> xt \<Rightarrow> nat \<Rightarrow> nat \<Rightarrow> bool" where
  "overdue clk s k a \<longleftrightarrow> long_target (timers s a) = 1 \<and> target (timers s a) < clk k"

definition wrap_done :: "clock \<Rightarrow> xt \<Rightarrow> nat list \<Rightarrow> nat \<Rightarrow> xt \<Rightarrow> bool" where
  "wrap_done clk s as n s' \<longleftrightarrow>
     queue s' (drop n as) \<and> timers s' = wrapped s (take n as) as \<and> reads s' = reads s + length as \<and>
     events s' = events s @ map (the_event s) (take n as) @
       (if drop n as \<noteq> [] \<and> long_target (timers s (hd (drop n as))) = 1 \<and> \<not> in_handler s
        then [timer_set_absolute (target (timers s (hd (drop n as))))] else []) \<and>
     wrap_counter s' = wrap_counter s \<and> in_handler s' = in_handler s \<and>
     (\<forall>i < n. overdue clk s (reads s + i) (as ! i)) \<and>
     (drop n as \<noteq> [] \<longrightarrow> \<not> overdue clk s (reads s + n) (hd (drop n as)))"

lemma wrap_loop_ok:
  assumes "queue s as" "\<forall>a \<in> set as. long_target (timers s a) \<noteq> 0 \<and> callback (timers s a) \<noteq> None"
  shows "\<exists>n s'. n \<le> length as \<and> wrap_loop clk (timer_list_head s) False s = Some s' \<and> wrap_done clk s as n s'"
  using assms
proof (induction as arbitrary: s)
  case Nil
  then show ?case
    by (intro exI [of _ 0] exI [of _ s], subst wrap_loop.simps) (simp add: queue_def wrap_done_def wrapped_def)
next
  case (Cons a as)
  let ?s1 = "set_long_target a (long_target (timers s a) - 1) (s\<lparr>reads := Suc (reads s)\<rparr>)"
  have head: "timer_list_head s = Some a" and a: "a \<notin> set as"
    using Cons.prems(1) seg_distinct [of "timers s" "timer_list_head s" "a # as"] by (auto simp: queue_def)
  have l1: "long_target (timers s a) - 1 = 0 \<longleftrightarrow> long_target (timers s a) = 1" by (simp add: eq_iff_diff_eq_0 [symmetric])
  show ?case
  proof (cases "overdue clk s (reads s) a")
    case False
    let ?s2 = "if long_target (timers s a) = 1 then lltimer_set (target (timers s a)) ?s1 else ?s1"
    have "wrap_loop clk (timer_list_head s) False s = wrap_loop clk (next_timer (timers s a)) True ?s2"
      using head False Cons.prems(2) l1
      by (subst wrap_loop.simps) (auto simp: xtimer_now_def set_long_target_def overdue_def Let_def)
    moreover have t: "timers ?s2 = timers ?s1" "reads ?s2 = Suc (reads s)" "timer_list_head ?s2 = Some a"
      using head by (auto simp: lltimer_set_def emit_def set_long_target_def)
    have "seg (timers ?s2) (next_timer (timers s a)) as None"
      using Cons.prems(1) seg_next_same [of "timers ?s1" "timers s"] unfolding t by (simp add: queue_def set_long_target_def)
    moreover have "\<forall>b \<in> set as. long_target (timers ?s2 b) \<noteq> 0"
      using Cons.prems(2) a unfolding t by (auto simp: set_long_target_def)
    ultimately have run: "wrap_loop clk (timer_list_head s) False s =
        Some (?s2\<lparr>timers := wrapped ?s2 [] as, reads := Suc (reads s) + length as\<rparr>)"
      using wrap_rest [of ?s2 "next_timer (timers s a)" as clk] t(2) by simp
    have w: "wrapped ?s2 [] as = wrapped s [] (a # as)"
      using a unfolding wrapped_def t by (auto simp: set_long_target_def one_period_less_def fun_eq_iff)
    have "queue (?s2\<lparr>timers := wrapped s [] (a # as), reads := Suc (reads s) + length as\<rparr>) (a # as)"
      using Cons.prems(1) t(3) head seg_next_same [of "wrapped s [] (a # as)" "timers s"]
      by (simp add: queue_def wrapped_def one_period_less_def)
    then have "wrap_done clk s (a # as) 0 (?s2\<lparr>timers := wrapped ?s2 [] as, reads := Suc (reads s) + length as\<rparr>)"
      using False unfolding w by (simp add: wrap_done_def) (simp add: lltimer_set_def emit_def set_long_target_def)
    with run show ?thesis by (intro exI [of _ 0]) simp
  next
    case True
    let ?s2 = "s\<lparr>timers := wrapped s [a] [], timer_list_head := next_timer (timers s a),
      events := events s @ [the_event s a], reads := Suc (reads s)\<rparr>"
    obtain f where f: "callback (timers s a) = Some f" using Cons.prems(2) by auto
    have "callback_event f x (set_target a 0 ?s1) = callback_event f x s" for x
      by (cases f) (simp_all add: set_target_def set_long_target_def)
    then have "shoot_now a ?s1 = Some ?s2"
      using f by (simp add: shoot_now_def shoot_def the_event_def emit_def)
        (simp add: set_target_def set_long_target_def wrapped_def one_period_less_def fun_eq_iff)
    then have run: "wrap_loop clk (timer_list_head s) False s = wrap_loop clk (timer_list_head ?s2) False ?s2"
      using head True Cons.prems(2) l1
      by (subst wrap_loop.simps) (simp add: xtimer_now_def set_long_target_def overdue_def Let_def wrapped_def one_period_less_def)
    have same: "timers ?s2 b = timers s b" if "b \<in> set as" for b using that a by (auto simp: wrapped_def)
    have "queue ?s2 as"
      using Cons.prems(1) seg_next_same [of "wrapped s [a] []" "timers s"]
      by (simp add: queue_def wrapped_def one_period_less_def)
    moreover have "\<forall>b \<in> set as. long_target (timers ?s2 b) \<noteq> 0 \<and> callback (timers ?s2 b) \<noteq> None"
      using Cons.prems(2) same by simp
    ultimately obtain n s' where n: "n \<le> length as" "wrap_loop clk (timer_list_head ?s2) False ?s2 = Some s'"
      "wrap_done clk ?s2 as n s'" using Cons.IH [of ?s2] by blast
    have "callback_event g x ?s2 = callback_event g x s" for g x by (cases g) simp_all
    then have ev: "map (the_event ?s2) (take n as) = map (the_event s) (take n as)"
      using same by (intro map_cong) (auto simp: the_event_def dest: in_set_takeD)
    have w: "wrapped ?s2 (take n as) as = wrapped s (a # take n as) (a # as)"
      using a by (auto simp: wrapped_def fun_eq_iff dest: in_set_takeD)
    have od: "overdue clk ?s2 k b = overdue clk s k b" if "b \<in> set as" for k b
      using same [OF that] by (simp add: overdue_def)
    have hd: "hd (drop n as) \<in> set as" if "drop n as \<noteq> []"
      using hd_in_set [OF that] by (rule in_set_dropD)
    have "overdue clk s (reads s + i) ((a # as) ! i)" if "i < Suc n" for i
      using that n(1,3) True od by (cases i) (auto simp: wrap_done_def)
    moreover have "drop n as \<noteq> [] \<longrightarrow> \<not> overdue clk s (reads s + Suc n) (hd (drop n as))"
      using n(3) od hd by (auto simp: wrap_done_def)
    ultimately have "wrap_done clk s (a # as) (Suc n) s'"
      using n(3) ev hd same unfolding wrap_done_def w by auto
    with run n(1,2) show ?thesis by (intro exI [of _ "Suc n"] exI [of _ s']) simp
  qed
qed

lemma wrapped_due:
  assumes "a \<in> set as" "a \<notin> set fs" "long_target (timers s a) \<noteq> 0" "timers s' = wrapped s fs as"
    and "unat (wrap_counter s') = Suc (unat (wrap_counter s))"
  shows "due_since_start s' a = due_since_start s a"
proof -
  have "1 \<le> long_target (timers s a)" using assms(3) by (simp add: word_le_nat_alt Suc_leI unat_gt_0)
  then have "unat (long_target (timers s a) - 1) = unat (long_target (timers s a)) - 1" by (simp add: unat_sub)
  moreover have "0 < unat (long_target (timers s a))" using assms(3) by (simp add: unat_gt_0)
  ultimately show ?thesis
    using assms by (simp add: due_since_start_def due_def wrapped_def one_period_less_def algebra_simps)
qed

text \<open>
  C21: When the counter wraps while no timer of the ended period is left in the queue (the code asserts
  that), the interrupt returns and has fired exactly the overdue timers at the front of the queue, in
  order: each that fired was due before the time read for it, and the first one that stays was not. The
  64-bit times are kept: every timer that stays is due at the same time since the start as before, and
  the counter is programmed for the next one when it is due in the new period.
\<close>

theorem timer_wrap_keeps_times:
  assumes "queue s as" "\<forall>a \<in> set as. long_target (timers s a) \<noteq> 0 \<and> callback (timers s a) \<noteq> None"
    and "unat (wrap_counter s) + 1 < 2 ^ 32" "\<not> in_handler s"
  shows "\<exists>n s'. n \<le> length as \<and> timer_wrap clk s = Some s' \<and> queue s' (drop n as) \<and> wrap_counter s' = wrap_counter s + 1 \<and>
    events s' = events s @ map (the_event s) (take n as) @ armed_for s' (drop n as) \<and>
    (\<forall>a \<in> set (drop n as). due_since_start s' a = due_since_start s a) \<and>
    (\<forall>i < n. due_since_start s (as ! i) < unat (wrap_counter s') * 2 ^ 32 + unat (clk (reads s + i))) \<and>
    (n < length as \<longrightarrow> unat (wrap_counter s') * 2 ^ 32 + unat (clk (reads s + n)) \<le> due_since_start s (as ! n))"
proof -
  let ?s = "s\<lparr>wrap_counter := wrap_counter s + 1\<rparr>"
  have run: "timer_wrap clk s = wrap_loop clk (timer_list_head ?s) False ?s" by (simp add: timer_wrap_def)
  have wc: "unat (wrap_counter ?s) = Suc (unat (wrap_counter s))"
    using assms(3) by (simp add: unat_word_ariths)
  have q: "queue ?s as" using assms(1) by (simp add: queue_def)
  from wrap_loop_ok [OF q, of clk] assms(2) obtain n s' where
    n: "n \<le> length as" "wrap_loop clk (timer_list_head ?s) False ?s = Some s'" "wrap_done clk ?s as n s'" by auto
  have "wrapped ?s = wrapped s" by (simp add: wrapped_def fun_eq_iff)
  then have s': "timers s' = wrapped s (take n as) as" "wrap_counter s' = wrap_counter ?s"
    using n(3) by (simp_all add: wrap_done_def)
  have dist: "distinct (take n as @ drop n as)" using assms(1) by (simp add: queue_def seg_distinct)
  then have rest: "a \<in> set as \<and> a \<notin> set (take n as)" if "a \<in> set (drop n as)" for a
    using that by (auto dest: in_set_dropD simp del: append_take_drop_id)
  have kept: "due_since_start s' a = due_since_start s a" if "a \<in> set (drop n as)" for a
    using wrapped_due [of a as "take n as" s s'] rest [OF that] assms(2) s' wc by auto
  have fired: "due_since_start s (as ! i) < unat (wrap_counter s') * 2 ^ 32 + unat (clk (reads s + i))" if "i < n" for i
    using n(3) that wc s'(2)
    by (auto simp: wrap_done_def overdue_def due_since_start_def due_def word_less_nat_alt)
  have "callback_event f x ?s = callback_event f x s" for f x by (cases f) simp_all
  then have ev: "the_event ?s = the_event s" by (simp add: the_event_def fun_eq_iff)
  have "(if drop n as \<noteq> [] \<and> long_target (timers s (hd (drop n as))) = 1
        then [timer_set_absolute (target (timers s (hd (drop n as))))] else []) = armed_for s' (drop n as)"
  proof (cases "drop n as")
    case (Cons t ts)
    with rest have "t \<in> set as \<and> t \<notin> set (take n as)" by simp
    with Cons show ?thesis
      by (simp add: armed_for_def s' wrapped_def one_period_less_def eq_iff_diff_eq_0 [symmetric])
  qed (simp add: armed_for_def)
  moreover have "unat (wrap_counter s') * 2 ^ 32 + unat (clk (reads s + n)) \<le> due_since_start s (as ! n)" if "n < length as"
  proof -
    let ?a = "as ! n"
    have "hd (drop n as) = ?a" "drop n as \<noteq> []" using that by (simp_all add: hd_drop_conv_nth)
    with n(3) have od: "\<not> overdue clk ?s (reads s + n) ?a" by (simp add: wrap_done_def)
    have "long_target (timers s ?a) \<noteq> 0" using that assms(2) by simp
    then have "0 < unat (long_target (timers s ?a))" by (simp add: unat_gt_0)
    then consider "unat (long_target (timers s ?a)) = 1" | "2 \<le> unat (long_target (timers s ?a))" by linarith
    then show ?thesis
    proof cases
      case 1
      then have "long_target (timers s ?a) = 1" by (simp add: word_unat_eq_iff)
      with od have "clk (reads s + n) \<le> target (timers s ?a)" by (simp add: overdue_def not_less)
      then show ?thesis using 1 wc s'(2) by (simp add: due_since_start_def due_def word_le_nat_alt)
    next
      case 2
      have "unat (clk (reads s + n)) < 2 ^ LENGTH(32)" by (rule unsigned_less)
      then obtain c where c: "unat (clk (reads s + n)) = c" "c < 2 ^ 32" by simp
      from 2 have "2 ^ 32 + c \<le> due s ?a" using c(2) by (simp add: due_def)
      then have "2 ^ 32 + unat (clk (reads s + n)) \<le> due s ?a" by (simp only: c(1))
      then show ?thesis using wc s'(2) by (simp add: due_since_start_def)
    qed
  qed
  ultimately show ?thesis using n run kept fired ev assms(4) by (auto simp: wrap_done_def)
qed

theorem timer_wrap_keeps_times_witness:
  "\<exists>s s'. queue s [0, 1] \<and> timer_wrap (\<lambda>_. 6) s = Some s' \<and> wrap_counter s = 0 \<and> queue s' [1]"
proof -
  let ?t = "\<lambda>p v. \<lparr>next_timer = p, target = v, long_target = 1, callback = Some (user_callback 7), arg = 1\<rparr>"
  let ?s = "(idle_timers [])\<lparr>timers := (\<lambda>_. ?t None 0)(0 := ?t (Some 1) 4, 1 := ?t None 900), timer_list_head := Some 0\<rparr>"
  have q: "queue ?s [0, 1]" by (simp add: queue_def)
  have w: "wrap_counter ?s = 0" by (simp add: idle_timers_def)
  moreover have "\<not> in_handler ?s" by (simp add: idle_timers_def)
  moreover have "\<forall>a \<in> set [0, 1]. long_target (timers ?s a) \<noteq> 0 \<and> callback (timers ?s a) \<noteq> None" by simp
  moreover have "unat (wrap_counter ?s) + 1 < 2 ^ 32" by (simp add: idle_timers_def)
  ultimately obtain n s' where s': "n \<le> length [0 :: nat, 1]" "timer_wrap (\<lambda>_. 6) ?s = Some s'" "queue s' (drop n [0, 1])"
    "\<forall>i < n. due_since_start ?s ([0, 1] ! i) < unat (wrap_counter s') * 2 ^ 32 + unat ((\<lambda>_. 6) (reads ?s + i) :: u32)"
    "n < length [0 :: nat, 1] \<longrightarrow>
      unat (wrap_counter s') * 2 ^ 32 + unat ((\<lambda>_. 6) (reads ?s + n) :: u32) \<le> due_since_start ?s ([0, 1] ! n)"
    and wc: "wrap_counter s' = wrap_counter ?s + 1"
    using timer_wrap_keeps_times [OF q, of "\<lambda>_. 6"] by blast
  have due: "due_since_start ?s 0 = 2 ^ 32 + 4" "due_since_start ?s 1 = 2 ^ 32 + 900" unfolding due_since_start_def w by (simp_all add: due_def)
  have one: "unat (wrap_counter s') = 1" using wc w by simp
  have "n \<noteq> 0" using s'(5) due(1) one by (intro notI) simp
  moreover have "n \<noteq> 2"
  proof
    assume "n = 2"
    with s'(4) [rule_format, of 1] due(2) one show False by simp
  qed
  moreover have "n \<le> 2" using s'(1) by simp
  ultimately have "n = 1" by linarith
  then have "queue s' [1]" using s'(3) by simp
  with q w s'(2) show ?thesis by (intro exI [of _ ?s] exI [of _ s'] conjI)
qed

end
