(* ===== verification/Xtimer_Set.thy ===== *)
theory Xtimer_Set
  imports Xtimer
begin

text \<open>
  When the functions of \<^verbatim>\<open>burba/sys/xtimer_32/xtimer.c\<close> that set a timer for a 64-bit time make it due.
\<close>

section \<open>Two halves\<close>

lemma halves_mod: "((v div m + l) mod m) * m + v mod m = (v + l * m) mod (m * m :: nat)"
  by (cases "m = 0") (simp_all add: mod_mult2_eq algebra_simps)

lemma mod_less_iff: "n mod m < n \<longleftrightarrow> \<not> n < (m :: nat)" if "0 < m"
  using that mod_less_divisor [OF that, of n] by (cases "n < m") auto

lemma unat_upper_half: "unat (ucast (drop_bit 32 (v :: u64)) :: u32) = unat v div 2 ^ 32"
proof -
  have "unat v div 2 ^ 32 < 2 ^ 32" using unsigned_less [of v] by (simp add: less_mult_imp_div_less)
  moreover have "unat (drop_bit 32 v) = unat v div 2 ^ 32" 
    using unsigned_less [of v] by (simp add: unsigned_drop_bit_eq take_bit_nat_eq_self drop_bit_eq_div [of 32 "unat v"])
  ultimately show ?thesis unfolding unsigned_ucast_eq unsigned_take_bit_eq take_bit_eq_mod by simp
qed

lemma unat_lower_half: "unat (ucast (v :: u64) :: u32) = unat v mod 2 ^ 32"
  by (simp add: unsigned_ucast_eq unsigned_take_bit_eq take_bit_eq_mod)

lemma due_set_halves: "due (set_halves t v l s) t = (unat v + unat l * 2 ^ 32) mod 2 ^ 64"
proof -
  have "unat (ucast (drop_bit 32 v) + l :: u32) = (unat v div 2 ^ 32 + unat l) mod 2 ^ 32"
    by (simp add: unat_word_ariths unat_upper_half)
  then have "due (set_halves t v l s) t = ((unat v div 2 ^ 32 + unat l) mod 2 ^ 32) * 2 ^ 32 + unat v mod 2 ^ 32"
    by (simp add: due_def set_halves_def set_long_target_def set_target_def unat_lower_half)
  then show ?thesis using halves_mod [of "unat v" "2 ^ 32" "unat l"] by simp
qed

lemma unat_minus_overhead:
  "unat (v - of_nat XTIMER_OVERHEAD :: u64) = (if XTIMER_OVERHEAD \<le> unat v then unat v - XTIMER_OVERHEAD
     else unat v + 2 ^ 64 - XTIMER_OVERHEAD)"
  by (simp add: unat_sub_if' XTIMER_OVERHEAD_def word_le_nat_alt)

lemma unat_sum32: "unat (ucast (a :: u32) + ucast (b :: u32) :: u64) = unat a + unat b"
proof -
  have "unat a + unat b < 2 ^ 64" using unat_u32 [of a] unat_u32 [of b] by (simp del: unat_u32)
  then show ?thesis by (simp add: unat_word_ariths unat_widen)
qed

text \<open>The ticks \<open>n\<close> from now, less the overhead, as a 64-bit time.\<close>

definition deadline :: "nat \<Rightarrow> nat" where
  "deadline n = (n + (2 ^ 64 - XTIMER_OVERHEAD)) mod 2 ^ 64"

lemma deadline_ge: "XTIMER_OVERHEAD \<le> n \<Longrightarrow> n < 2 ^ 64 \<Longrightarrow> deadline n = n - XTIMER_OVERHEAD"
  by (simp add: deadline_def XTIMER_OVERHEAD_def mod_if)

lemma deadline_less: "n < XTIMER_OVERHEAD \<Longrightarrow> deadline n = 2 ^ 64 - (XTIMER_OVERHEAD - n)"
  by (simp add: deadline_def XTIMER_OVERHEAD_def mod_if)

lemma unat_minus_deadline: "unat (v - of_nat XTIMER_OVERHEAD :: u64) = deadline (unat v)"
proof (cases "XTIMER_OVERHEAD \<le> unat v")
  case True
  with deadline_ge [OF this] unsigned_less [of v] show ?thesis by (simp add: unat_minus_overhead)
next
  case False
  with deadline_less [of "unat v"] show ?thesis unfolding unat_minus_overhead
    by (simp only: if_False)
qed

lemma deadline_add: "(deadline n + k) mod 2 ^ 64 = deadline (n + k)"
  unfolding deadline_def mod_add_left_eq by (simp only: ac_simps)

lemma unat_minus_overhead_mod:
  "(unat (v - of_nat XTIMER_OVERHEAD :: u64) + k) mod 2 ^ 64 = deadline (unat v + k)"
  unfolding unat_minus_deadline by (rule deadline_add)

lemma deadline_mod: "deadline (n mod 2 ^ 64) = deadline n"
  unfolding deadline_def by (rule mod_add_left_eq)

section \<open>Setting for an offset\<close>

text \<open>What inserting the timer \<open>t\<close>, not in the list and due at \<open>d\<close>, leaves.\<close>

definition queued :: "xt \<Rightarrow> nat list \<Rightarrow> nat \<Rightarrow> nat \<Rightarrow> xt \<Rightarrow> bool" where
  "queued s as t d s' \<longleftrightarrow>
     due s' t = d \<and> (\<forall>a. a \<noteq> t \<longrightarrow> due s' a = due s a) \<and>
     queue s' (insert_due (due s') t as) \<and> sorted (map (due s') (insert_due (due s') t as)) \<and>
     events s' = events s @
       (if hd (insert_due (due s') t as) = t \<and> d < 2 ^ 32 \<and> \<not> in_handler s
        then [timer_set_absolute (of_nat d)] else [])"

lemma due_upper_zero: "long_target (timers s t) = 0 \<longleftrightarrow> due s t < 2 ^ 32"
proof
  assume "due s t < 2 ^ 32"
  then have "unat (long_target (timers s t)) = 0" by (simp add: due_def)
  then show "long_target (timers s t) = 0" by (simp add: unat_eq_zero)
qed (simp add: due_def)

lemma add_timer_queued:
  assumes "queue s as" "sorted (map (due s) as)" "t \<notin> set as"
    and "\<And>a. a \<noteq> t \<Longrightarrow> timers s1 a = timers s a" "next_timer (timers s1 t) = next_timer (timers s t)"
    and "timer_list_head s1 = timer_list_head s" "events s1 = events s" "in_handler s1 = in_handler s"
  shows "\<exists>s'. add_timer_to_list t s1 = Some s' \<and> queued s as t (due s1 t) s'"
proof -
  have same: "due s1 a = due s a" if "a \<noteq> t" for a using assms(4) [OF that] by (simp add: due_def)
  then have "map (due s1) as = map (due s) as" using assms(3) by (metis (mono_tags, lifting) map_cong)
  with assms(2) have srt: "sorted (map (due s1) as)" by (simp only:)
  have "seg (timers s1) (timer_list_head s) as None"
    using assms(1,3,4) seg_frame [of as "timers s1" "timers s" "timer_list_head s" None] by (fastforce simp: queue_def)
  then have q: "queue s1 as" using assms(6) by (simp add: queue_def)
  from add_timer_ok [OF q srt assms(3)] obtain s' where s': "add_timer_to_list t s1 = Some s'" "due s' = due s1"
    "queue s' (insert_due (due s1) t as)"
    "events s' = events s1 @ (if hd (insert_due (due s1) t as) = t \<and> long_target (timers s1 t) = 0 \<and> \<not> in_handler s1
       then [timer_set_absolute (target (timers s1 t))] else [])" by blast
  have "target (timers s1 t) = of_nat (due s1 t)" if "long_target (timers s1 t) = 0"
    using that by (simp add: due_def)
  then show ?thesis
    using s' same sorted_insert_due [OF srt, of t] assms(7,8) by (auto simp: queued_def due_upper_zero)
qed

text \<open>
  C39: A timer set for an offset of up to 64 bits is due that long after the reading of the clock, less
  the fixed overhead, modulo 2 to the 64: also when the lower halves carry, and it enters the queue in
  order. When the clock and the offset together are less than the overhead, the time wraps to the end
  of the 64-bit range (\<open>deadline_less\<close>), and the timer does not fire for 2 to the 32 periods.
\<close>

theorem set64_deadline:
  assumes "queue s as" "sorted (map (due s) as)" "t \<notin> set as"
  shows "\<exists>s'. xtimer_set64 clk t offset long_offset s = Some s' \<and>
    queued s as t (deadline (unat (clk (reads s)) + unat offset + unat long_offset * 2 ^ 32)) s'"
proof -
  let ?v = "ucast (clk (reads s)) + ucast offset - of_nat XTIMER_OVERHEAD :: u64"
  let ?s1 = "set_halves t ?v long_offset (s\<lparr>reads := Suc (reads s)\<rparr>)"
  have "due ?s1 t = deadline (unat (clk (reads s)) + unat offset + unat long_offset * 2 ^ 32)"
    unfolding due_set_halves unat_minus_overhead_mod by (simp add: unat_sum32)
  moreover have "\<exists>s'. add_timer_to_list t ?s1 = Some s' \<and> queued s as t (due ?s1 t) s'"
    by (rule add_timer_queued [OF assms])
      (simp_all add: set_halves_def set_long_target_def set_target_def)
  ultimately show ?thesis by (simp add: xtimer_set64_def xtimer_now_def)
qed

theorem set64_deadline_witness:
  "\<exists>s'. xtimer_set64 (\<lambda>_. 100) 0 50 0 (idle_timers []) = Some s' \<and> due s' 0 = 2 ^ 64 - 170"
proof -
  have "queue (idle_timers []) []" by (simp add: queue_def idle_timers_def)
  moreover have "deadline (unat (100 :: u32) + unat (50 :: u32) + unat (0 :: u32) * 2 ^ 32) = 2 ^ 64 - 170"
    by (simp add: deadline_def XTIMER_OVERHEAD_def)
  ultimately show ?thesis using set64_deadline [of "idle_timers []" "[]" 0 "\<lambda>_. 100" 50 0]
    by (auto simp: queued_def)
qed

text \<open>
  A timer that sends a message after an offset of 64 bits keeps only the lower half of its time:
  whatever the upper half is, a time beyond the period becomes one in the next period, and a time
  within the period gets the upper half the timer had before.
\<close>

theorem set_msg64_truncates:
  assumes "queue s as" "sorted (map (due s) as)" "t \<notin> set as"
  shows "\<exists>s'. xtimer_set_msg64 clk t offset msg target_pid s = Some s' \<and>
    queued s as t
      (let v = deadline (unat (clk (reads s)) + unat offset)
       in v mod 2 ^ 32 + 2 ^ 32 * (if v < 2 ^ 32 then unat (long_target (timers s t)) else 1)) s'"
proof -
  let ?v = "ucast (clk (reads s)) + offset - of_nat XTIMER_OVERHEAD :: u64"
  let ?d = "deadline (unat (clk (reads s)) + unat offset)"
  let ?s0 = "set_target t (ucast ?v) (s\<lparr>reads := Suc (reads s)\<rparr>)"
  let ?s1 = "if ucast (target (timers ?s0 t)) < ?v then set_long_target t 1 ?s0 else ?s0"
  let ?s2 = "set_callback t callback_msg msg (?s1\<lparr>sender_pid := (sender_pid ?s1)(msg := target_pid)\<rparr>)"
  have "unat (ucast (clk (reads s)) + offset) = (unat (clk (reads s)) + unat offset) mod 2 ^ 64"
    by (simp add: unat_word_ariths unat_widen)
  then have v: "unat ?v = ?d" unfolding unat_minus_deadline by (simp only: deadline_mod)
  have low: "unat (ucast ?v :: u32) = ?d mod 2 ^ 32" by (simp only: unat_lower_half v)
  have "ucast (ucast ?v :: u32) < ?v \<longleftrightarrow> ?d mod 2 ^ 32 < ?d"
    by (simp only: word_less_nat_alt unat_widen low v)
  then have cmp: "ucast (ucast ?v :: u32) < ?v \<longleftrightarrow> \<not> ?d < 2 ^ 32" using mod_less_iff [of "2 ^ 32" ?d] by simp
  then have "due ?s2 t = ?d mod 2 ^ 32 + 2 ^ 32 * (if ?d < 2 ^ 32 then unat (long_target (timers s t)) else 1)"
    using cmp low by (simp add: due_def set_callback_def set_long_target_def set_target_def)
  moreover have "\<exists>s'. add_timer_to_list t ?s2 = Some s' \<and> queued s as t (due ?s2 t) s'"
    by (rule add_timer_queued [OF assms])
      (simp_all add: set_callback_def set_long_target_def set_target_def)
  moreover have "xtimer_set_msg64 clk t offset msg target_pid s = add_timer_to_list t ?s2"
    by (simp add: xtimer_set_msg64_def xtimer_now_def Let_def)
  ultimately show ?thesis by (simp only: Let_def)
qed

text \<open>Three periods become one, and one that was left from before counts again.\<close>

theorem set_msg64_truncates_witness:
  "\<exists>s'. xtimer_set_msg64 (\<lambda>_. 1000) 0 (3 * 2 ^ 32) 0 7 (idle_timers []) = Some s' \<and> due s' 0 = 2 ^ 32 + 680"
proof -
  have "queue (idle_timers []) []" by (simp add: queue_def idle_timers_def)
  moreover have "deadline (unat (1000 :: u32) + unat (3 * 2 ^ 32 :: u64)) = 3 * 2 ^ 32 + 680"
    by (simp add: deadline_def XTIMER_OVERHEAD_def)
  ultimately show ?thesis
    using set_msg64_truncates [of "idle_timers []" "[]" 0 "\<lambda>_. 1000" "3 * 2 ^ 32" 0 7]
    by (auto simp: queued_def Let_def)
qed

end
