(* ===== verification/Protobuf_Buffer.thy ===== *)
theory Protobuf_Buffer
  imports Protobuf_Message
begin

text \<open>
  Packing to a virtual buffer in \<^verbatim>\<open>burba/sys/protobuf-c/protobuf-c.c\<close>: the functions
  \<open>*_pack_to_buffer\<close> over any buffer with an \<open>append\<close> method, and the growing buffer
  \<open>ProtobufCBufferSimple\<close>.

  \<open>append\<close> is an argument of the packing functions, as it is a function pointer of the buffer. What
  packing relies on is a locale, which the growing buffer provides for any allocator that gives
  what it is asked for. \<open>NDEBUG\<close> is the compiler definition that removes assertions.
\<close>

section \<open>The growing buffer\<close>

text \<open>\<open>live_blocks\<close> counts the blocks of the buffer's allocator that are not freed.\<close>

record ProtobufCBufferSimple =
  alloced :: u32
  buf_len :: u32
  buf_data :: "byte list"
  must_free_data :: bool
  live_blocks :: nat

definition PROTOBUF_C_BUFFER_SIMPLE_INIT :: "byte list \<Rightarrow> ProtobufCBufferSimple" where
  "PROTOBUF_C_BUFFER_SIMPLE_INIT pad =
     \<lparr>alloced = of_nat (length pad), buf_len = 0, buf_data = pad, must_free_data = False, live_blocks = 0\<rparr>"

definition PROTOBUF_C_BUFFER_SIMPLE_CLEAR :: "ProtobufCBufferSimple \<Rightarrow> ProtobufCBufferSimple" where
  "PROTOBUF_C_BUFFER_SIMPLE_CLEAR b = (if must_free_data b then b\<lparr>live_blocks := live_blocks b - 1\<rparr> else b)"

text \<open>The doubling loop; it does not end when the size is 0.\<close>

partial_function (option) double_until :: "u32 \<Rightarrow> u32 \<Rightarrow> u32 option" where
  "double_until new_len new_alloced =
     (if new_alloced < new_len then double_until new_len (new_alloced + new_alloced) else Some new_alloced)"

text \<open>
  The allocator gives the contents of a new block, or \<^term>\<open>None\<close> for a null pointer; the appended
  bytes are then dropped.
\<close>

definition protobuf_c_buffer_simple_append ::
  "(u32 \<Rightarrow> byte list option) \<Rightarrow> byte list \<Rightarrow> ProtobufCBufferSimple \<Rightarrow> ProtobufCBufferSimple option" where
  "protobuf_c_buffer_simple_append alloc data simp =
     (let new_len = buf_len simp + of_nat (length data);
          store = (\<lambda>simp. do {
            d \<leftarrow> wr_block (buf_data simp) (unat (buf_len simp)) data;
            Some (simp\<lparr>buf_data := d, buf_len := new_len\<rparr>) }) in
      if new_len > alloced simp
      then do {
        new_alloced \<leftarrow> double_until new_len (alloced simp * 2);
        case alloc new_alloced of
          None \<Rightarrow> Some simp
        | Some new_data \<Rightarrow> do {
            new_data \<leftarrow> (if unat (buf_len simp) \<le> length (buf_data simp)
                        then wr_block new_data 0 (take (unat (buf_len simp)) (buf_data simp)) else None);
            let live = Suc (live_blocks simp) - (if must_free_data simp then 1 else 0);
            store (simp\<lparr>buf_data := new_data, alloced := new_alloced, must_free_data := True, live_blocks := live\<rparr>) }
      }
      else store simp)"

section \<open>Packing to a buffer\<close>

definition put_bytes :: "(byte list \<Rightarrow> 'b \<Rightarrow> 'b option) \<Rightarrow> byte list \<Rightarrow> 'b \<Rightarrow> (nat \<times> 'b) option" where
  "put_bytes app xs b = do { b \<leftarrow> app xs b; Some (length xs, b) }"

text \<open>One after the other, adding up the sizes.\<close>

definition and_then :: "('b \<Rightarrow> (nat \<times> 'b) option) \<Rightarrow> ('b \<Rightarrow> (nat \<times> 'b) option) \<Rightarrow> 'b \<Rightarrow> (nat \<times> 'b) option" where
  "and_then f g b = do { (m, b) \<leftarrow> f b; (n, b) \<leftarrow> g b; Some (m + n, b) }"

fun each_of :: "('a \<Rightarrow> 'b \<Rightarrow> (nat \<times> 'b) option) \<Rightarrow> 'a list \<Rightarrow> 'b \<Rightarrow> (nat \<times> 'b) option" where
  "each_of f [] b = Some (0, b)"
| "each_of f (x # xs) b = and_then (f x) (each_of f xs) b"

definition required_field_pack_to_buffer ::
  "(byte list \<Rightarrow> 'b \<Rightarrow> 'b option) \<Rightarrow> field_desc \<Rightarrow> pval \<Rightarrow> 'b \<Rightarrow> (nat \<times> 'b) option" where
  "required_field_pack_to_buffer app f v b =
     (let scratch = tag_pack (fd_id f);
          varint = or_wire_type (wire_code WIRE_VARINT) scratch;
          fix32 = or_wire_type (wire_code WIRE_32BIT) scratch;
          fix64 = or_wire_type (wire_code WIRE_64BIT) scratch;
          prefixed = or_wire_type (wire_code WIRE_LENGTH_PREFIXED) scratch;
          put = put_bytes app in
      case fd_type f of
        TYPE_SINT32 \<Rightarrow> do { x \<leftarrow> as32 v; put (varint @ sint32_pack x) b }
      | TYPE_ENUM \<Rightarrow> do { x \<leftarrow> as32 v; put (varint @ int32_pack x) b }
      | TYPE_INT32 \<Rightarrow> do { x \<leftarrow> as32 v; put (varint @ int32_pack x) b }
      | TYPE_UINT32 \<Rightarrow> do { x \<leftarrow> as32 v; put (varint @ uint32_pack x) b }
      | TYPE_SINT64 \<Rightarrow> do { x \<leftarrow> as64 v; put (varint @ sint64_pack x) b }
      | TYPE_INT64 \<Rightarrow> do { x \<leftarrow> as64 v; put (varint @ uint64_pack x) b }
      | TYPE_UINT64 \<Rightarrow> do { x \<leftarrow> as64 v; put (varint @ uint64_pack x) b }
      | TYPE_SFIXED32 \<Rightarrow> do { x \<leftarrow> as32 v; put (fix32 @ fixed32_pack x) b }
      | TYPE_FIXED32 \<Rightarrow> do { x \<leftarrow> as32 v; put (fix32 @ fixed32_pack x) b }
      | TYPE_FLOAT \<Rightarrow> do { x \<leftarrow> as32 v; put (fix32 @ fixed32_pack x) b }
      | TYPE_SFIXED64 \<Rightarrow> do { x \<leftarrow> as64 v; put (fix64 @ fixed64_pack x) b }
      | TYPE_FIXED64 \<Rightarrow> do { x \<leftarrow> as64 v; put (fix64 @ fixed64_pack x) b }
      | TYPE_DOUBLE \<Rightarrow> do { x \<leftarrow> as64 v; put (fix64 @ fixed64_pack x) b }
      | TYPE_BOOL \<Rightarrow> do { x \<leftarrow> asbool v; put (varint @ boolean_pack x) b }
      | TYPE_STRING \<Rightarrow> do {
          s \<leftarrow> asstr v;
          let str = (case str_chars f s of Some cs \<Rightarrow> cs | None \<Rightarrow> []);
          and_then (put (prefixed @ uint32_pack (of_nat (length str)))) (put str) b }
      | TYPE_BYTES \<Rightarrow> do {
          bd \<leftarrow> asbytes v;
          and_then (put (prefixed @ uint32_pack (of_nat (length bd)))) (put bd) b })"

definition optional_field_pack_to_buffer ::
  "(byte list \<Rightarrow> 'b \<Rightarrow> 'b option) \<Rightarrow> field_desc \<Rightarrow> u32 \<Rightarrow> pval \<Rightarrow> 'b \<Rightarrow> (nat \<times> 'b) option" where
  "optional_field_pack_to_buffer app f has v b =
     (if fd_type f = TYPE_STRING then do {
        ptr \<leftarrow> asstr v;
        if ptr = Null \<or> ptr = Default then Some (0, b) else required_field_pack_to_buffer app f v b }
      else if has = 0 then Some (0, b) else required_field_pack_to_buffer app f v b)"

definition get_packed_payload_length :: "ProtobufCType \<Rightarrow> nat \<Rightarrow> pval list \<Rightarrow> nat option" where
  "get_packed_payload_length t count vs =
     (case t of
        TYPE_SFIXED32 \<Rightarrow> Some (count * 4)
      | TYPE_FIXED32 \<Rightarrow> Some (count * 4)
      | TYPE_FLOAT \<Rightarrow> Some (count * 4)
      | TYPE_SFIXED64 \<Rightarrow> Some (count * 8)
      | TYPE_FIXED64 \<Rightarrow> Some (count * 8)
      | TYPE_DOUBLE \<Rightarrow> Some (count * 8)
      | TYPE_ENUM \<Rightarrow> map_option (\<lambda>xs. sum_list (map int32_size xs)) (those (map as32 vs))
      | TYPE_INT32 \<Rightarrow> map_option (\<lambda>xs. sum_list (map int32_size xs)) (those (map as32 vs))
      | TYPE_SINT32 \<Rightarrow> map_option (\<lambda>xs. sum_list (map sint32_size xs)) (those (map as32 vs))
      | TYPE_UINT32 \<Rightarrow> map_option (\<lambda>xs. sum_list (map uint32_size xs)) (those (map as32 vs))
      | TYPE_SINT64 \<Rightarrow> map_option (\<lambda>xs. sum_list (map sint64_size xs)) (those (map as64 vs))
      | TYPE_INT64 \<Rightarrow> map_option (\<lambda>xs. sum_list (map uint64_size xs)) (those (map as64 vs))
      | TYPE_UINT64 \<Rightarrow> map_option (\<lambda>xs. sum_list (map uint64_size xs)) (those (map as64 vs))
      | TYPE_BOOL \<Rightarrow> Some count
      | TYPE_STRING \<Rightarrow> None
      | TYPE_BYTES \<Rightarrow> None)"

text \<open>The array of a fixed width type is appended as it lies in memory.\<close>

definition pack_buffer_packed_payload ::
  "(byte list \<Rightarrow> 'b \<Rightarrow> 'b option) \<Rightarrow> ProtobufCType \<Rightarrow> nat \<Rightarrow> pval list \<Rightarrow> 'b \<Rightarrow> (nat \<times> 'b) option" where
  "pack_buffer_packed_payload app t count vs b =
     (let put = put_bytes app in
      case t of
        TYPE_SFIXED32 \<Rightarrow> do { xs \<leftarrow> those (map as32 vs); put (concat (map fixed32_pack xs)) b }
      | TYPE_FIXED32 \<Rightarrow> do { xs \<leftarrow> those (map as32 vs); put (concat (map fixed32_pack xs)) b }
      | TYPE_FLOAT \<Rightarrow> do { xs \<leftarrow> those (map as32 vs); put (concat (map fixed32_pack xs)) b }
      | TYPE_SFIXED64 \<Rightarrow> do { xs \<leftarrow> those (map as64 vs); put (concat (map fixed64_pack xs)) b }
      | TYPE_FIXED64 \<Rightarrow> do { xs \<leftarrow> those (map as64 vs); put (concat (map fixed64_pack xs)) b }
      | TYPE_DOUBLE \<Rightarrow> do { xs \<leftarrow> those (map as64 vs); put (concat (map fixed64_pack xs)) b }
      | TYPE_ENUM \<Rightarrow> do { xs \<leftarrow> those (map as32 vs); each_of (\<lambda>x. put (int32_pack x)) xs b }
      | TYPE_INT32 \<Rightarrow> do { xs \<leftarrow> those (map as32 vs); each_of (\<lambda>x. put (int32_pack x)) xs b }
      | TYPE_SINT32 \<Rightarrow> do { xs \<leftarrow> those (map as32 vs); each_of (\<lambda>x. put (sint32_pack x)) xs b }
      | TYPE_UINT32 \<Rightarrow> do { xs \<leftarrow> those (map as32 vs); each_of (\<lambda>x. put (uint32_pack x)) xs b }
      | TYPE_SINT64 \<Rightarrow> do { xs \<leftarrow> those (map as64 vs); each_of (\<lambda>x. put (sint64_pack x)) xs b }
      | TYPE_INT64 \<Rightarrow> do { xs \<leftarrow> those (map as64 vs); each_of (\<lambda>x. put (uint64_pack x)) xs b }
      | TYPE_UINT64 \<Rightarrow> do { xs \<leftarrow> those (map as64 vs); each_of (\<lambda>x. put (uint64_pack x)) xs b }
      | TYPE_BOOL \<Rightarrow> do {
          xs \<leftarrow> those (map asbool vs);
          (_, b) \<leftarrow> each_of (\<lambda>x. put (boolean_pack x)) xs b;
          Some (count, b) }
      | TYPE_STRING \<Rightarrow> None
      | TYPE_BYTES \<Rightarrow> None)"

definition repeated_field_pack_to_buffer ::
  "bool \<Rightarrow> (byte list \<Rightarrow> 'b \<Rightarrow> 'b option) \<Rightarrow> field_desc \<Rightarrow> nat \<Rightarrow> pval option list \<Rightarrow> 'b \<Rightarrow> (nat \<times> 'b) option" where
  "repeated_field_pack_to_buffer NDEBUG app f count arr b =
     (if count = 0 then Some (0, b)
      else if flag_packed f
      then do {
        vs \<leftarrow> elements count arr;
        let scratch = or_wire_type (wire_code WIRE_LENGTH_PREFIXED) (tag_pack (fd_id f));
        payload_len \<leftarrow> get_packed_payload_length (fd_type f) count vs;
        (rv, b) \<leftarrow> put_bytes app (scratch @ uint32_pack (of_nat payload_len)) b;
        if NDEBUG then Some (rv + payload_len, b)
        else do {
          (tmp, b) \<leftarrow> pack_buffer_packed_payload app (fd_type f) count vs b;
          if tmp = payload_len then Some (rv + payload_len, b) else None }
      }
      else do {
        vs \<leftarrow> elements count arr;
        each_of (required_field_pack_to_buffer app f) vs b
      })"

definition unknown_field_pack_to_buffer ::
  "(byte list \<Rightarrow> 'b \<Rightarrow> 'b option) \<Rightarrow> unknown_field \<Rightarrow> 'b \<Rightarrow> (nat \<times> 'b) option" where
  "unknown_field_pack_to_buffer app u =
     and_then (put_bytes app (or_wire_type (u_wire u) (tag_pack (u_tag u)))) (put_bytes app (u_data u))"

definition field_pack_to_buffer ::
  "bool \<Rightarrow> (byte list \<Rightarrow> 'b \<Rightarrow> 'b option) \<Rightarrow> field_desc \<Rightarrow> cell \<Rightarrow> 'b \<Rightarrow> (nat \<times> 'b) option" where
  "field_pack_to_buffer NDEBUG app f c b =
     (case (fd_label f, c) of
        (LABEL_REQUIRED, Single has v) \<Rightarrow> required_field_pack_to_buffer app f v b
      | (LABEL_OPTIONAL, Single has v) \<Rightarrow> optional_field_pack_to_buffer app f has v b
      | (LABEL_REPEATED, Rep n arr) \<Rightarrow> repeated_field_pack_to_buffer NDEBUG app f n arr b
      | _ \<Rightarrow> None)"

fun fields_pack_to_buffer ::
  "bool \<Rightarrow> (byte list \<Rightarrow> 'b \<Rightarrow> 'b option) \<Rightarrow> field_desc list \<Rightarrow> cell list \<Rightarrow> 'b \<Rightarrow> (nat \<times> 'b) option" where
  "fields_pack_to_buffer NDEBUG app [] [] b = Some (0, b)"
| "fields_pack_to_buffer NDEBUG app (f # fs) (c # cs) b =
     and_then (field_pack_to_buffer NDEBUG app f c) (fields_pack_to_buffer NDEBUG app fs cs) b"
| "fields_pack_to_buffer NDEBUG app _ _ b = None"

definition protobuf_c_message_pack_to_buffer ::
  "bool \<Rightarrow> (byte list \<Rightarrow> 'b \<Rightarrow> 'b option) \<Rightarrow> msg_desc \<Rightarrow> pmessage \<Rightarrow> 'b \<Rightarrow> (nat \<times> 'b) option" where
  "protobuf_c_message_pack_to_buffer NDEBUG app desc msg =
     and_then (fields_pack_to_buffer NDEBUG app (m_fields desc) (cells msg))
       (each_of (unknown_field_pack_to_buffer app) (unknown_fields msg))"

section \<open>The interface of a buffer\<close>

text \<open>
  A buffer takes what is appended at its end, up to \<open>room\<close> bytes in all. Then what is packed to it
  is what \<open>protobuf_c_message_pack\<close> writes.
\<close>

locale byte_buffer =
  fixes app :: "byte list \<Rightarrow> 'b \<Rightarrow> 'b option"
    and contents :: "'b \<Rightarrow> byte list"
    and usable :: "'b \<Rightarrow> bool"
    and room :: nat
  assumes append_ok: "usable b \<Longrightarrow> length (contents b) + length xs \<le> room \<Longrightarrow>
      \<exists>b'. app xs b = Some b' \<and> usable b' \<and> contents b' = contents b @ xs"
begin

definition writes :: "('b \<Rightarrow> (nat \<times> 'b) option) \<Rightarrow> byte list \<Rightarrow> bool" where
  "writes f xs \<longleftrightarrow> (\<forall>b. usable b \<and> length (contents b) + length xs \<le> room \<longrightarrow>
     (\<exists>b'. f b = Some (length xs, b') \<and> usable b' \<and> contents b' = contents b @ xs))"

lemma writesD:
  "writes f xs \<Longrightarrow> usable b \<Longrightarrow> length (contents b) + length xs \<le> room \<Longrightarrow>
     \<exists>b'. f b = Some (length xs, b') \<and> usable b' \<and> contents b' = contents b @ xs"
  by (simp add: writes_def)

lemma writes_put [intro]: "writes (put_bytes app xs) xs"
  unfolding writes_def put_bytes_def using append_ok by fastforce

lemma writes_nothing [intro]: "writes (\<lambda>b. Some (0, b)) []"
  by (simp add: writes_def)

lemma writes_and_then [intro]:
  assumes "writes f xs" "writes g ys"
  shows "writes (and_then f g) (xs @ ys)"
  unfolding writes_def
proof (intro allI impI, elim conjE)
  fix b assume b: "usable b" "length (contents b) + length (xs @ ys) \<le> room"
  then obtain b1 where b1: "f b = Some (length xs, b1)" "usable b1" "contents b1 = contents b @ xs"
    using writesD [OF assms(1), of b] by auto
  with b obtain b2 where "g b1 = Some (length ys, b2)" "usable b2" "contents b2 = contents b1 @ ys"
    using writesD [OF assms(2), of b1] by auto
  with b1 show "\<exists>b'. and_then f g b = Some (length (xs @ ys), b') \<and> usable b' \<and> contents b' = contents b @ xs @ ys"
    by (simp add: and_then_def)
qed

lemma writes_each:
  assumes "\<And>x. x \<in> set xs \<Longrightarrow> writes (f x) (g x)"
  shows "writes (each_of f xs) (concat (map g xs))"
  using assms
proof (induction xs)
  case Nil
  then show ?case by (simp add: writes_def)
next
  case (Cons x xs)
  then have "writes (and_then (f x) (each_of f xs)) (g x @ concat (map g xs))" by (intro writes_and_then) auto
  then show ?case by (simp add: writes_def)
qed

lemma string_writes:
  "writes (and_then (put_bytes app (pre @ uint32_pack (of_nat (length (case str of Some cs \<Rightarrow> cs | None \<Rightarrow> [])))))
     (put_bytes app (case str of Some cs \<Rightarrow> cs | None \<Rightarrow> []))) (pre @ string_pack str)"
proof -
  have "uint32_pack 0 = [0]" by (simp add: uint32_pack_def)
  then show ?thesis
    using writes_and_then [OF writes_put [of "pre @ uint32_pack (of_nat (length (case str of Some cs \<Rightarrow> cs | None \<Rightarrow> [])))"]
        writes_put [of "case str of Some cs \<Rightarrow> cs | None \<Rightarrow> []"]]
    by (simp add: string_pack_def split: option.split_asm option.split)
qed

lemma required_writes:
  assumes "required_field_pack f v = Some out"
  shows "writes (required_field_pack_to_buffer app f v) out"
proof (cases "fd_type f = TYPE_STRING \<or> fd_type f = TYPE_BYTES")
  case True
  have "writes (and_then (put_bytes app (pre @ uint32_pack (of_nat (length bd)))) (put_bytes app bd))
      (pre @ binary_data_pack bd)" for pre bd
    using string_writes [of pre "Some bd"] by (simp add: string_pack_def binary_data_pack_def)
  with string_writes show ?thesis
    using assms True by (auto simp: required_field_pack_def required_field_pack_to_buffer_def [abs_def] Let_def
        bind_eq_Some_conv)
next
  case False
  then show ?thesis
    using assms by (cases "fd_type f") (auto simp: required_field_pack_def required_field_pack_to_buffer_def [abs_def]
        Let_def bind_eq_Some_conv)
qed

lemma optional_writes:
  assumes "optional_field_pack f has v = Some out"
  shows "writes (optional_field_pack_to_buffer app f has v) out"
proof (cases "fd_type f = TYPE_STRING")
  case True
  with assms obtain ptr where "asstr v = Some ptr" by (auto simp: optional_field_pack_def bind_eq_Some_conv)
  with assms True show ?thesis
    by (cases "ptr = Null \<or> ptr = Default")
      (auto simp: optional_field_pack_def optional_field_pack_to_buffer_def [abs_def] intro: required_writes)
next
  case False
  with assms show ?thesis
    by (cases "has = 0") (auto simp: optional_field_pack_def optional_field_pack_to_buffer_def [abs_def] intro: required_writes)
qed

lemma payload_length:
  assumes "packed_payload t vs = Some out" "length vs = n"
  shows "get_packed_payload_length t n vs = Some (length out)"
proof -
  have l32: "those (map g vs) = Some xs \<Longrightarrow> length xs = n" for g :: "pval \<Rightarrow> u32 option" and xs
    using assms(2) by (auto dest: those_length)
  have l64: "those (map g vs) = Some xs \<Longrightarrow> length xs = n" for g :: "pval \<Rightarrow> u64 option" and xs
    using assms(2) by (auto dest: those_length)
  show ?thesis
    using assms by (cases t) (auto simp: packed_payload_def get_packed_payload_length_def length_concat_map
        sum_list_const size_funs sum_list_triv mult.commute l32 l64)
qed

lemma payload_writes:
  assumes "packed_payload t vs = Some out" "length vs = n"
  shows "writes (pack_buffer_packed_payload app t n vs) out"
proof (cases "t = TYPE_BOOL")
  case True
  with assms obtain xs where xs: "those (map asbool vs) = Some xs" "out = concat (map boolean_pack xs)"
    by (auto simp: packed_payload_def)
  have "writes (each_of (\<lambda>x. put_bytes app (boolean_pack x)) xs) out"
    unfolding xs(2) by (rule writes_each) auto
  moreover have "length out = n"
    using xs those_length [OF xs(1)] assms(2) by (simp add: length_concat_map sum_list_triv)
  ultimately show ?thesis
    using True xs(1) unfolding writes_def
    by (fastforce simp: pack_buffer_packed_payload_def Let_def)
next
  case False
  then show ?thesis
    using assms by (cases t) (auto simp: packed_payload_def pack_buffer_packed_payload_def [abs_def] intro!: writes_each)
qed

lemma repeated_writes:
  assumes "repeated_field_pack f n arr = Some out"
  shows "writes (repeated_field_pack_to_buffer False app f n arr) out"
proof (cases "n = 0")
  case True
  with assms show ?thesis by (auto simp: repeated_field_pack_def repeated_field_pack_to_buffer_def [abs_def] split: if_splits)
next
  case False
  show ?thesis
  proof (cases "flag_packed f")
    case True
    let ?head = "or_wire_type (wire_code WIRE_LENGTH_PREFIXED) (tag_pack (fd_id f))"
    from True False assms obtain vs payload where v: "elements n arr = Some vs"
      "packed_payload (fd_type f) vs = Some payload" "out = ?head @ uint32_pack (of_nat (length payload)) @ payload"
      by (auto simp: repeated_field_pack_def Let_def bind_eq_Some_conv split: if_splits)
    have len: "length vs = n" using v(1) by (rule elements_length)
    let ?tail = "\<lambda>b. do { (tmp, b) \<leftarrow> pack_buffer_packed_payload app (fd_type f) n vs b;
        if tmp = length payload then Some (length payload, b) else None }"
    have "writes ?tail payload"
      using payload_writes [OF v(2) len] unfolding writes_def by fastforce
    then have "writes (and_then (put_bytes app (?head @ uint32_pack (of_nat (length payload)))) ?tail) out"
      unfolding v(3) append_assoc [symmetric] by (rule writes_and_then [OF writes_put])
    moreover have "repeated_field_pack_to_buffer False app f n arr =
        and_then (put_bytes app (?head @ uint32_pack (of_nat (length payload)))) ?tail"
      by (rule ext) (use True False v(1) payload_length [OF v(2) len]
        in \<open>auto simp: repeated_field_pack_to_buffer_def and_then_def put_bytes_def split: bind_splits\<close>)
    ultimately show ?thesis by (simp only:)
  next
    case unpacked: False
    with False assms obtain vs outs where v: "elements n arr = Some vs"
      "map (required_field_pack f) vs = map Some outs" "out = concat outs"
      by (auto simp: repeated_field_pack_def those_Some_iff bind_eq_Some_conv split: if_splits)
    have img: "required_field_pack f ` set vs = Some ` set outs"
      using arg_cong [OF v(2), of set] by simp
    have "required_field_pack f x = Some (the (required_field_pack f x))" if "x \<in> set vs" for x
    proof -
      have "required_field_pack f x \<in> Some ` set outs" using that unfolding img [symmetric] by (rule imageI)
      then show ?thesis by auto
    qed
    then have "writes (each_of (required_field_pack_to_buffer app f) vs) (concat (map (\<lambda>x. the (required_field_pack f x)) vs))"
      by (intro writes_each required_writes)
    moreover have "map (\<lambda>x. the (required_field_pack f x)) vs = outs"
      using arg_cong [OF v(2), of "map the"] by (simp add: comp_def)
    ultimately show ?thesis
      using False unpacked v by (simp add: repeated_field_pack_to_buffer_def [abs_def])
  qed
qed

lemma field_writes:
  assumes "field_pack f c = Some out"
  shows "writes (field_pack_to_buffer False app f c) out"
  using assms by (cases "fd_label f"; cases c)
    (auto simp: field_pack_def field_pack_to_buffer_def [abs_def] intro: required_writes optional_writes repeated_writes)

lemma fields_writes:
  "fields_pack fs cs = Some out \<Longrightarrow> writes (fields_pack_to_buffer False app fs cs) out"
proof (induction fs cs arbitrary: out rule: fields_pack.induct)
  case (2 f fs c cs)
  then obtain a b where "field_pack f c = Some a" "fields_pack fs cs = Some b" "out = a @ b"
    by (auto simp: bind_eq_Some_conv)
  moreover from this 2 have "writes (and_then (field_pack_to_buffer False app f c) (fields_pack_to_buffer False app fs cs)) (a @ b)"
    by (intro writes_and_then field_writes) auto
  ultimately show ?case by (simp add: writes_def)
qed (auto simp: writes_def)

lemma unknown_writes: "writes (unknown_field_pack_to_buffer app u) (unknown_field_pack u)"
  unfolding unknown_field_pack_to_buffer_def unknown_field_pack_def by blast

lemma message_writes:
  assumes "protobuf_c_message_pack desc msg = Some out"
  shows "writes (protobuf_c_message_pack_to_buffer False app desc msg) out"
proof -
  from assms obtain rv where rv: "fields_pack (m_fields desc) (cells msg) = Some rv"
    "out = rv @ concat (map unknown_field_pack (unknown_fields msg))"
    by (auto simp: protobuf_c_message_pack_def bind_eq_Some_conv)
  show ?thesis unfolding rv(2) protobuf_c_message_pack_to_buffer_def
    by (intro writes_and_then fields_writes rv(1) writes_each unknown_writes)
qed

end

section \<open>The growing buffer is one\<close>

text \<open>
  Sizes double without wrapping as long as 2 to the 31 bytes are enough. A buffer owns its block
  when it has to free it.
\<close>

lemma double_until_ok:
  assumes "0 < unat a" "unat n \<le> 2 ^ 31"
  shows "\<exists>c. double_until n a = Some c \<and> n \<le> c"
  using assms(1)
proof (induction "unat n - unat a" arbitrary: a rule: less_induct)
  case less
  show ?case
  proof (cases "a < n")
    case True
    then have "unat a < unat n" by (simp add: word_less_nat_alt)
    with assms(2) have "unat (a + a) = unat a + unat a" by (simp add: unat_word_ariths)
    with less.hyps [of "a + a"] less.prems True \<open>unat a < unat n\<close> show ?thesis
      by (subst double_until.simps) simp
  next
    case False
    then show ?thesis by (subst double_until.simps) simp
  qed
qed

definition written :: "ProtobufCBufferSimple \<Rightarrow> byte list" where
  "written b = take (unat (buf_len b)) (buf_data b)"

definition allocates :: "(u32 \<Rightarrow> byte list option) \<Rightarrow> bool" where
  "allocates alloc \<longleftrightarrow> (\<forall>n. \<exists>block. alloc n = Some block \<and> length block = unat n)"

definition buffer_ok :: "(u32 \<Rightarrow> byte list option) \<Rightarrow> ProtobufCBufferSimple \<Rightarrow> bool" where
  "buffer_ok alloc b \<longleftrightarrow> allocates alloc \<and> 0 < unat (alloced b) \<and> length (buf_data b) = unat (alloced b) \<and>
     unat (buf_len b) \<le> unat (alloced b) \<and> live_blocks b = (if must_free_data b then 1 else 0)"

lemma wr_block_at: "p + length xs \<le> length m \<Longrightarrow> wr_block m p xs = Some (take p m @ xs @ drop (p + length xs) m)"
  by (simp add: wr_block_def)

lemma simple_append_ok:
  assumes "buffer_ok alloc b" "length (written b) + length xs \<le> 2 ^ 31"
  shows "\<exists>b'. protobuf_c_buffer_simple_append alloc xs b = Some b' \<and> buffer_ok alloc b' \<and> written b' = written b @ xs"
proof -
  let ?n = "unat (buf_len b)"
  let ?new = "buf_len b + of_nat (length xs)"
  from assms have n: "length (written b) = ?n" "?n + length xs \<le> 2 ^ 31"
    by (auto simp: buffer_ok_def written_def)
  then have new: "unat ?new = ?n + length xs" by (simp add: unat_word_ariths unat_of_nat)
  show ?thesis
  proof (cases "?new > alloced b")
    case False
    with assms new n show ?thesis
      by (auto simp: protobuf_c_buffer_simple_append_def Let_def wr_block_at buffer_ok_def written_def
          word_less_nat_alt not_less)
  next
    case True
    then have less: "unat (alloced b) < unat ?new" by (simp add: word_less_nat_alt)
    with new n assms(1) have "unat (alloced b * 2) = unat (alloced b) * 2"
      by (simp add: unat_word_ariths buffer_ok_def)
    with assms(1) new n obtain c where c: "double_until ?new (alloced b * 2) = Some c" "?new \<le> c"
      using double_until_ok [of "alloced b * 2" ?new] by (auto simp: buffer_ok_def)
    obtain block where block: "alloc c = Some block" "length block = unat c"
      using assms(1) by (auto simp: buffer_ok_def allocates_def)
    have fits: "?n + length xs \<le> unat c" using c(2) new by (simp add: word_le_nat_alt)
    have len: "?n \<le> length (buf_data b)" using assms(1) by (simp add: buffer_ok_def)
    let ?d = "take ?n (buf_data b) @ drop ?n block"
    have copy: "wr_block block 0 (take ?n (buf_data b)) = Some ?d"
      using fits len block(2) by (simp add: wr_block_def)
    have store: "wr_block ?d ?n xs = Some (take ?n (buf_data b) @ xs @ drop (?n + length xs) block)"
      using fits len block(2) by (simp add: wr_block_def add.commute)
    have "0 < unat c" using fits less new by linarith
    with True c block copy store len fits new assms(1) show ?thesis
      by (auto simp: protobuf_c_buffer_simple_append_def Let_def buffer_ok_def written_def)
  qed
qed

interpretation simple: byte_buffer "protobuf_c_buffer_simple_append alloc" written "buffer_ok alloc" "2 ^ 31" for alloc
  by unfold_locales (rule simple_append_ok)

lemma fresh_buffer:
  assumes "allocates alloc" "pad \<noteq> []" "length pad < 2 ^ 32"
  shows "buffer_ok alloc (PROTOBUF_C_BUFFER_SIMPLE_INIT pad)" "written (PROTOBUF_C_BUFFER_SIMPLE_INIT pad) = []"
  using assms by (simp_all add: buffer_ok_def written_def PROTOBUF_C_BUFFER_SIMPLE_INIT_def unat_of_nat)

lemma cleared: "buffer_ok alloc b \<Longrightarrow> live_blocks (PROTOBUF_C_BUFFER_SIMPLE_CLEAR b) = 0"
  by (simp add: buffer_ok_def PROTOBUF_C_BUFFER_SIMPLE_CLEAR_def)



text \<open>Without assertions the elements of a packed field are not written, only counted.\<close>

lemma payload_lost_with_NDEBUG:
  assumes "flag_packed f" "0 < n" "elements n arr = Some vs" "get_packed_payload_length (fd_type f) n vs = Some len"
  shows "repeated_field_pack_to_buffer True app f n arr b =
    do { (rv, b) \<leftarrow> put_bytes app (or_wire_type 2 (tag_pack (fd_id f)) @ uint32_pack (of_nat len)) b; Some (rv + len, b) }"
  using assms by (simp add: repeated_field_pack_to_buffer_def)

text \<open>Bytes for which there is no memory are counted as written.\<close>

lemma bytes_lost_without_memory:
  assumes "buffer_ok alloc b" "length (written b) + length xs \<le> 2 ^ 31" "unat (alloced b) < length (written b) + length xs"
  shows "put_bytes (protobuf_c_buffer_simple_append (\<lambda>_. None)) xs b = Some (length xs, b)"
proof -
  let ?new = "buf_len b + of_nat (length xs)"
  from assms have n: "unat (buf_len b) = length (written b)" by (auto simp: buffer_ok_def written_def)
  with assms(2) have new: "unat ?new = length (written b) + length xs" by (simp add: unat_word_ariths unat_of_nat)
  then have "?new > alloced b" using assms(3) by (simp add: word_less_nat_alt)
  moreover have "unat (alloced b * 2) = unat (alloced b) * 2"
    using assms new by (simp add: unat_word_ariths)
  then obtain c where "double_until ?new (alloced b * 2) = Some c"
    using double_until_ok [of "alloced b * 2" ?new] assms new by (auto simp: buffer_ok_def)
  ultimately show ?thesis by (simp add: put_bytes_def protobuf_c_buffer_simple_append_def Let_def)
qed

end
