(* ===== verification/Protobuf_Lookup.thy ===== *)
theory Protobuf_Lookup
  imports Nais_Messages
begin

text \<open>
  Querying descriptors in \<^verbatim>\<open>burba/sys/protobuf-c/protobuf-c.c\<close>: the binary searches by name and the
  look-ups by number, and the name indices that \<^verbatim>\<open>messages.pb-c.c\<close> has for the messages of the program.

  A result is an index into the table the code returns a pointer into, \<open>Some None\<close> for a null
  pointer; \<^term>\<open>None\<close> when the search would leave a table. The member \<open>fields_sorted_by_name\<close> of a
  message descriptor is passed beside it.
\<close>

section \<open>Searching by name\<close>

text \<open>\<open>strcmp\<close> of the C library, which compares unsigned characters.\<close>

fun strcmp :: "string \<Rightarrow> string \<Rightarrow> int" where
  "strcmp [] [] = 0"
| "strcmp [] (d # ds) = -1"
| "strcmp (c # cs) [] = 1"
| "strcmp (c # cs) (d # ds) = (if c = d then strcmp cs ds else of_char c - of_char d)"

text \<open>The loop of the three searches, over the names in the order of their index.\<close>

function name_search :: "(nat \<Rightarrow> string option) \<Rightarrow> string \<Rightarrow> nat \<Rightarrow> nat \<Rightarrow> nat option option" where
  "name_search nm name start count =
     (if count > 1
      then do {
        let mid = start + count div 2;
        s \<leftarrow> nm mid;
        let rv = strcmp s name;
        if rv = 0 then Some (Some mid)
        else if rv < 0 then name_search nm name (mid + 1) (start + count - (mid + 1))
        else name_search nm name start (mid - start)
      }
      else if count = 0 then Some None
      else do { s \<leftarrow> nm start; Some (if strcmp s name = 0 then Some start else None) })"
  by pat_completeness auto
termination by (relation "measure (\<lambda>(nm, name, start, count). count)") auto

declare name_search.simps [simp del]

record ProtobufCEnumDescriptor =
  e_values :: "(string \<times> int) list"
  e_values_by_name :: "(string \<times> nat) list option"
  e_value_ranges :: "int_range list"

definition protobuf_c_enum_descriptor_get_value_by_name ::
  "ProtobufCEnumDescriptor option \<Rightarrow> string \<Rightarrow> nat option option" where
  "protobuf_c_enum_descriptor_get_value_by_name desc name =
     (case desc of
        None \<Rightarrow> Some None
      | Some desc \<Rightarrow>
          (case e_values_by_name desc of
             None \<Rightarrow> Some None
           | Some by_name \<Rightarrow> do {
               r \<leftarrow> name_search (\<lambda>i. map_option fst (rd by_name i)) name 0 (length by_name);
               (case r of None \<Rightarrow> Some None | Some i \<Rightarrow> map_option (Some \<circ> snd) (rd by_name i)) }))"

definition protobuf_c_enum_descriptor_get_value :: "ProtobufCEnumDescriptor \<Rightarrow> int \<Rightarrow> nat option option" where
  "protobuf_c_enum_descriptor_get_value desc v =
     do {
       rv \<leftarrow> int_range_lookup (length (e_value_ranges desc) - 1) (e_value_ranges desc) v;
       Some (if rv < 0 then None else Some (nat rv))
     }"

definition protobuf_c_message_descriptor_get_field_by_name ::
  "msg_desc option \<Rightarrow> nat list option \<Rightarrow> string \<Rightarrow> nat option option" where
  "protobuf_c_message_descriptor_get_field_by_name desc fields_sorted_by_name name =
     (case (desc, fields_sorted_by_name) of
        (Some desc, Some by_name) \<Rightarrow> do {
          r \<leftarrow> name_search (\<lambda>i. do { j \<leftarrow> rd by_name i; f \<leftarrow> rd (m_fields desc) j; Some (fd_name f) }) name
                0 (length (m_fields desc));
          (case r of None \<Rightarrow> Some None | Some i \<Rightarrow> map_option Some (rd by_name i)) }
      | _ \<Rightarrow> Some None)"

definition protobuf_c_message_descriptor_get_field :: "msg_desc \<Rightarrow> u32 \<Rightarrow> nat option option" where
  "protobuf_c_message_descriptor_get_field desc v =
     do {
       rv \<leftarrow> int_range_lookup (length (m_ranges desc) - 1) (m_ranges desc) (sint v);
       Some (if rv < 0 then None else Some (nat rv))
     }"

record ProtobufCServiceDescriptor =
  s_methods :: "(string \<times> msg_desc \<times> msg_desc) list"
  s_method_indices_by_name :: "nat list option"

definition protobuf_c_service_descriptor_get_method_by_name ::
  "ProtobufCServiceDescriptor option \<Rightarrow> string \<Rightarrow> nat option option" where
  "protobuf_c_service_descriptor_get_method_by_name desc name =
     (case desc of
        None \<Rightarrow> Some None
      | Some desc \<Rightarrow>
          (case s_method_indices_by_name desc of
             None \<Rightarrow> Some None
           | Some by_name \<Rightarrow> do {
               r \<leftarrow> name_search (\<lambda>i. do { j \<leftarrow> rd by_name i; m \<leftarrow> rd (s_methods desc) j; Some (fst m) }) name
                     0 (length (s_methods desc));
               (case r of None \<Rightarrow> Some None | Some i \<Rightarrow> map_option Some (rd by_name i)) }))"

section \<open>The indices of the messages\<close>

definition profile__field_indices_by_name :: "nat list" where "profile__field_indices_by_name = [1, 0]"
definition config__field_indices_by_name :: "nat list" where "config__field_indices_by_name = [4, 1, 2, 0, 3, 5]"
definition command__field_indices_by_name :: "nat list" where "command__field_indices_by_name = [0, 3, 1, 2]"
definition ack__field_indices_by_name :: "nat list" where "ack__field_indices_by_name = [0, 1, 2]"
definition event__field_indices_by_name :: "nat list" where "event__field_indices_by_name = [2, 0, 3, 1]"
definition secret__field_indices_by_name :: "nat list" where "secret__field_indices_by_name = [0]"

definition message_indices :: "(msg_desc \<times> nat list) list" where
  "message_indices =
     [(profile__descriptor, profile__field_indices_by_name), (config__descriptor, config__field_indices_by_name),
      (command__descriptor, command__field_indices_by_name), (ack__descriptor, ack__field_indices_by_name),
      (event__descriptor, event__field_indices_by_name), (secret__descriptor, secret__field_indices_by_name)]"

section \<open>The search finds the name\<close>

lemma strcmp_eq [simp]: "strcmp a b = 0 \<longleftrightarrow> a = b"
  by (induction a b rule: strcmp.induct) auto

lemma strcmp_refl [simp]: "strcmp a a = 0"
  by simp

lemma strcmp_trans: "strcmp a b < 0 \<Longrightarrow> strcmp b c < 0 \<Longrightarrow> strcmp a c < 0"
proof (induction a b arbitrary: c rule: strcmp.induct)
  case (2 d ds)
  then show ?case by (cases c) auto
next
  case (4 x xs d ds)
  then show ?case by (cases c) (auto split: if_splits)
qed auto

lemma strcmp_swap: "0 < strcmp a b \<longleftrightarrow> strcmp b a < 0"
  by (induction a b rule: strcmp.induct) auto

text \<open>A table whose names are strictly increasing.\<close>

locale sorted_names =
  fixes nm :: "nat \<Rightarrow> string option" and names :: "string list"
  assumes nm: "i < length names \<Longrightarrow> nm i = Some (names ! i)"
    and increasing: "sorted_wrt (\<lambda>a b. strcmp a b < 0) names"
begin

lemma before: "i < j \<Longrightarrow> j < length names \<Longrightarrow> strcmp (names ! i) (names ! j) < 0"
  using increasing by (simp add: sorted_wrt_iff_nth_less)

lemma not_below:
  assumes "strcmp (names ! m) name < 0" "i \<le> m" "m < length names"
  shows "names ! i \<noteq> name"
  using assms before [of i m] strcmp_trans [of "names ! i" "names ! m" name] by (cases "i = m") auto

lemma not_above:
  assumes "0 < strcmp (names ! m) name" "m \<le> i" "i < length names"
  shows "names ! i \<noteq> name"
  using assms before [of m i] by (cases "i = m") (auto simp: strcmp_swap dest: strcmp_trans)

lemma search_in_range:
  assumes "start + count \<le> length names"
  shows "\<exists>r. name_search nm name start count = Some r \<and>
    (case r of Some i \<Rightarrow> start \<le> i \<and> i < start + count \<and> names ! i = name
     | None \<Rightarrow> \<forall>i. start \<le> i \<longrightarrow> i < start + count \<longrightarrow> names ! i \<noteq> name)"
  using assms
proof (induction count arbitrary: start rule: less_induct)
  case (less count)
  show ?case
  proof (cases "count > 1")
    case False
    then consider "count = 0" | "count = 1" by linarith
    then show ?thesis
    proof cases
      case 1
      then show ?thesis by (subst name_search.simps) auto
    next
      case 2
      with less.prems have "name_search nm name start count = Some (if names ! start = name then Some start else None)"
        by (subst name_search.simps) (simp add: nm)
      with 2 show ?thesis by (auto dest: le_antisym)
    qed
  next
    case True
    let ?mid = "start + count div 2"
    have mid: "?mid < length names" "?mid < start + count" using True less.prems by auto
    consider "names ! ?mid = name" | "strcmp (names ! ?mid) name < 0" | "0 < strcmp (names ! ?mid) name"
      by (metis linorder_neqE_linordered_idom strcmp_eq)
    then show ?thesis
    proof cases
      case 1
      with True mid show ?thesis by (subst name_search.simps) (simp add: nm)
    next
      case 2
      let ?count = "start + count - (?mid + 1)"
      have "?count < count" "?mid + 1 + ?count \<le> length names" using True less.prems by auto
      from less.IH [OF this] obtain r where r: "name_search nm name (?mid + 1) ?count = Some r"
        "case r of Some i \<Rightarrow> ?mid + 1 \<le> i \<and> i < ?mid + 1 + ?count \<and> names ! i = name
         | None \<Rightarrow> \<forall>i. ?mid + 1 \<le> i \<longrightarrow> i < ?mid + 1 + ?count \<longrightarrow> names ! i \<noteq> name" by blast
      have "name_search nm name start count = Some r"
        using True mid 2 r(1) by (subst name_search.simps) (auto simp: nm Let_def)
      moreover have "names ! i \<noteq> name" if "\<not> ?mid + 1 \<le> i" for i
        using not_below [OF 2 _ mid(1), of i] that by simp
      moreover have "?mid + 1 + ?count = start + count" using mid by simp
      ultimately show ?thesis using r(2)
      proof (cases r)
        case None
        with r(2) have "names ! i \<noteq> name" if "?mid + 1 \<le> i" "i < start + count" for i
          using that \<open>?mid + 1 + ?count = start + count\<close> by simp
        with \<open>\<And>i. \<not> ?mid + 1 \<le> i \<Longrightarrow> names ! i \<noteq> name\<close> have "names ! i \<noteq> name" if "i < start + count" for i
          using that by blast
        with None \<open>name_search nm name start count = Some r\<close> show ?thesis by simp
      qed auto
    next
      case 3
      have "?mid - start < count" "start + (?mid - start) \<le> length names" using True less.prems by auto
      from less.IH [OF this] obtain r where r: "name_search nm name start (?mid - start) = Some r"
        "case r of Some i \<Rightarrow> start \<le> i \<and> i < start + (?mid - start) \<and> names ! i = name
         | None \<Rightarrow> \<forall>i. start \<le> i \<longrightarrow> i < start + (?mid - start) \<longrightarrow> names ! i \<noteq> name" by blast
      have "name_search nm name start count = Some r"
        using True mid 3 r(1) by (subst name_search.simps) (auto simp: nm Let_def)
      moreover have above: "names ! i \<noteq> name" if "?mid \<le> i" "i < start + count" for i
        using not_above [OF 3 that(1)] that(2) less.prems by simp
      ultimately show ?thesis
      proof (cases r)
        case None
        with r(2) have "names ! i \<noteq> name" if "start \<le> i" "\<not> ?mid \<le> i" for i using that by simp
        with above have "names ! i \<noteq> name" if "start \<le> i" "i < start + count" for i using that by blast
        with None \<open>name_search nm name start count = Some r\<close> show ?thesis by simp
      qed (use r(2) in auto)
    qed
  qed
qed

lemma search_finds:
  "\<exists>r. name_search nm name 0 (length names) = Some r \<and>
     (case r of Some i \<Rightarrow> i < length names \<and> names ! i = name | None \<Rightarrow> name \<notin> set names)"
  using search_in_range [of 0 "length names" name] by (fastforce simp: in_set_conv_nth split: option.splits)

end

section \<open>The messages of the program\<close>

definition field_name_at :: "msg_desc \<Rightarrow> nat list \<Rightarrow> nat \<Rightarrow> string option" where
  "field_name_at desc by_name i = do { j \<leftarrow> rd by_name i; f \<leftarrow> rd (m_fields desc) j; Some (fd_name f) }"

definition names_by_index :: "msg_desc \<Rightarrow> nat list \<Rightarrow> string list" where
  "names_by_index desc by_name = map (\<lambda>j. fd_name (m_fields desc ! j)) by_name"

lemma index_sorted:
  assumes "list_all (\<lambda>j. j < length (m_fields desc)) by_name"
    and "sorted_wrt (\<lambda>a b. strcmp a b < 0) (names_by_index desc by_name)"
  shows "sorted_names (field_name_at desc by_name) (names_by_index desc by_name)"
  using assms by unfold_locales (auto simp: field_name_at_def names_by_index_def rd_def list_all_length)

lemmas index_defs =
  profile__field_indices_by_name_def config__field_indices_by_name_def command__field_indices_by_name_def
  ack__field_indices_by_name_def event__field_indices_by_name_def secret__field_indices_by_name_def

interpretation profile_names: sorted_names "field_name_at profile__descriptor profile__field_indices_by_name"
  "names_by_index profile__descriptor profile__field_indices_by_name"
  by (rule index_sorted; simp add: index_defs descriptor_defs names_by_index_def of_char_def)

interpretation config_names: sorted_names "field_name_at config__descriptor config__field_indices_by_name"
  "names_by_index config__descriptor config__field_indices_by_name"
  by (rule index_sorted; simp add: index_defs descriptor_defs names_by_index_def of_char_def)

interpretation command_names: sorted_names "field_name_at command__descriptor command__field_indices_by_name"
  "names_by_index command__descriptor command__field_indices_by_name"
  by (rule index_sorted; simp add: index_defs descriptor_defs names_by_index_def of_char_def)

interpretation ack_names: sorted_names "field_name_at ack__descriptor ack__field_indices_by_name"
  "names_by_index ack__descriptor ack__field_indices_by_name"
  by (rule index_sorted; simp add: index_defs descriptor_defs names_by_index_def of_char_def)

interpretation event_names: sorted_names "field_name_at event__descriptor event__field_indices_by_name"
  "names_by_index event__descriptor event__field_indices_by_name"
  by (rule index_sorted; simp add: index_defs descriptor_defs names_by_index_def of_char_def)

interpretation secret_names: sorted_names "field_name_at secret__descriptor secret__field_indices_by_name"
  "names_by_index secret__descriptor secret__field_indices_by_name"
  by (rule index_sorted; simp add: index_defs descriptor_defs names_by_index_def of_char_def)

lemmas names_found =
  profile_names.search_finds config_names.search_finds command_names.search_finds
  ack_names.search_finds event_names.search_finds secret_names.search_finds

lemma indices_complete:
  assumes "(desc, by_name) \<in> set message_indices"
  shows "length by_name = length (m_fields desc)" "set by_name = {..<length (m_fields desc)}"
  using assms by (auto simp: message_indices_def index_defs descriptor_defs)

lemma fields_numbered:
  assumes "(desc, by_name) \<in> set message_indices"
  shows "m_ranges desc = [\<lparr>start_value = 1, orig_index = 0\<rparr>, \<lparr>start_value = 0, orig_index = int (length (m_fields desc))\<rparr>]"
    "\<forall>j < length (m_fields desc). fd_id (m_fields desc ! j) = of_nat (Suc j)" "length (m_fields desc) \<le> 6"
  using assms by (auto simp: message_indices_def descriptor_defs less_Suc_eq)

text \<open>
  Both look-ups of a field are right for every message of the program: the binary search over
  the generated name index finds the field with the given name, the look-up by number the field
  with the given number, and each returns a null pointer exactly when there is none.
\<close>

theorem field_lookups_find:
  assumes "(desc, by_name) \<in> set message_indices"
  shows "(\<exists>r. protobuf_c_message_descriptor_get_field_by_name (Some desc) (Some by_name) name = Some r \<and>
      (case r of Some j \<Rightarrow> j < length (m_fields desc) \<and> fd_name (m_fields desc ! j) = name
       | None \<Rightarrow> name \<notin> fd_name ` set (m_fields desc))) \<and>
    (\<exists>r. protobuf_c_message_descriptor_get_field desc v = Some r \<and>
      (case r of Some j \<Rightarrow> j < length (m_fields desc) \<and> fd_id (m_fields desc ! j) = v
       | None \<Rightarrow> v \<notin> fd_id ` set (m_fields desc)))"
proof (intro conjI)
  let ?names = "names_by_index desc by_name"
  note ix = indices_complete [OF assms]
  have "\<exists>r. name_search (field_name_at desc by_name) name 0 (length ?names) = Some r \<and>
      (case r of Some i \<Rightarrow> i < length ?names \<and> ?names ! i = name | None \<Rightarrow> name \<notin> set ?names)"
    using assms by (auto simp: message_indices_def intro: names_found)
  then obtain r where r0: "name_search (field_name_at desc by_name) name 0 (length ?names) = Some r"
    "case r of Some i \<Rightarrow> i < length ?names \<and> ?names ! i = name | None \<Rightarrow> name \<notin> set ?names" by blast
  have len: "length ?names = length by_name" by (simp add: names_by_index_def)
  have r: "name_search (field_name_at desc by_name) name 0 (length (m_fields desc)) = Some r"
    using r0(1) by (simp only: len ix(1))
  have "set ?names = fd_name ` set (m_fields desc)"
    using ix(2) by (force simp: names_by_index_def in_set_conv_nth image_iff)
  moreover have "by_name ! i < length (m_fields desc)" if "i < length by_name" for i
    using nth_mem [OF that] ix(2) by auto
  ultimately show "\<exists>r. protobuf_c_message_descriptor_get_field_by_name (Some desc) (Some by_name) name = Some r \<and>
      (case r of Some j \<Rightarrow> j < length (m_fields desc) \<and> fd_name (m_fields desc ! j) = name
       | None \<Rightarrow> name \<notin> fd_name ` set (m_fields desc))"
    using r r0(2) by (cases r) (auto simp: len protobuf_c_message_descriptor_get_field_by_name_def field_name_at_def [abs_def]
        names_by_index_def rd_def)
next
  note num = fields_numbered [OF assms]
  have ids: "fd_id ` set (m_fields desc) = (\<lambda>j. of_nat (Suc j)) ` {..<length (m_fields desc)}"
    using num(2) by (force simp: in_set_conv_nth)
  show "\<exists>r. protobuf_c_message_descriptor_get_field desc v = Some r \<and>
      (case r of Some j \<Rightarrow> j < length (m_fields desc) \<and> fd_id (m_fields desc ! j) = v
       | None \<Rightarrow> v \<notin> fd_id ` set (m_fields desc))"
  proof (cases "1 \<le> sint v \<and> sint v < 1 + int (length (m_fields desc))")
    case True
    then have j: "nat (sint v - 1) < length (m_fields desc)" by linarith
    have "Suc (nat (sint v - 1)) = nat (sint v)" "int (nat (sint v)) = sint v" using True by linarith+
    moreover have "(word_of_int (sint v) :: u32) = v" by (metis scast_eq scast_id)
    ultimately have "of_nat (Suc (nat (sint v - 1))) = v"
      using of_int_of_nat_eq [of "nat (sint v)", where ?'a = u32] by (simp only:)
    with j True num show ?thesis by (simp add: protobuf_c_message_descriptor_get_field_def lookup_one_range)
  next
    case False
    have "v \<noteq> of_nat (Suc j)" if "j < length (m_fields desc)" for j
    proof
      assume v: "v = of_nat (Suc j)"
      have "j < 6" using that num(3) by simp
      then have "sint v = int (Suc j)" unfolding v by (auto simp: less_Suc_eq numeral_eq_Suc)
      with False that show False by simp
    qed
    with False ids num(1) show ?thesis
      by (auto simp: protobuf_c_message_descriptor_get_field_def lookup_one_range)
  qed
qed

theorem field_lookups_find_witness:
  "protobuf_c_message_descriptor_get_field_by_name (Some config__descriptor) (Some config__field_indices_by_name) ''host'' = Some (Some 2) \<and>
   protobuf_c_message_descriptor_get_field config__descriptor 7 = Some None"
proof -
  have m: "(config__descriptor, config__field_indices_by_name) \<in> set message_indices" by (simp add: message_indices_def)
  obtain r where r: "protobuf_c_message_descriptor_get_field_by_name (Some config__descriptor)
      (Some config__field_indices_by_name) ''host'' = Some r"
    "case r of Some j \<Rightarrow> j < length (m_fields config__descriptor) \<and> fd_name (m_fields config__descriptor ! j) = ''host''
     | None \<Rightarrow> ''host'' \<notin> fd_name ` set (m_fields config__descriptor)"
    using field_lookups_find [OF m, of "''host''" 0] by blast
  obtain q where q: "protobuf_c_message_descriptor_get_field config__descriptor 7 = Some q"
    "case q of Some j \<Rightarrow> j < length (m_fields config__descriptor) \<and> fd_id (m_fields config__descriptor ! j) = 7
     | None \<Rightarrow> 7 \<notin> fd_id ` set (m_fields config__descriptor)"
    using field_lookups_find [OF m, of "''host''" 7] by blast
  have "r = Some 2" using r(2) by (cases r) (auto simp: descriptor_defs nth_Cons' split: if_splits)
  moreover have "q = None" using q(2) by (cases q) (auto simp: descriptor_defs nth_Cons' split: if_splits)
  ultimately show ?thesis using r(1) q(1) by simp
qed

end
