(* ===== verification/Protobuf_Check.thy ===== *)
theory Protobuf_Check
  imports Protobuf_Message
begin

text \<open>
  \<open>protobuf_c_message_check\<close> of \<^verbatim>\<open>burba/sys/protobuf-c/protobuf-c.c\<close> and what it is for: a message
  whose members have the types of its descriptor can be packed, and one that also passes the check
  can be sized.

  An empty array stands for a null pointer to an array. Binary data always has its bytes. The
  descriptor of a message and its magic number are there.
\<close>

section \<open>The check\<close>

text \<open>The strings of a repeated field, up to the first null pointer; an element that is not written is \<^term>\<open>None\<close>.\<close>

fun strings_not_null :: "nat \<Rightarrow> pval option list \<Rightarrow> bool option" where
  "strings_not_null 0 arr = Some True"
| "strings_not_null (Suc n) [] = None"
| "strings_not_null (Suc n) (x # arr) =
     do { v \<leftarrow> x; s \<leftarrow> asstr v; if s = Null then Some False else strings_not_null n arr }"

definition check_field :: "field_desc \<Rightarrow> cell \<Rightarrow> bool option" where
  "check_field f c =
     (case (fd_label f, c) of
        (LABEL_REPEATED, Rep quantity arr) \<Rightarrow>
          if quantity > 0 \<and> arr = [] then Some False
          else if fd_type f = TYPE_STRING then strings_not_null quantity arr
          else Some True
      | (LABEL_REQUIRED, Single has v) \<Rightarrow>
          if fd_type f = TYPE_STRING then do { s \<leftarrow> asstr v; Some (s \<noteq> Null) } else Some True
      | (LABEL_OPTIONAL, Single has v) \<Rightarrow> Some True
      | _ \<Rightarrow> None)"

fun check_fields :: "field_desc list \<Rightarrow> cell list \<Rightarrow> bool option" where
  "check_fields [] [] = Some True"
| "check_fields (f # fs) (c # cs) =
     do { ok \<leftarrow> check_field f c; if ok then check_fields fs cs else Some False }"
| "check_fields _ _ = None"

definition protobuf_c_message_check :: "msg_desc \<Rightarrow> pmessage option \<Rightarrow> bool option" where
  "protobuf_c_message_check desc message =
     (case message of None \<Rightarrow> Some False | Some msg \<Rightarrow> check_fields (m_fields desc) (cells msg))"

section \<open>Typing\<close>

text \<open>
  What the compiler checks of generated code that fills in a message: a member has the C type of its
  field, the count of an array is not larger than the array, and a string pointer is null, a string
  or the default, if there is one. Packed fields have numbers.
\<close>

fun has_type :: "field_desc \<Rightarrow> pval \<Rightarrow> bool" where
  "has_type f (V32 x) \<longleftrightarrow> fd_type f \<in> {TYPE_SINT32, TYPE_ENUM, TYPE_INT32, TYPE_UINT32, TYPE_SFIXED32, TYPE_FIXED32, TYPE_FLOAT}"
| "has_type f (V64 x) \<longleftrightarrow> fd_type f \<in> {TYPE_SINT64, TYPE_INT64, TYPE_UINT64, TYPE_SFIXED64, TYPE_FIXED64, TYPE_DOUBLE}"
| "has_type f (VBool x) \<longleftrightarrow> fd_type f = TYPE_BOOL"
| "has_type f (VBytes bs) \<longleftrightarrow> fd_type f = TYPE_BYTES"
| "has_type f (VStr s) \<longleftrightarrow> fd_type f = TYPE_STRING \<and> (s = Default \<longrightarrow> str_chars f s \<noteq> None)"

definition cell_typed :: "field_desc \<Rightarrow> cell \<Rightarrow> bool" where
  "cell_typed f c =
     (case c of
        Single has v \<Rightarrow> fd_label f \<noteq> LABEL_REPEATED \<and> has_type f v
      | Rep n arr \<Rightarrow> fd_label f = LABEL_REPEATED \<and> n < 2 ^ 25 \<and> n \<le> length arr \<and>
          list_all (\<lambda>x. case x of None \<Rightarrow> False | Some v \<Rightarrow> has_type f v) (take n arr) \<and>
          (flag_packed f \<longrightarrow> fd_type f \<notin> {TYPE_STRING, TYPE_BYTES}))"

lemma typed_elements:
  assumes "cell_typed f (Rep n arr)"
  shows "\<exists>vs. elements n arr = Some vs \<and> length vs = n \<and> (\<forall>v \<in> set vs. has_type f v)"
proof -
  let ?vs = "map the (take n arr)"
  have "\<exists>v. x = Some v \<and> has_type f v" if "x \<in> set (take n arr)" for x
    using assms that by (auto simp: cell_typed_def list_all_iff split: option.splits)
  then have x: "Some (the x) = x" "has_type f (the x)" if "x \<in> set (take n arr)" for x
    using that by fastforce+
  then have "map (Some \<circ> the) (take n arr) = take n arr" by (intro map_idI) simp
  then have "take n arr = map Some ?vs" by simp
  moreover have "\<forall>v \<in> set ?vs. has_type f v" using x(2) by simp
  moreover from calculation(1) have "elements n arr = Some ?vs"
    using assms by (simp only: elements_def those_Some_iff cell_typed_def cell.simps if_True)
  ultimately show ?thesis using assms by (auto simp: cell_typed_def)
qed

lemma required_packs: "has_type f v \<Longrightarrow> \<exists>out. required_field_pack f v = Some out"
  by (cases v) (auto simp: required_field_pack_def Let_def)

lemma optional_packs: "has_type f v \<Longrightarrow> \<exists>out. optional_field_pack f has v = Some out"
  using required_packs [of f v] by (cases v) (auto simp: optional_field_pack_def)

section \<open>The moved block of a packed field\<close>

text \<open>
  The packer leaves room for the length of the smallest payload, one byte an element for variable
  length types, and allows for one more byte. An element has at most ten bytes, which is less than
  the factor of 128 between two lengths of the prefix.
\<close>

lemma uint32_size_grows:
  assumes "x \<le> y" "y \<le> 10 * x" "y < 2 ^ 32"
  shows "uint32_size (of_nat y) = uint32_size (of_nat x) \<or> uint32_size (of_nat y) = uint32_size (of_nat x) + 1"
proof -
  have "unat (of_nat x :: u32) = x" "unat (of_nat y :: u32) = y"
    using assms by (simp_all add: unat_of_nat)
  then show ?thesis using assms by (simp add: uint32_size_def word_less_nat_alt)
qed

lemma pack_lengths:
  "Suc 0 \<le> length (uint32_pack a) \<and> length (uint32_pack a) \<le> 10"
  "Suc 0 \<le> length (int32_pack a) \<and> length (int32_pack a) \<le> 10"
  "Suc 0 \<le> length (uint64_pack b) \<and> length (uint64_pack b) \<le> 10"
  unfolding uint32_size_length [symmetric] int32_size_length [symmetric] uint64_size_length [symmetric]
  by (auto simp: uint32_size_def int32_size_def uint64_size_def Let_def)

lemma concat_bounds:
  assumes "\<And>x. x \<in> set xs \<Longrightarrow> lo \<le> length (p x) \<and> length (p x) \<le> hi"
  shows "lo * length xs \<le> length (concat (map p xs)) \<and> length (concat (map p xs)) \<le> hi * length xs"
  using assms by (induction xs) fastforce+

lemma those_typed:
  assumes "\<And>v. v \<in> set vs \<Longrightarrow> \<exists>x. as v = Some x"
  shows "\<exists>xs. those (map as vs) = Some xs \<and> length xs = length vs"
proof -
  have "map as vs = map Some (map (the \<circ> as) vs)" using assms by (auto simp: map_eq_conv)
  then show ?thesis by (metis length_map those_Some_iff)
qed

lemma payload_case:
  assumes "\<exists>xs. those (map as vs) = Some xs \<and> length xs = length vs" "\<And>x. k \<le> length (p x) \<and> length (p x) \<le> 10 * k"
  shows "\<exists>out. map_option (concat \<circ> map p) (those (map as vs)) = Some out \<and>
    k * length vs \<le> length out \<and> length out \<le> 10 * (k * length vs)"
proof -
  obtain xs where "those (map as vs) = Some xs" "length xs = length vs" using assms(1) by blast
  moreover have "k * length xs \<le> length (concat (map p xs)) \<and> length (concat (map p xs)) \<le> 10 * k * length xs"
    by (rule concat_bounds) (use assms(2) in simp)
  ultimately show ?thesis by simp
qed

lemma typed_numbers:
  assumes "\<forall>v \<in> set vs. has_type f v"
  shows "fd_type f \<in> {TYPE_SINT32, TYPE_ENUM, TYPE_INT32, TYPE_UINT32, TYPE_SFIXED32, TYPE_FIXED32, TYPE_FLOAT} \<Longrightarrow>
      \<exists>xs. those (map as32 vs) = Some xs \<and> length xs = length vs"
    and "fd_type f \<in> {TYPE_SINT64, TYPE_INT64, TYPE_UINT64, TYPE_SFIXED64, TYPE_FIXED64, TYPE_DOUBLE} \<Longrightarrow>
      \<exists>xs. those (map as64 vs) = Some xs \<and> length xs = length vs"
    and "fd_type f = TYPE_BOOL \<Longrightarrow> \<exists>xs. those (map asbool vs) = Some xs \<and> length xs = length vs"
proof -
  have "\<exists>x. as32 v = Some x"
    if "fd_type f \<in> {TYPE_SINT32, TYPE_ENUM, TYPE_INT32, TYPE_UINT32, TYPE_SFIXED32, TYPE_FIXED32, TYPE_FLOAT}"
      "v \<in> set vs" for v
    using bspec [OF assms that(2)] that(1) by (cases v) auto
  then show "fd_type f \<in> {TYPE_SINT32, TYPE_ENUM, TYPE_INT32, TYPE_UINT32, TYPE_SFIXED32, TYPE_FIXED32, TYPE_FLOAT} \<Longrightarrow>
      \<exists>xs. those (map as32 vs) = Some xs \<and> length xs = length vs" by (intro those_typed)
next
  have "\<exists>x. as64 v = Some x"
    if "fd_type f \<in> {TYPE_SINT64, TYPE_INT64, TYPE_UINT64, TYPE_SFIXED64, TYPE_FIXED64, TYPE_DOUBLE}" "v \<in> set vs" for v
    using bspec [OF assms that(2)] that(1) by (cases v) auto
  then show "fd_type f \<in> {TYPE_SINT64, TYPE_INT64, TYPE_UINT64, TYPE_SFIXED64, TYPE_FIXED64, TYPE_DOUBLE} \<Longrightarrow>
      \<exists>xs. those (map as64 vs) = Some xs \<and> length xs = length vs" by (intro those_typed)
next
  have "\<exists>x. asbool v = Some x" if "fd_type f = TYPE_BOOL" "v \<in> set vs" for v
    using bspec [OF assms that(2)] that(1) by (cases v) auto
  then show "fd_type f = TYPE_BOOL \<Longrightarrow> \<exists>xs. those (map asbool vs) = Some xs \<and> length xs = length vs"
    by (intro those_typed)
qed

lemma payload_bounds:
  assumes "\<forall>v \<in> set vs. has_type f v" "fd_type f \<notin> {TYPE_STRING, TYPE_BYTES}"
  shows "\<exists>out. packed_payload (fd_type f) vs = Some out \<and>
    get_type_min_size (fd_type f) * length vs \<le> length out \<and> length out \<le> 10 * (get_type_min_size (fd_type f) * length vs)"
proof -
  note typed = typed_numbers [OF assms(1)]
  note lengths = pack_lengths sint32_pack_def sint64_pack_def
  consider
      "fd_type f \<in> {TYPE_INT32, TYPE_ENUM}" | "fd_type f = TYPE_SINT32" | "fd_type f = TYPE_UINT32"
    | "fd_type f \<in> {TYPE_SFIXED32, TYPE_FIXED32, TYPE_FLOAT}" | "fd_type f = TYPE_SINT64"
    | "fd_type f \<in> {TYPE_INT64, TYPE_UINT64}" | "fd_type f \<in> {TYPE_SFIXED64, TYPE_FIXED64, TYPE_DOUBLE}"
    | "fd_type f = TYPE_BOOL"
    using assms(2) by (cases "fd_type f") auto
  then show ?thesis
  proof cases
    case 1
    with payload_case [OF typed(1), of 1 int32_pack] show ?thesis
      by (auto simp: lengths packed_payload_def get_type_min_size_def)
  next
    case 2
    with payload_case [OF typed(1), of 1 sint32_pack] show ?thesis
      by (auto simp: lengths packed_payload_def get_type_min_size_def)
  next
    case 3
    with payload_case [OF typed(1), of 1 uint32_pack] show ?thesis
      by (auto simp: lengths packed_payload_def get_type_min_size_def)
  next
    case 4
    with payload_case [OF typed(1), of 4 fixed32_pack] show ?thesis
      by (auto simp: packed_payload_def get_type_min_size_def)
  next
    case 5
    with payload_case [OF typed(2), of 1 sint64_pack] show ?thesis
      by (auto simp: lengths packed_payload_def get_type_min_size_def)
  next
    case 6
    with payload_case [OF typed(2), of 1 uint64_pack] show ?thesis
      by (auto simp: lengths packed_payload_def get_type_min_size_def)
  next
    case 7
    with payload_case [OF typed(2), of 8 fixed64_pack] show ?thesis
      by (auto simp: packed_payload_def get_type_min_size_def)
  next
    case 8
    with payload_case [OF typed(3), of 1 boolean_pack] show ?thesis
      by (auto simp: packed_payload_def get_type_min_size_def)
  qed
qed

section \<open>Typed messages can be packed\<close>

lemma repeated_packs:
  assumes "cell_typed f (Rep n arr)"
  shows "\<exists>out. repeated_field_pack f n arr = Some out"
proof -
  obtain vs where vs: "elements n arr = Some vs" "length vs = n" "\<forall>v \<in> set vs. has_type f v"
    using typed_elements [OF assms] by blast
  show ?thesis
  proof (cases "flag_packed f")
    case True
    let ?min = "get_type_min_size (fd_type f) * n"
    from True assms have "fd_type f \<notin> {TYPE_STRING, TYPE_BYTES}" "n < 2 ^ 25" by (auto simp: cell_typed_def)
    with payload_bounds [OF vs(3)] vs(2) obtain out where
      out: "packed_payload (fd_type f) vs = Some out" "?min \<le> length out" "length out \<le> 10 * ?min" by auto
    have "?min \<le> 8 * n" by (rule mult_le_mono1) (simp add: get_type_min_size_def)
    with out(3) have "length out \<le> 80 * n" by linarith
    with \<open>n < 2 ^ 25\<close> have "length out < 2 ^ 32" by simp
    from uint32_size_grows [OF out(2,3) \<open>length out < 2 ^ 32\<close>] out(1) vs(1) True show ?thesis
      by (auto simp: repeated_field_pack_def Let_def)
  next
    case False
    have "map (required_field_pack f) vs = map Some (map (the \<circ> required_field_pack f) vs)"
      using vs(3) required_packs by (fastforce simp: map_eq_conv)
    then have "those (map (required_field_pack f) vs) = Some (map (the \<circ> required_field_pack f) vs)"
      by (simp only: those_Some_iff)
    with False vs(1) show ?thesis by (simp add: repeated_field_pack_def)
  qed
qed

lemma field_packs: "cell_typed f c \<Longrightarrow> \<exists>out. field_pack f c = Some out"
  using required_packs optional_packs repeated_packs
  by (cases c; cases "fd_label f") (auto simp: cell_typed_def field_pack_def)

lemma fields_packs: "list_all2 cell_typed fs cs \<Longrightarrow> \<exists>out. fields_pack fs cs = Some out"
proof (induction fs cs rule: list_all2_induct)
  case (Cons f fs c cs)
  with field_packs [of f c] show ?case by auto
qed simp

lemma strings_checked:
  assumes "list_all (\<lambda>x. case x of None \<Rightarrow> False | Some v \<Rightarrow> has_type f v) (take n arr)" "n \<le> length arr"
    "fd_type f = TYPE_STRING"
  shows "\<exists>ok. strings_not_null n arr = Some ok \<and>
    (ok \<longrightarrow> list_all (\<lambda>v. case v of Some (VStr s) \<Rightarrow> str_chars f s \<noteq> None | _ \<Rightarrow> True) (take n arr))"
  using assms
proof (induction n arr rule: strings_not_null.induct)
  case (3 n x arr)
  then obtain v where v: "x = Some v" "has_type f v" by (auto split: option.splits)
  then obtain s where s: "x = Some (VStr s)" "s = Default \<longrightarrow> str_chars f s \<noteq> None"
    using "3.prems"(3) by (cases v) auto
  with 3 show ?case by (cases s) auto
qed auto

lemma field_checked:
  assumes "cell_typed f c"
  shows "\<exists>ok. check_field f c = Some ok \<and> (ok \<longrightarrow> strings_there f c)"
proof (cases c)
  case (Single has v)
  have "\<exists>s. asstr v = Some s" if "fd_type f = TYPE_STRING"
    using assms that Single by (cases v) (auto simp: cell_typed_def)
  with assms Single show ?thesis
    by (cases "fd_label f") (auto simp: check_field_def cell_typed_def strings_there_def)
next
  case (Rep n arr)
  with assms strings_checked [of f n arr] show ?thesis
    by (auto simp: check_field_def cell_typed_def strings_there_def)
qed

lemma fields_checked:
  "list_all2 cell_typed fs cs \<Longrightarrow> \<exists>ok. check_fields fs cs = Some ok \<and> (ok \<longrightarrow> list_all2 strings_there fs cs)"
proof (induction fs cs rule: list_all2_induct)
  case (Cons f fs c cs)
  with field_checked [of f c] show ?case by auto
qed auto



end
