(* ===== verification/Protobuf_Heap.thy ===== *)
theory Protobuf_Heap
  imports Nais_Messages "HOL-Library.Multiset"
begin

text \<open>
  The memory of \<open>protobuf_c_message_unpack\<close> and \<open>protobuf_c_message_free_unpacked\<close> in
  \<^verbatim>\<open>burba/sys/protobuf-c/protobuf-c.c\<close>: which blocks they allocate and free, with an allocator that may
  fail at any call.

  A heap is the multiset of the blocks that are live; blocks are numbered in the order of the calls.
  \<open>al k\<close> is whether call number \<open>k\<close> succeeds. Freeing a block that is not live is recorded. Beside
  each message of theory \<^verbatim>\<open>Protobuf_Unpack\<close> the code here keeps the pointers it holds: for a string or
  bytes the block, or \<^term>\<open>None\<close> when the pointer is null or to the default of the field.
\<close>

section \<open>The allocator\<close>

record heap =
  live :: "nat multiset"
  next_block :: nat
  bad_free :: bool

definition do_alloc :: "(nat \<Rightarrow> bool) \<Rightarrow> heap \<Rightarrow> nat option \<times> heap" where
  "do_alloc al h =
     (let k = next_block h; h = h\<lparr>next_block := Suc k\<rparr> in
      if al k then (Some k, h\<lparr>live := add_mset k (live h)\<rparr>) else (None, h))"

definition do_free :: "nat option \<Rightarrow> heap \<Rightarrow> heap" where
  "do_free p h =
     (case p of
        None \<Rightarrow> h
      | Some a \<Rightarrow> if a \<in># live h then h\<lparr>live := live h - {#a#}\<rparr> else h\<lparr>bad_free := True\<rparr>)"

definition free_all :: "nat option list \<Rightarrow> heap \<Rightarrow> heap" where
  "free_all ps h = fold do_free ps h"

section \<open>Freeing a message\<close>

text \<open>The pointers of a member: its block, or the array with the elements counted so far.\<close>

datatype pcell = PSingle "nat option" | PRep "nat option" "nat option list"

record pmsg =
  p_self :: nat
  p_cells :: "pcell list"
  p_unknown :: "nat option"
  p_udata :: "nat option list"

definition on_heap :: "field_desc \<Rightarrow> bool" where
  "on_heap f \<longleftrightarrow> fd_type f = TYPE_STRING \<or> fd_type f = TYPE_BYTES"

fun free_cell :: "field_desc \<Rightarrow> pcell \<Rightarrow> heap \<Rightarrow> heap" where
  "free_cell f (PRep arr els) h =
     (if arr \<noteq> None then do_free arr (if on_heap f then free_all els h else h) else h)"
| "free_cell f (PSingle p) h = (if on_heap f then do_free p h else h)"

fun free_cells :: "field_desc list \<Rightarrow> pcell list \<Rightarrow> heap \<Rightarrow> heap" where
  "free_cells (f # fs) (c # cs) h = free_cells fs cs (free_cell f c h)"
| "free_cells _ _ h = h"

definition protobuf_c_message_free_unpacked :: "msg_desc \<Rightarrow> pmsg option \<Rightarrow> heap \<Rightarrow> heap" where
  "protobuf_c_message_free_unpacked desc message h =
     (case message of
        None \<Rightarrow> h
      | Some pm \<Rightarrow>
          do_free (Some (p_self pm))
            (do_free (p_unknown pm) (free_all (p_udata pm) (free_cells (m_fields desc) (p_cells pm) h))))"

section \<open>Scanning\<close>

text \<open>A round of the scan up to the scanned member, and storing and counting it, around the tables.\<close>

definition scan_head ::
  "msg_desc \<Rightarrow> u32 \<Rightarrow> byte list \<Rightarrow> scan_state \<Rightarrow> (nat \<times> scan_state \<times> field_desc option \<times> scanned) option option" where
  "scan_head desc rem at st =
     do {
       (used, tag, wire_type) \<leftarrow> parse_tag_and_wiretype (unat rem) at;
       case tag of
         None \<Rightarrow> Some None
       | Some tag \<Rightarrow> do {
           (field, st) \<leftarrow> find_field desc tag st;
           fld \<leftarrow> (case field of None \<Rightarrow> Some None | Some i \<Rightarrow> map_option Some (rd (m_fields desc) i));
           let st = (case fld of Some f \<Rightarrow>
                       if fd_label f = LABEL_REQUIRED
                       then st\<lparr>sc_bitmap := REQUIRED_FIELD_BITMAP_SET (sc_bitmap st) (last_field_index st)\<rparr>
                       else st
                     | None \<Rightarrow> st);
           l \<leftarrow> scan_member_length wire_type (rem - of_nat used) (drop used at);
           Some (map_option (\<lambda>(len, pref). (used, st, fld,
             \<lparr>s_tag = tag, s_wire = wire_type, s_pref = pref, s_field = field, s_len = len, s_data = drop used at\<rparr>)) l)
         }
     }"

definition scan_store :: "field_desc option \<Rightarrow> scanned \<Rightarrow> scan_state \<Rightarrow> scan_state option option" where
  "scan_store fld tmp st =
     do {
       let st = st\<lparr>sc_members := sc_members st @ [tmp], in_slab_index := in_slab_index st + 1\<rparr>;
       cs \<leftarrow> (case (fld, s_field tmp) of
               (Some f, Some i) \<Rightarrow> count_member f i tmp (sc_cells st)
             | _ \<Rightarrow> Some (Some (sc_cells st)));
       Some (map_option (\<lambda>cs. st\<lparr>sc_cells := cs\<rparr>) cs)
     }"

lemma scan_step_split:
  "scan_step desc rem at st =
     do {
       hd \<leftarrow> scan_head desc rem at st;
       case hd of
         None \<Rightarrow> Some None
       | Some (used, st, fld, tmp) \<Rightarrow>
           (case next_slab st of
              None \<Rightarrow> Some None
            | Some st \<Rightarrow> do {
                r \<leftarrow> scan_store fld tmp st;
                Some (map_option (\<lambda>st. (used + unat (s_len tmp), st)) r) })
     }"
  unfolding scan_step_def scan_head_def scan_store_def
  by (auto simp: Let_def Option.bind_assoc split: option.split prod.split intro!: Option.bind_cong)

text \<open>The scan with the blocks of its slabs; the first one is on the stack.\<close>

partial_function (option) scan_heap ::
  "(nat \<Rightarrow> bool) \<Rightarrow> msg_desc \<Rightarrow> u32 \<Rightarrow> byte list \<Rightarrow> scan_state \<Rightarrow> nat option list \<Rightarrow> heap \<Rightarrow>
    (scan_state option \<times> nat option list \<times> heap) option" where
  "scan_heap al desc rem at st tables h =
     (if rem > 0 then do {
        hd \<leftarrow> scan_head desc rem at st;
        case hd of
          None \<Rightarrow> Some (None, tables, h)
        | Some (used, st, fld, tmp) \<Rightarrow>
            (case next_slab st of
               None \<Rightarrow> Some (None, tables, h)
             | Some st' \<Rightarrow>
                 (let (ok, tables, h) =
                    (if which_slab st' = which_slab st then (True, tables, h)
                     else (let (a, h) = do_alloc al h in (a \<noteq> None, tables @ [a], h))) in
                  if \<not> ok then Some (None, tables, h)
                  else do {
                    r \<leftarrow> scan_store fld tmp st';
                    case r of
                      None \<Rightarrow> Some (None, tables, h)
                    | Some st \<Rightarrow>
                        (let n = used + unat (s_len tmp)
                         in scan_heap al desc (rem - of_nat n) (drop n at) st tables h) }))
      } else Some (Some st, tables, h))"

section \<open>Allocating the arrays\<close>

definition no_pointer :: "field_desc \<Rightarrow> pcell" where
  "no_pointer f = (if fd_label f = LABEL_REPEATED then PRep None [] else PSingle None)"

text \<open>Whether all went well, the members and their pointers; the counts that are left are cleared when it did not.\<close>

fun alloc_heap ::
  "(nat \<Rightarrow> bool) \<Rightarrow> byte list \<Rightarrow> nat \<Rightarrow> field_desc list \<Rightarrow> cell list \<Rightarrow> heap \<Rightarrow> (bool \<times> cell list \<times> pcell list \<times> heap) option" where
  "alloc_heap al bm i [] [] h = Some (True, [], [], h)"
| "alloc_heap al bm i (f # fs) (c # cs) h =
     (let more = (\<lambda>c p h. map_option (\<lambda>(ok, cs, ps, h). (ok, c # cs, p # ps, h)) (alloc_heap al bm (i + 1) fs cs h)) in
      case (fd_label f, c) of
        (LABEL_REPEATED, Rep n arr) \<Rightarrow>
          if n \<noteq> 0
          then (let (a, h) = do_alloc al h in
                if a = None then Some (False, c # cs, map no_pointer (f # fs), h)
                else more (Rep 0 (replicate n None)) (PRep a []) h)
          else more (Rep n arr) (PRep None []) h
      | (LABEL_REPEATED, Single _ v) \<Rightarrow> None
      | (LABEL_REQUIRED, _) \<Rightarrow>
          if default_value f = None \<and> \<not> REQUIRED_FIELD_BITMAP_IS_SET bm i
          then Some (False, c # cs, map no_pointer (f # fs), h)
          else more c (PSingle None) h
      | (LABEL_OPTIONAL, _) \<Rightarrow> more c (PSingle None) h)"
| "alloc_heap al bm i _ _ h = None"

section \<open>Parsing\<close>

text \<open>The value, \<^term>\<open>None\<close> for FALSE, the pointer that is left in the member, and the heap.\<close>

definition parse_required_heap ::
  "(nat \<Rightarrow> bool) \<Rightarrow> field_desc \<Rightarrow> scanned \<Rightarrow> bool \<Rightarrow> nat option \<Rightarrow> heap \<Rightarrow> (pval option \<times> nat option \<times> heap) option" where
  "parse_required_heap al f m maybe_clear p h =
     (if on_heap f then
        if s_wire m \<noteq> wire_code WIRE_LENGTH_PREFIXED then Some (None, p, h)
        else
          (let h = (if maybe_clear then do_free p h else h) in
           if fd_type f = TYPE_STRING \<or> s_len m - of_nat (s_pref m) > 0
           then (let (a, h) = do_alloc al h in
                 case a of
                   None \<Rightarrow> Some (None, None, h)
                 | Some _ \<Rightarrow> map_option (\<lambda>r. (r, a, h)) (parse_required_member f m))
           else map_option (\<lambda>r. (r, None, h)) (parse_required_member f m))
      else map_option (\<lambda>r. (r, p, h)) (parse_required_member f m))"

text \<open>A member that is not repeated.\<close>

definition store_single :: "field_desc \<Rightarrow> pval \<Rightarrow> cell \<Rightarrow> cell option" where
  "store_single f v c =
     (case c of
        Single has _ \<Rightarrow> Some (Single (if fd_label f = LABEL_OPTIONAL \<and> has_quantifier f then 1 else has) v)
      | Rep _ _ \<Rightarrow> None)"

definition parse_member_heap ::
  "(nat \<Rightarrow> bool) \<Rightarrow> msg_desc \<Rightarrow> scanned \<Rightarrow> pmessage \<Rightarrow> pmsg \<Rightarrow> heap \<Rightarrow> (pmessage option \<times> pmsg \<times> heap) option" where
  "parse_member_heap al desc m msg pm h =
     (case s_field m of
        None \<Rightarrow>
          (let (a, h) = do_alloc al h; pm = pm\<lparr>p_udata := p_udata pm @ [a]\<rparr> in
           case a of
             None \<Rightarrow> Some (None, pm, h)
           | Some _ \<Rightarrow> map_option (\<lambda>r. (r, pm, h)) (parse_member desc m msg))
      | Some i \<Rightarrow> do {
          f \<leftarrow> rd (m_fields desc) i;
          c \<leftarrow> rd (cells msg) i;
          pc \<leftarrow> rd (p_cells pm) i;
          let put = (\<lambda>c. msg\<lparr>cells := (cells msg)[i := c]\<rparr>);
          (case pc of
             PSingle p \<Rightarrow>
               (if fd_label f = LABEL_REPEATED then None
                else do {
                  (v, p, h) \<leftarrow> parse_required_heap al f m True p h;
                  let pm = pm\<lparr>p_cells := (p_cells pm)[i := PSingle p]\<rparr>;
                  case v of
                    None \<Rightarrow> Some (None, pm, h)
                  | Some v \<Rightarrow> map_option (\<lambda>c. (Some (put c), pm, h)) (store_single f v c) })
           | PRep arr els \<Rightarrow>
               (if fd_label f \<noteq> LABEL_REPEATED then None
                else if s_wire m = wire_code WIRE_LENGTH_PREFIXED \<and> (flag_packed f \<or> is_packable_type (fd_type f))
                then map_option (\<lambda>r. (map_option put r, pm, h)) (parse_packed_repeated_member f m c)
                else do {
                  (v, p, h) \<leftarrow> parse_required_heap al f m False None h;
                  case v of
                    None \<Rightarrow> Some (None, pm, h)
                  | Some v \<Rightarrow>
                      map_option (\<lambda>c. (Some (put c), pm\<lparr>p_cells := (p_cells pm)[i := PRep arr (els @ [p])]\<rparr>, h))
                        (store_elements [v] c) }))
        })"

fun parse_members_heap ::
  "(nat \<Rightarrow> bool) \<Rightarrow> msg_desc \<Rightarrow> scanned list \<Rightarrow> pmessage \<Rightarrow> pmsg \<Rightarrow> heap \<Rightarrow> (pmessage option \<times> pmsg \<times> heap) option" where
  "parse_members_heap al desc [] msg pm h = Some (Some msg, pm, h)"
| "parse_members_heap al desc (m # ms) msg pm h =
     do {
       (r, pm, h) \<leftarrow> parse_member_heap al desc m msg pm h;
       case r of None \<Rightarrow> Some (None, pm, h) | Some msg \<Rightarrow> parse_members_heap al desc ms msg pm h
     }"

section \<open>Unpacking\<close>

text \<open>An allocation that is made only if it is needed: whether it went well, the block, and the heap.\<close>

definition alloc_if :: "(nat \<Rightarrow> bool) \<Rightarrow> bool \<Rightarrow> heap \<Rightarrow> bool \<times> nat option \<times> heap" where
  "alloc_if al needed h = (if needed then (let (a, h) = do_alloc al h in (a \<noteq> None, a, h)) else (True, None, h))"

text \<open>After the scan: the arrays, the members, and \<^verbatim>\<open>error_cleanup\<close>.\<close>

definition unpack_scanned ::
  "(nat \<Rightarrow> bool) \<Rightarrow> msg_desc \<Rightarrow> nat \<Rightarrow> nat option \<Rightarrow> nat option list \<Rightarrow> scan_state \<Rightarrow> heap \<Rightarrow>
    ((pmessage \<times> pmsg) option \<times> heap) option" where
  "unpack_scanned al desc self bitmap tables st h =
     do {
       let cleanup = (\<lambda>pm h. do_free bitmap (free_all tables (protobuf_c_message_free_unpacked desc (Some pm) h)));
       (ok, cs, ps, h) \<leftarrow> alloc_heap al (sc_bitmap st) 0 (m_fields desc) (sc_cells st) h;
       let pm = \<lparr>p_self = self, p_cells = ps, p_unknown = None, p_udata = []\<rparr>;
       if \<not> ok then Some (None, cleanup pm h)
       else
         (let (ok, u, h) = alloc_if al (n_unknown st \<noteq> 0) h in
          if \<not> ok then Some (None, cleanup pm h)
          else do {
            (msg, pm, h) \<leftarrow> parse_members_heap al desc (sc_members st) \<lparr>cells = cs, unknown_fields = []\<rparr>
              (pm\<lparr>p_unknown := u\<rparr>) h;
            case msg of
              None \<Rightarrow> Some (None, cleanup pm h)
            | Some msg \<Rightarrow> Some (Some (msg, pm), do_free bitmap (free_all tables h)) }) }"

definition unpack_heap ::
  "(nat \<Rightarrow> bool) \<Rightarrow> msg_desc \<Rightarrow> u32 \<Rightarrow> byte list \<Rightarrow> heap \<Rightarrow> ((pmessage \<times> pmsg) option \<times> heap) option" where
  "unpack_heap al desc len data h =
     (let (rv, h) = do_alloc al h in
      case rv of
        None \<Rightarrow> Some (None, h)
      | Some self \<Rightarrow>
          (let (ok, bitmap, h) = alloc_if al ((length (m_fields desc) + 7) div 8 > 16) h in
           if \<not> ok then Some (None, do_free rv h)
           else do {
             (st, tables, h) \<leftarrow> scan_heap al desc len data (scan_init desc) [] h;
             case st of
               None \<Rightarrow> Some (None, do_free bitmap (free_all tables (do_free rv h)))
             | Some st \<Rightarrow> unpack_scanned al desc self bitmap tables st h }))"

section \<open>Ownership\<close>

definition blk :: "nat option \<Rightarrow> nat multiset" where
  "blk p = (case p of None \<Rightarrow> {#} | Some a \<Rightarrow> {#a#})"

definition blks :: "nat option list \<Rightarrow> nat multiset" where
  "blks ps = sum_list (map blk ps)"

lemma blk_simps [simp]: "blk None = {#}" "blk (Some a) = {#a#}"
  by (simp_all add: blk_def)

lemma blks_simps [simp]: "blks [] = {#}" "blks (p # ps) = blk p + blks ps" "blks (ps @ qs) = blks ps + blks qs"
  by (simp_all add: blks_def)

fun cell_blocks :: "pcell \<Rightarrow> nat multiset" where
  "cell_blocks (PSingle p) = blk p"
| "cell_blocks (PRep arr els) = blk arr + blks els"

definition cells_blocks :: "pcell list \<Rightarrow> nat multiset" where
  "cells_blocks ps = sum_list (map cell_blocks ps)"

definition msg_blocks :: "pmsg \<Rightarrow> nat multiset" where
  "msg_blocks pm = add_mset (p_self pm) (cells_blocks (p_cells pm) + blk (p_unknown pm) + blks (p_udata pm))"

text \<open>The live blocks are those of \<open>B\<close> and \<open>X\<close>, and nothing was freed wrongly.\<close>

definition owns :: "nat multiset \<Rightarrow> nat multiset \<Rightarrow> heap \<Rightarrow> bool" where
  "owns B X h \<longleftrightarrow> live h = B + X \<and> \<not> bad_free h"

lemma alloc_owns: "do_alloc al h = (a, h') \<Longrightarrow> owns B X h \<Longrightarrow> owns B (X + blk a) h'"
  by (auto simp: do_alloc_def owns_def Let_def split: if_splits)

lemma free_owns: "owns B (X + blk p) h \<Longrightarrow> owns B X (do_free p h)"
  by (auto simp: do_free_def owns_def split: option.split)

lemma free_block_owns: "owns B (add_mset a X) h \<Longrightarrow> owns B X (do_free (Some a) h)"
  using free_owns [of B X "Some a" h] by simp

lemma free_all_owns: "owns B (X + blks ps) h \<Longrightarrow> owns B X (free_all ps h)"
proof (induction ps arbitrary: h)
  case (Cons p ps)
  then have "owns B (X + blks ps) (do_free p h)" by (intro free_owns) (simp add: ac_simps)
  with Cons.IH show ?case by (simp add: free_all_def)
qed (simp add: free_all_def)

lemma alloc_if_owns: "alloc_if al needed h = (ok, a, h') \<Longrightarrow> owns B X h \<Longrightarrow> owns B (X + blk a) h' \<and> (ok \<or> a = None)"
  by (auto simp: alloc_if_def split: if_splits prod.splits dest: alloc_owns)

section \<open>Freeing gives back what a message owns\<close>

fun ptr_ok :: "field_desc \<Rightarrow> pcell \<Rightarrow> bool" where
  "ptr_ok f (PSingle p) \<longleftrightarrow> (p \<noteq> None \<longrightarrow> on_heap f)"
| "ptr_ok f (PRep arr els) \<longleftrightarrow> (arr = None \<longrightarrow> els = []) \<and> (\<not> on_heap f \<longrightarrow> blks els = {#})"

lemma free_cell_owns: "ptr_ok f pc \<Longrightarrow> owns B (X + cell_blocks pc) h \<Longrightarrow> owns B X (free_cell f pc h)"
proof (cases pc)
  case (PRep arr els)
  assume *: "ptr_ok f pc" "owns B (X + cell_blocks pc) h"
  show ?thesis
  proof (cases "on_heap f")
    case True
    with * PRep free_all_owns [of B "X + blk arr" els h] show ?thesis
      by (cases arr) (auto simp: add.assoc intro: free_block_owns)
  next
    case False
    with * PRep show ?thesis by (cases arr) (auto intro: free_block_owns)
  qed
qed (auto dest: free_owns)

lemma free_cells_owns:
  "list_all2 ptr_ok fs ps \<Longrightarrow> owns B (X + cells_blocks ps) h \<Longrightarrow> owns B X (free_cells fs ps h)"
proof (induction fs ps arbitrary: h rule: list_all2_induct)
  case (Cons f fs p ps)
  have "owns B (X + cells_blocks ps) (free_cell f p h)"
    using Cons.hyps(1) Cons.prems by (intro free_cell_owns) (simp_all add: cells_blocks_def ac_simps)
  with Cons.IH show ?case by simp
qed (simp add: cells_blocks_def)

lemma free_unpacked_owns:
  assumes "list_all2 ptr_ok (m_fields desc) (p_cells pm)" "owns B (X + msg_blocks pm) h"
  shows "owns B X (protobuf_c_message_free_unpacked desc (Some pm) h)"
proof -
  let ?h1 = "free_cells (m_fields desc) (p_cells pm) h"
  have "owns B (X + blk (Some (p_self pm)) + blk (p_unknown pm) + blks (p_udata pm)) ?h1"
    using assms by (intro free_cells_owns) (simp_all add: msg_blocks_def ac_simps)
  then have "owns B (X + blk (Some (p_self pm)) + blk (p_unknown pm)) (free_all (p_udata pm) ?h1)"
    by (rule free_all_owns)
  then have "owns B (X + blk (Some (p_self pm))) (do_free (p_unknown pm) (free_all (p_udata pm) ?h1))"
    by (rule free_owns)
  then show ?thesis unfolding protobuf_c_message_free_unpacked_def by (simp add: free_owns)
qed

section \<open>Members\<close>

fun shape :: "field_desc \<Rightarrow> cell \<Rightarrow> pcell \<Rightarrow> bool" where
  "shape f (Single has v) (PSingle p) \<longleftrightarrow> fd_label f \<noteq> LABEL_REPEATED \<and> ptr_ok f (PSingle p)"
| "shape f (Rep n xs) (PRep arr els) \<longleftrightarrow> fd_label f = LABEL_REPEATED \<and> (arr = None \<longrightarrow> xs = []) \<and> ptr_ok f (PRep arr els)"
| "shape f _ _ \<longleftrightarrow> False"

definition shapes :: "field_desc list \<Rightarrow> cell list \<Rightarrow> pcell list \<Rightarrow> bool" where
  "shapes fs cs ps \<longleftrightarrow> length cs = length fs \<and> length ps = length fs \<and> (\<forall>i<length fs. shape (fs ! i) (cs ! i) (ps ! i))"

lemma shape_ptr_ok: "shape f c p \<Longrightarrow> ptr_ok f p"
  by (cases "(f, c, p)" rule: shape.cases) auto

lemma shapes_ptr_ok: "shapes fs cs ps \<Longrightarrow> list_all2 ptr_ok fs ps"
  by (auto simp: shapes_def list_all2_conv_all_nth intro: shape_ptr_ok)

lemma heap_member_value:
  "on_heap f \<Longrightarrow> s_wire m = wire_code WIRE_LENGTH_PREFIXED \<Longrightarrow> parse_required_member f m \<noteq> Some None"
  by (auto simp: on_heap_def parse_required_member_def Let_def bind_eq_Some_conv)

lemma wrong_wire_value:
  "on_heap f \<Longrightarrow> s_wire m \<noteq> wire_code WIRE_LENGTH_PREFIXED \<Longrightarrow> parse_required_member f m = Some None"
  by (auto simp: on_heap_def parse_required_member_def Let_def)

lemma required_heap:
  assumes "parse_required_member f m = Some r" "owns B (X + blk p) h" "clear \<or> p = None" "p \<noteq> None \<longrightarrow> on_heap f"
  shows "\<exists>v p' h'. parse_required_heap al f m clear p h = Some (v, p', h') \<and> (v = None \<or> v = r) \<and> ((\<forall>k. al k) \<longrightarrow> v = r) \<and>
    owns B (X + blk p') h' \<and> (p' \<noteq> None \<longrightarrow> on_heap f) \<and> (v = None \<and> \<not> clear \<longrightarrow> p' = None)"
proof (cases "on_heap f \<and> s_wire m = wire_code WIRE_LENGTH_PREFIXED")
  case False
  with assms show ?thesis by (auto simp: parse_required_heap_def wrong_wire_value)
next
  case True
  let ?h = "if clear then do_free p h else h"
  have own: "owns B X ?h" using assms(2,3) by (auto dest: free_owns)
  obtain a h' where a: "do_alloc al ?h = (a, h')" by (cases "do_alloc al ?h")
  have a': "owns B (X + blk a) h'" by (rule alloc_owns [OF a own])
  have ok: "\<forall>k. al k \<Longrightarrow> a \<noteq> None" using a by (auto simp: do_alloc_def Let_def split: if_splits)
  show ?thesis
    using True assms(1) own a a' ok heap_member_value [of f m]
    by (cases "fd_type f = TYPE_STRING \<or> s_len m - of_nat (s_pref m) > 0"; cases a)
      (auto simp: parse_required_heap_def Let_def)
qed

lemma update_blocks:
  assumes "i < length ps"
  obtains R where "cells_blocks ps = R + cell_blocks (ps ! i)" "\<And>y. cells_blocks (ps[i := y]) = R + cell_blocks y"
proof
  let ?R = "cells_blocks (take i ps) + cells_blocks (drop (Suc i) ps)"
  show "cells_blocks ps = ?R + cell_blocks (ps ! i)"
    by (subst id_take_nth_drop [OF assms]) (simp add: cells_blocks_def ac_simps)
  show "cells_blocks (ps[i := y]) = ?R + cell_blocks y" for y
    by (subst upd_conv_take_nth_drop [OF assms]) (simp add: cells_blocks_def ac_simps)
qed

lemma shapes_update:
  "shapes fs cs ps \<Longrightarrow> i < length fs \<Longrightarrow> shape (fs ! i) c p \<Longrightarrow> shapes fs (cs[i := c]) (ps[i := p])"
  by (auto simp: shapes_def nth_list_update)

lemma store_shape:
  assumes "shape f c (PRep arr els)" "store_elements vs c = Some c'"
  shows "shape f c' (PRep arr els) \<and> (vs \<noteq> [] \<longrightarrow> arr \<noteq> None)"
proof -
  from assms(1) obtain n xs where c: "c = Rep n xs" by (cases c) auto
  with assms(2) have c': "n + length vs \<le> length xs" "c' = Rep (n + length vs) (take n xs @ map Some vs @ drop (n + length vs) xs)"
    by (auto split: if_splits)
  have "vs = []" "n = 0" if "xs = []" using that c'(1) by simp_all
  with assms(1) c c' show ?thesis by auto
qed

lemma single_member:
  assumes "parse_member desc m msg = Some r" "s_field m = Some i" "rd (m_fields desc) i = Some f" "rd (cells msg) i = Some (Single has v0)"
    and "fd_label f \<noteq> LABEL_REPEATED"
  shows "\<exists>q. parse_required_member f m = Some q \<and>
    r = map_option (\<lambda>v. msg\<lparr>cells := (cells msg)[i := Single (if fd_label f = LABEL_OPTIONAL \<and> has_quantifier f then 1 else has) v]\<rparr>) q"
  using assms by (cases "fd_label f") (auto simp: parse_member_def parse_optional_member_def bind_eq_Some_conv split: option.splits)

lemma repeated_member:
  assumes "parse_member desc m msg = Some r" "s_field m = Some i" "rd (m_fields desc) i = Some f" "rd (cells msg) i = Some c"
    and "fd_label f = LABEL_REPEATED"
  shows "if s_wire m = wire_code WIRE_LENGTH_PREFIXED \<and> (flag_packed f \<or> is_packable_type (fd_type f))
    then \<exists>q. parse_packed_repeated_member f m c = Some q \<and> r = map_option (\<lambda>c. msg\<lparr>cells := (cells msg)[i := c]\<rparr>) q
    else \<exists>q. parse_required_member f m = Some q \<and>
      (case q of None \<Rightarrow> r = None | Some v \<Rightarrow> \<exists>c'. store_elements [v] c = Some c' \<and> r = Some (msg\<lparr>cells := (cells msg)[i := c']\<rparr>))"
proof (cases "s_wire m = wire_code WIRE_LENGTH_PREFIXED \<and> (flag_packed f \<or> is_packable_type (fd_type f))")
  case True
  with assms show ?thesis by (auto simp: parse_member_def bind_eq_Some_conv)
next
  case False
  with assms have "\<exists>z. parse_repeated_member f m c = Some z \<and> r = map_option (\<lambda>c. msg\<lparr>cells := (cells msg)[i := c]\<rparr>) z"
    by (auto simp: parse_member_def bind_eq_Some_conv)
  then obtain q z where q: "parse_required_member f m = Some q" "r = map_option (\<lambda>c. msg\<lparr>cells := (cells msg)[i := c]\<rparr>) z"
    "(case q of None \<Rightarrow> Some None | Some v \<Rightarrow> map_option Some (store_elements [v] c)) = Some z"
    unfolding parse_repeated_member_def bind_eq_Some_conv by blast
  then show ?thesis unfolding if_not_P [OF False] by (intro exI [of _ q]) (auto split: option.splits)
qed

text \<open>What holds after a member, or a number of them.\<close>

definition member_done ::
  "(nat \<Rightarrow> bool) \<Rightarrow> msg_desc \<Rightarrow> nat multiset \<Rightarrow> pmessage option \<Rightarrow> pmsg \<Rightarrow> pmessage option \<times> pmsg \<times> heap \<Rightarrow> bool" where
  "member_done al desc B r pm x = (case x of (r', pm', h') \<Rightarrow>
     (r' = None \<or> r' = r) \<and> ((\<forall>k. al k) \<longrightarrow> r' = r) \<and> owns B (msg_blocks pm') h' \<and> p_self pm' = p_self pm \<and>
     list_all2 ptr_ok (m_fields desc) (p_cells pm') \<and>
     (case r' of None \<Rightarrow> True | Some msg' \<Rightarrow> shapes (m_fields desc) (cells msg') (p_cells pm')))"

lemma owns_cell:
  assumes "owns B (msg_blocks pm) h" "i < length (p_cells pm)"
  shows "\<exists>R. owns B (R + cell_blocks (p_cells pm ! i)) h \<and>
    (\<forall>y h'. owns B (R + cell_blocks y) h' \<longrightarrow> owns B (msg_blocks (pm\<lparr>p_cells := (p_cells pm)[i := y]\<rparr>)) h')"
proof -
  from update_blocks [OF assms(2)] obtain R where R: "cells_blocks (p_cells pm) = R + cell_blocks (p_cells pm ! i)"
    "\<And>y. cells_blocks ((p_cells pm)[i := y]) = R + cell_blocks y" by blast
  let ?R = "add_mset (p_self pm) (R + blk (p_unknown pm) + blks (p_udata pm))"
  have "msg_blocks pm = ?R + cell_blocks (p_cells pm ! i)" "\<And>y. msg_blocks (pm\<lparr>p_cells := (p_cells pm)[i := y]\<rparr>) = ?R + cell_blocks y"
    by (simp_all add: msg_blocks_def R ac_simps)
  with assms(1) show ?thesis by (intro exI [of _ ?R]) simp
qed

lemma member_heap:
  assumes "parse_member desc m msg = Some r" "shapes (m_fields desc) (cells msg) (p_cells pm)" "owns B (msg_blocks pm) h"
  shows "\<exists>x. parse_member_heap al desc m msg pm h = Some x \<and> member_done al desc B r pm x"
proof (cases "s_field m")
  case None
  obtain a h' where a: "do_alloc al h = (a, h')" by (cases "do_alloc al h")
  have "owns B (msg_blocks (pm\<lparr>p_udata := p_udata pm @ [a]\<rparr>)) h'"
    using alloc_owns [OF a assms(3)] by (simp add: msg_blocks_def ac_simps)
  moreover have "\<forall>k. al k \<Longrightarrow> a \<noteq> None" using a by (auto simp: do_alloc_def Let_def split: if_splits)
  moreover have "r \<noteq> None \<and> cells (the r) = cells msg" using assms(1) None by (auto simp: parse_member_def split: if_splits)
  ultimately show ?thesis
    using None a assms(1,2) by (cases a) (auto simp: parse_member_heap_def member_done_def shapes_ptr_ok)
next
  case (Some i)
  from assms(1) Some obtain f c where f: "rd (m_fields desc) i = Some f" "rd (cells msg) i = Some c"
    by (auto simp: parse_member_def bind_eq_Some_conv)
  then have i: "i < length (m_fields desc)" "f = m_fields desc ! i" "c = cells msg ! i" by (auto dest: rd_SomeD)
  with assms(2) have il: "i < length (p_cells pm)" and sh: "shape f c (p_cells pm ! i)" by (auto simp: shapes_def)
  then have p: "rd (p_cells pm) i = Some (p_cells pm ! i)" by (simp add: rd_def)
  from owns_cell [OF assms(3) il] obtain R where R: "owns B (R + cell_blocks (p_cells pm ! i)) h"
    "\<And>y h'. owns B (R + cell_blocks y) h' \<Longrightarrow> owns B (msg_blocks (pm\<lparr>p_cells := (p_cells pm)[i := y]\<rparr>)) h'" by blast
  note upd = shapes_update [OF assms(2) i(1)]
  have ptrs: "list_all2 ptr_ok (m_fields desc) ((p_cells pm)[i := y])" if "ptr_ok f y" for y
    using shapes_ptr_ok [OF assms(2)] that i(2) il by (auto simp: list_all2_conv_all_nth nth_list_update)
  show ?thesis
  proof (cases "p_cells pm ! i")
    case (PSingle q)
    with sh obtain has v0 where c: "c = Single has v0" "fd_label f \<noteq> LABEL_REPEATED" "q \<noteq> None \<longrightarrow> on_heap f" by (cases c) auto
    from single_member [OF assms(1) Some f(1)] f(2) c obtain w where w: "parse_required_member f m = Some w"
      "r = map_option (\<lambda>v. msg\<lparr>cells := (cells msg)[i := Single (if fd_label f = LABEL_OPTIONAL \<and> has_quantifier f then 1 else has) v]\<rparr>) w" by blast
    from required_heap [OF w(1), of B R q h True al] R(1) PSingle c(3) obtain v q' h' where
      v: "parse_required_heap al f m True q h = Some (v, q', h')" "v = None \<or> v = w" "(\<forall>k. al k) \<longrightarrow> v = w"
      "owns B (R + blk q') h'" "q' \<noteq> None \<longrightarrow> on_heap f" by auto
    let ?pm = "pm\<lparr>p_cells := (p_cells pm)[i := PSingle q']\<rparr>"
    have o: "owns B (msg_blocks ?pm) h'" using R(2) [of "PSingle q'" h'] v(4) by simp
    have s: "shapes (m_fields desc) ((cells msg)[i := Single b x]) (p_cells ?pm)" for b x
      using upd [of "Single b x" "PSingle q'"] c(2) v(5) i(2) by simp
    show ?thesis
    proof (cases v)
      case None
      with o ptrs [of "PSingle q'"] v(1,3,5) w(2) f p Some PSingle c(2) show ?thesis
        by (auto simp: parse_member_heap_def member_done_def)
    next
      case (Some x)
      with v(2) have "w = Some x" by simp
      with Some o s ptrs [of "PSingle q'"] v(1,5) w(2) f p \<open>s_field m = Some i\<close> PSingle c show ?thesis
        by (auto simp: parse_member_heap_def member_done_def store_single_def)
    qed
  next
    case (PRep arr els)
    with sh have lab: "fd_label f = LABEL_REPEATED" by (cases c) auto
    note rep = repeated_member [OF assms(1) Some f lab]
    show ?thesis
    proof (cases "s_wire m = wire_code WIRE_LENGTH_PREFIXED \<and> (flag_packed f \<or> is_packable_type (fd_type f))")
      case True
      with rep obtain q where q: "parse_packed_repeated_member f m c = Some q" "r = map_option (\<lambda>c. msg\<lparr>cells := (cells msg)[i := c]\<rparr>) q" by auto
      have "shapes (m_fields desc) ((cells msg)[i := c']) (p_cells pm)" if c': "q = Some c'" for c'
      proof -
        from q(1) c' obtain vs where "store_elements vs c = Some c'"
          by (auto simp: parse_packed_repeated_member_def bind_eq_Some_conv split: option.splits)
        from store_shape [OF _ this, of f arr els] sh PRep have "shape f c' (PRep arr els)" by simp
        with upd [of c' "PRep arr els"] i(2) PRep show ?thesis by (metis list_update_id)
      qed
      with True q f p Some PRep lab assms(3) shapes_ptr_ok [OF assms(2)] show ?thesis
        by (auto simp: parse_member_heap_def member_done_def split: option.split)
    next
      case False
      with rep obtain q where q: "parse_required_member f m = Some q"
        "case q of None \<Rightarrow> r = None | Some v \<Rightarrow> \<exists>c'. store_elements [v] c = Some c' \<and> r = Some (msg\<lparr>cells := (cells msg)[i := c']\<rparr>)" by auto
      have "owns B (R + cell_blocks (PRep arr els) + blk None) h" using R(1) PRep by simp
      from required_heap [OF q(1) this, of False al] obtain v q' h' where
        v: "parse_required_heap al f m False None h = Some (v, q', h')" "v = None \<or> v = q" "(\<forall>k. al k) \<longrightarrow> v = q"
        "owns B (R + cell_blocks (PRep arr els) + blk q') h'" "q' \<noteq> None \<longrightarrow> on_heap f" "v = None \<longrightarrow> q' = None" by auto
      have same: "owns B (msg_blocks pm) h'" if "q' = None"
        using R(2) [of "PRep arr els" h'] v(4) that PRep il by (metis add.right_neutral blk_simps(1) list_update_id pmsg.surjective pmsg.update_convs(2))
      show ?thesis
      proof (cases v)
        case None
        with v same q(2) f p \<open>s_field m = Some i\<close> PRep lab False shapes_ptr_ok [OF assms(2)] show ?thesis
          by (auto simp: parse_member_heap_def member_done_def split: option.splits)
      next
        case (Some x)
        with v(2) q(2) obtain c' where c': "q = Some x" "store_elements [x] c = Some c'" "r = Some (msg\<lparr>cells := (cells msg)[i := c']\<rparr>)" by auto
        from store_shape [OF _ c'(2)] sh PRep have sc: "shape f c' (PRep arr els)" "arr \<noteq> None" by auto
        let ?y = "PRep arr (els @ [q'])"
        have y: "shape f c' ?y" using sc v(5) by (cases c'; cases q') auto
        have "owns B (msg_blocks (pm\<lparr>p_cells := (p_cells pm)[i := ?y]\<rparr>)) h'" using R(2) [of ?y h'] v(4) by (simp add: ac_simps)
        with Some c' v(1) upd [of c' ?y] y i(2) ptrs [of ?y] shape_ptr_ok [OF y] f p \<open>s_field m = Some i\<close> PRep lab False show ?thesis
          by (auto simp: parse_member_heap_def member_done_def)
      qed
    qed
  qed
qed

lemma members_heap:
  assumes "parse_members desc ms msg = Some r" "shapes (m_fields desc) (cells msg) (p_cells pm)" "owns B (msg_blocks pm) h"
  shows "\<exists>x. parse_members_heap al desc ms msg pm h = Some x \<and> member_done al desc B r pm x"
  using assms
proof (induction ms arbitrary: msg pm h)
  case Nil
  then show ?case by (auto simp: member_done_def shapes_ptr_ok)
next
  case (Cons m ms)
  then obtain q where q: "parse_member desc m msg = Some q" "(case q of None \<Rightarrow> Some None | Some msg' \<Rightarrow> parse_members desc ms msg') = Some r"
    by (auto simp: bind_eq_Some_conv)
  from member_heap [OF q(1) Cons.prems(2,3)] obtain r1 pm1 h1 where
    1: "parse_member_heap al desc m msg pm h = Some (r1, pm1, h1)" "member_done al desc B q pm (r1, pm1, h1)"
    by (metis prod_cases3)
  show ?case
  proof (cases r1)
    case None
    with 1 q(2) show ?thesis by (auto simp: member_done_def)
  next
    case (Some msg1)
    with 1(2) q(2) have m1: "q = Some msg1" "parse_members desc ms msg1 = Some r" "shapes (m_fields desc) (cells msg1) (p_cells pm1)"
      "owns B (msg_blocks pm1) h1" "p_self pm1 = p_self pm" by (auto simp: member_done_def)
    from Cons.IH [OF m1(2-4)] 1(1) Some m1(5) show ?thesis by (auto simp: member_done_def)
  qed
qed

section \<open>Arrays\<close>

fun plain :: "field_desc \<Rightarrow> cell \<Rightarrow> bool" where
  "plain f (Single has v) \<longleftrightarrow> fd_label f \<noteq> LABEL_REPEATED"
| "plain f (Rep n xs) \<longleftrightarrow> fd_label f = LABEL_REPEATED \<and> xs = []"

lemma shapes_Cons: "shapes (f # fs) (c # cs) (p # ps) \<longleftrightarrow> shape f c p \<and> shapes fs cs ps"
  by (auto simp: shapes_def All_less_Suc2)

lemma no_pointers: "list_all2 ptr_ok fs (map no_pointer fs)" "cells_blocks (map no_pointer fs) = {#}"
  by (induction fs) (auto simp: no_pointer_def cells_blocks_def)

lemma cells_blocks_Cons: "cells_blocks (p # ps) = cell_blocks p + cells_blocks ps"
  by (simp add: cells_blocks_def)

lemma arrays_heap:
  assumes "alloc_fields bm i fs cs = Some r" "list_all2 plain fs cs" "owns B X h"
  shows "\<exists>ok cs' ps h'. alloc_heap al bm i fs cs h = Some (ok, cs', ps, h') \<and> owns B (X + cells_blocks ps) h' \<and>
    list_all2 ptr_ok fs ps \<and> (ok \<longrightarrow> r = Some cs' \<and> shapes fs cs' ps) \<and> ((\<forall>k. al k) \<and> \<not> ok \<longrightarrow> r = None)"
  using assms
proof (induction fs arbitrary: i cs r X h)
  case Nil
  then show ?case by (auto simp: shapes_def cells_blocks_def)
next
  case (Cons f fs)
  then obtain c cs0 where cs: "cs = c # cs0" "plain f c" "list_all2 plain fs cs0" by (auto simp: list_all2_Cons1)
  have stop: "owns B (X + cells_blocks (map no_pointer (f # fs))) h' \<and> list_all2 ptr_ok (f # fs) (map no_pointer (f # fs))"
    if "owns B X h'" for h' using that no_pointers [of "f # fs"] by simp
  have more: "\<exists>ok cs' ps h''. map_option (\<lambda>(ok, cs, ps, h). (ok, c' # cs, p # ps, h)) (alloc_heap al bm (i + 1) fs cs0 h') = Some (ok, cs', ps, h'') \<and>
      owns B (X + cells_blocks ps) h'' \<and> list_all2 ptr_ok (f # fs) ps \<and> (ok \<longrightarrow> r = Some cs' \<and> shapes (f # fs) cs' ps) \<and> ((\<forall>k. al k) \<and> \<not> ok \<longrightarrow> r = None)"
    if a: "alloc_fields bm (i + 1) fs cs0 = Some r'" "r = map_option (\<lambda>r. c' # r) r'" "shape f c' p" "owns B (X + cell_blocks p) h'"
    for c' p h' r'
  proof -
    from Cons.IH [OF a(1) cs(3) a(4)] obtain ok cs' ps h'' where "alloc_heap al bm (i + 1) fs cs0 h' = Some (ok, cs', ps, h'')"
      "owns B (X + cell_blocks p + cells_blocks ps) h''" "list_all2 ptr_ok fs ps" "ok \<longrightarrow> r' = Some cs' \<and> shapes fs cs' ps"
      "(\<forall>k. al k) \<and> \<not> ok \<longrightarrow> r' = None" by blast
    with a(2,3) show ?thesis by (auto simp: shapes_Cons cells_blocks_Cons ac_simps intro: shape_ptr_ok)
  qed
  show ?case
  proof (cases "fd_label f")
    case LABEL_REPEATED
    with cs(2) obtain n where c: "c = Rep n []" by (cases c) auto
    let ?c = "if n \<noteq> 0 then Rep 0 (replicate n None) else Rep n []"
    from Cons.prems(1) LABEL_REPEATED c cs(1) obtain r' where
      r: "alloc_fields bm (i + 1) fs cs0 = Some r'" "r = map_option (\<lambda>r. ?c # r) r'" by auto
    show ?thesis
    proof (cases "n = 0")
      case True
      from more [of r' "Rep n []" "PRep None []" h] r True LABEL_REPEATED Cons.prems(3) c cs(1) show ?thesis by simp
    next
      case False
      obtain a h' where a: "do_alloc al h = (a, h')" by (cases "do_alloc al h")
      have o: "owns B (X + blk a) h'" by (rule alloc_owns [OF a Cons.prems(3)])
      have ok: "\<forall>k. al k \<Longrightarrow> a \<noteq> None" using a by (auto simp: do_alloc_def Let_def split: if_splits)
      show ?thesis
      proof (cases a)
        case None
        with ok have "\<not> (\<forall>k. al k)" by blast
        with None o stop [of h'] a False LABEL_REPEATED c cs(1) show ?thesis by (auto simp: ex_bool_eq)
      next
        case (Some b)
        with more [of r' "Rep 0 (replicate n None)" "PRep a []" h'] r False LABEL_REPEATED o a c cs(1) show ?thesis by simp
      qed
    qed
  next
    case LABEL_OPTIONAL
    with cs(2) obtain has v where c: "c = Single has v" by (cases c) auto
    from Cons.prems(1) LABEL_OPTIONAL cs(1) obtain r' where
      r: "alloc_fields bm (i + 1) fs cs0 = Some r'" "r = map_option (\<lambda>r. c # r) r'" by auto
    from more [of r' c "PSingle None" h] r Cons.prems(3) c cs(1) LABEL_OPTIONAL show ?thesis by simp
  next
    case LABEL_REQUIRED
    with cs(2) obtain has v where c: "c = Single has v" by (cases c) auto
    show ?thesis
    proof (cases "default_value f = None \<and> \<not> REQUIRED_FIELD_BITMAP_IS_SET bm i")
      case True
      with Cons.prems(1,3) LABEL_REQUIRED cs(1) stop [of h] show ?thesis by (auto simp: ex_bool_eq)
    next
      case False
      with Cons.prems(1) LABEL_REQUIRED cs(1) obtain r' where
        r: "alloc_fields bm (i + 1) fs cs0 = Some r'" "r = map_option (\<lambda>r. c # r) r'" by auto
      from False have "alloc_heap al bm i (f # fs) cs h =
          map_option (\<lambda>(ok, cs, ps, h). (ok, c # cs, PSingle None # ps, h)) (alloc_heap al bm (i + 1) fs cs0 h)"
        using c cs(1) LABEL_REQUIRED by auto
      with more [of r' c "PSingle None" h] r Cons.prems(3) c LABEL_REQUIRED show ?thesis by simp
    qed
  qed
qed

section \<open>The scan\<close>

text \<open>How the scan treats the members it counts.\<close>

definition plain_state :: "msg_desc \<Rightarrow> scan_state \<Rightarrow> bool" where
  "plain_state desc st \<longleftrightarrow> list_all2 plain (m_fields desc) (sc_cells st)"

lemma find_field_cells: "find_field desc tag st = Some (field, st') \<Longrightarrow> sc_cells st' = sc_cells st"
  by (auto simp: find_field_def bind_eq_Some_conv split: if_splits)

lemma scan_head_kept:
  assumes "scan_head desc rem at st = Some (Some (used, st', fld, tmp))"
  shows "sc_cells st' = sc_cells st \<and> (fld, s_field tmp) \<in> {(None, None)} \<union> {(Some f, Some i) | f i. rd (m_fields desc) i = Some f}"
proof -
  let ?mark = "\<lambda>fld st. case fld of Some f \<Rightarrow>
      if fd_label f = LABEL_REQUIRED then st\<lparr>sc_bitmap := REQUIRED_FIELD_BITMAP_SET (sc_bitmap st) (last_field_index st)\<rparr> else st
    | None \<Rightarrow> st"
  obtain x where "parse_tag_and_wiretype (unat rem) at = Some x"
    using assms by (cases "parse_tag_and_wiretype (unat rem) at") (simp_all add: scan_head_def)
  then obtain u tag wt where t: "parse_tag_and_wiretype (unat rem) at = Some (u, Some tag, wt)"
    using assms by (cases x; cases "fst (snd x)") (auto simp: scan_head_def)
  obtain field st0 where f: "find_field desc tag st = Some (field, st0)"
    using assms t by (cases "find_field desc tag st") (auto simp: scan_head_def)
  let ?look = "case field of None \<Rightarrow> Some None | Some i \<Rightarrow> map_option Some (rd (m_fields desc) i)"
  obtain fld0 where fld0: "?look = Some fld0"
    using assms t f by (cases ?look) (simp_all add: scan_head_def)
  obtain l where l: "scan_member_length wt (rem - of_nat u) (drop u at) = Some (Some l)"
    using assms t f fld0 by (cases "scan_member_length wt (rem - of_nat u) (drop u at)") (auto simp: scan_head_def Let_def)
  from assms t f fld0 l have e: "fld = fld0" "st' = ?mark fld st0" "s_field tmp = field"
    by (auto simp: scan_head_def Let_def split_beta)
  have "sc_cells (?mark fld st0) = sc_cells st0" by (simp split: option.split)
  with e fld0 find_field_cells [OF f] show ?thesis by (cases field) auto
qed

lemma next_slab_cells: "next_slab st = Some st' \<Longrightarrow> sc_cells st' = sc_cells st"
  by (auto simp: next_slab_def split: if_splits)

lemma count_member_plain:
  assumes "count_member f i tmp cs = Some (Some cs')" "rd fs i = Some f" "list_all2 plain fs cs"
  shows "list_all2 plain fs cs'"
proof (cases "fd_label f = LABEL_REPEATED")
  case True
  with assms(1) obtain c k c' where c: "rd cs i = Some c" "add_count k c = Some c'" "cs' = cs[i := c']"
    by (auto simp: count_member_def bind_eq_Some_conv split: option.splits if_splits)
  with assms(2,3) have "i < length cs" "plain f c" by (auto dest!: rd_SomeD simp: list_all2_conv_all_nth)
  moreover have "plain f c'" using c(2) \<open>plain f c\<close> by (cases c) auto
  ultimately show ?thesis using assms(2,3) c(3) by (auto dest!: rd_SomeD simp: list_all2_conv_all_nth nth_list_update)
next
  case False
  with assms show ?thesis by (simp add: count_member_def)
qed

lemma scan_store_plain:
  assumes "scan_store fld tmp st = Some (Some st')" "plain_state desc st"
    and "(fld, s_field tmp) \<in> {(None, None)} \<union> {(Some f, Some i) | f i. rd (m_fields desc) i = Some f}"
  shows "plain_state desc st'"
  using assms
  by (auto simp: scan_store_def plain_state_def bind_eq_Some_conv Let_def dest: count_member_plain)


definition scan_done ::
  "(nat \<Rightarrow> bool) \<Rightarrow> msg_desc \<Rightarrow> nat multiset \<Rightarrow> nat multiset \<Rightarrow> scan_state option \<Rightarrow>
    scan_state option \<times> nat option list \<times> heap \<Rightarrow> bool" where
  "scan_done al desc B X r x = (case x of (r', tables', h') \<Rightarrow>
     owns B (X + blks tables') h' \<and> (r' = None \<or> r' = r) \<and> ((\<forall>k. al k) \<longrightarrow> r' = r) \<and>
     (case r' of None \<Rightarrow> True | Some st \<Rightarrow> plain_state desc st))"

lemma scan_round_heap:
  assumes r: "(if rem > 0 then do {
        r \<leftarrow> scan_step desc rem at st;
        case r of None \<Rightarrow> Some None | Some (n, st') \<Rightarrow> loop (rem - of_nat n) (drop n at) st'
      } else Some (Some st)) = Some r"
    and st: "plain_state desc st" and own: "owns B (X + blks tables) h"
    and IH: "\<And>rem at st r tables h. loop rem at st = Some r \<Longrightarrow> plain_state desc st \<Longrightarrow> owns B (X + blks tables) h \<Longrightarrow>
      \<exists>x. scan_heap al desc rem at st tables h = Some x \<and> scan_done al desc B X r x"
  shows "\<exists>x. scan_heap al desc rem at st tables h = Some x \<and> scan_done al desc B X r x"
proof (cases "rem > 0")
  case False
  with r st own show ?thesis by (auto simp: scan_heap.simps scan_done_def)
next
  case True
  with r obtain hd where hd: "scan_head desc rem at st = Some hd" by (auto simp: scan_step_split bind_eq_Some_conv)
  show ?thesis
  proof (cases "hd = None \<or> (\<exists>a b. hd = Some (a, b) \<and> next_slab (fst b) = None)")
    case hd_end: True
    with r hd True have "r = None" by (auto simp: scan_step_split)
    with hd_end hd True own show ?thesis
      by (subst scan_heap.simps) (auto simp: scan_done_def)
  next
    case False
    then obtain used st1 fld tmp st2 where h1: "hd = Some (used, st1, fld, tmp)" "next_slab st1 = Some st2" by (cases hd) auto
    define new where "new = (if which_slab st2 = which_slab st1 then (True, tables, h)
      else (let (a, h) = do_alloc al h in (a \<noteq> None, tables @ [a], h)))"
    obtain ok tables1 h2 where new: "new = (ok, tables1, h2)" by (cases new)
    obtain s where s: "scan_store fld tmp st2 = Some s"
      using r True hd h1 by (auto simp: scan_step_split bind_eq_Some_conv)
    have heap: "scan_heap al desc rem at st tables h = (if \<not> ok then Some (None, tables1, h2) else
        case s of None \<Rightarrow> Some (None, tables1, h2)
        | Some st \<Rightarrow> (let n = used + unat (s_len tmp) in scan_heap al desc (rem - of_nat n) (drop n at) st tables1 h2))"
      using True hd h1 s new by (subst scan_heap.simps) (simp add: new_def Let_def split: option.split)
    have own1: "owns B (X + blks tables1) h2" and ok: "\<forall>k. al k \<Longrightarrow> ok"
      using new own by (auto simp: new_def do_alloc_def owns_def Let_def split: if_splits)
    show ?thesis
    proof (cases s)
      case None
      with r True hd h1 s have "r = None" by (auto simp: scan_step_split)
      with None heap own1 show ?thesis by (simp add: scan_done_def)
    next
      case (Some st3)
      let ?n = "used + unat (s_len tmp)"
      from r True hd h1 s Some have l: "loop (rem - of_nat ?n) (drop ?n at) st3 = Some r" by (simp add: scan_step_split)
      have "plain_state desc st2"
        using st scan_head_kept [of desc rem at st used st1 fld tmp] hd h1 next_slab_cells [OF h1(2)] by (simp add: plain_state_def)
      with scan_store_plain [of fld tmp st2 st3] s Some scan_head_kept [of desc rem at st used st1 fld tmp] hd h1
      have "plain_state desc st3" by blast
      from IH [OF l this own1] heap Some own1 ok show ?thesis by (auto simp: scan_done_def Let_def)
    qed
  qed
qed

lemma scan_loop_heap:
  assumes "scan_loop desc rem at st = Some r" "plain_state desc st" "owns B (X + blks tables) h"
  shows "\<exists>x. scan_heap al desc rem at st tables h = Some x \<and> scan_done al desc B X r x"
proof -
  have "\<forall>tables h. plain_state desc st \<longrightarrow> owns B (X + blks tables) h \<longrightarrow>
      (\<exists>x. scan_heap al desc rem at st tables h = Some x \<and> scan_done al desc B X r x)"
    by (rule scan_loop.raw_induct [OF _ assms(1)]) (blast intro: scan_round_heap)
  with assms(2,3) show ?thesis by blast
qed

section \<open>The whole of unpacking\<close>

lemma alloc_if_ok: "alloc_if al needed h = (ok, a, h') \<Longrightarrow> \<forall>k. al k \<Longrightarrow> ok"
  by (auto simp: alloc_if_def do_alloc_def Let_def split: if_splits)

text \<open>What unpacking leaves: a message that owns its blocks, or nothing.\<close>

definition unpacked ::
  "(nat \<Rightarrow> bool) \<Rightarrow> msg_desc \<Rightarrow> nat multiset \<Rightarrow> pmessage option \<Rightarrow> (pmessage \<times> pmsg) option \<times> heap \<Rightarrow> bool" where
  "unpacked al desc B r x = (case x of (r', h') \<Rightarrow>
     (map_option fst r' = None \<or> map_option fst r' = r) \<and> ((\<forall>k. al k) \<longrightarrow> map_option fst r' = r) \<and>
     (case r' of None \<Rightarrow> owns B {#} h' | Some (msg, pm) \<Rightarrow> owns B (msg_blocks pm) h' \<and> list_all2 ptr_ok (m_fields desc) (p_cells pm)))"

lemma owns_move: "owns (B + Y) X h \<longleftrightarrow> owns B (X + Y) h"
  by (simp add: owns_def ac_simps)

lemma cleanup_owns:
  assumes "owns (B + blks tables + blk bitmap) (msg_blocks pm) h" "list_all2 ptr_ok (m_fields desc) (p_cells pm)"
  shows "owns B {#} (do_free bitmap (free_all tables (protobuf_c_message_free_unpacked desc (Some pm) h)))"
proof -
  from assms have "owns (B + blks tables + blk bitmap) {#} (protobuf_c_message_free_unpacked desc (Some pm) h)"
    by (intro free_unpacked_owns) simp_all
  then have "owns B (blk bitmap + blks tables) (protobuf_c_message_free_unpacked desc (Some pm) h)"
    by (simp add: owns_def ac_simps)
  then show ?thesis using free_owns [of B "{#}"] free_all_owns by simp
qed

lemma tables_owns:
  assumes "owns (B + blks tables + blk bitmap) X h"
  shows "owns B X (do_free bitmap (free_all tables h))"
proof -
  from assms have "owns B (X + blk bitmap + blks tables) h" by (simp add: owns_def ac_simps)
  then show ?thesis by (intro free_owns free_all_owns)
qed

text \<open>From the arrays on: the part that frees the whole message when it fails.\<close>

lemma fill_heap:
  assumes "parse_members desc ms \<lparr>cells = cs, unknown_fields = []\<rparr> = Some r" "shapes (m_fields desc) cs ps"
    and own: "owns (B + blks tables + blk bitmap) (msg_blocks \<lparr>p_self = self, p_cells = ps, p_unknown = u, p_udata = []\<rparr>) h"
  shows "\<exists>x. (do {
      (msg, pm, h) \<leftarrow> parse_members_heap al desc ms \<lparr>cells = cs, unknown_fields = []\<rparr>
        \<lparr>p_self = self, p_cells = ps, p_unknown = u, p_udata = []\<rparr> h;
      case msg of
        None \<Rightarrow> Some (None, do_free bitmap (free_all tables (protobuf_c_message_free_unpacked desc (Some pm) h)))
      | Some msg \<Rightarrow> Some (Some (msg, pm), do_free bitmap (free_all tables h)) }) = Some x \<and> unpacked al desc B r x"
proof -
  let ?pm = "\<lparr>p_self = self, p_cells = ps, p_unknown = u, p_udata = []\<rparr>"
  have sh: "shapes (m_fields desc) (cells \<lparr>cells = cs, unknown_fields = []\<rparr>) (p_cells ?pm)" using assms(2) by simp
  from members_heap [OF assms(1) sh own] obtain r1 pm1 h1 where
    1: "parse_members_heap al desc ms \<lparr>cells = cs, unknown_fields = []\<rparr> ?pm h = Some (r1, pm1, h1)"
    "member_done al desc (B + blks tables + blk bitmap) r ?pm (r1, pm1, h1)" by (metis prod_cases3)
  show ?thesis
  proof (cases r1)
    case None
    with 1 cleanup_owns [of B tables bitmap pm1 h1 desc] show ?thesis by (simp add: member_done_def unpacked_def)
  next
    case (Some msg)
    with 1 tables_owns [of B tables bitmap "msg_blocks pm1" h1] show ?thesis by (auto simp: member_done_def unpacked_def)
  qed
qed

lemma scanned_heap:
  assumes a: "alloc_fields (sc_bitmap st) 0 (m_fields desc) (sc_cells st) = Some a"
    "(case a of None \<Rightarrow> Some None | Some cs \<Rightarrow> parse_members desc (sc_members st) \<lparr>cells = cs, unknown_fields = []\<rparr>) = Some r"
    and st: "plain_state desc st" and own: "owns (B + blks tables + blk bitmap) {#self#} h"
  shows "\<exists>x. unpack_scanned al desc self bitmap tables st h = Some x \<and> unpacked al desc B r x"
proof -
  from arrays_heap [OF a(1) st [unfolded plain_state_def] own, of al] obtain ok3 cs ps h4 where
    ar: "alloc_heap al (sc_bitmap st) 0 (m_fields desc) (sc_cells st) h = Some (ok3, cs, ps, h4)"
    "owns (B + blks tables + blk bitmap) ({#self#} + cells_blocks ps) h4" "list_all2 ptr_ok (m_fields desc) ps"
    "ok3 \<longrightarrow> a = Some cs \<and> shapes (m_fields desc) cs ps" "(\<forall>k. al k) \<and> \<not> ok3 \<longrightarrow> a = None" by blast
  let ?pm = "\<lambda>u. \<lparr>p_self = self, p_cells = ps, p_unknown = u, p_udata = []\<rparr>"
  have own4: "owns (B + blks tables + blk bitmap) (msg_blocks (?pm None)) h4" using ar(2) by (simp add: msg_blocks_def)
  show ?thesis
  proof (cases ok3)
    case False
    with cleanup_owns [OF own4, of desc] ar a(2) show ?thesis by (auto simp: unpack_scanned_def unpacked_def)
  next
    case True
    obtain ok4 u h5 where u: "alloc_if al (n_unknown st \<noteq> 0) h4 = (ok4, u, h5)" by (metis prod_cases3)
    have own5: "owns (B + blks tables + blk bitmap) (msg_blocks (?pm u)) h5" and u_none: "ok4 \<or> u = None"
      using alloc_if_owns [OF u own4] by (simp_all add: msg_blocks_def)
    show ?thesis
    proof (cases ok4)
      case False
      with own5 u_none cleanup_owns [of B tables bitmap "?pm None" h5 desc] ar(1,3) True u alloc_if_ok [OF u] show ?thesis
        by (auto simp: unpack_scanned_def unpacked_def)
    next
      case ok4: True
      from ar(4) True a(2) have "parse_members desc (sc_members st) \<lparr>cells = cs, unknown_fields = []\<rparr> = Some r"
        "shapes (m_fields desc) cs ps" by auto
      from fill_heap [OF this own5, of al] ar(1) True u ok4 show ?thesis by (simp add: unpack_scanned_def)
    qed
  qed
qed

lemma unpack_heap_correct:
  assumes unpack: "protobuf_c_message_unpack desc len data = Some r" and init: "list_all2 plain (m_fields desc) (m_init desc)"
    and own: "owns B {#} h"
  shows "\<exists>x. unpack_heap al desc len data h = Some x \<and> unpacked al desc B r x"
proof -
  from unpack obtain st where scan: "scan_loop desc len data (scan_init desc) = Some st"
    by (auto simp: protobuf_c_message_unpack_def bind_eq_Some_conv)
  obtain rv h1 where rv: "do_alloc al h = (rv, h1)" by (cases "do_alloc al h")
  have own1: "owns B (blk rv) h1" using alloc_owns [OF rv own] by simp
  have ok1: "\<forall>k. al k \<Longrightarrow> rv \<noteq> None" using rv by (auto simp: do_alloc_def Let_def split: if_splits)
  obtain ok bitmap h2 where bm: "alloc_if al ((length (m_fields desc) + 7) div 8 > 16) h1 = (ok, bitmap, h2)"
    by (metis prod_cases3)
  note own2 = alloc_if_owns [OF bm own1] and ok2 = alloc_if_ok [OF bm]
  have "plain_state desc (scan_init desc)" using init by (simp add: plain_state_def scan_init_def)
  from scan_loop_heap [OF scan this, of B "blk rv + blk bitmap" "[]" h2 al] own2 obtain st1 tables h3 where
    sc: "scan_heap al desc len data (scan_init desc) [] h2 = Some (st1, tables, h3)"
    "scan_done al desc B (blk rv + blk bitmap) st (st1, tables, h3)" by auto
  note heap = unpack_heap_def rv bm sc(1)
  show ?thesis
  proof (cases "rv = None \<or> \<not> ok")
    case True
    with own1 own2 ok1 ok2 free_owns [of B "{#}" rv h2] show ?thesis by (auto simp: heap unpacked_def split: option.split)
  next
    case False
    then obtain self where self: "rv = Some self" "ok" by auto
    show ?thesis
    proof (cases st1)
      case None
      have "owns B (blk bitmap + blks tables + blk rv) h3" using sc(2) by (simp add: scan_done_def ac_simps)
      then have "owns B {#} (do_free bitmap (free_all tables (do_free rv h3)))"
        using free_owns [of B "{#}" bitmap] free_all_owns [of B "blk bitmap" tables] free_owns [of B _ rv h3] by simp
      moreover have "(\<forall>k. al k) \<longrightarrow> r = None"
        using sc(2) None unpack scan by (auto simp: scan_done_def protobuf_c_message_unpack_def)
      ultimately show ?thesis using self None by (auto simp: heap unpacked_def)
    next
      case (Some s1)
      with sc(2) have st: "st = Some s1" "plain_state desc s1" by (auto simp: scan_done_def)
      from unpack scan st(1) obtain a where a: "alloc_fields (sc_bitmap s1) 0 (m_fields desc) (sc_cells s1) = Some a"
        "(case a of None \<Rightarrow> Some None | Some cs \<Rightarrow> parse_members desc (sc_members s1) \<lparr>cells = cs, unknown_fields = []\<rparr>) = Some r"
        by (auto simp: protobuf_c_message_unpack_def bind_eq_Some_conv)
      have "owns (B + blks tables + blk bitmap) {#self#} h3" using sc(2) self(1) by (simp add: scan_done_def owns_def ac_simps)
      from scanned_heap [OF a st(2) this, of al] self Some show ?thesis by (simp add: heap)
    qed
  qed
qed

section \<open>Initial values\<close>

text \<open>The zero of a member, which a string or bytes has as a null pointer.\<close>

definition zero_of :: "ProtobufCType \<Rightarrow> pval" where
  "zero_of t =
     (if t = TYPE_STRING then VStr Null
      else if t = TYPE_BYTES then VBytes []
      else if t = TYPE_BOOL then VBool 0
      else if t \<in> {TYPE_INT64, TYPE_SINT64, TYPE_SFIXED64, TYPE_UINT64, TYPE_FIXED64, TYPE_DOUBLE} then V64 0
      else V32 0)"

definition message_init_generic :: "msg_desc \<Rightarrow> cell list" where
  "message_init_generic desc =
     map (\<lambda>f. if fd_label f = LABEL_REPEATED then Rep 0 []
               else Single 0 (case default_value f of
                 None \<Rightarrow> zero_of (fd_type f)
               | Some dv \<Rightarrow> if fd_type f = TYPE_STRING then VStr Default else dv)) (m_fields desc)"

lemma init_generic_plain: "list_all2 plain (m_fields desc) (message_init_generic desc)"
  by (simp add: message_init_generic_def list_all2_conv_all_nth)

text \<open>For the messages of the program it gives the values of the generated initializers.\<close>

lemma messages_init_generic: "message_init_generic (obj_desc ob) = m_init (obj_desc ob)"
  by (cases ob) (simp_all add: message_init_generic_def zero_of_def descriptor_defs cells_defs array_cell_def)

text \<open>
  C23: Unpacking a message leaks nothing and frees nothing twice, whichever of its allocations fail:
  for an input it reads within bounds, every block it allocated is given back when it returns NULL, and
  otherwise the caller gets them all back by \<open>protobuf_c_message_free_unpacked\<close>. An allocation that fails
  only ever turns the result into NULL; when all succeed the result is that of the unpacking itself.
\<close>

theorem unpack_owns_its_memory:
  assumes "protobuf_c_message_unpack desc len data = Some r" "list_all2 plain (m_fields desc) (m_init desc)" "\<not> bad_free h"
  shows "\<exists>r' h'. unpack_heap al desc len data h = Some (r', h') \<and> \<not> bad_free h' \<and>
    (r' = None \<or> map_option fst r' = r) \<and> ((\<forall>k. al k) \<longrightarrow> map_option fst r' = r) \<and>
    (r' = None \<longrightarrow> live h' = live h) \<and>
    (let h'' = protobuf_c_message_free_unpacked desc (map_option snd r') h' in live h'' = live h \<and> \<not> bad_free h'')"
proof -
  from assms(3) have "owns (live h) {#} h" by (simp add: owns_def)
  from unpack_heap_correct [OF assms(1,2) this, of al] obtain r' h' where
    r': "unpack_heap al desc len data h = Some (r', h')" "unpacked al desc (live h) r (r', h')" by auto
  show ?thesis
  proof (cases r')
    case None
    with r' show ?thesis by (auto simp: unpacked_def owns_def protobuf_c_message_free_unpacked_def)
  next
    case (Some x)
    with r' free_unpacked_owns [of desc "snd x" "live h" "{#}" h'] show ?thesis
      by (auto simp: unpacked_def owns_def split: prod.splits)
  qed
qed

declare scan_loop.simps [code] scan_heap.simps [code]

theorem unpack_owns_its_memory_witness:
  "\<exists>r' h'. unpack_heap (\<lambda>k. True) ack__descriptor 4 [8, 5, 24, 1] \<lparr>live = {#}, next_block = 0, bad_free = False\<rparr> = Some (r', h') \<and>
     map_option fst r' = Some (obj_msg (OAck \<lparr>a_id = 5, a_has_seq = 0, a_seq = 0, has_status = 1, status = 1\<rparr>)) \<and>
     live (protobuf_c_message_free_unpacked ack__descriptor (map_option snd r') h') = {#}"
proof -
  let ?ob = "OAck \<lparr>a_id = 5, a_has_seq = 0, a_seq = 0, has_status = 1, status = 1\<rparr>"
  have "protobuf_c_message_unpack ack__descriptor 4 [8, 5, 24, 1] = Some (Some (obj_msg ?ob))"
    by code_simp
  moreover have "list_all2 plain (m_fields ack__descriptor) (m_init ack__descriptor)"
    using init_generic_plain [of ack__descriptor] messages_init_generic [of ?ob] by simp
  ultimately show ?thesis
    using unpack_owns_its_memory [of ack__descriptor 4 "[8, 5, 24, 1]" _ "\<lparr>live = {#}, next_block = 0, bad_free = False\<rparr>" "\<lambda>k. True"]
    by (fastforce simp: Let_def)
qed

end
