(* ===== verification/Gpio.thy ===== *)
theory Gpio
  imports Prelude
begin

text \<open>
  The pins of the board: \<^verbatim>\<open>burba/cpu/cc3200/periph/gpio.c\<close> over the peripheral library's
  \<^verbatim>\<open>sdk/driverlib/gpio.c\<close> (the build does not define \<open>TARGET_IS_CC3200\<close>, so that the library's functions
  are called and not those in ROM), and the LEDs of \<^verbatim>\<open>boards/cc3200-launchxl/board.c\<close>.

  The register block of a port is a record. The address of its data register selects the bits that
  are read or written, an output reads as its latch and an input as the level at the pad, an
  interrupt stays pending until it is cleared, and the masked status is the pending interrupts that
  are enabled. A pin number outside the tables is \<^term>\<open>None\<close>.
\<close>

section \<open>Tables\<close>

definition GPIOA0_BASE :: u32 where "GPIOA0_BASE = 0x40004000"
definition GPIOA1_BASE :: u32 where "GPIOA1_BASE = 0x40005000"
definition GPIOA2_BASE :: u32 where "GPIOA2_BASE = 0x40006000"
definition GPIOA3_BASE :: u32 where "GPIOA3_BASE = 0x40007000"

definition NOT_A_PORT :: nat where "NOT_A_PORT = 0"

definition port_to_base :: "u32 list" where
  "port_to_base = [0, GPIOA0_BASE, GPIOA1_BASE, GPIOA2_BASE, GPIOA3_BASE]"

text \<open>\<open>PIN_n\<close> of the library is \<open>n - 1\<close>.\<close>

definition digital_pin_to_pin_num :: "nat list" where
  "digital_pin_to_pin_num =
    [0, 0, 57, 3, 2, 60, 58, 4, 61, 0, 1, 14, 54, 20, 5, 6, 0, 44, 7, 17, 0, 0, 0, 56, 59, 57,
    58, 62, 52, 63, 49, 16, 15, 59, 61, 17, 20, 63, 16, 0, 1]"

definition digital_pin_to_port :: "nat list" where
  "digital_pin_to_port =
    [0, 0, 1, 2, 2, 1, 1, 2, 1, 2, 2, 3, 1, 4, 2, 3, 0, 4, 3, 4, 0, 0, 0, 1, 1, 1, 1, 2, 4, 2,
    1, 4, 3, 1, 1, 4, 4, 2, 4, 2, 2]"

definition digital_pin_to_bit_mask :: "byte list" where
  "digital_pin_to_bit_mask =
    [0, 0, 8, 32, 16, 64, 16, 64, 128, 4, 8, 64, 2, 2, 128, 1, 0, 128, 2, 16, 0, 0, 0, 4, 32,
    8, 16, 1, 64, 2, 1, 1, 128, 32, 128, 16, 2, 2, 1, 4, 8]"

section \<open>Registers\<close>

record gpio_regs =
  GPIO_DIR :: u32
  GPIO_DATA :: u32
  pads :: u32
  GPIO_IBE :: u32
  GPIO_IS :: u32
  GPIO_IEV :: u32
  GPIO_IM :: u32
  GPIO_RIS :: u32

datatype gpio_event = call_back int int | thread_yield

text \<open>
  \<open>cbFuncs\<close> and \<open>cbArg\<close> are the four arrays of the driver, by the base of the port; \<open>vector\<close> gives the port
  whose handler is registered for the interrupt of a port.
\<close>

record gpio_state =
  regs :: "u32 \<Rightarrow> gpio_regs"
  pin_modes :: "nat \<Rightarrow> nat option"
  pin_configs :: "nat \<Rightarrow> (u32 \<times> u32) option"
  cbFuncs :: "u32 \<Rightarrow> nat \<Rightarrow> int option"
  cbArg :: "u32 \<Rightarrow> nat \<Rightarrow> int"
  vector :: "u32 \<Rightarrow> u32 option"
  ints_enabled :: "u32 \<Rightarrow> bool"
  int_master :: bool
  sched_context_switch_request :: bool
  gpio_trace :: "gpio_event list"

definition upd_regs :: "u32 \<Rightarrow> (gpio_regs \<Rightarrow> gpio_regs) \<Rightarrow> gpio_state \<Rightarrow> gpio_state" where
  "upd_regs base f s = s\<lparr>regs := (regs s)(base := f (regs s base))\<rparr>"

definition set_bits :: "bool \<Rightarrow> u32 \<Rightarrow> u32 \<Rightarrow> u32" where
  "set_bits on pins r = (if on then r OR pins else r AND NOT pins)"

definition GPIO_DIR_MODE_IN :: u32 where "GPIO_DIR_MODE_IN = 0"
definition GPIO_DIR_MODE_OUT :: u32 where "GPIO_DIR_MODE_OUT = 1"
definition GPIO_FALLING_EDGE :: u32 where "GPIO_FALLING_EDGE = 0"
definition GPIO_RISING_EDGE :: u32 where "GPIO_RISING_EDGE = 4"
definition GPIO_BOTH_EDGES :: u32 where "GPIO_BOTH_EDGES = 1"
definition PIN_STRENGTH_2MA :: u32 where "PIN_STRENGTH_2MA = 0x20"
definition PIN_TYPE_STD :: u32 where "PIN_TYPE_STD = 0"
definition PIN_TYPE_STD_PU :: u32 where "PIN_TYPE_STD_PU = 0x100"
definition PIN_TYPE_STD_PD :: u32 where "PIN_TYPE_STD_PD = 0x200"

definition GPIODirModeSet :: "u32 \<Rightarrow> byte \<Rightarrow> u32 \<Rightarrow> gpio_state \<Rightarrow> gpio_state" where
  "GPIODirModeSet base pins io =
     upd_regs base (\<lambda>r. r\<lparr>GPIO_DIR := set_bits (io AND 1 \<noteq> 0) (ucast pins) (GPIO_DIR r)\<rparr>)"

definition GPIOIntTypeSet :: "u32 \<Rightarrow> byte \<Rightarrow> u32 \<Rightarrow> gpio_state \<Rightarrow> gpio_state" where
  "GPIOIntTypeSet base pins t =
     upd_regs base (\<lambda>r. r\<lparr>GPIO_IBE := set_bits (t AND 1 \<noteq> 0) (ucast pins) (GPIO_IBE r),
       GPIO_IS := set_bits (t AND 2 \<noteq> 0) (ucast pins) (GPIO_IS r),
       GPIO_IEV := set_bits (t AND 4 \<noteq> 0) (ucast pins) (GPIO_IEV r)\<rparr>)"

definition GPIOIntEnable :: "u32 \<Rightarrow> u32 \<Rightarrow> gpio_state \<Rightarrow> gpio_state" where
  "GPIOIntEnable base flags = upd_regs base (\<lambda>r. r\<lparr>GPIO_IM := GPIO_IM r OR flags\<rparr>)"

definition GPIOIntDisable :: "u32 \<Rightarrow> u32 \<Rightarrow> gpio_state \<Rightarrow> gpio_state" where
  "GPIOIntDisable base flags = upd_regs base (\<lambda>r. r\<lparr>GPIO_IM := GPIO_IM r AND NOT flags\<rparr>)"

definition GPIOIntStatus :: "u32 \<Rightarrow> bool \<Rightarrow> gpio_state \<Rightarrow> u32" where
  "GPIOIntStatus base masked s =
     (let r = regs s base in if masked then GPIO_RIS r AND GPIO_IM r else GPIO_RIS r)"

definition GPIOIntClear :: "u32 \<Rightarrow> u32 \<Rightarrow> gpio_state \<Rightarrow> gpio_state" where
  "GPIOIntClear base flags = upd_regs base (\<lambda>r. r\<lparr>GPIO_RIS := GPIO_RIS r AND NOT flags\<rparr>)"

definition GPIOIntRegister :: "u32 \<Rightarrow> u32 \<Rightarrow> gpio_state \<Rightarrow> gpio_state" where
  "GPIOIntRegister base handler s =
     s\<lparr>vector := (vector s)(base \<mapsto> handler), ints_enabled := (ints_enabled s)(base := True)\<rparr>"

definition GPIOPinRead :: "u32 \<Rightarrow> byte \<Rightarrow> gpio_state \<Rightarrow> u32" where
  "GPIOPinRead base pins s =
     (let r = regs s base in ((GPIO_DATA r AND GPIO_DIR r) OR (pads r AND NOT (GPIO_DIR r))) AND ucast pins)"

definition GPIOPinWrite :: "u32 \<Rightarrow> byte \<Rightarrow> byte \<Rightarrow> gpio_state \<Rightarrow> gpio_state" where
  "GPIOPinWrite base pins val =
     upd_regs base (\<lambda>r. r\<lparr>GPIO_DATA := (GPIO_DATA r AND NOT (ucast pins)) OR (ucast val AND ucast pins)\<rparr>)"

section \<open>Pins\<close>

datatype gpio_mode_t = GPIO_IN | GPIO_IN_PD | GPIO_IN_PU | GPIO_OUT | GPIO_OD | GPIO_OD_PU
datatype gpio_flank_t = GPIO_FALLING | GPIO_RISING | GPIO_BOTH | other_flank

definition gpio_init :: "nat \<Rightarrow> gpio_mode_t \<Rightarrow> gpio_state \<Rightarrow> (int \<times> gpio_state) option" where
  "gpio_init dev mode s =
     do {
       pbit \<leftarrow> rd digital_pin_to_bit_mask dev;
       port \<leftarrow> rd digital_pin_to_port dev;
       if port = NOT_A_PORT then Some (-1, s)
       else do {
         portBase \<leftarrow> rd port_to_base port;
         pinNum \<leftarrow> rd digital_pin_to_pin_num dev;
         let s = s\<lparr>pin_modes := (pin_modes s)(pinNum \<mapsto> 0)\<rparr>;
         let s = GPIODirModeSet portBase pbit (if mode = GPIO_OUT then GPIO_DIR_MODE_OUT else GPIO_DIR_MODE_IN) s;
         let t = (case mode of
             GPIO_IN \<Rightarrow> PIN_TYPE_STD | GPIO_OUT \<Rightarrow> PIN_TYPE_STD | GPIO_OD \<Rightarrow> PIN_TYPE_STD
           | GPIO_OD_PU \<Rightarrow> PIN_TYPE_STD_PU | GPIO_IN_PU \<Rightarrow> PIN_TYPE_STD_PU
           | GPIO_IN_PD \<Rightarrow> PIN_TYPE_STD_PD);
         Some (0, s\<lparr>pin_configs := (pin_configs s)(pinNum \<mapsto> (PIN_STRENGTH_2MA, t))\<rparr>)
       }
     }"

text \<open>The port and the mask of a pin that is one.\<close>

definition pin_of :: "nat \<Rightarrow> (u32 \<times> byte) option option" where
  "pin_of dev =
     do {
       pbit \<leftarrow> rd digital_pin_to_bit_mask dev;
       port \<leftarrow> rd digital_pin_to_port dev;
       portBase \<leftarrow> rd port_to_base port;
       Some (if port = NOT_A_PORT then None else Some (portBase, pbit))
     }"

definition gpio_irq_enable :: "nat \<Rightarrow> gpio_state \<Rightarrow> gpio_state option" where
  "gpio_irq_enable dev s =
     map_option (\<lambda>p. case p of None \<Rightarrow> s | Some (base, pbit) \<Rightarrow> GPIOIntEnable base (ucast pbit) s) (pin_of dev)"

definition gpio_irq_disable :: "nat \<Rightarrow> gpio_state \<Rightarrow> gpio_state option" where
  "gpio_irq_disable dev s =
     map_option (\<lambda>p. case p of None \<Rightarrow> s | Some (base, pbit) \<Rightarrow> GPIOIntDisable base (ucast pbit) s) (pin_of dev)"

definition gpio_read :: "nat \<Rightarrow> gpio_state \<Rightarrow> int option" where
  "gpio_read dev s =
     map_option (\<lambda>p. case p of None \<Rightarrow> 0 | Some (base, pbit) \<Rightarrow> if GPIOPinRead base pbit s \<noteq> 0 then 1 else 0) (pin_of dev)"

definition gpio_write :: "nat \<Rightarrow> int \<Rightarrow> gpio_state \<Rightarrow> gpio_state option" where
  "gpio_write dev v s =
     map_option (\<lambda>p. case p of None \<Rightarrow> s | Some (base, pbit) \<Rightarrow> GPIOPinWrite base pbit (if v \<noteq> 0 then pbit else 0) s) (pin_of dev)"

definition gpio_set :: "nat \<Rightarrow> gpio_state \<Rightarrow> gpio_state option" where
  "gpio_set dev = gpio_write dev 1"

definition gpio_clear :: "nat \<Rightarrow> gpio_state \<Rightarrow> gpio_state option" where
  "gpio_clear dev = gpio_write dev 0"

definition gpio_toggle :: "nat \<Rightarrow> gpio_state \<Rightarrow> gpio_state option" where
  "gpio_toggle dev s = do { v \<leftarrow> gpio_read dev s; if v \<noteq> 0 then gpio_clear dev s else gpio_set dev s }"

section \<open>Interrupts\<close>

text \<open>
  \<open>eff\<close> gives the request for a context switch after a callback. Yielding serves it. The loop over the
  pins of the port shifts the status.
\<close>

fun pin_loop :: "(int \<Rightarrow> int \<Rightarrow> bool \<Rightarrow> bool) \<Rightarrow> u32 \<Rightarrow> nat \<Rightarrow> nat \<Rightarrow> u32 \<Rightarrow> gpio_state \<Rightarrow> gpio_state" where
  "pin_loop eff base i 0 isr s = s"
| "pin_loop eff base i (Suc n) isr s =
     (let s = (if isr AND 1 = 0 then s
               else (case cbFuncs s base i of
                       None \<Rightarrow> s
                     | Some f \<Rightarrow>
                         (let a = cbArg s base i;
                              s = s\<lparr>gpio_trace := gpio_trace s @ [call_back f a],
                                    sched_context_switch_request := eff f a (sched_context_switch_request s)\<rparr>
                          in if sched_context_switch_request s
                             then s\<lparr>gpio_trace := gpio_trace s @ [thread_yield], sched_context_switch_request := False\<rparr>
                             else s)))
      in pin_loop eff base (Suc i) n (drop_bit 1 isr) s)"

definition GPIOXIntHandler :: "(int \<Rightarrow> int \<Rightarrow> bool \<Rightarrow> bool) \<Rightarrow> u32 \<Rightarrow> gpio_state \<Rightarrow> gpio_state" where
  "GPIOXIntHandler eff base s =
     (let isr = GPIOIntStatus base True s in pin_loop eff base 0 8 isr (GPIOIntClear base isr s))"

fun lowest_bit :: "nat \<Rightarrow> nat \<Rightarrow> byte \<Rightarrow> nat" where
  "lowest_bit i 0 pbit = i"
| "lowest_bit i (Suc n) pbit = (if pbit AND 1 = 1 then i else lowest_bit (Suc i) n (drop_bit 1 pbit))"

definition gpio_init_int ::
  "nat \<Rightarrow> gpio_mode_t \<Rightarrow> gpio_flank_t \<Rightarrow> int option \<Rightarrow> int \<Rightarrow> gpio_state \<Rightarrow> (int \<times> gpio_state) option" where
  "gpio_init_int dev mode flank cb arg s =
     do {
       pbit \<leftarrow> rd digital_pin_to_bit_mask dev;
       port \<leftarrow> rd digital_pin_to_port dev;
       portBase \<leftarrow> rd port_to_base port;
       (res, s) \<leftarrow> gpio_init dev mode s;
       if res < 0 then Some (res, s)
       else (case (case flank of
                     GPIO_BOTH \<Rightarrow> Some GPIO_BOTH_EDGES
                   | GPIO_RISING \<Rightarrow> Some GPIO_RISING_EDGE
                   | GPIO_FALLING \<Rightarrow> Some GPIO_FALLING_EDGE
                   | other_flank \<Rightarrow> None) of
               None \<Rightarrow> Some (-1, s)
             | Some cc3200Mode \<Rightarrow>
                 (let s = s\<lparr>int_master := False\<rparr>;
                      s = GPIOIntClear portBase (ucast pbit) s;
                      s = GPIOIntTypeSet portBase pbit cc3200Mode s;
                      s = GPIOIntEnable portBase (ucast pbit) s;
                      i = lowest_bit 0 8 pbit in
                  do {
                    s \<leftarrow> (if portBase \<in> {GPIOA0_BASE, GPIOA1_BASE, GPIOA2_BASE, GPIOA3_BASE}
                         then if i < 8
                           then Some (GPIOIntRegister portBase portBase
                             (s\<lparr>cbFuncs := (cbFuncs s)(portBase := (cbFuncs s portBase)(i := cb)),
                                cbArg := (cbArg s)(portBase := (cbArg s portBase)(i := arg))\<rparr>))
                           else None
                         else Some s);
                    Some (0, s\<lparr>int_master := True\<rparr>)
                  }))
     }"

section \<open>The LEDs of the board\<close>

definition LED_RED :: nat where "LED_RED = 29"
definition LED_GREEN :: nat where "LED_GREEN = 10"
definition LED_YELLOW :: nat where "LED_YELLOW = 9"

definition led_init :: "gpio_state \<Rightarrow> gpio_state option" where
  "led_init s =
     do {
       (_, s) \<leftarrow> gpio_init LED_RED GPIO_OUT s;
       (_, s) \<leftarrow> gpio_init LED_GREEN GPIO_OUT s;
       (_, s) \<leftarrow> gpio_init LED_YELLOW GPIO_OUT s;
       s \<leftarrow> gpio_clear LED_RED s;
       s \<leftarrow> gpio_clear LED_GREEN s;
       gpio_clear LED_YELLOW s
     }"

section \<open>The tables agree\<close>

text \<open>The GPIO a pin of the headers is connected to, as the comments in the tables name it.\<close>

definition gpio_number :: "nat option list" where
  "gpio_number =
    [None, None, Some 3, Some 13, Some 12, Some 6, Some 4, Some 14, Some 7, Some 10, Some 11,
    Some 22, Some 1, Some 25, Some 15, Some 16, None, Some 31, Some 17, Some 28, None, None,
    None, Some 2, Some 5, Some 3, Some 4, Some 8, Some 30, Some 9, Some 0, Some 24, Some 23,
    Some 5, Some 7, Some 28, Some 25, Some 9, Some 24, Some 10, Some 11]"

definition gpio_base :: "nat \<Rightarrow> u32" where
  "gpio_base g = 0x40004000 + 0x1000 * of_nat (g div 8)"

lemma pin_table:
  "list_all (\<lambda>d. pin_of d = Some (map_option (\<lambda>g. (gpio_base g, 2 ^ (g mod 8))) (gpio_number ! d))) [0..<41]"
  by code_simp

text \<open>The pin of the package of each GPIO, and a number that is none for those that are not on the headers.\<close>

definition package_pin :: "nat list" where
  "package_pin =
    [49, 54, 56, 57, 58, 59, 60, 61, 62, 63, 0, 1, 2, 3, 4, 5, 6, 7, 82, 83, 84, 85, 14, 15, 16, 20, 90, 91, 17, 93, 52, 44]"

lemma package_pins:
  "list_all (\<lambda>d. case gpio_number ! d of None \<Rightarrow> True | Some g \<Rightarrow> digital_pin_to_pin_num ! d = package_pin ! g) [0..<41]"
  by code_simp

lemma package_pins_distinct: "distinct package_pin" "length package_pin = 32"
  by (simp_all add: package_pin_def)

lemma small_gpios: "list_all (\<lambda>d. case gpio_number ! d of None \<Rightarrow> True | Some g \<Rightarrow> g < 32) [0..<41]"
  by code_simp

lemma header_pin:
  assumes "d < 41" "gpio_number ! d = Some g"
  shows "pin_of d = Some (Some (gpio_base g, 2 ^ (g mod 8)))" "g < 32" "digital_pin_to_pin_num ! d = package_pin ! g"
  using bspec [OF pin_table [unfolded list_all_iff set_upt], of d]
    bspec [OF small_gpios [unfolded list_all_iff set_upt], of d]
    bspec [OF package_pins [unfolded list_all_iff set_upt], of d] assms by simp_all

lemma gpio_base_eq:
  assumes "g < 32" "h < 32"
  shows "gpio_base g = gpio_base h \<longleftrightarrow> g div 8 = h div 8"
proof -
  have "g div 8 \<in> {0, 1, 2, 3}" "h div 8 \<in> {0, 1, 2, 3}" using assms by auto
  then show ?thesis by (auto simp: gpio_base_def)
qed

lemma same_gpio: "(g :: nat) = h \<longleftrightarrow> g div 8 = h div 8 \<and> g mod 8 = h mod 8"
  by (metis div_mult_mod_eq)

lemma ucast_pin: "ucast (2 ^ i :: byte) = (2 ^ i :: u32)" if "i < 8"
  using that by (intro bit_word_eqI) (auto simp: bit_simps)

lemma pin_bit: "g mod 8 < (32 :: nat)"
  by (rule less_trans [of _ 8]) simp_all

lemma and_pin: "(r :: u32) AND 2 ^ i \<noteq> 0 \<longleftrightarrow> bit r i"
  by (simp add: and_exp_eq_0_iff_not_bit)

section \<open>Reading and writing pins\<close>

definition is_output :: "nat \<Rightarrow> gpio_state \<Rightarrow> bool" where
  "is_output g s \<longleftrightarrow> bit (GPIO_DIR (regs s (gpio_base g))) (g mod 8)"

definition level :: "nat \<Rightarrow> gpio_state \<Rightarrow> bool" where
  "level g s \<longleftrightarrow> (let r = regs s (gpio_base g) in bit (if is_output g s then GPIO_DATA r else pads r) (g mod 8))"

lemma read_level:
  assumes "d < 41" "gpio_number ! d = Some g"
  shows "gpio_read d s = Some (if level g s then 1 else 0)"
proof -
  have "GPIOPinRead (gpio_base g) (2 ^ (g mod 8)) s \<noteq> 0 \<longleftrightarrow> level g s"
    by (auto simp: GPIOPinRead_def Let_def ucast_pin and_pin level_def is_output_def bit_simps)
  with header_pin [OF assms] show ?thesis by (simp add: gpio_read_def)
qed

lemma write_level:
  assumes "d < 41" "gpio_number ! d = Some g" "h < 32"
  shows "\<exists>s'. gpio_write d v s = Some s' \<and> is_output h s' = is_output h s \<and>
    level h s' = (if g = h \<and> is_output g s then v \<noteq> 0 else level h s)"
proof -
  note pin = header_pin [OF assms(1,2)]
  have bits: "bit ((r AND NOT (2 ^ (g mod 8))) OR ((if v \<noteq> 0 then 2 ^ (g mod 8) else 0) AND 2 ^ (g mod 8)) :: u32) j =
      (if j = g mod 8 then v \<noteq> 0 else bit r j)" for r j
  proof (cases "j < 32")
    case True
    then show ?thesis by (simp add: bit_simps)
  next
    case False
    then have "\<not> bit r j" "j \<noteq> g mod 8" using bit_imp_le_length [of r j] by auto
    with False show ?thesis by (simp add: bit_simps)
  qed
  let ?val = "if v \<noteq> 0 then 2 ^ (g mod 8) else 0 :: byte"
  have val: "(ucast ?val :: u32) = (if v \<noteq> 0 then 2 ^ (g mod 8) else 0)" by (simp add: ucast_pin)
  let ?s = "GPIOPinWrite (gpio_base g) (2 ^ (g mod 8)) ?val s"
  have "gpio_write d v s = Some ?s" by (simp add: gpio_write_def pin(1))
  moreover have "GPIO_DIR (regs ?s b) = GPIO_DIR (regs s b)" "pads (regs ?s b) = pads (regs s b)" for b
    by (simp_all add: GPIOPinWrite_def upd_regs_def)
  moreover have "bit (GPIO_DATA (regs ?s (gpio_base h))) (h mod 8) =
      (if g = h then v \<noteq> 0 else bit (GPIO_DATA (regs s (gpio_base h))) (h mod 8))"
  proof (cases "gpio_base g = gpio_base h")
    case True
    with gpio_base_eq [OF pin(2) assms(3)] same_gpio [of g h] have "(h mod 8 = g mod 8) = (g = h)" by auto
    moreover have "GPIO_DATA (regs ?s (gpio_base h)) =
        GPIO_DATA (regs s (gpio_base h)) AND NOT (2 ^ (g mod 8)) OR ucast ?val AND 2 ^ (g mod 8)"
      using True by (simp add: GPIOPinWrite_def upd_regs_def ucast_pin)
    ultimately show ?thesis by (simp only: val bits)
  next
    case False
    then show ?thesis by (auto simp: GPIOPinWrite_def upd_regs_def)
  qed
  ultimately obtain s' where "gpio_write d v s = Some s'" "\<And>b. GPIO_DIR (regs s' b) = GPIO_DIR (regs s b)"
    "\<And>b. pads (regs s' b) = pads (regs s b)" "bit (GPIO_DATA (regs s' (gpio_base h))) (h mod 8) =
      (if g = h then v \<noteq> 0 else bit (GPIO_DATA (regs s (gpio_base h))) (h mod 8))"
    by blast
  then show ?thesis by (cases "g = h") (simp_all add: is_output_def level_def Let_def)
qed

text \<open>
  C29: Writing a pin of the headers is seen by reading any pin that is connected to the same GPIO, when
  it is an output, and no other pin changes, on the same port or another; the three tables name one
  GPIO for each pin, and two pins share a pin of the package exactly when they share a GPIO.
\<close>

theorem gpio_write_read:
  assumes "d < 41" "e < 41" "gpio_number ! d = Some g" "gpio_number ! e = Some h"
  shows "(\<exists>s'. gpio_write d v s = Some s' \<and>
      gpio_read e s' = (if g = h \<and> is_output g s then Some (if v \<noteq> 0 then 1 else 0) else gpio_read e s)) \<and>
    (digital_pin_to_pin_num ! d = digital_pin_to_pin_num ! e) = (g = h)"
proof -
  have "h < 32" by (rule header_pin(2) [OF assms(2,4)])
  from write_level [OF assms(1,3) this, of v s] obtain s' where
    "gpio_write d v s = Some s'" "level h s' = (if g = h \<and> is_output g s then v \<noteq> 0 else level h s)" by blast
  moreover have "(digital_pin_to_pin_num ! d = digital_pin_to_pin_num ! e) = (g = h)"
    using header_pin [OF assms(1,3)] header_pin [OF assms(2,4)]
      nth_eq_iff_index_eq [OF package_pins_distinct(1), of g h] package_pins_distinct(2) by simp
  ultimately show ?thesis by (cases "g = h") (simp_all add: read_level [OF assms(2,4)])
qed

definition idle_pins :: gpio_state where
  "idle_pins = \<lparr>regs = (\<lambda>_. \<lparr>GPIO_DIR = 0, GPIO_DATA = 0, pads = 0, GPIO_IBE = 0, GPIO_IS = 0, GPIO_IEV = 0,
      GPIO_IM = 0, GPIO_RIS = 0\<rparr>), pin_modes = (\<lambda>_. None), pin_configs = (\<lambda>_. None), cbFuncs = (\<lambda>_ _. None),
      cbArg = (\<lambda>_ _. 0), vector = (\<lambda>_. None), ints_enabled = (\<lambda>_. False), int_master = True,
      sched_context_switch_request = False, gpio_trace = []\<rparr>"

text \<open>Pins 10 and 40 of the headers are both GPIO 11, pin 9 is GPIO 10.\<close>

theorem gpio_write_read_witness:
  "\<exists>s s'. gpio_init LED_GREEN GPIO_OUT idle_pins = Some (0, s) \<and> gpio_write LED_GREEN 1 s = Some s' \<and>
     gpio_read 40 s' = Some 1 \<and> gpio_read LED_YELLOW s' = Some 0"
proof -
  let ?s = "snd (the (gpio_init LED_GREEN GPIO_OUT idle_pins))"
  have "map_option fst (gpio_init LED_GREEN GPIO_OUT idle_pins) = Some 0" by code_simp
  then obtain s where s: "gpio_init LED_GREEN GPIO_OUT idle_pins = Some (0, s)" by auto
  have "is_output 11 ?s \<and> gpio_read LED_YELLOW ?s = Some 0" by code_simp
  then have out: "is_output 11 s" "gpio_read LED_YELLOW s = Some 0" using s by simp_all
  have n: "gpio_number ! LED_GREEN = Some 11" "gpio_number ! 40 = Some 11" "gpio_number ! LED_YELLOW = Some 10"
    "LED_GREEN < 41" "LED_YELLOW < 41"
    by (simp_all add: gpio_number_def LED_GREEN_def LED_YELLOW_def)
  from gpio_write_read [OF n(4) _ n(1,2), of 1 s] gpio_write_read [OF n(4,5,1,3), of 1 s] s out show ?thesis by auto
qed

section \<open>Serving interrupts\<close>

text \<open>What the handler does for one pin, and the call it makes.\<close>

definition serve :: "(int \<Rightarrow> int \<Rightarrow> bool \<Rightarrow> bool) \<Rightarrow> u32 \<Rightarrow> nat \<Rightarrow> gpio_state \<Rightarrow> gpio_state" where
  "serve eff base i s =
     (case cbFuncs s base i of
        None \<Rightarrow> s
      | Some f \<Rightarrow>
          (let a = cbArg s base i; req = eff f a (sched_context_switch_request s)
           in s\<lparr>gpio_trace := gpio_trace s @ call_back f a # (if req then [thread_yield] else []),
                sched_context_switch_request := False\<rparr>))"

definition calls_of :: "gpio_state \<Rightarrow> u32 \<Rightarrow> nat \<Rightarrow> gpio_event list" where
  "calls_of s base i = (case cbFuncs s base i of None \<Rightarrow> [] | Some f \<Rightarrow> [call_back f (cbArg s base i)])"

lemma bit_and_1: "(r :: u32) AND 1 = 0 \<longleftrightarrow> \<not> bit r 0"
  using and_pin [of r 0] by auto

lemma pin_loop_Suc:
  "pin_loop eff base i (Suc n) isr s =
    pin_loop eff base (Suc i) n (drop_bit 1 isr) (if isr AND 1 = 0 then s else serve eff base i s)"
  by (simp add: serve_def Let_def split: option.split)

lemma pin_loop_serves:
  "pin_loop eff base i n isr s = fold (serve eff base) (filter (\<lambda>j. bit isr (j - i)) [i..<i + n]) s"
proof (induction n arbitrary: i isr s)
  case (Suc n)
  have "filter (\<lambda>j. bit isr (j - i)) [i..<i + Suc n] =
      (if bit isr 0 then [i] else []) @ filter (\<lambda>j. bit (drop_bit 1 isr) (j - Suc i)) [Suc i..<Suc i + n]"
  proof -
    have "[i..<i + Suc n] = i # [Suc i..<Suc i + n]" by (simp add: upt_conv_Cons)
    moreover have "filter (\<lambda>j. bit isr (j - i)) [Suc i..<Suc i + n] =
        filter (\<lambda>j. bit (drop_bit 1 isr) (j - Suc i)) [Suc i..<Suc i + n]"
      by (intro filter_cong) (auto simp: bit_drop_bit_eq Suc_diff_le [symmetric])
    ultimately show ?thesis by simp
  qed
  then show ?case
    by (simp add: pin_loop_Suc Suc.IH bit_and_1 del: pin_loop.simps upt_Suc)
qed simp

lemma serve_keeps [simp]:
  "cbFuncs (serve eff base i s) = cbFuncs s" "cbArg (serve eff base i s) = cbArg s" "regs (serve eff base i s) = regs s"
  by (simp_all add: serve_def Let_def split: option.split)

lemma fold_serve:
  "regs (fold (serve eff base) js s) = regs s \<and>
   (\<exists>new. gpio_trace (fold (serve eff base) js s) = gpio_trace s @ new \<and>
     filter (\<lambda>e. e \<noteq> thread_yield) new = concat (map (calls_of s base) js))"
proof (induction js arbitrary: s)
  case (Cons j js)
  have "\<exists>new. gpio_trace (serve eff base j s) = gpio_trace s @ new \<and> filter (\<lambda>e. e \<noteq> thread_yield) new = calls_of s base j"
    by (simp add: serve_def calls_of_def Let_def split: option.split)
  moreover have "calls_of (serve eff base j s) base = calls_of s base" by (simp add: calls_of_def fun_eq_iff split: option.split)
  ultimately show ?case using Cons.IH [of "serve eff base j s"] by fastforce
qed simp

definition pending :: "u32 \<Rightarrow> gpio_state \<Rightarrow> nat list" where
  "pending base s = filter (bit (GPIOIntStatus base True s)) [0..<8]"

lemma handler_serves:
  "\<exists>new. gpio_trace (GPIOXIntHandler eff base s) = gpio_trace s @ new \<and>
     filter (\<lambda>e. e \<noteq> thread_yield) new = concat (map (calls_of s base) (pending base s)) \<and>
     GPIOIntStatus base True (GPIOXIntHandler eff base s) = 0"
proof -
  let ?isr = "GPIOIntStatus base True s"
  let ?s = "GPIOIntClear base ?isr s"
  have "calls_of ?s = calls_of s" "gpio_trace ?s = gpio_trace s"
    by (simp_all add: GPIOIntClear_def upd_regs_def calls_of_def fun_eq_iff split: option.split)
  moreover have "GPIOIntStatus base True ?s = 0"
    by (auto simp: GPIOIntStatus_def GPIOIntClear_def upd_regs_def Let_def bit_simps intro!: bit_word_eqI)
  moreover have "GPIOXIntHandler eff base s = fold (serve eff base) (pending base s) ?s"
    by (simp add: GPIOXIntHandler_def Let_def pin_loop_serves pending_def)
  ultimately show ?thesis using fold_serve [of eff base "pending base s" ?s] by (auto simp: GPIOIntStatus_def Let_def)
qed

text \<open>An edge at the pad of a GPIO.\<close>

definition edge :: "nat \<Rightarrow> gpio_state \<Rightarrow> gpio_state" where
  "edge g = upd_regs (gpio_base g) (\<lambda>r. r\<lparr>GPIO_RIS := GPIO_RIS r OR 2 ^ (g mod 8)\<rparr>)"

lemma lowest_bits: "list_all (\<lambda>i. lowest_bit 0 8 (2 ^ i) = i) [0..<8]"
  by code_simp

lemma gpio_bases: "g < 32 \<Longrightarrow> gpio_base g \<in> {GPIOA0_BASE, GPIOA1_BASE, GPIOA2_BASE, GPIOA3_BASE}"
proof -
  assume "g < 32"
  then have "g div 8 \<in> {0, 1, 2, 3}" by auto
  then show ?thesis by (auto simp: gpio_base_def GPIOA0_BASE_def GPIOA1_BASE_def GPIOA2_BASE_def GPIOA3_BASE_def)
qed

lemma init_int_installs:
  assumes "d < 41" "gpio_number ! d = Some g" "gpio_init_int d mode flank cb a s = Some (0, s1)"
  shows "cbFuncs s1 (gpio_base g) (g mod 8) = cb" "cbArg s1 (gpio_base g) (g mod 8) = a"
    "vector s1 (gpio_base g) = Some (gpio_base g)" "bit (GPIO_IM (regs s1 (gpio_base g))) (g mod 8)"
    "int_master s1" "gpio_trace s1 = gpio_trace s"
proof -
  have low: "lowest_bit 0 8 (2 ^ (g mod 8)) = g mod 8" using lowest_bits by (simp add: list_all_iff)
  from header_pin [OF assms(1,2)] obtain port where t: "rd digital_pin_to_bit_mask d = Some (2 ^ (g mod 8))"
    "rd digital_pin_to_port d = Some port" "rd port_to_base port = Some (gpio_base g)" "port \<noteq> NOT_A_PORT"
    by (auto simp: pin_of_def bind_eq_Some_conv split: if_splits)
  note base = gpio_bases [OF header_pin(2) [OF assms(1,2)]]
  have im: "bit (r OR 2 ^ (g mod 8) :: u32) (g mod 8)" for r
    by (simp add: bit_or_iff bit_exp_iff pin_bit)
  have "\<exists>s'. gpio_init d mode s = Some (0, s') \<and> gpio_trace s' = gpio_trace s"
  proof -
    from assms(1) have "rd digital_pin_to_pin_num d = Some (digital_pin_to_pin_num ! d)"
      by (simp add: rd_def digital_pin_to_pin_num_def)
    with t show ?thesis by (simp add: gpio_init_def Let_def GPIODirModeSet_def upd_regs_def)
  qed
  then obtain s' where s': "gpio_init d mode s = Some (0, s')" "gpio_trace s' = gpio_trace s" by blast
  from assms(3) t s' base low im have
    "cbFuncs s1 (gpio_base g) (g mod 8) = cb \<and> cbArg s1 (gpio_base g) (g mod 8) = a \<and>
     vector s1 (gpio_base g) = Some (gpio_base g) \<and> bit (GPIO_IM (regs s1 (gpio_base g))) (g mod 8) \<and>
     int_master s1 \<and> gpio_trace s1 = gpio_trace s"
    by (cases flank) (simp_all add: gpio_init_int_def Let_def GPIOIntRegister_def
        GPIOIntEnable_def GPIOIntTypeSet_def GPIOIntClear_def upd_regs_def ucast_pin, (auto)[3])
  then show "cbFuncs s1 (gpio_base g) (g mod 8) = cb" "cbArg s1 (gpio_base g) (g mod 8) = a"
    "vector s1 (gpio_base g) = Some (gpio_base g)" "bit (GPIO_IM (regs s1 (gpio_base g))) (g mod 8)"
    "int_master s1" "gpio_trace s1 = gpio_trace s" by simp_all
qed

text \<open>
  C28: After an interrupt of a pin has been set up, an edge at the pin makes the handler registered for
  its port call back the given function with its argument, once. The handler serves every pending
  and enabled pin of the port that has a callback, in the order of the pins, and leaves none pending.
\<close>

theorem gpio_interrupt_served:
  assumes "d < 41" "gpio_number ! d = Some g" "gpio_init_int d mode flank (Some f) a s = Some (0, s1)"
  shows "vector (edge g s1) (gpio_base g) = Some (gpio_base g) \<and>
    (\<exists>new. gpio_trace (GPIOXIntHandler eff (gpio_base g) (edge g s1)) = gpio_trace s @ new \<and>
       filter (\<lambda>e. e \<noteq> thread_yield) new = concat (map (calls_of s1 (gpio_base g)) (pending (gpio_base g) (edge g s1)))) \<and>
    g mod 8 \<in> set (pending (gpio_base g) (edge g s1)) \<and> sorted_wrt (<) (pending (gpio_base g) (edge g s1)) \<and>
    calls_of s1 (gpio_base g) (g mod 8) = [call_back f a] \<and>
    GPIOIntStatus (gpio_base g) True (GPIOXIntHandler eff (gpio_base g) (edge g s1)) = 0"
proof -
  note inst = init_int_installs [OF assms]
  have "calls_of (edge g s1) = calls_of s1" "gpio_trace (edge g s1) = gpio_trace s1" "vector (edge g s1) = vector s1"
    by (simp_all add: edge_def upd_regs_def calls_of_def fun_eq_iff split: option.split)
  moreover have "g mod 8 \<in> set (pending (gpio_base g) (edge g s1))"
    using inst(4) by (simp add: pending_def GPIOIntStatus_def edge_def upd_regs_def Let_def bit_simps pin_bit)
  moreover have "sorted_wrt (<) (pending (gpio_base g) (edge g s1))"
    unfolding pending_def by (intro sorted_wrt_filter) simp
  ultimately show ?thesis
    using inst handler_serves [of eff "gpio_base g" "edge g s1"] by (auto simp: calls_of_def)
qed

theorem gpio_interrupt_served_witness:
  "\<exists>s1. gpio_init_int 4 GPIO_IN_PU GPIO_FALLING (Some 7) 5 idle_pins = Some (0, s1) \<and>
     12 mod 8 \<in> set (pending (gpio_base 12) (edge 12 s1)) \<and> calls_of s1 (gpio_base 12) 4 = [call_back 7 5]"
proof -
  have "map_option fst (gpio_init_int 4 GPIO_IN_PU GPIO_FALLING (Some 7) 5 idle_pins) = Some 0" by code_simp
  then obtain s1 where s1: "gpio_init_int 4 GPIO_IN_PU GPIO_FALLING (Some 7) 5 idle_pins = Some (0, s1)" by auto
  have "gpio_number ! 4 = Some 12" by (simp add: gpio_number_def)
  from gpio_interrupt_served [OF _ this s1] s1 show ?thesis by auto
qed

end
