(* ===== verification/Uart_Driver.thy ===== *)
theory Uart_Driver
  imports Bocia_Uart
begin

text \<open>
  The UART driver, \<^verbatim>\<open>burba/cpu/cc3200/periph/uart.c\<close>, over the functions of \<^verbatim>\<open>sdk/driverlib/uart.c\<close> it
  calls. The board has one UART (\<open>UART_NUMOF\<close> is 1, \<open>UART_1_EN\<close> is 0).

  The registers of the UART are a record. \<open>rx_chars\<close> are the words the data register will give, a
  character with its error bits above it; reading one leaves its error bits in the receive status
  register. \<open>tx_line\<close> are the characters put; the transmitter drains while the code waits for space.
  What the kernel's \<open>uart_stdio\<close> does with a character is a parameter, which gives the request for a
  context switch, and its calls are recorded. \<^term>\<open>None\<close> is a division by zero or a call through a
  null pointer, or waiting for a character that is not there.
\<close>

section \<open>Registers\<close>

definition UART_INT_OE :: u32 where "UART_INT_OE = 0x400"
definition UART_INT_BE :: u32 where "UART_INT_BE = 0x200"
definition UART_INT_PE :: u32 where "UART_INT_PE = 0x100"
definition UART_INT_FE :: u32 where "UART_INT_FE = 0x080"
definition UART_INT_RX :: u32 where "UART_INT_RX = 0x010"
definition UART_CONFIG_WLEN_8 :: u32 where "UART_CONFIG_WLEN_8 = 0x60"
definition UART_CONFIG_STOP_ONE :: u32 where "UART_CONFIG_STOP_ONE = 0"
definition UART_CONFIG_PAR_NONE :: u32 where "UART_CONFIG_PAR_NONE = 0"
definition UART_LCRH_FEN :: u32 where "UART_LCRH_FEN = 0x10"
definition UART_CTL_RXE :: u32 where "UART_CTL_RXE = 0x200"
definition UART_CTL_TXE :: u32 where "UART_CTL_TXE = 0x100"
definition UART_CTL_HSE :: u32 where "UART_CTL_HSE = 0x20"
definition UART_CTL_UARTEN :: u32 where "UART_CTL_UARTEN = 1"
definition UART_RSR_OE :: u32 where "UART_RSR_OE = 8"

record uart_regs =
  UART_O_CTL :: u32
  UART_O_LCRH :: u32
  UART_O_IBRD :: u32
  UART_O_FBRD :: u32
  UART_O_IM :: u32
  UART_O_RIS :: u32
  UART_O_RSR :: u32
  rx_chars :: "u32 list"
  tx_line :: "byte list"

definition UARTEnable :: "uart_regs \<Rightarrow> uart_regs" where
  "UARTEnable r = r\<lparr>UART_O_LCRH := UART_O_LCRH r OR UART_LCRH_FEN,
     UART_O_CTL := UART_O_CTL r OR (UART_CTL_UARTEN OR UART_CTL_TXE OR UART_CTL_RXE)\<rparr>"

definition UARTDisable :: "uart_regs \<Rightarrow> uart_regs" where
  "UARTDisable r = r\<lparr>UART_O_LCRH := UART_O_LCRH r AND NOT UART_LCRH_FEN,
     UART_O_CTL := UART_O_CTL r AND NOT (UART_CTL_UARTEN OR UART_CTL_TXE OR UART_CTL_RXE)\<rparr>"

definition UARTFIFODisable :: "uart_regs \<Rightarrow> uart_regs" where
  "UARTFIFODisable r = r\<lparr>UART_O_LCRH := UART_O_LCRH r AND NOT UART_LCRH_FEN\<rparr>"

definition UARTConfigSetExpClk :: "u32 \<Rightarrow> u32 \<Rightarrow> u32 \<Rightarrow> uart_regs \<Rightarrow> uart_regs option" where
  "UARTConfigSetExpClk ulUARTClk ulBaud ulConfig r =
     (let r = UARTDisable r;
          (ulBaud, r) =
            (if ulBaud * 16 > ulUARTClk
             then (ulBaud div 2, r\<lparr>UART_O_CTL := UART_O_CTL r OR UART_CTL_HSE\<rparr>)
             else (ulBaud, r\<lparr>UART_O_CTL := UART_O_CTL r AND NOT UART_CTL_HSE\<rparr>)) in
      if ulBaud = 0 then None
      else
        (let ulDiv = ((ulUARTClk * 8) div ulBaud + 1) div 2 in
         Some (UARTEnable (r\<lparr>UART_O_IBRD := ulDiv div 64, UART_O_FBRD := ulDiv mod 64, UART_O_LCRH := ulConfig\<rparr>))))"

definition UARTCharsAvail :: "uart_regs \<Rightarrow> bool" where
  "UARTCharsAvail r \<longleftrightarrow> rx_chars r \<noteq> []"

definition UARTCharGetNonBlocking :: "uart_regs \<Rightarrow> int \<times> uart_regs" where
  "UARTCharGetNonBlocking r =
     (case rx_chars r of
        [] \<Rightarrow> (-1, r)
      | w # ws \<Rightarrow> (uint w, r\<lparr>rx_chars := ws, UART_O_RSR := drop_bit 8 w\<rparr>))"

definition UARTCharPut :: "byte \<Rightarrow> uart_regs \<Rightarrow> uart_regs" where
  "UARTCharPut c r = r\<lparr>tx_line := tx_line r @ [c]\<rparr>"

definition UARTIntEnable :: "u32 \<Rightarrow> uart_regs \<Rightarrow> uart_regs" where
  "UARTIntEnable fl r = r\<lparr>UART_O_IM := UART_O_IM r OR fl\<rparr>"

definition UARTIntClear :: "u32 \<Rightarrow> uart_regs \<Rightarrow> uart_regs" where
  "UARTIntClear fl r = r\<lparr>UART_O_RIS := UART_O_RIS r AND NOT fl\<rparr>"

definition UARTRxErrorGet :: "uart_regs \<Rightarrow> u32" where
  "UARTRxErrorGet r = UART_O_RSR r AND 0xF"

definition UARTRxErrorClear :: "uart_regs \<Rightarrow> uart_regs" where
  "UARTRxErrorClear r = r\<lparr>UART_O_RSR := 0\<rparr>"

section \<open>The driver\<close>

datatype uart_event = rx_call int byte | uart_yield

record uart_conf_t =
  rx_cb :: "int option"
  rx_arg :: int

record uart_state =
  uart0 :: uart_regs
  uart_config :: uart_conf_t
  uart0_clk :: bool
  uart_pins :: "nat \<Rightarrow> nat option"
  uart0_prio :: "u32 option"
  uart0_nvic :: bool
  uart_switch_request :: bool
  uart_trace :: "uart_event list"

definition on_uart :: "(uart_regs \<Rightarrow> uart_regs) \<Rightarrow> uart_state \<Rightarrow> uart_state" where
  "on_uart f s = s\<lparr>uart0 := f (uart0 s)\<rparr>"

definition reset :: "uart_regs \<Rightarrow> uart_regs" where
  "reset r = UARTFIFODisable (UARTEnable (UARTRxErrorClear (UARTDisable r)))"

definition RX_INTS :: u32 where
  "RX_INTS = UART_INT_RX OR UART_INT_OE OR UART_INT_BE OR UART_INT_PE OR UART_INT_FE"

text \<open>\<open>eff f a c\<close> is whether the callback requests a context switch; a request stays until it is served.\<close>

definition isr_uart0 :: "(int \<Rightarrow> int \<Rightarrow> byte \<Rightarrow> bool) \<Rightarrow> uart_state \<Rightarrow> uart_state option" where
  "isr_uart0 eff s =
     do {
       let s = on_uart (UARTIntClear RX_INTS) s;
       s \<leftarrow> (if UARTRxErrorGet (uart0 s) \<noteq> 0 then Some (on_uart reset s)
            else
              (let (data, r) = UARTCharGetNonBlocking (uart0 s); s = s\<lparr>uart0 := r\<rparr> in
               if data \<noteq> -1
               then do {
                 f \<leftarrow> rx_cb (uart_config s);
                 let a = rx_arg (uart_config s);
                 let c = (word_of_int data :: byte);
                 Some (s\<lparr>uart_trace := uart_trace s @ [rx_call a c],
                         uart_switch_request := uart_switch_request s \<or> eff f a c\<rparr>)
               }
               else Some s));
       Some (if uart_switch_request s
             then s\<lparr>uart_trace := uart_trace s @ [uart_yield], uart_switch_request := False\<rparr> else s)
     }"

text \<open>\<open>por\<close> are the registers after a reset of the peripheral, \<open>uclk\<close> its clock. \<open>PIN_55\<close> is 54, \<open>PIN_57\<close> is 56.\<close>

definition uart_init_blocking :: "uart_regs \<Rightarrow> u32 \<Rightarrow> nat \<Rightarrow> u32 \<Rightarrow> uart_state \<Rightarrow> (int \<times> uart_state) option" where
  "uart_init_blocking por uclk uart baudrate s =
     (if uart = 0
      then do {
        let s = s\<lparr>uart0 := por\<lparr>tx_line := tx_line (uart0 s)\<rparr>\<rparr>;
        let s = s\<lparr>uart0_clk := True\<rparr>;
        let s = s\<lparr>uart_pins := (uart_pins s)(54 \<mapsto> 3, 56 \<mapsto> 3)\<rparr>;
        r \<leftarrow> UARTConfigSetExpClk uclk baudrate
              (UART_CONFIG_WLEN_8 OR UART_CONFIG_STOP_ONE OR UART_CONFIG_PAR_NONE) (uart0 s);
        Some (0, s\<lparr>uart0 := reset r\<rparr>)
      }
      else Some (-1, s))"

definition uart_init_irq ::
  "uart_regs \<Rightarrow> u32 \<Rightarrow> nat \<Rightarrow> u32 \<Rightarrow> int option \<Rightarrow> int \<Rightarrow> uart_state \<Rightarrow> (int \<times> uart_state) option" where
  "uart_init_irq por uclk uart baudrate cb arg s =
     do {
       (res, s) \<leftarrow> uart_init_blocking por uclk uart baudrate s;
       if res \<noteq> 0 then Some (res, s)
       else do {
         let s = s\<lparr>uart_config := \<lparr>rx_cb = cb, rx_arg = arg\<rparr>\<rparr>;
         let s = on_uart (UARTIntEnable RX_INTS) s;
         Some (0, s\<lparr>uart0_prio := Some 0x60, uart0_nvic := True\<rparr>)
       }
     }"

definition uart_write :: "nat \<Rightarrow> byte list \<Rightarrow> uart_state \<Rightarrow> uart_state" where
  "uart_write uart data s = (if uart = 0 then fold (\<lambda>c. on_uart (UARTCharPut c)) data s else s)"

definition uart_write_blocking :: "nat \<Rightarrow> byte \<Rightarrow> uart_state \<Rightarrow> int \<times> uart_state" where
  "uart_write_blocking uart data s = (1, on_uart (UARTCharPut data) s)"

text \<open>Its result, and the character stored.\<close>

definition uart_read_blocking :: "nat \<Rightarrow> uart_state \<Rightarrow> ((int \<times> byte option) \<times> uart_state) option" where
  "uart_read_blocking uart s =
     (if uart = 0
      then if UARTCharsAvail (uart0 s)
      then (let (data, r) = UARTCharGetNonBlocking (uart0 s) in Some ((1, Some (word_of_int data)), s\<lparr>uart0 := r\<rparr>))
      else None
      else Some ((-1, None), s))"

section \<open>Receiving a line\<close>

text \<open>
  The characters that will arrive are a list; when it is used up the code waits on, \<open>Waiting\<close>. A write
  outside the buffer is \<^term>\<open>None\<close>.
\<close>

datatype line_end = Waiting | Returned int

fun read_line_loop ::
  "byte list \<Rightarrow> byte \<Rightarrow> byte list \<Rightarrow> nat \<Rightarrow> nat \<Rightarrow> byte list \<Rightarrow> (line_end \<times> byte list \<times> byte list \<times> byte list) option" where
  "read_line_loop rx cChar buf iLen uiBufLen echo =
     (if cChar \<noteq> 13 \<and> cChar \<noteq> 10
      then if iLen \<ge> uiBufLen then Some (Returned (-1), buf, echo, rx)
      else do {
        (buf, iLen) \<leftarrow> (if cChar \<noteq> 8 then do { buf \<leftarrow> wr buf iLen cChar; Some (buf, iLen + 1) }
                       else Some (buf, if iLen \<noteq> 0 then iLen - 1 else iLen));
        (case rx of
           [] \<Rightarrow> Some (Waiting, buf, echo, [])
         | c # rx \<Rightarrow> read_line_loop rx c buf iLen uiBufLen (echo @ [c]))
      }
      else do {
        buf \<leftarrow> wr buf iLen 0;
        Some (Returned (int iLen), buf, echo @ [10, 13], rx)
      })"

definition uart_read_line ::
  "nat \<Rightarrow> byte list \<Rightarrow> byte list \<Rightarrow> nat \<Rightarrow> (line_end \<times> byte list \<times> byte list \<times> byte list) option" where
  "uart_read_line uart rx buf uiBufLen =
     (if uart = 0
      then (case rx of
              [] \<Rightarrow> Some (Waiting, buf, [], [])
            | c # rx \<Rightarrow> read_line_loop rx c buf 0 uiBufLen [c])
      else Some (Returned (-1), buf, [], rx))"

section \<open>The line\<close>

text \<open>
  A character \<open>w\<close> arrives: with the FIFO disabled there is room for one, a second one is lost and
  leaves the overrun bit. The error bits of the word raise the interrupts of the same order.
\<close>

definition arrive :: "u32 \<Rightarrow> uart_regs \<Rightarrow> uart_regs" where
  "arrive w r =
     (if UART_O_CTL r AND UART_CTL_UARTEN = 0 \<or> UART_O_CTL r AND UART_CTL_RXE = 0 then r
      else if rx_chars r = []
      then r\<lparr>rx_chars := [w], UART_O_RIS := UART_O_RIS r OR (UART_INT_RX OR (drop_bit 1 w AND 0x780))\<rparr>
      else r\<lparr>UART_O_RSR := UART_O_RSR r OR UART_RSR_OE, UART_O_RIS := UART_O_RIS r OR UART_INT_OE\<rparr>)"

definition uart_irq :: "(int \<Rightarrow> int \<Rightarrow> byte \<Rightarrow> bool) \<Rightarrow> uart_state \<Rightarrow> uart_state option" where
  "uart_irq eff s = (if uart0_nvic s \<and> UART_O_RIS (uart0 s) AND UART_O_IM (uart0 s) \<noteq> 0 then isr_uart0 eff s else Some s)"

text \<open>The interrupt is served before the next character has arrived.\<close>

fun receive_line :: "(int \<Rightarrow> int \<Rightarrow> byte \<Rightarrow> bool) \<Rightarrow> u32 list \<Rightarrow> uart_state \<Rightarrow> uart_state option" where
  "receive_line eff [] s = Some s"
| "receive_line eff (w # ws) s = do { s \<leftarrow> uart_irq eff (on_uart (arrive w) s); receive_line eff ws s }"

text \<open>What the callback has been given.\<close>

definition handed :: "uart_event list \<Rightarrow> byte list" where
  "handed es = List.map_filter (\<lambda>e. case e of rx_call a c \<Rightarrow> Some c | uart_yield \<Rightarrow> None) es"

definition listening :: "int \<Rightarrow> int \<Rightarrow> uart_state \<Rightarrow> bool" where
  "listening f a s \<longleftrightarrow> (let r = uart0 s in
     UART_O_CTL r AND UART_CTL_UARTEN \<noteq> 0 \<and> UART_O_CTL r AND UART_CTL_RXE \<noteq> 0 \<and> UART_O_LCRH r AND UART_LCRH_FEN = 0 \<and>
     UART_O_IM r AND UART_INT_RX \<noteq> 0 \<and> uart0_nvic s \<and> uart_config s = \<lparr>rx_cb = Some f, rx_arg = a\<rparr>)"

definition quiet :: "uart_state \<Rightarrow> bool" where
  "quiet s \<longleftrightarrow> rx_chars (uart0 s) = [] \<and> UART_O_RSR (uart0 s) = 0"

lemma drop_bit_ucast_byte: "drop_bit 8 (ucast (b :: byte) :: u32) = 0"
  by (rule bit_word_eqI) (use bit_imp_le_length [of b] in \<open>auto simp: bit_simps\<close>)

lemma ucast_byte: "ucast (ucast (b :: byte) :: u32) = b"
  by (rule bit_word_eqI) (use bit_imp_le_length [of b] in \<open>auto simp: bit_simps\<close>)

lemma or_and_nonzero: "(b :: u32) AND c \<noteq> 0 \<Longrightarrow> (a OR (b OR d)) AND c \<noteq> 0"
proof
  assume *: "(a OR (b OR d)) AND c = 0" and "b AND c \<noteq> 0"
  have "b AND c = (b AND c) AND ((a OR (b OR d)) AND c)"
    by (rule bit_word_eqI) (auto simp: bit_simps)
  with * \<open>b AND c \<noteq> 0\<close> show False by simp
qed

lemma receive_one:
  assumes "listening f a s" "quiet s"
  shows "\<exists>s'. uart_irq eff (on_uart (arrive w) s) = Some s' \<and> listening f a s' \<and>
    rx_chars (uart0 s') = [] \<and> UART_O_RSR (uart0 s') = drop_bit 8 w \<and> tx_line (uart0 s') = tx_line (uart0 s) \<and>
    (\<exists>new. uart_trace s' = uart_trace s @ new \<and> handed new = [ucast w])"
proof -
  let ?s = "on_uart (arrive w) s"
  have en: "UART_O_CTL (uart0 s) AND UART_CTL_UARTEN \<noteq> 0" "UART_O_CTL (uart0 s) AND UART_CTL_RXE \<noteq> 0"
    "rx_chars (uart0 s) = []" "UART_INT_RX AND UART_O_IM (uart0 s) \<noteq> 0" "uart0_nvic s"
    "uart_config s = \<lparr>rx_cb = Some f, rx_arg = a\<rparr>" "UART_O_RSR (uart0 s) = 0"
    using assms by (simp_all add: listening_def quiet_def Let_def and.commute)
  have "UART_O_RIS (uart0 ?s) AND UART_O_IM (uart0 ?s) \<noteq> 0"
    using en or_and_nonzero [OF en(4), of "UART_O_RIS (uart0 s)"] by (simp add: on_uart_def arrive_def)
  then have "uart_irq eff ?s = isr_uart0 eff ?s" using en by (simp add: uart_irq_def on_uart_def arrive_def)
  moreover have "uint w \<noteq> - 1" using uint_ge_0 [of w] by linarith
  ultimately show ?thesis using en assms(1)
    by (auto simp: isr_uart0_def on_uart_def arrive_def UARTIntClear_def UARTRxErrorGet_def UARTCharGetNonBlocking_def
        Let_def listening_def handed_def map_filter_def)
qed

lemma handed_append [simp]: "handed (es @ fs) = handed es @ handed fs"
  by (simp add: handed_def List.map_filter_def)

lemma receive_plain:
  assumes "listening f a s" "quiet s"
  shows "\<exists>s' new. receive_line eff (map ucast bs) s = Some s' \<and> listening f a s' \<and> quiet s' \<and>
    uart_trace s' = uart_trace s @ new \<and> handed new = bs"
  using assms
proof (induction bs arbitrary: s)
  case (Cons b bs)
  from receive_one [OF Cons.prems, of eff "ucast b"] obtain s1 new1 where
    1: "uart_irq eff (on_uart (arrive (ucast b)) s) = Some s1" "listening f a s1" "quiet s1"
    "uart_trace s1 = uart_trace s @ new1" "handed new1 = [b]"
    unfolding quiet_def drop_bit_ucast_byte ucast_byte by blast
  from Cons.IH [OF 1(2,3)] obtain s' new where
    "receive_line eff (map ucast bs) s1 = Some s'" "listening f a s'" "quiet s'"
    "uart_trace s' = uart_trace s1 @ new" "handed new = bs" by blast
  with 1 show ?case by (intro exI [of _ s'] exI [of _ "new1 @ new"]) simp
qed (simp add: handed_def map_filter_def)

section \<open>Setting it up\<close>

lemma has_bit: "(r :: u32) AND 2 ^ i \<noteq> 0 \<longleftrightarrow> bit r i"
  by (simp add: and_exp_eq_0_iff_not_bit)

lemma reset_regs:
  "UART_O_CTL (reset r) AND UART_CTL_UARTEN \<noteq> 0" "UART_O_CTL (reset r) AND UART_CTL_RXE \<noteq> 0"
  "UART_O_LCRH (reset r) AND UART_LCRH_FEN = 0" "UART_O_RSR (reset r) = 0"
  "rx_chars (reset r) = rx_chars r" "tx_line (reset r) = tx_line r"
proof -
  have m: "UART_CTL_UARTEN = 2 ^ 0" "UART_CTL_RXE = 2 ^ 9" "UART_LCRH_FEN = 2 ^ 4"
    by (simp_all add: UART_CTL_UARTEN_def UART_CTL_RXE_def UART_LCRH_FEN_def)
  show "UART_O_CTL (reset r) AND UART_CTL_UARTEN \<noteq> 0" "UART_O_CTL (reset r) AND UART_CTL_RXE \<noteq> 0"
    unfolding m(1,2) has_bit
    by (simp_all add: reset_def UARTFIFODisable_def UARTEnable_def bit_or_iff UART_CTL_UARTEN_def UART_CTL_RXE_def)
  have "\<not> bit (UART_O_LCRH (reset r)) 4"
    by (simp add: reset_def UARTFIFODisable_def bit_and_iff bit_not_iff UART_LCRH_FEN_def)
  then show "UART_O_LCRH (reset r) AND UART_LCRH_FEN = 0" unfolding m(3) using has_bit by blast
  show "UART_O_RSR (reset r) = 0" "rx_chars (reset r) = rx_chars r" "tx_line (reset r) = tx_line r"
    by (simp_all add: reset_def UARTFIFODisable_def UARTEnable_def UARTDisable_def UARTRxErrorClear_def)
qed

lemma config_chars: "UARTConfigSetExpClk c b g r = Some r' \<Longrightarrow> rx_chars r' = rx_chars r \<and> tx_line r' = tx_line r"
  by (auto simp: UARTConfigSetExpClk_def UARTDisable_def UARTEnable_def Let_def split: if_splits)

lemma rx_enabled: "UART_O_IM (UARTIntEnable RX_INTS r) AND UART_INT_RX \<noteq> 0"
proof -
  have m: "UART_INT_RX = 2 ^ 4" by (simp add: UART_INT_RX_def)
  have "bit (UART_O_IM (UARTIntEnable RX_INTS r)) 4"
    by (simp add: UARTIntEnable_def RX_INTS_def bit_or_iff UART_INT_RX_def)
  then show ?thesis unfolding m has_bit .
qed

lemma int_enable_regs:
  "UART_O_CTL (UARTIntEnable i r) = UART_O_CTL r" "UART_O_LCRH (UARTIntEnable i r) = UART_O_LCRH r"
  "UART_O_RSR (UARTIntEnable i r) = UART_O_RSR r" "rx_chars (UARTIntEnable i r) = rx_chars r"
  "tx_line (UARTIntEnable i r) = tx_line r"
  by (simp_all add: UARTIntEnable_def)

lemma init_listens:
  assumes "uart_init_irq por uclk 0 baud (Some f) a s0 = Some (r, s)" "rx_chars por = []"
  shows "r = 0 \<and> listening f a s \<and> quiet s \<and> uart_trace s = uart_trace s0"
  using assms
  by (auto simp: uart_init_irq_def uart_init_blocking_def bind_eq_Some_conv listening_def quiet_def on_uart_def Let_def
      reset_regs rx_enabled int_enable_regs dest!: config_chars)

lemma write_line: "tx_line (uart0 (uart_write 0 bs s)) = tx_line (uart0 s) @ bs"
proof -
  have "tx_line (uart0 (fold (\<lambda>c. on_uart (UARTCharPut c)) bs s)) = tx_line (uart0 s) @ bs"
    by (induction bs arbitrary: s) (simp_all add: on_uart_def UARTCharPut_def)
  then show ?thesis by (simp add: uart_write_def)
qed


text \<open>
  A character with a line error is handed to the callback, and the character behind it, which
  arrived without an error, is not: the status register the handler looks at before it reads a
  character holds the errors of the character read before.
\<close>

theorem line_error_hits_next:
  assumes "listening f a s" "quiet s" "drop_bit 8 w AND 0xF \<noteq> 0"
  shows "\<exists>s' new. receive_line eff [w, ucast c] s = Some s' \<and> uart_trace s' = uart_trace s @ new \<and>
    handed new = [ucast w] \<and> UART_O_RSR (uart0 s') = 0"
proof -
  from receive_one [OF assms(1,2), of eff w] obtain s1 new1 where
    1: "uart_irq eff (on_uart (arrive w) s) = Some s1" "listening f a s1" "rx_chars (uart0 s1) = []"
    "UART_O_RSR (uart0 s1) = drop_bit 8 w" "uart_trace s1 = uart_trace s @ new1" "handed new1 = [ucast w]" by blast
  let ?s = "on_uart (arrive (ucast c)) s1"
  have en: "UART_O_CTL (uart0 s1) AND UART_CTL_UARTEN \<noteq> 0" "UART_O_CTL (uart0 s1) AND UART_CTL_RXE \<noteq> 0"
    "UART_INT_RX AND UART_O_IM (uart0 s1) \<noteq> 0" "uart0_nvic s1"
    using 1(2) by (simp_all add: listening_def Let_def and.commute)
  have "UART_O_RIS (uart0 ?s) AND UART_O_IM (uart0 ?s) \<noteq> 0"
    using en 1(3) or_and_nonzero [OF en(3), of "UART_O_RIS (uart0 s1)"] by (simp add: on_uart_def arrive_def)
  then have "uart_irq eff ?s = isr_uart0 eff ?s" using en 1(3) by (simp add: uart_irq_def on_uart_def arrive_def)
  moreover have "\<exists>s' new. isr_uart0 eff ?s = Some s' \<and> uart_trace s' = uart_trace s1 @ new \<and> handed new = [] \<and>
      UART_O_RSR (uart0 s') = 0"
    using en 1(3,4) assms(3)
    by (simp add: isr_uart0_def on_uart_def arrive_def UARTIntClear_def UARTRxErrorGet_def Let_def reset_regs handed_def
        List.map_filter_def)
  ultimately show ?thesis using 1(1,5,6) by fastforce
qed

section \<open>The divisor\<close>

text \<open>
  The divisor programmed, in 64ths, is the one nearest to the clock over 16 times the rate, where
  the clock is at least 16 times the rate and below \<open>2 ^ 29\<close>.
\<close>

theorem baud_divider_nearest:
  assumes "0 < baud" "16 * unat baud \<le> unat uclk" "unat uclk < 2 ^ 29"
  shows "\<exists>r'. UARTConfigSetExpClk uclk baud g r = Some r' \<and> UART_O_FBRD r' < 64 \<and>
    2 * \<bar>int (64 * unat (UART_O_IBRD r') + unat (UART_O_FBRD r')) * int (unat baud) - 4 * int (unat uclk)\<bar> \<le> int (unat baud)"
proof -
  have nz: "baud \<noteq> 0" using assms(1) by auto
  have b16: "\<not> uclk < baud * 16" and c8: "unat (uclk * 8) = 8 * unat uclk"
    using assms by (simp_all add: word_less_nat_alt unat_word_ariths)
  define x where "x = 8 * unat uclk div unat baud"
  have pos: "0 < unat baud" using assms(1) by (simp add: word_less_nat_alt)
  have x: "x * unat baud \<le> 8 * unat uclk" "8 * unat uclk < x * unat baud + unat baud"
    using pos dividend_less_div_times [OF pos, of "8 * unat uclk"] by (simp_all add: x_def algebra_simps)
  have lt: "x < 2 ^ 32 - 1"
  proof -
    have "x \<le> 8 * unat uclk" by (simp add: x_def)
    with assms(3) show ?thesis by simp
  qed
  let ?d = "(uclk * 8 div baud + 1) div 2"
  have q: "unat (uclk * 8 div baud) = x" by (simp add: unat_div c8 x_def)
  then have "unat (uclk * 8 div baud + 1) = x + 1" using lt by (simp add: unat_word_ariths)
  then have d: "unat ?d = (x + 1) div 2" by (simp add: unat_div)
  have "64 * unat (?d div 64) + unat (?d mod 64) = unat ?d" by (simp add: unat_div unat_mod)
  moreover have "?d mod 64 < 64" by (simp add: word_less_nat_alt unat_mod)
  moreover have "2 * \<bar>int ((x + 1) div 2) * int (unat baud) - 4 * int (unat uclk)\<bar> \<le> int (unat baud)"
  proof -
    define m where "m = (x + 1) div 2"
    have "2 * m = x \<or> 2 * m = x + 1" unfolding m_def by linarith
    then have "int (2 * m) = int x \<or> int (2 * m) = int x + 1" by linarith
    moreover have "2 * (int m * b) = int (2 * m) * b" for b by simp
    ultimately have m: "2 * (int m * int (unat baud)) = int (x * unat baud) \<or>
        2 * (int m * int (unat baud)) = int (x * unat baud) + int (unat baud)"
      by (metis distrib_right mult_1 of_nat_mult)
    have near: "2 * \<bar>a - 4 * k\<bar> \<le> b" if "2 * a = y \<or> 2 * a = y + b" "y \<le> 8 * k" "8 * k < y + b" for a b k y :: int
      using that by (auto simp: abs_if)
    have "int (x * unat baud) \<le> 8 * int (unat uclk)" "8 * int (unat uclk) < int (x * unat baud) + int (unat baud)"
      using x by linarith+
    from near [OF m this] show ?thesis by (simp only: m_def)
  qed
  moreover obtain r' where "UARTConfigSetExpClk uclk baud g r = Some r'" "UART_O_IBRD r' = ?d div 64" "UART_O_FBRD r' = ?d mod 64"
    using b16 nz by (simp add: UARTConfigSetExpClk_def Let_def UARTEnable_def)
  ultimately show ?thesis by (intro exI [of _ r'] conjI) (simp_all only: d)
qed

text \<open>The initialisation of a UART whose peripheral clock runs at 80 MHz, at 115200 baud.\<close>

definition uart_off :: uart_state where
  "uart_off = \<lparr>uart0 = \<lparr>UART_O_CTL = 0, UART_O_LCRH = 0, UART_O_IBRD = 0, UART_O_FBRD = 0, UART_O_IM = 0, UART_O_RIS = 0,
      UART_O_RSR = 0, rx_chars = [], tx_line = []\<rparr>, uart_config = \<lparr>rx_cb = None, rx_arg = 0\<rparr>, uart0_clk = False,
    uart_pins = (\<lambda>_. None), uart0_prio = None, uart0_nvic = False, uart_switch_request = False, uart_trace = []\<rparr>"

lemma uart_on: "map_option fst (uart_init_irq (uart0 uart_off) 80000000 0 115200 (Some 3) 4 uart_off) = Some 0"
  by code_simp

theorem baud_divider_nearest_witness:
  "\<exists>r'. UARTConfigSetExpClk 80000000 115200 0x60 (uart0 uart_off) = Some r' \<and> UART_O_IBRD r' = 43 \<and> UART_O_FBRD r' = 26 \<and>
    2 * \<bar>int (64 * unat (UART_O_IBRD r') + unat (UART_O_FBRD r')) * 115200 - 320000000\<bar> \<le> 115200"
proof -
  have "map_option (\<lambda>r. (UART_O_IBRD r, UART_O_FBRD r)) (UARTConfigSetExpClk 80000000 115200 0x60 (uart0 uart_off)) = Some (43, 26)"
    by code_simp
  with baud_divider_nearest [of 115200 80000000 "0x60" "uart0 uart_off"] show ?thesis
    by (auto simp: word_less_nat_alt)
qed

lemma sendable_ack:
  "sendable ([], \<lparr>pm_type = 3, dline = 0, flags = 0\<rparr>, OAck \<lparr>a_id = 5, a_has_seq = 0, a_seq = 0, has_status = 1, status = 1\<rparr>)"
proof -
  let ?ob = "OAck \<lparr>a_id = 5, a_has_seq = 0, a_seq = 0, has_status = 1, status = 1\<rparr>"
  have "protobuf_c_message_get_packed_size (obj_desc ?ob) (obj_msg ?ob) = Some 4"
    by (simp add: descriptor_defs cells_defs obj_msg_def protobuf_c_message_get_packed_size_def
        field_get_packed_size_def required_field_get_packed_size_def optional_field_get_packed_size_def
        int32_size_def get_tag_size_def word_less_nat_alt)
  then show ?thesis by (simp add: opt_ok_def carries_def word_less_nat_alt)
qed


theorem line_error_hits_next_witness:
  "\<exists>s s' new. uart_init_irq (uart0 uart_off) 80000000 0 115200 (Some 3) 4 uart_off = Some (0, s) \<and>
    receive_line (\<lambda>_ _ _. True) [0x141, ucast (0x42 :: byte)] s = Some s' \<and> uart_trace s' = new \<and> handed new = [0x41]"
proof -
  obtain s where s: "uart_init_irq (uart0 uart_off) 80000000 0 115200 (Some 3) 4 uart_off = Some (0, s)"
    using uart_on by auto
  have "rx_chars (uart0 uart_off) = []" by (simp add: uart_off_def)
  from init_listens [OF s this] have l: "listening 3 4 s" "quiet s" "uart_trace s = []" by (simp_all add: uart_off_def)
  have "drop_bit 8 0x141 AND 0xF \<noteq> (0 :: u32)" "ucast (0x141 :: u32) = (0x41 :: byte)" by simp_all
  with line_error_hits_next [OF l(1,2), of "0x141" "\<lambda>_ _ _. True" "0x42"] s l(3) show ?thesis by fastforce
qed

section \<open>Lines\<close>

text \<open>What the characters of a line amount to: a backspace takes back the one before.\<close>

definition edit_step :: "byte list \<Rightarrow> byte \<Rightarrow> byte list" where
  "edit_step l c = (if c = 8 then butlast l else l @ [c])"

definition edited :: "byte list \<Rightarrow> byte list" where
  "edited = foldl edit_step []"

declare read_line_loop.simps [simp del]

lemma read_line_loop_edits:
  assumes "13 \<notin> set line" "10 \<notin> set line" "e = 13 \<or> e = 10" "c # rx = line @ e # rest"
    "length buf = n" "take (length l) buf = l" "length l \<le> n"
  shows "if \<exists>i<length line. n \<le> length (foldl edit_step l (take i line))
    then \<exists>buf' echo' rest'. read_line_loop rx c buf (length l) n echo = Some (Returned (-1), buf', echo', rest')
    else let l' = foldl edit_step l line in
      if length l' < n
      then \<exists>buf'. read_line_loop rx c buf (length l) n echo =
          Some (Returned (int (length l')), buf', echo @ tl (line @ [e]) @ [10, 13], rest) \<and>
        take (length l' + 1) buf' = l' @ [0] \<and> length buf' = n
      else read_line_loop rx c buf (length l) n echo = None"
  using assms
proof (induction line arbitrary: c rx buf l echo)
  case Nil
  then have "read_line_loop rx c buf (length l) n echo =
      map_option (\<lambda>buf. (Returned (int (length l)), buf, echo @ [10, 13], rest)) (wr buf (length l) 0)"
    by (subst read_line_loop.simps) (auto simp: map_option_case split: option.split)
  with Nil.prems(5,6) show ?case by (simp add: wr_def take_Suc_conv_app_nth)
next
  case (Cons x line)
  show ?case
  proof (cases "n \<le> length l")
    case True
    with Cons.prems have "read_line_loop rx c buf (length l) n echo = Some (Returned (-1), buf, echo, rx)"
      by (subst read_line_loop.simps) auto
    with True show ?thesis by force
  next
    case False
    obtain c' rx' where rx: "rx = c' # rx'" "c' # rx' = line @ e # rest" and c: "c = x" "x \<noteq> 13" "x \<noteq> 10"
      using Cons.prems by (cases rx) auto
    let ?l = "edit_step l x"
    obtain buf' where buf': "length buf' = n" "take (length ?l) buf' = ?l"
      and step: "read_line_loop rx c buf (length l) n echo = read_line_loop rx' c' buf' (length ?l) n (echo @ [c'])"
    proof (cases "x = 8")
      case True
      with False rx(1) c have "read_line_loop rx c buf (length l) n echo = read_line_loop rx' c' buf (length ?l) n (echo @ [c'])"
        by (subst read_line_loop.simps) (simp add: edit_step_def)
      moreover have "take (length ?l) buf = ?l"
      proof -
        have "butlast l = take (length l - 1) (take (length l) buf)" using Cons.prems(6) by (simp add: butlast_conv_take)
        then show ?thesis using True by (simp add: edit_step_def min_def)
      qed
      ultimately show ?thesis using that Cons.prems(5) by blast
    next
      case F8: False
      with False rx(1) c Cons.prems(5) have "read_line_loop rx c buf (length l) n echo =
          read_line_loop rx' c' (buf[length l := x]) (length ?l) n (echo @ [c'])"
        by (subst read_line_loop.simps) (simp add: edit_step_def wr_def)
      moreover have "take (length ?l) (buf[length l := x]) = ?l"
        using Cons.prems(5,6) False F8 by (simp add: edit_step_def take_Suc_conv_app_nth)
      ultimately show ?thesis using that [of "buf[length l := x]"] Cons.prems(5) by simp
    qed
    have le: "length ?l \<le> n" using False by (auto simp: edit_step_def)
    have ex: "(\<exists>i<length (x # line). n \<le> length (foldl edit_step l (take i (x # line)))) \<longleftrightarrow>
        (\<exists>i<length line. n \<le> length (foldl edit_step ?l (take i line)))"
      using False by (auto simp: less_Suc_eq_0_disj)
    have tl: "echo @ tl ((x # line) @ [e]) @ ys = (echo @ [c']) @ tl (line @ [e]) @ ys" for ys
      using rx(2) by (cases line) auto
    have no: "13 \<notin> set line" "10 \<notin> set line" using Cons.prems(1,2) by simp_all
    show ?thesis
      unfolding step ex tl foldl_Cons by (rule Cons.IH [OF no Cons.prems(3) rx(2) buf' le])
  qed
qed

text \<open>
  C38: A line ended by a carriage return or a line feed is stored as what its backspaces leave of it,
  with a zero behind it, and echoed, if that is shorter than the buffer. The result is -1 when a
  character follows once the buffer is full. A line that fills the buffer exactly is not refused: the
  zero is written behind the buffer.
\<close>

theorem read_line_edits:
  assumes "13 \<notin> set line" "10 \<notin> set line" "e = 13 \<or> e = 10" "length buf = n"
  shows "if \<exists>i<length line. n \<le> length (edited (take i line))
    then \<exists>buf' echo rest'. uart_read_line 0 (line @ e # rest) buf n = Some (Returned (-1), buf', echo, rest')
    else if length (edited line) < n
    then \<exists>buf'. uart_read_line 0 (line @ e # rest) buf n =
        Some (Returned (int (length (edited line))), buf', line @ [e, 10, 13], rest) \<and>
      take (length (edited line) + 1) buf' = edited line @ [0] \<and> length buf' = n
    else uart_read_line 0 (line @ e # rest) buf n = None"
proof -
  obtain c rx where c: "c # rx = line @ e # rest" by (cases line) auto
  then have *: "uart_read_line 0 (line @ e # rest) buf n = read_line_loop rx c buf 0 n [c]"
    "[c] @ tl (line @ [e]) @ [10, 13] = line @ [e, 10, 13]"
    by (simp add: uart_read_line_def flip: c) (use c in \<open>cases line; auto\<close>)
  show ?thesis
    using read_line_loop_edits [OF assms(1-3) c assms(4), of "[]" "[c]"] unfolding * edited_def
    by (simp only: Let_def list.size take_0 le0 simp_thms True_implies_equals)
qed

text \<open>The line \<open>ABC\<close>, a backspace and \<open>D\<close>, into buffers of 4 bytes and of 3.\<close>

theorem read_line_edits_witness:
  "\<exists>buf'. uart_read_line 0 [65, 66, 67, 8, 68, 13, 69] [1, 1, 1, 1] 4 =
      Some (Returned 3, buf', [65, 66, 67, 8, 68, 13, 10, 13], [69]) \<and> take 4 buf' = [65, 66, 68, 0] \<and>
    uart_read_line 0 [65, 66, 68, 13] [1, 1, 1] 3 = None"
proof -
  have e: "edited [65, 66, 67, 8, 68] = [65, 66, 68]" "edited [65, 66, 68] = [65, 66, 68]"
    by (simp_all add: edited_def edit_step_def)
  have short: "\<not> (\<exists>i<length line. n \<le> length (edited (take i line)))" if "list_all (\<lambda>i. length (edited (take i line)) < n) [0..<length line]"
    for line n using that by (auto simp: list_all_iff not_le)
  have "list_all (\<lambda>i. length (edited (take i [65, 66, 67, 8, 68])) < 4) [0..<length [65 :: byte, 66, 67, 8, 68]]"
    "list_all (\<lambda>i. length (edited (take i [65, 66, 68])) < 3) [0..<length [65 :: byte, 66, 68]]"
    by (simp_all add: edited_def edit_step_def upt_rec numeral_eq_Suc)
  then have s: "\<not> (\<exists>i<length [65 :: byte, 66, 67, 8, 68]. 4 \<le> length (edited (take i [65, 66, 67, 8, 68])))"
    "\<not> (\<exists>i<length [65 :: byte, 66, 68]. 3 \<le> length (edited (take i [65, 66, 68])))"
    by (simp_all only: short not_False_eq_True)
  have "\<exists>buf'. uart_read_line 0 [65, 66, 67, 8, 68, 13, 69] [1, 1, 1, 1] 4 =
      Some (Returned 3, buf', [65, 66, 67, 8, 68, 13, 10, 13], [69]) \<and> take (length [65 :: byte, 66, 68] + 1) buf' = [65, 66, 68, 0]"
    "uart_read_line 0 [65, 66, 68, 13] [1, 1, 1] 3 = None"
    using read_line_edits [of "[65, 66, 67, 8, 68]" 13 "[1, 1, 1, 1]" 4 "[69]", unfolded if_not_P [OF s(1)] e]
      read_line_edits [of "[65, 66, 68]" 13 "[1, 1, 1]" 3 "[]", unfolded if_not_P [OF s(2)] e]
    by auto
  moreover have "length [65 :: byte, 66, 68] + 1 = 4" by simp
  ultimately show ?thesis by (simp only: simp_thms)
qed

end
