(* ===== verification/Periph_Timer.thy ===== *)
theory Periph_Timer
  imports Prelude
begin

text \<open>
  The hardware timers, \<^verbatim>\<open>burba/cpu/cc3200/periph/timer.c\<close>, over the functions of
  \<^verbatim>\<open>sdk/driverlib/timer.c\<close> it calls. \<^verbatim>\<open>xtimer.c\<close> runs on \<open>TIMER_0\<close>.

  The registers of a timer block are a record; \<open>TAR\<close> is the counter, which \<open>TimerValueSet\<close> writes. The callback of a
  user is a parameter: the value it sets the timer for, if it does, and whether it requests a
  context switch. A call through a null pointer is \<^term>\<open>None\<close>.
\<close>

section \<open>Registers\<close>

record tim_regs =
  TIMER_O_CFG :: u32
  TIMER_O_TAMR :: u32
  TIMER_O_TBMR :: u32
  TIMER_O_CTL :: u32
  TIMER_O_IMR :: u32
  TIMER_O_RIS :: u32
  TIMER_O_TAR :: u32
  TIMER_O_TAMATCHR :: u32

datatype tim_event = tim_call int int | tim_yield

record tim_state =
  tims :: "nat \<Rightarrow> tim_regs"
  tim_config :: "nat \<Rightarrow> int option"
  tim_vector :: "nat \<Rightarrow> nat option"
  tim_prio :: "nat \<Rightarrow> u32 option"
  tim_clk :: "nat \<Rightarrow> bool"
  ccp_io :: u32
  tim_switch_request :: bool
  tim_trace :: "tim_event list"

definition upd_tim :: "nat \<Rightarrow> (tim_regs \<Rightarrow> tim_regs) \<Rightarrow> tim_state \<Rightarrow> tim_state" where
  "upd_tim dev f s = s\<lparr>tims := (tims s)(dev := f (tims s dev))\<rparr>"

definition TIMER_TIMA_MATCH :: u32 where "TIMER_TIMA_MATCH = 0x10"
definition TIMER_TIMA_TIMEOUT :: u32 where "TIMER_TIMA_TIMEOUT = 1"
definition TIMER_CFG_PERIODIC_UP :: u32 where "TIMER_CFG_PERIODIC_UP = 0x32"
definition TIMER_CTL_TAEN :: u32 where "TIMER_CTL_TAEN = 1"
definition TIMER_CTL_TBEN :: u32 where "TIMER_CTL_TBEN = 0x100"
definition TIMER_CTL_TASTALL :: u32 where "TIMER_CTL_TASTALL = 2"
definition TIMER_A :: u32 where "TIMER_A = 0xFF"

definition TimerEnable :: "nat \<Rightarrow> u32 \<Rightarrow> tim_state \<Rightarrow> tim_state" where
  "TimerEnable dev t = upd_tim dev (\<lambda>r. r\<lparr>TIMER_O_CTL := TIMER_O_CTL r OR (t AND (TIMER_CTL_TAEN OR TIMER_CTL_TBEN))\<rparr>)"

definition TimerDisable :: "nat \<Rightarrow> u32 \<Rightarrow> tim_state \<Rightarrow> tim_state" where
  "TimerDisable dev t =
     upd_tim dev (\<lambda>r. r\<lparr>TIMER_O_CTL := TIMER_O_CTL r AND NOT (t AND (TIMER_CTL_TAEN OR TIMER_CTL_TBEN))\<rparr>)"

definition TimerConfigure :: "nat \<Rightarrow> u32 \<Rightarrow> tim_state \<Rightarrow> tim_state" where
  "TimerConfigure dev cfg s =
     upd_tim dev (\<lambda>r. r\<lparr>TIMER_O_CTL := TIMER_O_CTL r AND NOT (TIMER_CTL_TAEN OR TIMER_CTL_TBEN),
       TIMER_O_CFG := drop_bit 24 cfg, TIMER_O_TAMR := cfg AND 255, TIMER_O_TBMR := drop_bit 8 cfg AND 255\<rparr>)
       (s\<lparr>ccp_io := 0xFF\<rparr>)"

definition TimerControlStall :: "nat \<Rightarrow> u32 \<Rightarrow> bool \<Rightarrow> tim_state \<Rightarrow> tim_state" where
  "TimerControlStall dev t stall =
     (let t = t AND (TIMER_CTL_TASTALL OR 0x200) in
      upd_tim dev (\<lambda>r. r\<lparr>TIMER_O_CTL := (if stall then TIMER_O_CTL r OR t else TIMER_O_CTL r AND NOT t)\<rparr>))"

definition TimerMatchSet :: "nat \<Rightarrow> u32 \<Rightarrow> tim_state \<Rightarrow> tim_state" where
  "TimerMatchSet dev v = upd_tim dev (\<lambda>r. r\<lparr>TIMER_O_TAMATCHR := v\<rparr>)"

definition TimerIntEnable :: "nat \<Rightarrow> u32 \<Rightarrow> tim_state \<Rightarrow> tim_state" where
  "TimerIntEnable dev fl = upd_tim dev (\<lambda>r. r\<lparr>TIMER_O_IMR := TIMER_O_IMR r OR fl\<rparr>)"

definition TimerIntDisable :: "nat \<Rightarrow> u32 \<Rightarrow> tim_state \<Rightarrow> tim_state" where
  "TimerIntDisable dev fl = upd_tim dev (\<lambda>r. r\<lparr>TIMER_O_IMR := TIMER_O_IMR r AND NOT fl\<rparr>)"

definition TimerIntClear :: "nat \<Rightarrow> u32 \<Rightarrow> tim_state \<Rightarrow> tim_state" where
  "TimerIntClear dev fl = upd_tim dev (\<lambda>r. r\<lparr>TIMER_O_RIS := TIMER_O_RIS r AND NOT fl\<rparr>)"

definition TimerIntRegister :: "nat \<Rightarrow> nat \<Rightarrow> tim_state \<Rightarrow> tim_state" where
  "TimerIntRegister dev handler s = s\<lparr>tim_vector := (tim_vector s)(dev \<mapsto> handler)\<rparr>"

definition TimerValueGet :: "nat \<Rightarrow> tim_state \<Rightarrow> u32" where
  "TimerValueGet dev s = TIMER_O_TAR (tims s dev)"

definition TimerValueSet :: "nat \<Rightarrow> u32 \<Rightarrow> tim_state \<Rightarrow> tim_state" where
  "TimerValueSet dev v = upd_tim dev (\<lambda>r. r\<lparr>TIMER_O_TAR := v\<rparr>)"

section \<open>The driver\<close>

text \<open>\<open>TIMER_0\<close> to \<open>TIMER_3\<close>; the functions do nothing for another device.\<close>

definition is_tim :: "nat \<Rightarrow> bool" where "is_tim dev \<longleftrightarrow> dev < 4"

definition set_absolute :: "nat \<Rightarrow> u64 \<Rightarrow> tim_state \<Rightarrow> tim_state" where
  "set_absolute dev v s = (if is_tim dev then TimerIntEnable dev TIMER_TIMA_MATCH (TimerMatchSet dev (ucast v) s) else s)"

definition timer_set :: "nat \<Rightarrow> u32 \<Rightarrow> tim_state \<Rightarrow> tim_state" where
  "timer_set dev timeout s = (if is_tim dev then set_absolute dev (ucast (TIMER_O_TAR (tims s dev) + timeout)) s else s)"

definition timer_set_absolute :: "nat \<Rightarrow> u32 \<Rightarrow> tim_state \<Rightarrow> tim_state" where
  "timer_set_absolute dev v s = set_absolute dev (ucast v) s"

definition timer_clear :: "nat \<Rightarrow> tim_state \<Rightarrow> tim_state" where
  "timer_clear dev s =
     (if is_tim dev then TimerIntDisable dev TIMER_TIMA_MATCH (TimerIntClear dev TIMER_TIMA_MATCH s) else s)"

definition timer_read :: "nat \<Rightarrow> tim_state \<Rightarrow> u32" where
  "timer_read dev s = (if is_tim dev then TimerValueGet dev s else 0)"

definition timer_start :: "nat \<Rightarrow> tim_state \<Rightarrow> tim_state" where
  "timer_start dev s = (if is_tim dev then TimerEnable dev TIMER_A s else s)"

definition timer_stop :: "nat \<Rightarrow> tim_state \<Rightarrow> tim_state" where
  "timer_stop dev s = (if is_tim dev then TimerDisable dev TIMER_A s else s)"

definition timer_irq_enable :: "nat \<Rightarrow> tim_state \<Rightarrow> tim_state" where
  "timer_irq_enable dev s = (if is_tim dev then TimerIntEnable dev TIMER_TIMA_MATCH s else s)"

definition timer_irq_disable :: "nat \<Rightarrow> tim_state \<Rightarrow> tim_state" where
  "timer_irq_disable dev s = (if is_tim dev then TimerIntDisable dev TIMER_TIMA_MATCH s else s)"

definition timer_reset :: "nat \<Rightarrow> tim_state \<Rightarrow> tim_state" where
  "timer_reset dev s = (if is_tim dev then TimerValueSet dev 0 s else s)"

text \<open>\<open>por\<close> are the registers after a reset of the peripheral.\<close>

definition timer_init :: "tim_regs \<Rightarrow> nat \<Rightarrow> int option \<Rightarrow> tim_state \<Rightarrow> tim_state" where
  "timer_init por dev cb s =
     (if is_tim dev
      then
        (let s = s\<lparr>tim_clk := (tim_clk s)(dev := True)\<rparr>;
             s = upd_tim dev (\<lambda>_. por) s;
             s = TimerConfigure dev TIMER_CFG_PERIODIC_UP s;
             s = TimerControlStall dev TIMER_A True s;
             s = TimerIntRegister dev dev s;
             s = s\<lparr>tim_config := (tim_config s)(dev := cb)\<rparr>;
             s = s\<lparr>tim_prio := (tim_prio s)(dev \<mapsto> 0x40)\<rparr>;
             s = (if dev = 0 then TimerIntEnable dev TIMER_TIMA_TIMEOUT s else s)
         in TimerEnable dev TIMER_A s)
      else s)"

section \<open>Interrupts\<close>

type_synonym tim_user = "int \<Rightarrow> int \<Rightarrow> tim_state \<Rightarrow> u32 option \<times> bool"

definition call_cb :: "tim_user \<Rightarrow> nat \<Rightarrow> int \<Rightarrow> tim_state \<Rightarrow> tim_state option" where
  "call_cb user dev chan s =
     map_option (\<lambda>f.
       let s = s\<lparr>tim_trace := tim_trace s @ [tim_call f chan]\<rparr>;
           (v, req) = user f chan s;
           s = s\<lparr>tim_switch_request := tim_switch_request s \<or> req\<rparr>
       in case v of None \<Rightarrow> s | Some v \<Rightarrow> timer_set_absolute dev v s) (tim_config s dev)"

definition tim_switch :: "tim_state \<Rightarrow> tim_state" where
  "tim_switch s =
     (if tim_switch_request s then s\<lparr>tim_trace := tim_trace s @ [tim_yield], tim_switch_request := False\<rparr> else s)"

definition irq_timer0_handler :: "tim_user \<Rightarrow> tim_state \<Rightarrow> tim_state option" where
  "irq_timer0_handler user s =
     (let r = tims s 0 in
      if (TIMER_O_RIS r AND TIMER_O_IMR r) AND TIMER_TIMA_TIMEOUT \<noteq> 0
      then call_cb user 0 1 (TimerIntClear 0 TIMER_TIMA_TIMEOUT s)
      else map_option tim_switch (call_cb user 0 0 (timer_clear 0 s)))"

definition irq_timer_handler :: "nat \<Rightarrow> tim_user \<Rightarrow> tim_state \<Rightarrow> tim_state option" where
  "irq_timer_handler dev user s = map_option tim_switch (call_cb user dev 0 (timer_clear dev s))"

section \<open>Time passing\<close>

text \<open>
  A tick of the clock of a timer that runs, with match interrupts selected in its mode (\<open>TAMIE\<close>, bit 5):
  the counter wraps round after \<open>2 ^ 32\<close> ticks.
\<close>

definition tick :: "tim_regs \<Rightarrow> tim_regs" where
  "tick r =
     (if TIMER_O_CTL r AND TIMER_CTL_TAEN = 0 then r
      else (let t = TIMER_O_TAR r + 1 in
        r\<lparr>TIMER_O_TAR := t,
          TIMER_O_RIS := TIMER_O_RIS r OR ((if t = 0 then TIMER_TIMA_TIMEOUT else 0) OR
            (if t = TIMER_O_TAMATCHR r \<and> TIMER_O_TAMR r AND 0x20 \<noteq> 0 then TIMER_TIMA_MATCH else 0))\<rparr>))"

text \<open>The handler runs as long as an interrupt is pending and enabled.\<close>

partial_function (option) serve_timer0 :: "tim_user \<Rightarrow> tim_state \<Rightarrow> tim_state option" where
  "serve_timer0 user s =
     (if TIMER_O_RIS (tims s 0) AND TIMER_O_IMR (tims s 0) = 0 \<or> tim_vector s 0 \<noteq> Some 0 then Some s
      else do { s \<leftarrow> irq_timer0_handler user s; serve_timer0 user s })"

fun run_timer0 :: "tim_user \<Rightarrow> nat \<Rightarrow> tim_state \<Rightarrow> tim_state option" where
  "run_timer0 user 0 s = Some s"
| "run_timer0 user (Suc n) s = do { s \<leftarrow> serve_timer0 user (upd_tim 0 tick s); run_timer0 user n s }"

section \<open>The interrupts of a timer\<close>

definition runs_for :: "int \<Rightarrow> tim_state \<Rightarrow> bool" where
  "runs_for f s \<longleftrightarrow> TIMER_O_CTL (tims s 0) AND TIMER_CTL_TAEN \<noteq> 0 \<and> TIMER_O_TAMR (tims s 0) AND 0x20 \<noteq> 0 \<and>
     tim_vector s 0 = Some 0 \<and> tim_config s 0 = Some f"

definition idle_timer :: "int \<Rightarrow> tim_state \<Rightarrow> bool" where
  "idle_timer f s \<longleftrightarrow> runs_for f s \<and> TIMER_O_IMR (tims s 0) = 1 \<and> TIMER_O_RIS (tims s 0) AND 1 = 0"

definition armed_timer :: "int \<Rightarrow> tim_state \<Rightarrow> bool" where
  "armed_timer f s \<longleftrightarrow> runs_for f s \<and> TIMER_O_IMR (tims s 0) = 0x11 \<and> TIMER_O_RIS (tims s 0) = 0"

text \<open>A user that does not set the timer from its callback.\<close>

definition plain_user :: "tim_user \<Rightarrow> bool" where
  "plain_user user \<longleftrightarrow> (\<forall>f c s. fst (user f c s) = None)"

definition now :: "tim_state \<Rightarrow> u32" where
  "now s = TIMER_O_TAR (tims s 0)"

definition asking_user :: "tim_user \<Rightarrow> bool" where
  "asking_user user \<longleftrightarrow> (\<forall>f c s. user f c s = (None, True))"

lemma ris_bits:
  assumes "(r :: u32) AND 1 = 0"
  shows "(r OR ((if p then 1 else 0) OR (if q then 0x10 else 0))) AND 1 = (if p then 1 else 0)"
  using assms by (cases p; cases q) (simp_all add: bit.conj_disj_distrib2)

lemma clear_bit_0: "((r :: u32) AND NOT 1) AND 1 = 0"
  by (simp add: and.assoc)

lemma tick_running:
  assumes "runs_for f s"
  shows "tick (tims s 0) = (tims s 0)\<lparr>TIMER_O_TAR := now s + 1, TIMER_O_RIS := TIMER_O_RIS (tims s 0) OR
    ((if now s + 1 = 0 then 1 else 0) OR (if now s + 1 = TIMER_O_TAMATCHR (tims s 0) then 0x10 else 0))\<rparr>"
  using assms by (simp add: runs_for_def tick_def Let_def now_def TIMER_TIMA_TIMEOUT_def TIMER_TIMA_MATCH_def)

lemma call_plain:
  assumes "plain_user user" "tim_config s dev = Some f"
  shows "\<exists>req. call_cb user dev c s = Some (s\<lparr>tim_trace := tim_trace s @ [tim_call f c],
      tim_switch_request := tim_switch_request s \<or> req\<rparr>) \<and> (asking_user user \<longrightarrow> req)"
proof -
  let ?s = "s\<lparr>tim_trace := tim_trace s @ [tim_call f c]\<rparr>"
  obtain v req where u: "user f c ?s = (v, req)" by (cases "user f c ?s")
  with assms(1) have "v = None" unfolding plain_user_def by (metis fst_conv)
  with u assms(2) show ?thesis by (auto simp: call_cb_def asking_user_def)
qed

lemma serve_idle: "TIMER_O_RIS (tims s 0) AND TIMER_O_IMR (tims s 0) = 0 \<Longrightarrow> serve_timer0 user s = Some s"
  by (subst serve_timer0.simps) simp

lemma serve_pending:
  "TIMER_O_RIS (tims s 0) AND TIMER_O_IMR (tims s 0) \<noteq> 0 \<Longrightarrow> tim_vector s 0 = Some 0 \<Longrightarrow>
    serve_timer0 user s = do { s \<leftarrow> irq_timer0_handler user s; serve_timer0 user s }"
  by (subst serve_timer0.simps) simp

text \<open>What the two branches of the handler do.\<close>

lemma irq_timeout:
  assumes "plain_user user" "runs_for f s" "(TIMER_O_RIS (tims s 0) AND TIMER_O_IMR (tims s 0)) AND 1 \<noteq> 0"
  shows "\<exists>s'. irq_timer0_handler user s = Some s' \<and> runs_for f s' \<and>
    tims s' 0 = (tims s 0)\<lparr>TIMER_O_RIS := TIMER_O_RIS (tims s 0) AND NOT 1\<rparr> \<and>
    tim_trace s' = tim_trace s @ [tim_call f 1] \<and> (tim_switch_request s \<or> asking_user user \<longrightarrow> tim_switch_request s')"
proof -
  let ?s = "TimerIntClear 0 TIMER_TIMA_TIMEOUT s"
  have "tim_config ?s 0 = Some f" using assms(2) by (simp add: TimerIntClear_def upd_tim_def runs_for_def)
  from call_plain [OF assms(1) this, of 1] obtain req where
    "call_cb user 0 1 ?s = Some (?s\<lparr>tim_trace := tim_trace ?s @ [tim_call f 1], tim_switch_request := tim_switch_request ?s \<or> req\<rparr>)"
    "asking_user user \<longrightarrow> req" by blast
  with assms(2,3) show ?thesis
    by (auto simp: irq_timer0_handler_def TIMER_TIMA_TIMEOUT_def Let_def TimerIntClear_def upd_tim_def runs_for_def)
qed

lemma irq_match:
  assumes "plain_user user" "runs_for f s" "(TIMER_O_RIS (tims s 0) AND TIMER_O_IMR (tims s 0)) AND 1 = 0"
  shows "\<exists>s' y. irq_timer0_handler user s = Some s' \<and> runs_for f s' \<and>
    tims s' 0 = (tims s 0)\<lparr>TIMER_O_RIS := TIMER_O_RIS (tims s 0) AND NOT 0x10, TIMER_O_IMR := TIMER_O_IMR (tims s 0) AND NOT 0x10\<rparr> \<and>
    tim_trace s' = tim_trace s @ tim_call f 0 # y \<and> set y \<subseteq> {tim_yield} \<and> \<not> tim_switch_request s' \<and>
    (tim_switch_request s \<or> asking_user user \<longrightarrow> y = [tim_yield])"
proof -
  let ?s = "timer_clear 0 s"
  have "tim_config ?s 0 = Some f"
    using assms(2) by (simp add: timer_clear_def TimerIntClear_def TimerIntDisable_def upd_tim_def runs_for_def is_tim_def)
  from call_plain [OF assms(1) this, of 0] obtain req where
    "call_cb user 0 0 ?s = Some (?s\<lparr>tim_trace := tim_trace ?s @ [tim_call f 0], tim_switch_request := tim_switch_request ?s \<or> req\<rparr>)"
    "asking_user user \<longrightarrow> req" by blast
  with assms(2,3) show ?thesis
    by (auto simp: irq_timer0_handler_def TIMER_TIMA_TIMEOUT_def TIMER_TIMA_MATCH_def Let_def timer_clear_def is_tim_def
        TimerIntClear_def TimerIntDisable_def upd_tim_def runs_for_def tim_switch_def)
qed

text \<open>A tick of a timer that is not set, and of one that is.\<close>

lemma tick_idle:
  assumes "idle_timer f s" "plain_user user"
  shows "\<exists>s'. serve_timer0 user (upd_tim 0 tick s) = Some s' \<and> idle_timer f s' \<and> now s' = now s + 1 \<and>
    tim_trace s' = tim_trace s @ (if now s + 1 = 0 then [tim_call f 1] else []) \<and>
    (tim_switch_request s \<or> asking_user user \<and> now s + 1 = 0 \<longrightarrow> tim_switch_request s')"
proof -
  let ?s = "upd_tim 0 tick s"
  have run: "runs_for f s" "TIMER_O_IMR (tims s 0) = 1" "TIMER_O_RIS (tims s 0) AND 1 = 0"
    using assms(1) by (simp_all add: idle_timer_def)
  have s: "tims ?s 0 = tick (tims s 0)" "tim_trace ?s = tim_trace s" "tim_switch_request ?s = tim_switch_request s"
    by (simp_all add: upd_tim_def)
  have ris: "TIMER_O_RIS (tims ?s 0) AND 1 = (if now s + 1 = 0 then 1 else 0)"
    and imr: "TIMER_O_IMR (tims ?s 0) = 1" and tar: "now ?s = now s + 1"
    unfolding s(1) tick_running [OF run(1)] using ris_bits [OF run(3)] run(2) by (simp_all add: now_def s(1) tick_running [OF run(1)])
  have r: "runs_for f ?s" using run(1) tick_running [OF run(1)] by (simp add: runs_for_def upd_tim_def)
  show ?thesis
  proof (cases "now s + 1 = 0")
    case False
    with ris imr r tar s show ?thesis by (simp add: serve_idle idle_timer_def)
  next
    case True
    with ris imr have p: "(TIMER_O_RIS (tims ?s 0) AND TIMER_O_IMR (tims ?s 0)) AND 1 \<noteq> 0" by simp
    from irq_timeout [OF assms(2) r p] obtain s' where s': "irq_timer0_handler user ?s = Some s'" "runs_for f s'"
      "tims s' 0 = (tims ?s 0)\<lparr>TIMER_O_RIS := TIMER_O_RIS (tims ?s 0) AND NOT 1\<rparr>"
      "tim_trace s' = tim_trace ?s @ [tim_call f 1]" "tim_switch_request ?s \<or> asking_user user \<longrightarrow> tim_switch_request s'" by blast
    have "serve_timer0 user s' = Some s'" "idle_timer f s'" "now s' = now ?s"
      using s'(2,3) imr clear_bit_0 by (simp_all add: serve_idle idle_timer_def now_def)
    moreover have "serve_timer0 user ?s = do { s \<leftarrow> irq_timer0_handler user ?s; serve_timer0 user s }"
      using serve_pending [of ?s user] p r by (force simp: runs_for_def)
    ultimately show ?thesis using s'(1,4,5) s tar True by simp
  qed
qed

lemma tick_armed:
  assumes "armed_timer f s" "plain_user user"
  shows "\<exists>s' new. serve_timer0 user (upd_tim 0 tick s) = Some s' \<and> now s' = now s + 1 \<and> tim_trace s' = tim_trace s @ new \<and>
    filter (\<lambda>e. e \<noteq> tim_yield) new = (if now s + 1 = 0 then [tim_call f 1] else []) @
      (if now s + 1 = TIMER_O_TAMATCHR (tims s 0) then [tim_call f 0] else []) \<and>
    (if now s + 1 = TIMER_O_TAMATCHR (tims s 0) then idle_timer f s'
     else armed_timer f s' \<and> TIMER_O_TAMATCHR (tims s' 0) = TIMER_O_TAMATCHR (tims s 0))"
proof -
  let ?s = "upd_tim 0 tick s" and ?m = "TIMER_O_TAMATCHR (tims s 0)"
  have run: "runs_for f s" "TIMER_O_IMR (tims s 0) = 0x11" "TIMER_O_RIS (tims s 0) = 0"
    using assms(1) by (simp_all add: armed_timer_def)
  have t: "tims ?s 0 = (tims s 0)\<lparr>TIMER_O_TAR := now s + 1,
      TIMER_O_RIS := (if now s + 1 = 0 then 1 else 0) OR (if now s + 1 = ?m then 0x10 else 0)\<rparr>"
    using tick_running [OF run(1)] run(3) by (simp add: upd_tim_def)
  have r: "runs_for f ?s" using run(1) t by (simp add: runs_for_def) (simp add: upd_tim_def)
  have tr: "tim_trace ?s = tim_trace s" by (simp add: upd_tim_def)
  have match: "\<exists>s' new. serve_timer0 user a = Some s' \<and> now s' = now a \<and> tim_trace s' = tim_trace a @ new \<and>
      filter (\<lambda>e. e \<noteq> tim_yield) new = [tim_call f 0] \<and> idle_timer f s'"
    if a: "runs_for f a" "TIMER_O_IMR (tims a 0) = 0x11" "TIMER_O_RIS (tims a 0) = 0x10" for a
  proof -
    from irq_match [OF assms(2) a(1)] a(2,3) obtain s' y where s': "irq_timer0_handler user a = Some s'" "runs_for f s'"
      "tims s' 0 = (tims a 0)\<lparr>TIMER_O_RIS := 0x10 AND NOT 0x10, TIMER_O_IMR := 0x11 AND NOT 0x10\<rparr>"
      "tim_trace s' = tim_trace a @ tim_call f 0 # y" "set y \<subseteq> {tim_yield}" by auto
    have "serve_timer0 user s' = Some s'" "idle_timer f s'" "now s' = now a"
      using s'(2,3) by (simp_all add: serve_idle idle_timer_def now_def)
    moreover have "serve_timer0 user a = do { s \<leftarrow> irq_timer0_handler user a; serve_timer0 user s }"
      using serve_pending [of a user] a by (simp add: runs_for_def)
    moreover have "filter (\<lambda>e. e \<noteq> tim_yield) y = []" using s'(5) by (auto simp: filter_empty_conv)
    ultimately show ?thesis using s'(1,4) by simp
  qed
  have now: "now ?s = now s + 1" by (simp add: now_def t)
  show ?thesis
  proof (cases "now s + 1 = 0")
    case False
    show ?thesis
    proof (cases "now s + 1 = ?m")
      case True
      with match [OF r] False t run(2) now tr show ?thesis by (auto simp: eq_commute [of 0])
    next
      case F2: False
      with False t run(2) have "serve_timer0 user ?s = Some ?s" by (intro serve_idle) simp
      moreover have "armed_timer f ?s" using False F2 t run(2) r by (simp add: armed_timer_def)
      ultimately show ?thesis using False F2 now tr t by simp
    qed
  next
    case True
    let ?q = "if now s + 1 = ?m then 0x10 else 0 :: u32"
    have p: "(TIMER_O_RIS (tims ?s 0) AND TIMER_O_IMR (tims ?s 0)) AND 1 \<noteq> 0" using True t run(2) by simp
    from irq_timeout [OF assms(2) r p] obtain s1 where s1: "irq_timer0_handler user ?s = Some s1" "runs_for f s1"
      "tims s1 0 = (tims ?s 0)\<lparr>TIMER_O_RIS := TIMER_O_RIS (tims ?s 0) AND NOT 1\<rparr>"
      "tim_trace s1 = tim_trace ?s @ [tim_call f 1]" by blast
    have s1r: "TIMER_O_RIS (tims s1 0) = ?q" "TIMER_O_IMR (tims s1 0) = 0x11" "now s1 = now s + 1" "TIMER_O_TAMATCHR (tims s1 0) = ?m"
      using s1(3) t True run(2) by (simp_all add: now_def)
    have serve: "serve_timer0 user ?s = serve_timer0 user s1"
      using serve_pending [of ?s user] p r s1(1) by (force simp: runs_for_def)
    show ?thesis
    proof (cases "now s + 1 = ?m")
      case M: True
      with match [OF s1(2) s1r(2)] s1r(1) obtain s' new where "serve_timer0 user s1 = Some s'" "now s' = now s1"
        "tim_trace s' = tim_trace s1 @ new" "filter (\<lambda>e. e \<noteq> tim_yield) new = [tim_call f 0]" "idle_timer f s'" by auto
      with True M serve s1(4) s1r(3) tr show ?thesis by (intro exI [of _ s'] exI [of _ "tim_call f 1 # new"]) simp
    next
      case False
      then have "serve_timer0 user s1 = Some s1" using s1r by (intro serve_idle) simp
      moreover have "armed_timer f s1" using False s1(2) s1r by (simp add: armed_timer_def)
      ultimately show ?thesis using True False serve s1(4) s1r(3,4) tr by simp
    qed
  qed
qed

section \<open>Runs\<close>

definition calls :: "tim_event \<Rightarrow> tim_event list \<Rightarrow> nat" where
  "calls e es = length (filter ((=) e) es)"

lemma calls_append [simp]: "calls e (xs @ ys) = calls e xs + calls e ys"
  by (simp add: calls_def)

lemma calls_Nil [simp]: "calls e [] = 0"
  by (simp add: calls_def)

lemma calls_without_yields: "calls (tim_call f c) es = calls (tim_call f c) (filter (\<lambda>e. e \<noteq> tim_yield) es)"
  by (induction es) (auto simp: calls_def)

lemma unat_next: "unat (t + 1) = unat t + 1" if "t + 1 \<noteq> (0 :: u32)"
  using unatSuc [of t] that by (simp add: add.commute)

lemma wraps_step:
  "(unat (t :: u32) + Suc n) div 2 ^ 32 = (if t + 1 = 0 then 1 else 0) + (unat (t + 1) + n) div 2 ^ 32"
proof (cases "t + 1 = 0")
  case True
  then have "t = - 1" by (simp add: eq_neg_iff_add_eq_0)
  then have "unat t = 2 ^ 32 - 1" by (simp add: unsigned_minus_1_eq_mask mask_eq_exp_minus_1)
  with True show ?thesis by simp
next
  case False
  then have "unat (t + 1) = unat t + 1" by (rule unat_next)
  with False show ?thesis by simp
qed

lemma idle_run:
  assumes "idle_timer f s" "plain_user user"
  shows "\<exists>s' new. run_timer0 user n s = Some s' \<and> idle_timer f s' \<and> now s' = now s + of_nat n \<and> tim_trace s' = tim_trace s @ new \<and>
    calls (tim_call f 0) new = 0 \<and> calls (tim_call f 1) new = (unat (now s) + n) div 2 ^ 32 \<and> tim_yield \<notin> set new \<and>
    (tim_switch_request s \<or> asking_user user \<and> 2 ^ 32 \<le> unat (now s) + n \<longrightarrow> tim_switch_request s')"
  using assms(1)
proof (induction n arbitrary: s)
  case 0
  have "unat (now s) < 2 ^ 32" using unsigned_less [of "now s"] by simp
  with 0 show ?case by simp
next
  case (Suc n)
  from tick_idle [OF Suc.prems assms(2)] obtain s1 where s1: "serve_timer0 user (upd_tim 0 tick s) = Some s1" "idle_timer f s1"
    "now s1 = now s + 1" "tim_trace s1 = tim_trace s @ (if now s + 1 = 0 then [tim_call f 1] else [])"
    "tim_switch_request s \<or> asking_user user \<and> now s + 1 = 0 \<longrightarrow> tim_switch_request s1" by blast
  from Suc.IH [OF s1(2)] obtain s' new where s': "run_timer0 user n s1 = Some s'" "idle_timer f s'" "now s' = now s1 + of_nat n"
    "tim_trace s' = tim_trace s1 @ new" "calls (tim_call f 0) new = 0" "calls (tim_call f 1) new = (unat (now s1) + n) div 2 ^ 32"
    "tim_yield \<notin> set new" "tim_switch_request s1 \<or> asking_user user \<and> 2 ^ 32 \<le> unat (now s1) + n \<longrightarrow> tim_switch_request s'" by blast
  let ?w = "if now s + 1 = 0 then [tim_call f 1] else []"
  have "2 ^ 32 \<le> unat (now s) + Suc n \<Longrightarrow> now s + 1 = 0 \<or> 2 ^ 32 \<le> unat (now s1) + n"
    using s1(3) by (cases "now s + 1 = 0") (auto simp: unat_next)
  with s1 s' wraps_step [of "now s" n] show ?case
    by (intro exI [of _ s'] exI [of _ "?w @ new"]) (auto simp: calls_def)
qed

text \<open>The ticks until the counter has the value \<open>v\<close>: a whole period when it has that value already.\<close>

definition ticks_until :: "u32 \<Rightarrow> u32 \<Rightarrow> nat" where
  "ticks_until t v = unat (v - t - 1) + 1"

lemma ticks_until_step: "t + 1 \<noteq> v \<Longrightarrow> ticks_until t v = ticks_until (t + 1) v + 1"
proof -
  assume "t + 1 \<noteq> v"
  then have "v - t - 1 \<noteq> 0" by (auto simp: algebra_simps)
  then have "unat (v - t - 1 - 1) = unat (v - t - 1) - 1" "0 < unat (v - t - 1)"
    by (rule unat_minus_one, simp add: unat_gt_0)
  moreover have "v - (t + 1) - 1 = v - t - 1 - 1" by (simp add: algebra_simps)
  ultimately show ?thesis by (simp only: ticks_until_def)
qed

lemma armed_run:
  assumes "armed_timer f s" "plain_user user"
  shows "\<exists>s' new. run_timer0 user n s = Some s' \<and> now s' = now s + of_nat n \<and> tim_trace s' = tim_trace s @ new \<and>
    calls (tim_call f 0) new = (if n < ticks_until (now s) (TIMER_O_TAMATCHR (tims s 0)) then 0 else 1) \<and>
    calls (tim_call f 1) new = (unat (now s) + n) div 2 ^ 32"
  using assms(1)
proof (induction n arbitrary: s)
  case 0
  have "unat (now s) < 2 ^ 32" using unsigned_less [of "now s"] by simp
  then show ?case by (simp add: ticks_until_def)
next
  case (Suc n)
  let ?m = "TIMER_O_TAMATCHR (tims s 0)"
  from tick_armed [OF Suc.prems assms(2)] obtain s1 new1 where s1: "serve_timer0 user (upd_tim 0 tick s) = Some s1"
    "now s1 = now s + 1" "tim_trace s1 = tim_trace s @ new1"
    "filter (\<lambda>e. e \<noteq> tim_yield) new1 = (if now s + 1 = 0 then [tim_call f 1] else []) @ (if now s + 1 = ?m then [tim_call f 0] else [])"
    "if now s + 1 = ?m then idle_timer f s1 else armed_timer f s1 \<and> TIMER_O_TAMATCHR (tims s1 0) = ?m" by blast
  have c: "calls (tim_call f 0) new1 = (if now s + 1 = ?m then 1 else 0)" "calls (tim_call f 1) new1 = (if now s + 1 = 0 then 1 else 0)"
    unfolding calls_without_yields [of f _ new1] s1(4) by (simp_all add: calls_def)
  show ?case
  proof (cases "now s + 1 = ?m")
    case True
    with s1(5) have "idle_timer f s1" by simp
    from idle_run [OF this assms(2), of n] obtain s' new where "run_timer0 user n s1 = Some s'" "now s' = now s1 + of_nat n"
      "tim_trace s' = tim_trace s1 @ new" "calls (tim_call f 0) new = 0" "calls (tim_call f 1) new = (unat (now s1) + n) div 2 ^ 32" by blast
    moreover have "?m - now s - 1 = 0" using True by (simp add: algebra_simps)
    then have "ticks_until (now s) ?m = 1" by (simp add: ticks_until_def)
    ultimately show ?thesis using s1(1-3) c True wraps_step [of "now s" n]
      by (intro exI [of _ s'] exI [of _ "new1 @ new"]) simp
  next
    case False
    with s1(5) have s1m: "armed_timer f s1" "TIMER_O_TAMATCHR (tims s1 0) = ?m" by simp_all
    from Suc.IH [OF s1m(1)] obtain s' new where "run_timer0 user n s1 = Some s'" "now s' = now s1 + of_nat n"
      "tim_trace s' = tim_trace s1 @ new"
      "calls (tim_call f 0) new = (if n < ticks_until (now s1) (TIMER_O_TAMATCHR (tims s1 0)) then 0 else 1)"
      "calls (tim_call f 1) new = (unat (now s1) + n) div 2 ^ 32" by blast
    with s1(1-3) s1m(2) c False wraps_step [of "now s" n] ticks_until_step [OF False] show ?thesis
      by (intro exI [of _ s'] exI [of _ "new1 @ new"]) simp
  qed
qed

lemma ucast_u64: "ucast (ucast (v :: u32) :: u64) = v"
  by (rule bit_word_eqI) (use bit_imp_le_length [of v] in \<open>auto simp: bit_simps\<close>)

lemma init_idle:
  assumes "TIMER_O_IMR por = 0" "TIMER_O_RIS por = 0" "TIMER_O_TAR por = 0"
  shows "idle_timer f (timer_init por 0 (Some f) s) \<and> TIMER_O_RIS (tims (timer_init por 0 (Some f) s) 0) = 0 \<and>
    now (timer_init por 0 (Some f) s) = 0 \<and> tim_trace (timer_init por 0 (Some f) s) = tim_trace s"
proof -
  have "bit (x OR (TIMER_A AND (TIMER_CTL_TAEN OR TIMER_CTL_TBEN))) 0" for x :: u32
    by (simp add: bit_or_iff bit_and_iff TIMER_A_def TIMER_CTL_TAEN_def)
  then have "(x OR (TIMER_A AND (TIMER_CTL_TAEN OR TIMER_CTL_TBEN))) AND TIMER_CTL_TAEN \<noteq> 0" for x :: u32
    using and_exp_eq_0_iff_not_bit [of "x OR (TIMER_A AND (TIMER_CTL_TAEN OR TIMER_CTL_TBEN))" 0] by (simp add: TIMER_CTL_TAEN_def)
  with assms show ?thesis
    by (simp add: timer_init_def is_tim_def Let_def upd_tim_def TimerConfigure_def TimerControlStall_def TimerIntRegister_def
        TimerIntEnable_def TimerEnable_def idle_timer_def runs_for_def TIMER_TIMA_TIMEOUT_def TIMER_CFG_PERIODIC_UP_def now_def)
qed


text \<open>
  When the counter wraps round the handler never yields, although the callback may have asked for a
  context switch: the request stays pending, and a thread woken by the callback waits, until some
  other interrupt is served.
\<close>

theorem wrap_does_not_yield:
  assumes "idle_timer f s" "asking_user user" "2 ^ 32 \<le> unat (timer_read 0 s) + n"
  shows "\<exists>s' new. run_timer0 user n s = Some s' \<and> tim_trace s' = tim_trace s @ new \<and> tim_call f 1 \<in> set new \<and>
    tim_yield \<notin> set new \<and> tim_switch_request s'"
proof -
  have "plain_user user" using assms(2) by (simp add: plain_user_def asking_user_def)
  from idle_run [OF assms(1) this, of n] assms(2,3) obtain s' new where "run_timer0 user n s = Some s'" "tim_trace s' = tim_trace s @ new"
    "calls (tim_call f 1) new = (unat (now s) + n) div 2 ^ 32" "tim_yield \<notin> set new" "tim_switch_request s'"
    by (auto simp: timer_read_def is_tim_def TimerValueGet_def now_def)
  moreover have "0 < (unat (now s) + n) div 2 ^ 32"
    using assms(3) by (simp add: timer_read_def is_tim_def TimerValueGet_def now_def div_greater_zero_iff)
  moreover have "tim_call f 1 \<in> set es" if "0 < calls (tim_call f 1) es" for es
    using that by (auto simp: calls_def filter_empty_conv)
  ultimately show ?thesis by metis
qed

section \<open>A timer switched on\<close>

definition timers_off :: tim_state where
  "timers_off = \<lparr>tims = (\<lambda>_. \<lparr>TIMER_O_CFG = 0, TIMER_O_TAMR = 0, TIMER_O_TBMR = 0, TIMER_O_CTL = 0, TIMER_O_IMR = 0,
      TIMER_O_RIS = 0, TIMER_O_TAR = 0, TIMER_O_TAMATCHR = 0xFFFFFFFF\<rparr>), tim_config = (\<lambda>_. None), tim_vector = (\<lambda>_. None),
    tim_prio = (\<lambda>_. None), tim_clk = (\<lambda>_. False), ccp_io = 0, tim_switch_request = False, tim_trace = []\<rparr>"

definition timer0_on :: tim_state where
  "timer0_on = timer_init (tims timers_off 0) 0 (Some 7) timers_off"

lemma timer0_on: "idle_timer 7 timer0_on" "TIMER_O_RIS (tims timer0_on 0) = 0" "timer_read 0 timer0_on = 0" "tim_trace timer0_on = []"
  using init_idle [of "tims timers_off 0" 7 timers_off]
  by (simp_all add: timer0_on_def timers_off_def timer_read_def is_tim_def TimerValueGet_def now_def)


theorem wrap_does_not_yield_witness:
  "\<exists>s'. run_timer0 (\<lambda>_ _ _. (None, True)) (2 ^ 32) timer0_on = Some s' \<and>
    tim_call 7 1 \<in> set (tim_trace s') \<and> tim_yield \<notin> set (tim_trace s') \<and> tim_switch_request s'"
proof -
  have "asking_user (\<lambda>_ _ _. (None, True))" by (simp add: asking_user_def)
  from wrap_does_not_yield [OF timer0_on(1) this, of "2 ^ 32"] timer0_on(3,4) show ?thesis by auto
qed

end
