(* ===== verification/Sbapi_Default.thy ===== *)
theory Sbapi_Default
  imports Sbapi
begin

text \<open>
  Putting the network processor back to its defaults, \<open>simplelink_to_default_state\<close> of
  \<^verbatim>\<open>burba/sys/sbapi_cc3200/sbapi_cc3200.c\<close>. It waits twice for a status that the event callbacks change
  in another thread: the events that arrive are an argument, taken one at a time while it waits.
  \<^term>\<open>None\<close> is a call that does not return: \<open>PANIC\<close> after an error, or waiting for ever.
\<close>

section \<open>Waiting for events\<close>

datatype board_event = wlan wlan_event | netapp netapp_event

fun on_event :: "'w os \<Rightarrow> board_event \<Rightarrow> 'w board_state \<Rightarrow> 'w board_state option" where
  "on_event os (wlan e) b = SimpleLinkWlanEventHandler os e b"
| "on_event os (netapp e) b = Some (SimpleLinkNetAppEventHandler os e b)"

text \<open>The empty loop \<open>while (cond) {}\<close>, and the events that are left.\<close>

fun wait_while ::
  "('w board_state \<Rightarrow> bool) \<Rightarrow> 'w os \<Rightarrow> board_event list \<Rightarrow> 'w board_state \<Rightarrow> (board_event list \<times> 'w board_state) option" where
  "wait_while cond os [] b = (if cond b then None else Some ([], b))"
| "wait_while cond os (e # es) b =
     (if cond b then do { b \<leftarrow> on_event os e b; wait_while cond os es b } else Some (e # es, b))"

section \<open>The default state\<close>

definition GEN_ERROR :: int where "GEN_ERROR = 1"
definition SL_POLICY_SCAN :: nat where "SL_POLICY_SCAN = 0x20"
definition SL_POLICY_PM :: nat where "SL_POLICY_PM = 0x30"
definition SL_NORMAL_POLICY :: nat where "SL_NORMAL_POLICY = 0"
definition WLAN_GENERAL_PARAM_OPT_STA_TX_POWER :: nat where "WLAN_GENERAL_PARAM_OPT_STA_TX_POWER = 10"
definition SL_REMOVE_RX_FILTER :: nat where "SL_REMOVE_RX_FILTER = 1"
definition SL_IPV4_STA_P2P_CL_DHCP_ENABLE :: nat where "SL_IPV4_STA_P2P_CL_DHCP_ENABLE = 4"
definition SL_DEVICE_GENERAL_CONFIGURATION :: nat where "SL_DEVICE_GENERAL_CONFIGURATION = 1"
definition SL_DEVICE_GENERAL_VERSION :: nat where "SL_DEVICE_GENERAL_VERSION = 12"

text \<open>A call followed by \<open>STOP_IF_ERR\<close>, which panics when the result is negative.\<close>

definition must :: "'w os \<Rightarrow> syscall \<Rightarrow> 'w board_state \<Rightarrow> (int \<times> 'w board_state) option" where
  "must os c b = (let (r, b) = sys os c b in if rc r < 0 then None else Some (rc r, b))"

definition start_station :: "'w os \<Rightarrow> board_event list \<Rightarrow> 'w board_state \<Rightarrow> (bool \<times> board_event list \<times> 'w board_state) option" where
  "start_station os es b =
     do {
       (sts, b) \<leftarrow> must os sl_Start b;
       if sts \<noteq> ROLE_STA
       then do {
         (es, b) \<leftarrow> (if sts = ROLE_AP then wait_while (\<lambda>b. \<not> IS_IP_ACQUIRED b) os es b else Some (es, b));
         (sts, b) \<leftarrow> must os (sl_WlanSetMode ROLE_STA) b;
         (sts, b) \<leftarrow> must os (sl_Stop 0xFF) b;
         (sts, b) \<leftarrow> must os sl_Start b;
         Some (sts = ROLE_STA, es, b)
       }
       else Some (True, es, b)
     }"

definition drop_connection :: "'w os \<Rightarrow> board_event list \<Rightarrow> 'w board_state \<Rightarrow> (board_event list \<times> 'w board_state) option" where
  "drop_connection os es b =
     do {
       (sts, b) \<leftarrow> must os (sl_DevGet SL_DEVICE_GENERAL_CONFIGURATION SL_DEVICE_GENERAL_VERSION) b;
       (sts, b) \<leftarrow> must os (sl_WlanPolicySet SL_POLICY_CONNECTION 0x11) b;
       let b = snd (sys os (sl_WlanProfileDel 0xFF) b);
       let b = snd (set_to_open os b);
       let r = fst (sys os sl_WlanDisconnect b);
       let b = snd (sys os sl_WlanDisconnect b);
       if rc r = 0 then wait_while (\<lambda>b. IS_CONNECTED b) os es b else Some (es, b)
     }"

text \<open>
  \<open>stk\<close> is what the stack holds where the 16 bytes of the filter mask and 4 of padding are; the code
  fills the first 8.
\<close>

definition station_settings :: "'w os \<Rightarrow> byte list \<Rightarrow> 'w board_state \<Rightarrow> (int \<times> 'w board_state) option" where
  "station_settings os stk b =
     do {
       (sts, b) \<leftarrow> must os (sl_NetCfgSet SL_IPV4_STA_P2P_CL_DHCP_ENABLE 1 [1]) b;
       (sts, b) \<leftarrow> must os (sl_WlanPolicySet SL_POLICY_SCAN 0) b;
       (sts, b) \<leftarrow> must os (sl_WlanSet SL_WLAN_CFG_GENERAL_PARAM_ID WLAN_GENERAL_PARAM_OPT_STA_TX_POWER [15]) b;
       (sts, b) \<leftarrow> must os (sl_WlanPolicySet SL_POLICY_PM SL_NORMAL_POLICY) b;
       (sts, b) \<leftarrow> must os sl_NetAppMDNSUnRegisterService b;
       must os (sl_WlanRxFilterSet SL_REMOVE_RX_FILTER (replicate 8 0xFF @ stk)) b
     }"

definition simplelink_to_default ::
  "'w os \<Rightarrow> byte list \<Rightarrow> board_event list \<Rightarrow> 'w board_state \<Rightarrow> (int \<times> board_event list \<times> 'w board_state) option" where
  "simplelink_to_default os stk es b =
     do {
       (sta, es, b) \<leftarrow> start_station os es b;
       if \<not> sta then Some (- GEN_ERROR, es, b)
       else do {
         (es, b) \<leftarrow> drop_connection os es b;
         (sts, b) \<leftarrow> station_settings os stk b;
         Some (sts, es, b)
       }
     }"

section \<open>What events do\<close>

text \<open>The calls made apart from the messages the event callbacks send.\<close>

definition requests :: "syscall list \<Rightarrow> syscall list" where
  "requests = filter (\<lambda>c. case c of msg_send _ _ \<Rightarrow> False | _ \<Rightarrow> True)"

lemma requests_append [simp]: "requests (xs @ ys) = requests xs @ requests ys"
  by (simp add: requests_def)

lemma event_requests: "on_event os e b = Some b' \<Longrightarrow> requests (trace b') = requests (trace b)"
  by (cases e) (auto simp: SimpleLinkWlanEventHandler_def SimpleLinkNetAppEventHandler_def notify_def sys_trace on_status_def
      requests_def Let_def bind_eq_Some_conv split: wlan_event.splits netapp_event.splits)

lemma wait_requests: "wait_while cond os es b = Some (es', b') \<Longrightarrow> requests (trace b') = requests (trace b) \<and> \<not> cond b'"
  by (induction cond os es b rule: wait_while.induct) (auto simp: bind_eq_Some_conv event_requests split: if_splits)

lemma must_requests: "must os c b = Some (r, b') \<Longrightarrow> trace b' = trace b @ [c] \<and> 0 \<le> r \<and> nwp b' = nwp b"
  by (auto simp: must_def split_beta sys_trace split: if_splits)

lemma get_status: "GET_STATUS_BIT i s \<longleftrightarrow> bit s (status_bit i)"
  by (simp add: GET_STATUS_BIT_def push_bit_eq_mult and_exp_eq_0_iff_not_bit)

lemma status_bits:
  "GET_STATUS_BIT i (SET_STATUS_BIT j s) \<longleftrightarrow> i = j \<or> GET_STATUS_BIT i s"
  "GET_STATUS_BIT i (CLR_STATUS_BIT j s) \<longleftrightarrow> i \<noteq> j \<and> GET_STATUS_BIT i s"
proof -
  have "status_bit i < 16" "(status_bit i = status_bit j) = (i = j)" by (cases i; cases j; simp)+
  then show "GET_STATUS_BIT i (SET_STATUS_BIT j s) \<longleftrightarrow> i = j \<or> GET_STATUS_BIT i s"
    "GET_STATUS_BIT i (CLR_STATUS_BIT j s) \<longleftrightarrow> i \<noteq> j \<and> GET_STATUS_BIT i s"
    by (auto simp: get_status SET_STATUS_BIT_def CLR_STATUS_BIT_def bit_simps push_bit_eq_mult)
qed

text \<open>An event the callbacks can store: the name of a network fits its buffer.\<close>

fun storable :: "board_event \<Rightarrow> bool" where
  "storable (wlan (SL_WLAN_CONNECT name mac)) \<longleftrightarrow> length name \<le> 33"
| "storable e \<longleftrightarrow> True"

fun acquires :: "board_event \<Rightarrow> bool" where
  "acquires (netapp (SL_NETAPP_IPV4_IPACQUIRED addr gw)) \<longleftrightarrow> True"
| "acquires e \<longleftrightarrow> False"

definition nwp_ok :: "'w board_state \<Rightarrow> bool" where
  "nwp_ok b \<longleftrightarrow> length (ssid (nwp b)) = 33 \<and> length (bssid (nwp b)) = 7"

lemma event_effect:
  assumes "nwp_ok b" "storable e"
  shows "\<exists>b'. on_event os e b = Some b' \<and> nwp_ok b' \<and> (acquires e \<longrightarrow> IS_IP_ACQUIRED b') \<and>
    (\<not> acquires e \<and> \<not> IS_IP_ACQUIRED b \<longrightarrow> \<not> IS_IP_ACQUIRED b')"
proof (cases e)
  case (wlan w)
  with assms show ?thesis
    by (cases w) (auto simp: SimpleLinkWlanEventHandler_def Let_def wr_block_def notify_def on_status_def nwp_ok_def sys_def
        split_beta status_bits min_def)
next
  case (netapp n)
  with assms show ?thesis
    by (cases n) (auto simp: SimpleLinkNetAppEventHandler_def Let_def notify_def on_status_def nwp_ok_def sys_def split_beta status_bits)
qed

lemma event_keeps_waiting: "on_event os e b = Some b' \<Longrightarrow> \<not> acquires e \<Longrightarrow> \<not> IS_IP_ACQUIRED b \<Longrightarrow> \<not> IS_IP_ACQUIRED b'"
  by (cases e) (auto simp: SimpleLinkWlanEventHandler_def SimpleLinkNetAppEventHandler_def notify_def on_status_def sys_def
      split_beta status_bits Let_def bind_eq_Some_conv split: wlan_event.splits netapp_event.splits)

lemma waits_for_address:
  "(\<And>e. e \<in> set es \<Longrightarrow> \<not> acquires e) \<Longrightarrow> \<not> IS_IP_ACQUIRED b \<Longrightarrow> wait_while (\<lambda>b. \<not> IS_IP_ACQUIRED b) os es b = None"
proof (induction es arbitrary: b)
  case (Cons e es)
  then show ?case
    using event_keeps_waiting [of os e b] by (cases "on_event os e b") auto
qed simp

lemma address_ends_waiting:
  "nwp_ok b \<Longrightarrow> list_all storable es \<Longrightarrow> e \<in> set es \<Longrightarrow> acquires e \<Longrightarrow>
    \<exists>x. wait_while (\<lambda>b. \<not> IS_IP_ACQUIRED b) os es b = Some x"
proof (induction es arbitrary: b)
  case (Cons a es)
  from event_effect [OF Cons.prems(1), of a os] Cons.prems(2) obtain b1 where
    b1: "on_event os a b = Some b1" "nwp_ok b1" "acquires a \<longrightarrow> IS_IP_ACQUIRED b1" by auto
  have stop: "\<exists>x. wait_while (\<lambda>b. \<not> IS_IP_ACQUIRED b) os es b1 = Some x" if "IS_IP_ACQUIRED b1"
    using that by (cases es) simp_all
  show ?case
    using b1 stop Cons by (cases "acquires a") auto
qed simp

section \<open>What the function achieves\<close>

definition restart_calls :: "syscall list" where
  "restart_calls = [sl_Start, sl_WlanSetMode ROLE_STA, sl_Stop 0xFF, sl_Start]"

definition default_calls :: "syscall list" where
  "default_calls =
     [sl_DevGet SL_DEVICE_GENERAL_CONFIGURATION SL_DEVICE_GENERAL_VERSION, sl_WlanPolicySet SL_POLICY_CONNECTION 0x11,
      sl_WlanProfileDel 0xFF, sl_WlanSet SL_WLAN_CFG_AP_ID WLAN_AP_OPT_SECURITY_TYPE [SL_SEC_TYPE_OPEN], sl_WlanDisconnect]"

definition setting_calls :: "byte list \<Rightarrow> syscall list" where
  "setting_calls stk =
     [sl_NetCfgSet SL_IPV4_STA_P2P_CL_DHCP_ENABLE 1 [1], sl_WlanPolicySet SL_POLICY_SCAN 0,
      sl_WlanSet SL_WLAN_CFG_GENERAL_PARAM_ID WLAN_GENERAL_PARAM_OPT_STA_TX_POWER [15],
      sl_WlanPolicySet SL_POLICY_PM SL_NORMAL_POLICY, sl_NetAppMDNSUnRegisterService,
      sl_WlanRxFilterSet SL_REMOVE_RX_FILTER (replicate 8 0xFF @ stk)]"

lemma bind2E:
  assumes "m \<bind> (\<lambda>(x, y). f x y) = Some z"
  obtains x y where "m = Some (x, y)" "f x y = Some z"
  using assms by (cases m) auto

lemma wait_if_requests:
  "(if c then wait_while cond os es b else Some (es, b)) = Some (es', b') \<Longrightarrow> requests (trace b') = requests (trace b)"
  by (cases c) (auto dest: wait_requests)

lemma must_request: "must os c b = Some (r, b') \<Longrightarrow> requests (trace b') = requests (trace b) @ requests [c]"
  by (simp add: must_requests)

lemma station_requests:
  assumes "start_station os es b = Some (sta, es', b')"
  shows "(sta \<and> requests (trace b') = requests (trace b) @ [sl_Start]) \<or> requests (trace b') = requests (trace b) @ restart_calls"
proof -
  from assms obtain sts b1 where m: "must os sl_Start b = Some (sts, b1)"
    by (auto simp: start_station_def bind_eq_Some_conv)
  show ?thesis
  proof (cases "sts = ROLE_STA")
    case True
    with assms m must_request [OF m] show ?thesis by (auto simp: start_station_def requests_def)
  next
    case False
    let ?wait = "if sts = ROLE_AP then wait_while (\<lambda>b. \<not> IS_IP_ACQUIRED b) os es b1 else Some (es, b1)"
    from assms m False obtain es2 b2 r3 b3 r4 b4 r5 where c: "?wait = Some (es2, b2)"
      "must os (sl_WlanSetMode ROLE_STA) b2 = Some (r3, b3)" "must os (sl_Stop 0xFF) b3 = Some (r4, b4)"
      "must os sl_Start b4 = Some (r5, b')"
      by (simp add: start_station_def) (elim bind2E, simp)
    show ?thesis
      using wait_if_requests [OF c(1)] must_request [OF c(2)] must_request [OF c(3)] must_request [OF c(4)] must_request [OF m]
      by (simp add: restart_calls_def requests_def)
  qed
qed

lemma drop_requests:
  assumes "drop_connection os es b = Some (es', b')"
  shows "requests (trace b') = requests (trace b) @ default_calls"
proof -
  from assms obtain r1 b1 r2 b2 c where m: "must os (sl_DevGet SL_DEVICE_GENERAL_CONFIGURATION SL_DEVICE_GENERAL_VERSION) b = Some (r1, b1)"
    "must os (sl_WlanPolicySet SL_POLICY_CONNECTION 0x11) b1 = Some (r2, b2)"
    and w: "(if c then wait_while (\<lambda>b. IS_CONNECTED b) os es (snd (sys os sl_WlanDisconnect (snd (set_to_open os (snd (sys os (sl_WlanProfileDel 0xFF) b2))))))
      else Some (es, snd (sys os sl_WlanDisconnect (snd (set_to_open os (snd (sys os (sl_WlanProfileDel 0xFF) b2))))))) = Some (es', b')"
    by (simp only: drop_connection_def Let_def) (elim bind2E, blast)
  show ?thesis
    using must_request [OF m(1)] must_request [OF m(2)] wait_if_requests [OF w]
    by (simp add: default_calls_def requests_def set_to_open_def split_beta sys_trace)
qed

lemma setting_requests:
  assumes "station_settings os stk b = Some (r, b')"
  shows "requests (trace b') = requests (trace b) @ setting_calls stk \<and> 0 \<le> r"
proof -
  from assms obtain r1 b1 r2 b2 r3 b3 r4 b4 r5 b5 where m:
    "must os (sl_NetCfgSet SL_IPV4_STA_P2P_CL_DHCP_ENABLE 1 [1]) b = Some (r1, b1)"
    "must os (sl_WlanPolicySet SL_POLICY_SCAN 0) b1 = Some (r2, b2)"
    "must os (sl_WlanSet SL_WLAN_CFG_GENERAL_PARAM_ID WLAN_GENERAL_PARAM_OPT_STA_TX_POWER [15]) b2 = Some (r3, b3)"
    "must os (sl_WlanPolicySet SL_POLICY_PM SL_NORMAL_POLICY) b3 = Some (r4, b4)"
    "must os sl_NetAppMDNSUnRegisterService b4 = Some (r5, b5)"
    "must os (sl_WlanRxFilterSet SL_REMOVE_RX_FILTER (replicate 8 0xFF @ stk)) b5 = Some (r, b')"
    by (simp only: station_settings_def) (elim bind2E, blast)
  then show ?thesis
    using m [THEN must_request] must_requests [OF m(6)] by (simp add: setting_calls_def requests_def)
qed

text \<open>
  C36: When the function returns a result that is not negative it has made every setting, each once and
  in order, after starting the device or restarting it in station mode; when it returns -1 it has
  restarted the device in station mode and made none. Only the messages of event callbacks come
  between its calls.
\<close>

theorem default_state_sets:
  assumes "simplelink_to_default os stk es b = Some (r, es', b')"
  shows "if r < 0 then r = - 1 \<and> requests (trace b') = requests (trace b) @ restart_calls
    else \<exists>start \<in> {[sl_Start], restart_calls}. requests (trace b') = requests (trace b) @ start @ default_calls @ setting_calls stk"
proof -
  from assms obtain sta es1 b1 where 1: "start_station os es b = Some (sta, es1, b1)"
    by (auto simp: simplelink_to_default_def bind_eq_Some_conv)
  show ?thesis
  proof (cases sta)
    case False
    with 1 assms station_requests [OF 1] show ?thesis by (simp add: simplelink_to_default_def GEN_ERROR_def)
  next
    case True
    with 1 assms obtain b2 where d: "drop_connection os es1 b1 = Some (es', b2)" "station_settings os stk b2 = Some (r, b')"
      by (auto simp: simplelink_to_default_def bind_eq_Some_conv)
    from station_requests [OF 1] drop_requests [OF d(1)] setting_requests [OF d(2)] show ?thesis by auto
  qed
qed


section \<open>Two devices\<close>

definition station :: "unit os" where
  "station c w = (\<lparr>rc = 0, out_bytes = [], out_word = 0, out_fds = []\<rparr>, w)"

definition access_point :: "unit os" where
  "access_point c w = (\<lparr>rc = (case c of sl_Start \<Rightarrow> 2 | _ \<Rightarrow> 0), out_bytes = [], out_word = 0, out_fds = []\<rparr>, w)"

theorem default_state_sets_witness:
  "\<exists>b'. simplelink_to_default station (replicate 12 0) [] (boot ()) = Some (0, [], b') \<and> requests (trace b') = [sl_Start] @ default_calls @ setting_calls (replicate 12 0)"
proof -
  have "map_option (\<lambda>(r, es, b). (r, es, length (trace b))) (simplelink_to_default station (replicate 12 0) [] (boot ())) = Some (0, [], 12)"
    by code_simp
  then obtain b' where b': "simplelink_to_default station (replicate 12 0) [] (boot ()) = Some (0, [], b')" "length (trace b') = 12" by auto
  have "length (requests (trace b')) \<le> 12" using b'(2) length_filter_le [of _ "trace b'"] by (metis requests_def)
  with default_state_sets [OF b'(1)] b'(1) show ?thesis
    by (auto simp: boot_def requests_def restart_calls_def default_calls_def setting_calls_def)
qed


end
