(* ===== verification/Osi_Riot.thy ===== *)
theory Osi_Riot
  imports Xtimer
begin

text \<open>
  The operating system services of the network processor's driver over RIOT:
  \<^verbatim>\<open>burba/cpu/cc3200/sdk/oslib/osi_riot.c\<close>. A synchronization object or a lock object is an index into a
  pool of 64 mutexes; the free indices are in a lifo. \<open>MALLOC_SL_OBJECTS\<close> is not defined in the build.

  RIOT is not part of the repository. Its lifo and its mutexes are a parameter, and \<open>riot_ok\<close> states what
  their interfaces promise. Locking a locked mutex suspends the caller, who waits in the mutex: \<open>Suspends\<close>
  holds the state in which it waits and the value the call returns once the mutex is handed over. Unlocking a
  mutex for which threads wait hands it to the first of them and leaves it locked. An access outside the pool
  and through a null pointer is \<^term>\<open>None\<close>.
\<close>

section \<open>The pool of mutexes\<close>

datatype OsiReturnVal_e =
  OSI_OK | OSI_FAILURE | OSI_OPERATION_FAILED | OSI_ABORTED | OSI_INVALID_PARAMS
  | OSI_MEMORY_ALLOCATION_FAILURE | OSI_TIMEOUT | OSI_EVENTS_IN_USE | OSI_EVENT_OPEARTION_FAILURE

datatype 'a call = Suspends 'a | Goes 'a

definition MAX_SYNC_OBJS :: nat where "MAX_SYNC_OBJS = 64"

definition OSI_NO_WAIT :: u32 where "OSI_NO_WAIT = 0"

definition OSI_WAIT_FOREVER :: u32 where "OSI_WAIT_FOREVER = 0xFFFFFFFF"

text \<open>
  The kernel: \<open>mutex_lock\<close> says whether the calling thread has the mutex or waits for it, and \<open>mutex_unlock\<close>
  which thread it has handed the mutex to.
\<close>

record ('l, 'm, 't) riot =
  lifo_init :: "nat \<Rightarrow> 'l"
  lifo_insert :: "int \<Rightarrow> 'l \<Rightarrow> 'l"
  lifo_get :: "'l \<Rightarrow> int \<times> 'l"
  mutex_init :: 'm
  mutex_lock :: "'t \<Rightarrow> 'm \<Rightarrow> bool \<times> 'm"
  mutex_trylock :: "'m \<Rightarrow> bool \<times> 'm"
  mutex_unlock :: "'m \<Rightarrow> 't option \<times> 'm"

text \<open>
  The variables that hold handles, the pool, what the kernel asks for, and the threads that waited in a
  call and went on, in this order.
\<close>

record ('v, 'l, 'm, 't) osi =
  synchronizer :: 'l
  osi_mutexes :: "'m list"
  handle :: "'v \<Rightarrow> int"
  sched_context_switch_request :: bool
  yields :: nat
  resumed :: "'t list"

definition put_mutex :: "nat \<Rightarrow> 'm \<Rightarrow> ('v, 'l, 'm, 't) osi \<Rightarrow> ('v, 'l, 'm, 't) osi" where
  "put_mutex i m s = s\<lparr>osi_mutexes := (osi_mutexes s)[i := m]\<rparr>"

text \<open>The mutex a handle stands for.\<close>

definition mutex_of :: "('v, 'l, 'm, 't) osi \<Rightarrow> int \<Rightarrow> nat option" where
  "mutex_of s h = (if 0 \<le> h \<and> nat h < length (osi_mutexes s) then Some (nat h) else None)"

definition MUTEX_UNLOCK :: "('l, 'm, 't) riot \<Rightarrow> int \<Rightarrow> ('v, 'l, 'm, 't) osi \<Rightarrow> ('v, 'l, 'm, 't) osi option" where
  "MUTEX_UNLOCK L h s =
     map_option (\<lambda>i. let (next, m) = mutex_unlock L (osi_mutexes s ! i) in
       (put_mutex i m s)\<lparr>resumed := resumed s @ (case next of None \<Rightarrow> [] | Some t \<Rightarrow> [t])\<rparr>) (mutex_of s h)"

definition MUTEX_TRYLOCK :: "('l, 'm, 't) riot \<Rightarrow> int \<Rightarrow> ('v, 'l, 'm, 't) osi \<Rightarrow> (bool \<times> ('v, 'l, 'm, 't) osi) option" where
  "MUTEX_TRYLOCK L h s =
     map_option (\<lambda>i. let (ok, m) = mutex_trylock L (osi_mutexes s ! i) in (ok, put_mutex i m s)) (mutex_of s h)"

definition MUTEX_LOCK :: "('l, 'm, 't) riot \<Rightarrow> 't \<Rightarrow> int \<Rightarrow> ('v, 'l, 'm, 't) osi \<Rightarrow> ('v, 'l, 'm, 't) osi call option" where
  "MUTEX_LOCK L t h s =
     map_option (\<lambda>i. let (has, m) = mutex_lock L t (osi_mutexes s ! i) in
       if has then Goes (put_mutex i m s) else Suspends (put_mutex i m s)) (mutex_of s h)"

definition init_sync_pool :: "('l, 'm, 't) riot \<Rightarrow> ('v, 'l, 'm, 't) osi \<Rightarrow> ('v, 'l, 'm, 't) osi" where
  "init_sync_pool L s =
     fold (\<lambda>i s. put_mutex i (mutex_init L) (s\<lparr>synchronizer := lifo_insert L (int i) (synchronizer s)\<rparr>)) [0..<MAX_SYNC_OBJS]
       (s\<lparr>synchronizer := lifo_init L MAX_SYNC_OBJS\<rparr>)"

section \<open>Synchronization objects\<close>

definition osi_SyncObjCreate :: "('l, 'm, 't) riot \<Rightarrow> 'v option \<Rightarrow> ('v, 'l, 'm, 't) osi \<Rightarrow> OsiReturnVal_e \<times> ('v, 'l, 'm, 't) osi" where
  "osi_SyncObjCreate L pSyncObj s =
     (case pSyncObj of
        None \<Rightarrow> (OSI_INVALID_PARAMS, s)
      | Some v \<Rightarrow> (let (i, l) = lifo_get L (synchronizer s) in
                   (OSI_OK, s\<lparr>synchronizer := l, handle := (handle s)(v := i)\<rparr>)))"

text \<open>Giving back the mutex of a handle, for both kinds of objects.\<close>

definition give_back :: "('l, 'm, 't) riot \<Rightarrow> 'v \<Rightarrow> ('v, 'l, 'm, 't) osi \<Rightarrow> ('v, 'l, 'm, 't) osi option" where
  "give_back L v s =
     map_option (\<lambda>i. let s = put_mutex i (mutex_init L) s in s\<lparr>synchronizer := lifo_insert L (handle s v) (synchronizer s)\<rparr>)
       (mutex_of s (handle s v))"

definition osi_SyncObjDelete :: "('l, 'm, 't) riot \<Rightarrow> 'v option \<Rightarrow> ('v, 'l, 'm, 't) osi \<Rightarrow> (OsiReturnVal_e \<times> ('v, 'l, 'm, 't) osi) option" where
  "osi_SyncObjDelete L pSyncObj s =
     (case pSyncObj of
        None \<Rightarrow> Some (OSI_INVALID_PARAMS, s)
      | Some v \<Rightarrow> map_option (\<lambda>s. (OSI_OK, s)) (give_back L v s))"

definition osi_SyncObjSignal :: "('l, 'm, 't) riot \<Rightarrow> 'v option \<Rightarrow> ('v, 'l, 'm, 't) osi \<Rightarrow> (OsiReturnVal_e \<times> ('v, 'l, 'm, 't) osi) option" where
  "osi_SyncObjSignal L pSyncObj s =
     (case pSyncObj of
        None \<Rightarrow> Some (OSI_INVALID_PARAMS, s)
      | Some v \<Rightarrow> map_option (\<lambda>s. (OSI_OK, s)) (MUTEX_UNLOCK L (handle s v) s))"

definition osi_SyncObjSignalFromISR :: "('l, 'm, 't) riot \<Rightarrow> 'v option \<Rightarrow> ('v, 'l, 'm, 't) osi \<Rightarrow> (OsiReturnVal_e \<times> ('v, 'l, 'm, 't) osi) option" where
  "osi_SyncObjSignalFromISR L pSyncObj s =
     (case pSyncObj of
        None \<Rightarrow> Some (OSI_INVALID_PARAMS, s)
      | Some v \<Rightarrow>
          map_option (\<lambda>s. (OSI_OK, if sched_context_switch_request s then s\<lparr>yields := yields s + 1\<rparr> else s))
            (MUTEX_UNLOCK L (handle s v) s))"

definition osi_SyncObjWait :: "('l, 'm, 't) riot \<Rightarrow> 't \<Rightarrow> 'v option \<Rightarrow> u32 \<Rightarrow> ('v, 'l, 'm, 't) osi \<Rightarrow> (OsiReturnVal_e \<times> ('v, 'l, 'm, 't) osi) call option" where
  "osi_SyncObjWait L t pSyncObj Timeout s =
     (case pSyncObj of
        None \<Rightarrow> Some (Goes (OSI_INVALID_PARAMS, s))
      | Some v \<Rightarrow>
          if Timeout = OSI_NO_WAIT then
            map_option (\<lambda>(ok, s). Goes (if \<not> ok then OSI_OPERATION_FAILED else OSI_OK, s)) (MUTEX_TRYLOCK L (handle s v) s)
          else
            map_option (map_call (\<lambda>s. (OSI_OK, s))) (MUTEX_LOCK L t (handle s v) s))"

definition osi_SyncObjClear :: "('l, 'm, 't) riot \<Rightarrow> 't \<Rightarrow> 'v option \<Rightarrow> ('v, 'l, 'm, 't) osi \<Rightarrow> (OsiReturnVal_e \<times> ('v, 'l, 'm, 't) osi) call option" where
  "osi_SyncObjClear L t pSyncObj s =
     (case pSyncObj of
        None \<Rightarrow> Some (Goes (OSI_INVALID_PARAMS, s))
      | Some _ \<Rightarrow>
          map_option (map_call (\<lambda>(ret, s). (if ret = OSI_OK then OSI_OK else OSI_OPERATION_FAILED, s)))
            (osi_SyncObjWait L t pSyncObj 0 s))"

section \<open>Lock objects\<close>

definition osi_LockObjCreate :: "('l, 'm, 't) riot \<Rightarrow> 'v option \<Rightarrow> ('v, 'l, 'm, 't) osi \<Rightarrow> OsiReturnVal_e \<times> ('v, 'l, 'm, 't) osi" where
  "osi_LockObjCreate L pLockObj s =
     (case pLockObj of
        None \<Rightarrow> (OSI_INVALID_PARAMS, s)
      | Some v \<Rightarrow> (let (i, l) = lifo_get L (synchronizer s) in
                   (OSI_OK, s\<lparr>synchronizer := l, handle := (handle s)(v := i)\<rparr>)))"

definition osi_LockObjDelete :: "('l, 'm, 't) riot \<Rightarrow> 'v option \<Rightarrow> ('v, 'l, 'm, 't) osi \<Rightarrow> (OsiReturnVal_e \<times> ('v, 'l, 'm, 't) osi) option" where
  "osi_LockObjDelete L pLockObj s =
     do { v \<leftarrow> pLockObj; s \<leftarrow> give_back L v s; Some (OSI_OK, s) }"

definition osi_LockObjLock :: "('l, 'm, 't) riot \<Rightarrow> 't \<Rightarrow> 'v option \<Rightarrow> u32 \<Rightarrow> ('v, 'l, 'm, 't) osi \<Rightarrow> (OsiReturnVal_e \<times> ('v, 'l, 'm, 't) osi) call option" where
  "osi_LockObjLock L t pLockObj Timeout s =
     (case pLockObj of
        None \<Rightarrow> Some (Goes (OSI_INVALID_PARAMS, s))
      | Some v \<Rightarrow>
          if Timeout = OSI_NO_WAIT then
            map_option (\<lambda>(ok, s). Goes (if \<not> ok then OSI_OPERATION_FAILED else OSI_OK, s)) (MUTEX_TRYLOCK L (handle s v) s)
          else
            map_option (map_call (\<lambda>s. (OSI_OK, s))) (MUTEX_LOCK L t (handle s v) s))"

definition osi_LockObjUnlock :: "('l, 'm, 't) riot \<Rightarrow> 'v option \<Rightarrow> ('v, 'l, 'm, 't) osi \<Rightarrow> (OsiReturnVal_e \<times> ('v, 'l, 'm, 't) osi) option" where
  "osi_LockObjUnlock L pLockObj s =
     (case pLockObj of
        None \<Rightarrow> Some (OSI_INVALID_PARAMS, s)
      | Some v \<Rightarrow> map_option (\<lambda>s. (OSI_OK, s)) (MUTEX_UNLOCK L (handle s v) s))"

section \<open>Objects are independent binary semaphores\<close>

text \<open>A semaphore is free, or taken while threads wait for it, the next one first.\<close>

datatype 't sem = Free | Taken "'t list"

text \<open>
  What the kernel promises: the lifo in terms of the items it holds, a mutex in terms of a semaphore. The
  order of the waiting threads (RIOT's is by priority) is a parameter, \<open>line_up\<close>.
\<close>

definition riot_ok :: "('l, 'm, 't) riot \<Rightarrow> ('l \<Rightarrow> int list) \<Rightarrow> ('m \<Rightarrow> 't sem) \<Rightarrow> ('t \<Rightarrow> 't list \<Rightarrow> 't list) \<Rightarrow> bool" where
  "riot_ok L items waits line_up \<longleftrightarrow>
     (\<forall>n. items (lifo_init L n) = []) \<and>
     (\<forall>i l. i \<notin> set (items l) \<longrightarrow> items (lifo_insert L i l) = i # items l) \<and>
     (\<forall>l i is. items l = i # is \<longrightarrow> fst (lifo_get L l) = i \<and> items (snd (lifo_get L l)) = is) \<and>
     (\<forall>t ws. set (line_up t ws) = insert t (set ws) \<and> length (line_up t ws) = Suc (length ws)) \<and>
     waits (mutex_init L) = Free \<and>
     (\<forall>t m. case waits m of
        Free \<Rightarrow> fst (mutex_lock L t m) \<and> waits (snd (mutex_lock L t m)) = Taken []
      | Taken ws \<Rightarrow> \<not> fst (mutex_lock L t m) \<and> waits (snd (mutex_lock L t m)) = Taken (line_up t ws)) \<and>
     (\<forall>m. case waits m of
        Free \<Rightarrow> fst (mutex_trylock L m) \<and> waits (snd (mutex_trylock L m)) = Taken []
      | Taken ws \<Rightarrow> \<not> fst (mutex_trylock L m) \<and> waits (snd (mutex_trylock L m)) = Taken ws) \<and>
     (\<forall>m. case waits m of
        Taken (t # ws) \<Rightarrow> fst (mutex_unlock L m) = Some t \<and> waits (snd (mutex_unlock L m)) = Taken ws
      | _ \<Rightarrow> fst (mutex_unlock L m) = None \<and> waits (snd (mutex_unlock L m)) = Free)"

lemma riot_lock:
  assumes "riot_ok L items waits line_up" "mutex_lock L t m = (has, m')"
  shows "case waits m of Free \<Rightarrow> has \<and> waits m' = Taken [] | Taken ws \<Rightarrow> \<not> has \<and> waits m' = Taken (line_up t ws)"
proof -
  have "case waits m of
      Free \<Rightarrow> fst (mutex_lock L t m) \<and> waits (snd (mutex_lock L t m)) = Taken []
    | Taken ws \<Rightarrow> \<not> fst (mutex_lock L t m) \<and> waits (snd (mutex_lock L t m)) = Taken (line_up t ws)"
    using assms(1) unfolding riot_ok_def by (elim conjE) (erule spec2)
  then show ?thesis by (auto simp: assms(2) split: sem.splits list.splits)
qed

lemma riot_trylock:
  assumes "riot_ok L items waits line_up" "mutex_trylock L m = (ok, m')"
  shows "case waits m of Free \<Rightarrow> ok \<and> waits m' = Taken [] | Taken ws \<Rightarrow> \<not> ok \<and> waits m' = Taken ws"
proof -
  have "case waits m of
      Free \<Rightarrow> fst (mutex_trylock L m) \<and> waits (snd (mutex_trylock L m)) = Taken []
    | Taken ws \<Rightarrow> \<not> fst (mutex_trylock L m) \<and> waits (snd (mutex_trylock L m)) = Taken ws"
    using assms(1) unfolding riot_ok_def by (elim conjE) (erule spec)
  then show ?thesis by (auto simp: assms(2) split: sem.splits list.splits)
qed

lemma riot_unlock:
  assumes "riot_ok L items waits line_up" "mutex_unlock L m = (next, m')"
  shows "case waits m of Taken (t # ws) \<Rightarrow> next = Some t \<and> waits m' = Taken ws | _ \<Rightarrow> next = None \<and> waits m' = Free"
proof -
  have "case waits m of
      Taken (t # ws) \<Rightarrow> fst (mutex_unlock L m) = Some t \<and> waits (snd (mutex_unlock L m)) = Taken ws
    | _ \<Rightarrow> fst (mutex_unlock L m) = None \<and> waits (snd (mutex_unlock L m)) = Free"
    using assms(1) unfolding riot_ok_def by (elim conjE) (erule spec)
  then show ?thesis by (auto simp: assms(2) split: sem.splits list.splits)
qed

datatype 'v osi_op =
  SyncCreate 'v | SyncDelete 'v | SyncSignal 'v | SyncSignalFromISR 'v | SyncWait 'v u32 | SyncClear 'v
  | LockCreate 'v | LockDelete 'v | LockLock 'v u32 | LockUnlock 'v

text \<open>The result of a thread's operation, \<^term>\<open>None\<close> when it suspends, and the state.\<close>

fun outcome :: "(OsiReturnVal_e \<times> 's) call \<Rightarrow> OsiReturnVal_e option \<times> 's" where
  "outcome (Suspends (r, s)) = (None, s)"
| "outcome (Goes (r, s)) = (Some r, s)"

fun osi_step :: "('l, 'm, 't) riot \<Rightarrow> 't \<Rightarrow> 'v osi_op \<Rightarrow> ('v, 'l, 'm, 't) osi \<Rightarrow> (OsiReturnVal_e option \<times> ('v, 'l, 'm, 't) osi) option" where
  "osi_step L p (SyncCreate v) s = Some (apfst Some (osi_SyncObjCreate L (Some v) s))"
| "osi_step L p (SyncDelete v) s = map_option (apfst Some) (osi_SyncObjDelete L (Some v) s)"
| "osi_step L p (SyncSignal v) s = map_option (apfst Some) (osi_SyncObjSignal L (Some v) s)"
| "osi_step L p (SyncSignalFromISR v) s = map_option (apfst Some) (osi_SyncObjSignalFromISR L (Some v) s)"
| "osi_step L p (SyncWait v t) s = map_option outcome (osi_SyncObjWait L p (Some v) t s)"
| "osi_step L p (SyncClear v) s = map_option outcome (osi_SyncObjClear L p (Some v) s)"
| "osi_step L p (LockCreate v) s = Some (apfst Some (osi_LockObjCreate L (Some v) s))"
| "osi_step L p (LockDelete v) s = map_option (apfst Some) (osi_LockObjDelete L (Some v) s)"
| "osi_step L p (LockLock v t) s = map_option outcome (osi_LockObjLock L p (Some v) t s)"
| "osi_step L p (LockUnlock v) s = map_option (apfst Some) (osi_LockObjUnlock L (Some v) s)"

fun osi_run :: "('l, 'm, 't) riot \<Rightarrow> ('t \<times> 'v osi_op) list \<Rightarrow> ('v, 'l, 'm, 't) osi \<Rightarrow> (OsiReturnVal_e option list \<times> ('v, 'l, 'm, 't) osi) option" where
  "osi_run L [] s = Some ([], s)"
| "osi_run L ((p, x) # xs) s =
     do { (r, s) \<leftarrow> osi_step L p x s; (rs, s) \<leftarrow> osi_run L xs s; Some (r # rs, s) }"

text \<open>
  The specification: every object that has been created is a semaphore of its own, with its own waiting
  threads, and a new one is free. A signal resumes the first thread that waits for the object and no
  other; without one it leaves the object free. Beside the objects, the threads resumed so far.
\<close>

fun acquire :: "('t \<Rightarrow> 't list \<Rightarrow> 't list) \<Rightarrow> 't \<Rightarrow> 'v \<Rightarrow> u32 \<Rightarrow> ('v \<rightharpoonup> 't sem) \<Rightarrow> OsiReturnVal_e option \<times> ('v \<rightharpoonup> 't sem)" where
  "acquire line_up p v t a =
     (case a v of
        Some (Taken ws) \<Rightarrow> if t = 0 then (Some OSI_OPERATION_FAILED, a) else (None, a(v \<mapsto> Taken (line_up p ws)))
      | _ \<Rightarrow> (Some OSI_OK, a(v \<mapsto> Taken [])))"

fun release :: "'v \<Rightarrow> ('v \<rightharpoonup> 't sem) \<times> 't list \<Rightarrow> ('v \<rightharpoonup> 't sem) \<times> 't list" where
  "release v (a, went) =
     (case a v of
        Some (Taken (t # ws)) \<Rightarrow> (a(v \<mapsto> Taken ws), went @ [t])
      | _ \<Rightarrow> (a(v \<mapsto> Free), went))"

fun spec_step ::
  "('t \<Rightarrow> 't list \<Rightarrow> 't list) \<Rightarrow> 't \<Rightarrow> 'v osi_op \<Rightarrow> ('v \<rightharpoonup> 't sem) \<times> 't list \<Rightarrow> OsiReturnVal_e option \<times> ('v \<rightharpoonup> 't sem) \<times> 't list" where
  "spec_step line_up p (SyncCreate v) (a, went) = (Some OSI_OK, a(v \<mapsto> Free), went)"
| "spec_step line_up p (LockCreate v) (a, went) = (Some OSI_OK, a(v \<mapsto> Free), went)"
| "spec_step line_up p (SyncDelete v) (a, went) = (Some OSI_OK, a(v := None), went)"
| "spec_step line_up p (LockDelete v) (a, went) = (Some OSI_OK, a(v := None), went)"
| "spec_step line_up p (SyncSignal v) (a, went) = (Some OSI_OK, release v (a, went))"
| "spec_step line_up p (SyncSignalFromISR v) (a, went) = (Some OSI_OK, release v (a, went))"
| "spec_step line_up p (LockUnlock v) (a, went) = (Some OSI_OK, release v (a, went))"
| "spec_step line_up p (SyncWait v t) (a, went) = (let (r, a) = acquire line_up p v t a in (r, a, went))"
| "spec_step line_up p (LockLock v t) (a, went) = (let (r, a) = acquire line_up p v t a in (r, a, went))"
| "spec_step line_up p (SyncClear v) (a, went) = (let (r, a) = acquire line_up p v 0 a in (r, a, went))"

fun spec_run ::
  "('t \<Rightarrow> 't list \<Rightarrow> 't list) \<Rightarrow> ('t \<times> 'v osi_op) list \<Rightarrow> ('v \<rightharpoonup> 't sem) \<times> 't list \<Rightarrow> OsiReturnVal_e option list \<times> ('v \<rightharpoonup> 't sem) \<times> 't list" where
  "spec_run line_up [] a = ([], a)"
| "spec_run line_up ((p, x) # xs) a = (let (r, a) = spec_step line_up p x a; (rs, a) = spec_run line_up xs a in (r # rs, a))"

text \<open>An object is created when there are less than 64, and used only between its creation and its deletion.\<close>

fun usable :: "'v osi_op \<Rightarrow> ('v \<rightharpoonup> 't sem) \<Rightarrow> bool" where
  "usable (SyncCreate v) a \<longleftrightarrow> a v = None \<and> card (dom a) < MAX_SYNC_OBJS"
| "usable (LockCreate v) a \<longleftrightarrow> a v = None \<and> card (dom a) < MAX_SYNC_OBJS"
| "usable (SyncDelete v) a \<longleftrightarrow> a v \<noteq> None"
| "usable (LockDelete v) a \<longleftrightarrow> a v \<noteq> None"
| "usable (SyncSignal v) a \<longleftrightarrow> a v \<noteq> None"
| "usable (SyncSignalFromISR v) a \<longleftrightarrow> a v \<noteq> None"
| "usable (LockUnlock v) a \<longleftrightarrow> a v \<noteq> None"
| "usable (SyncWait v t) a \<longleftrightarrow> a v \<noteq> None"
| "usable (LockLock v t) a \<longleftrightarrow> a v \<noteq> None"
| "usable (SyncClear v) a \<longleftrightarrow> a v \<noteq> None"

fun usable_run :: "('t \<Rightarrow> 't list \<Rightarrow> 't list) \<Rightarrow> ('t \<times> 'v osi_op) list \<Rightarrow> ('v \<rightharpoonup> 't sem) \<times> 't list \<Rightarrow> bool" where
  "usable_run line_up [] a \<longleftrightarrow> True"
| "usable_run line_up ((p, x) # xs) a \<longleftrightarrow> usable x (fst a) \<and> usable_run line_up xs (snd (spec_step line_up p x a))"

text \<open>The simulation relation: live objects have mutexes of their own, and the free ones are in the lifo, unlocked.\<close>

definition simulates :: "('l \<Rightarrow> int list) \<Rightarrow> ('m \<Rightarrow> 't sem) \<Rightarrow> ('v \<rightharpoonup> 't sem) \<Rightarrow> ('v, 'l, 'm, 't) osi \<Rightarrow> bool" where
  "simulates items waits a s \<longleftrightarrow>
     length (osi_mutexes s) = MAX_SYNC_OBJS \<and> finite (dom a) \<and> inj_on (handle s) (dom a) \<and>
     distinct (items (synchronizer s)) \<and>
     set (items (synchronizer s)) = {0..<int MAX_SYNC_OBJS} - handle s ` dom a \<and>
     (\<forall>v\<in>dom a. handle s v \<in> {0..<int MAX_SYNC_OBJS} \<and> a v = Some (waits (osi_mutexes s ! nat (handle s v)))) \<and>
     (\<forall>i\<in>set (items (synchronizer s)). waits (osi_mutexes s ! nat i) = Free)"

lemma simI:
  assumes "length (osi_mutexes s) = MAX_SYNC_OBJS" "finite (dom a)" "inj_on (handle s) (dom a)"
    "distinct (items (synchronizer s))" "set (items (synchronizer s)) = {0..<int MAX_SYNC_OBJS} - handle s ` dom a"
    "\<And>v. v \<in> dom a \<Longrightarrow> handle s v \<in> {0..<int MAX_SYNC_OBJS}"
    "\<And>v. v \<in> dom a \<Longrightarrow> a v = Some (waits (osi_mutexes s ! nat (handle s v)))"
    "\<And>i. i \<in> set (items (synchronizer s)) \<Longrightarrow> waits (osi_mutexes s ! nat i) = Free"
  shows "simulates items waits a s"
  using assms by (simp add: simulates_def)

lemma simD:
  assumes "simulates items waits a s"
  shows "length (osi_mutexes s) = MAX_SYNC_OBJS" "inj_on (handle s) (dom a)"
    "distinct (items (synchronizer s))" "set (items (synchronizer s)) = {0..<int MAX_SYNC_OBJS} - handle s ` dom a"
    "\<And>v. v \<in> dom a \<Longrightarrow> handle s v \<in> {0..<int MAX_SYNC_OBJS}"
    "\<And>v. v \<in> dom a \<Longrightarrow> a v = Some (waits (osi_mutexes s ! nat (handle s v)))"
    "\<And>i. i \<in> set (items (synchronizer s)) \<Longrightarrow> waits (osi_mutexes s ! nat i) = Free"
  using assms unfolding simulates_def by blast+

lemma sim_finite: "simulates items waits a s \<Longrightarrow> finite (dom a)"
  by (simp add: simulates_def)

lemma sim_mutex:
  assumes "simulates items waits a s" "a v = Some b"
  shows "mutex_of s (handle s v) = Some (nat (handle s v))" "waits (osi_mutexes s ! nat (handle s v)) = b"
  using assms by (auto simp: simulates_def mutex_of_def dest!: bspec [of _ _ v])

lemma sim_other [simp]:
  "simulates items waits a (s\<lparr>yields := n\<rparr>) = simulates items waits a s"
  "simulates items waits a (s\<lparr>resumed := ts\<rparr>) = simulates items waits a s"
  by (simp_all add: simulates_def)

lemma sim_set:
  assumes sim: "simulates items waits a s" and v: "a v = Some b"
  shows "simulates items waits (a(v \<mapsto> waits m)) (put_mutex (nat (handle s v)) m s)"
proof (rule simI)
  note D = simD [OF sim]
  have d: "v \<in> dom a" and dom: "dom (a(v \<mapsto> waits m)) = dom a" using v by auto
  have pos: "0 \<le> handle s w" if "w \<in> dom a" for w using D(5) [OF that] by simp
  have at: "nat (handle s v) < length (osi_mutexes s)" using D(1) D(5) [OF d] by (simp add: nat_less_iff)
  have other: "nat (handle s v) \<noteq> nat (handle s w)" if "w \<in> dom a" "w \<noteq> v" for w
    using inj_onD [OF D(2), of v w] that d pos [OF d] pos [OF that(1)] by (auto simp: eq_nat_nat_iff)
  fix w assume w: "w \<in> dom (a(v \<mapsto> waits m))"
  show "(a(v \<mapsto> waits m)) w =
      Some (waits (osi_mutexes (put_mutex (nat (handle s v)) m s) ! nat (handle (put_mutex (nat (handle s v)) m s) w)))"
    using at other [of w] D(6) [of w] w dom by (cases "w = v") (auto simp: put_mutex_def)
next
  note D = simD [OF sim]
  fix i assume "i \<in> set (items (synchronizer (put_mutex (nat (handle s v)) m s)))"
  then have i: "i \<in> set (items (synchronizer s))" "0 \<le> i" "i \<noteq> handle s v" using D(4) v by (auto simp: put_mutex_def)
  moreover have "0 \<le> handle s v" using D(5) [of v] v by auto
  ultimately have "nat (handle s v) \<noteq> nat i" by (simp add: eq_nat_nat_iff)
  with D(7) [OF i(1)] show "waits (osi_mutexes (put_mutex (nat (handle s v)) m s) ! nat i) = Free" by (simp add: put_mutex_def)
qed (use simD(1-5) [OF sim] sim_finite [OF sim] v in \<open>simp_all add: put_mutex_def insert_absorb domIff del: inj_on_insert\<close>)

lemma sim_new:
  assumes L: "riot_ok L items waits line_up" and sim: "simulates items waits a s" and v: "a v = None" and room: "card (dom a) < MAX_SYNC_OBJS"
    and get: "lifo_get L (synchronizer s) = (i, l)"
  shows "simulates items waits (a(v \<mapsto> Free)) (s\<lparr>synchronizer := l, handle := (handle s)(v := i)\<rparr>)"
proof -
  have "card (handle s ` dom a) < card {0..<int MAX_SYNC_OBJS}"
    using room card_image_le [OF sim_finite [OF sim], of "handle s"] by simp
  then have "\<not> {0..<int MAX_SYNC_OBJS} \<subseteq> handle s ` dom a"
    using card_mono [of "handle s ` dom a"] sim_finite [OF sim] by (metis finite_imageI not_less)
  with sim obtain j js where "items (synchronizer s) = j # js" by (cases "items (synchronizer s)") (auto simp: simulates_def)
  with L get have items: "items (synchronizer s) = i # items l" unfolding riot_ok_def by (metis fst_conv snd_conv)
  note D = simD [OF sim]
  have "i \<in> set (items (synchronizer s))" "i \<notin> set (items l)" "set (items (synchronizer s)) = insert i (set (items l))"
    using D(3) items by auto
  then have i: "i \<in> {0..<int MAX_SYNC_OBJS}" "i \<notin> handle s ` dom a" "waits (osi_mutexes s ! nat i) = Free"
    and rest: "set (items l) = {0..<int MAX_SYNC_OBJS} - handle s ` dom a - {i}" "\<And>j. j \<in> set (items l) \<Longrightarrow> waits (osi_mutexes s ! nat j) = Free"
    using D(4,7) by auto
  have w: "w \<noteq> v" if "w \<in> dom a" for w using v that by auto
  show ?thesis
  proof (rule simI)
    show "set (items (synchronizer (s\<lparr>synchronizer := l, handle := (handle s)(v := i)\<rparr>))) =
        {0..<int MAX_SYNC_OBJS} - handle (s\<lparr>synchronizer := l, handle := (handle s)(v := i)\<rparr>) ` dom (a(v \<mapsto> Free))"
      using rest(1) w by (auto simp: image_iff)
    show "inj_on (handle (s\<lparr>synchronizer := l, handle := (handle s)(v := i)\<rparr>)) (dom (a(v \<mapsto> Free)))"
      using D(2) i(2) w by (auto simp: inj_on_def)
  qed (use D(1,3,5,6) items i rest(2) w sim_finite [OF sim] in \<open>auto split: if_splits\<close>)
qed

lemma sim_delete:
  assumes L: "riot_ok L items waits line_up" and sim: "simulates items waits a s" and v: "a v = Some b"
  shows "\<exists>s'. give_back L v s = Some s' \<and> simulates items waits (a(v := None)) s' \<and> resumed s' = resumed s"
proof -
  let ?h = "handle s v"
  have d: "v \<in> dom a" using v by auto
  have h: "?h \<in> {0..<int MAX_SYNC_OBJS}" "?h \<notin> set (items (synchronizer s))" using sim d by (auto simp: simulates_def)
  with L have items: "items (lifo_insert L ?h (synchronizer s)) = ?h # items (synchronizer s)" by (simp add: riot_ok_def)
  let ?t = "put_mutex (nat ?h) (mutex_init L) s"
  let ?u = "?t\<lparr>synchronizer := lifo_insert L ?h (synchronizer ?t)\<rparr>"
  have "waits (mutex_init L) = Free" using L by (simp add: riot_ok_def)
  then have sim': "simulates items waits (a(v \<mapsto> Free)) ?t" using sim_set [OF sim v, of "mutex_init L"] by simp
  have inj: "handle s ` (dom a - {v}) = handle s ` dom a - {?h}"
    using sim d by (auto simp: simulates_def inj_on_def)
  have same: "synchronizer ?t = synchronizer s" "handle ?t = handle s" "length (osi_mutexes ?t) = length (osi_mutexes s)"
      "resumed ?t = resumed s"
    by (simp_all add: put_mutex_def)
  note D = simD [OF sim'] and D0 = simD [OF sim]
  have "simulates items waits (a(v := None)) ?u"
  proof (rule simI)
    fix w assume w: "w \<in> dom (a(v := None))"
    then show "(a(v := None)) w = Some (waits (osi_mutexes ?u ! nat (handle ?u w)))"
      using D(6) [of w] by (auto split: if_splits)
  next
    fix i assume "i \<in> set (items (synchronizer ?u))"
    then have "i = ?h \<or> i \<in> set (items (synchronizer ?t))" using items same by simp
    then show "waits (osi_mutexes ?u ! nat i) = Free" using D(7) [of i] D(6) [of v] same by auto
  qed (use D0(1-5) h items inj same sim_finite [OF sim] in \<open>auto intro: inj_on_subset\<close>)
  then show ?thesis using sim_mutex [OF sim v] by (simp add: give_back_def Let_def same)
qed

lemma put_mutex_resumed [simp]: "resumed (put_mutex i m s) = resumed s"
  by (simp add: put_mutex_def)

lemma sim_acquire:
  assumes L: "riot_ok L items waits line_up" and sim: "simulates items waits a s" and v: "a v \<noteq> None"
  shows "\<exists>c s'. osi_SyncObjWait L p (Some v) t s = Some c \<and> osi_LockObjLock L p (Some v) t s = Some c \<and>
    outcome c = (fst (acquire line_up p v t a), s') \<and> simulates items waits (snd (acquire line_up p v t a)) s' \<and> resumed s' = resumed s"
proof -
  from v obtain b where b: "a v = Some b" by auto
  note m = sim_mutex [OF sim b]
  let ?m = "osi_mutexes s ! nat (handle s v)"
  have same: "a(v \<mapsto> b) = a" using b by auto
  show ?thesis
  proof (cases "t = 0")
    case True
    obtain ok m' where tr: "mutex_trylock L ?m = (ok, m')" by (cases "mutex_trylock L ?m")
    with True m riot_trylock [OF L tr] tr b same sim_set [OF sim b, of m'] show ?thesis
      by (cases b) (simp_all add: osi_SyncObjWait_def osi_LockObjLock_def MUTEX_TRYLOCK_def OSI_NO_WAIT_def)
  next
    case False
    obtain has m' where lk: "mutex_lock L p ?m = (has, m')" by (cases "mutex_lock L p ?m")
    with False m riot_lock [OF L lk] b sim_set [OF sim b, of m'] show ?thesis
      by (cases b) (simp_all add: osi_SyncObjWait_def osi_LockObjLock_def MUTEX_LOCK_def OSI_NO_WAIT_def)
  qed
qed

lemma sim_signal:
  assumes L: "riot_ok L items waits line_up" and sim: "simulates items waits a s" and v: "a v \<noteq> None"
  shows "\<exists>s'. MUTEX_UNLOCK L (handle s v) s = Some s' \<and> simulates items waits (fst (release v (a, resumed s))) s' \<and>
    resumed s' = snd (release v (a, resumed s))"
proof -
  from v obtain b where b: "a v = Some b" by auto
  note m = sim_mutex [OF sim b]
  let ?m = "osi_mutexes s ! nat (handle s v)"
  obtain nx m' where un: "mutex_unlock L ?m = (nx, m')" by (cases "mutex_unlock L ?m")
  with m riot_unlock [OF L un] b sim_set [OF sim b, of m'] show ?thesis
    by (cases b) (auto simp: MUTEX_UNLOCK_def split: list.splits)
qed

lemma sim_step:
  assumes L: "riot_ok L items waits line_up" and sim: "simulates items waits a s" and use: "usable x a"
  shows "\<exists>s'. osi_step L p x s = Some (fst (spec_step line_up p x (a, resumed s)), s') \<and>
    simulates items waits (fst (snd (spec_step line_up p x (a, resumed s)))) s' \<and> resumed s' = snd (snd (spec_step line_up p x (a, resumed s)))"
proof (cases x)
  case (SyncCreate v)
  with sim_new [OF L sim, of v] use show ?thesis
    by (cases "lifo_get L (synchronizer s)") (auto simp: osi_SyncObjCreate_def)
next
  case (LockCreate v)
  with sim_new [OF L sim, of v] use show ?thesis
    by (cases "lifo_get L (synchronizer s)") (auto simp: osi_LockObjCreate_def)
next
  case (SyncDelete v)
  with sim_delete [OF L sim, of v] use show ?thesis by (auto simp: osi_SyncObjDelete_def)
next
  case (LockDelete v)
  with sim_delete [OF L sim, of v] use show ?thesis by (auto simp: osi_LockObjDelete_def)
next
  case (SyncWait v t)
  with sim_acquire [OF L sim, of v p t] use show ?thesis
    by (auto simp: split_beta Let_def simp del: acquire.simps)
next
  case (LockLock v t)
  with sim_acquire [OF L sim, of v p t] use show ?thesis
    by (auto simp: split_beta Let_def simp del: acquire.simps)
next
  case (SyncClear v)
  with use have "a v \<noteq> None" by simp
  from sim_acquire [OF L sim this, of p 0] obtain c s' where c: "osi_SyncObjWait L p (Some v) 0 s = Some c"
    "outcome c = (fst (acquire line_up p v 0 a), s')" "simulates items waits (snd (acquire line_up p v 0 a)) s'" "resumed s' = resumed s" by blast
  have "fst (acquire line_up p v 0 a) \<in> {Some OSI_OK, Some OSI_OPERATION_FAILED}" by (simp split: option.splits sem.splits)
  with SyncClear c show ?thesis
    by (cases c rule: outcome.cases) (auto simp: osi_SyncObjClear_def split_beta Let_def simp del: acquire.simps)
next
  case (SyncSignal v)
  with sim_signal [OF L sim, of v] use show ?thesis by (auto simp: osi_SyncObjSignal_def simp del: release.simps)
next
  case (SyncSignalFromISR v)
  with sim_signal [OF L sim, of v] use obtain s' where "MUTEX_UNLOCK L (handle s v) s = Some s'"
    "simulates items waits (fst (release v (a, resumed s))) s'" "resumed s' = snd (release v (a, resumed s))" by auto
  with SyncSignalFromISR show ?thesis
    by (cases "sched_context_switch_request s'") (simp_all add: osi_SyncObjSignalFromISR_def del: release.simps)
next
  case (LockUnlock v)
  with sim_signal [OF L sim, of v] use show ?thesis by (auto simp: osi_LockObjUnlock_def simp del: release.simps)
qed

lemma sim_run:
  assumes "riot_ok L items waits line_up" "simulates items waits a s" "usable_run line_up xs (a, resumed s)"
  shows "\<exists>s'. osi_run L xs s = Some (fst (spec_run line_up xs (a, resumed s)), s') \<and>
    simulates items waits (fst (snd (spec_run line_up xs (a, resumed s)))) s' \<and> resumed s' = snd (snd (spec_run line_up xs (a, resumed s)))"
  using assms(2,3)
proof (induction xs arbitrary: a s)
  case (Cons y xs)
  obtain p x where y: "y = (p, x)" by (cases y)
  obtain r a1 w1 where sp: "spec_step line_up p x (a, resumed s) = (r, a1, w1)" by (cases "spec_step line_up p x (a, resumed s)") auto
  from sim_step [OF assms(1) Cons.prems(1), of x p] Cons.prems(2) y sp obtain s1 where
    1: "osi_step L p x s = Some (r, s1)" "simulates items waits a1 s1" "resumed s1 = w1" by auto
  from Cons.IH [OF 1(2)] Cons.prems(2) y sp 1(1,3) show ?case by (auto simp: split_beta Let_def)
qed simp

lemma sim_init:
  assumes L: "riot_ok L items waits line_up" and len: "length (osi_mutexes s) = MAX_SYNC_OBJS"
  shows "simulates items waits Map.empty (init_sync_pool L s)" "resumed (init_sync_pool L s) = resumed s"
proof -
  let ?f = "\<lambda>i s. put_mutex i (mutex_init L) (s\<lparr>synchronizer := lifo_insert L (int i) (synchronizer s)\<rparr>)"
  define t where "t k = fold ?f [0..<k] (s\<lparr>synchronizer := lifo_init L MAX_SYNC_OBJS\<rparr>)" for k
  have "items (synchronizer (t k)) = rev (map int [0..<k]) \<and> length (osi_mutexes (t k)) = MAX_SYNC_OBJS \<and>
    (\<forall>i<k. waits (osi_mutexes (t k) ! i) = Free) \<and> resumed (t k) = resumed s" if "k \<le> MAX_SYNC_OBJS" for k
    using that
  proof (induction k)
    case 0
    then show ?case using L len by (simp add: t_def riot_ok_def)
  next
    case (Suc k)
    then have IH: "items (synchronizer (t k)) = rev (map int [0..<k])" "length (osi_mutexes (t k)) = MAX_SYNC_OBJS"
      "\<forall>i<k. waits (osi_mutexes (t k) ! i) = Free" "resumed (t k) = resumed s" by simp_all
    have "t (Suc k) = ?f k (t k)" by (simp add: t_def)
    moreover have "items (lifo_insert L (int k) (synchronizer (t k))) = int k # rev (map int [0..<k])"
    proof -
      have "int k \<notin> set (items (synchronizer (t k)))" unfolding IH(1) by auto
      with L IH(1) show ?thesis unfolding riot_ok_def by metis
    qed
    moreover have "waits (mutex_init L) = Free" using L by (simp add: riot_ok_def)
    ultimately show ?case using IH Suc.prems by (auto simp: put_mutex_def nth_list_update less_Suc_eq)
  qed
  from this [of MAX_SYNC_OBJS] have *: "items (synchronizer (t MAX_SYNC_OBJS)) = rev (map int [0..<MAX_SYNC_OBJS])"
    "length (osi_mutexes (t MAX_SYNC_OBJS)) = MAX_SYNC_OBJS" "\<And>i. i < MAX_SYNC_OBJS \<Longrightarrow> waits (osi_mutexes (t MAX_SYNC_OBJS) ! i) = Free"
    "resumed (t MAX_SYNC_OBJS) = resumed s" by simp_all
  have "simulates items waits Map.empty (t MAX_SYNC_OBJS)"
  proof (rule simI)
    show "set (items (synchronizer (t MAX_SYNC_OBJS))) = {0..<int MAX_SYNC_OBJS} - handle (t MAX_SYNC_OBJS) ` dom Map.empty"
      unfolding *(1) by (simp add: image_int_atLeastLessThan)
    show "distinct (items (synchronizer (t MAX_SYNC_OBJS)))"
      unfolding *(1) by (simp add: distinct_map)
  qed (use * in auto)
  then show "simulates items waits Map.empty (init_sync_pool L s)" "resumed (init_sync_pool L s) = resumed s"
    using *(4) by (simp_all add: init_sync_pool_def t_def)
qed

text \<open>
  C33: The objects that \<open>osi_SyncObjCreate\<close> and \<open>osi_LockObjCreate\<close> make are independent binary semaphores:
  in every sequence of operations by any threads in which an object is used between its creation and its
  deletion and at most 64 exist at a time, every call returns, or suspends its thread, as it does for a
  semaphore of its own, whatever is done to the others, and no call leaves the pool. A new object is
  available. A signal hands the object to the first thread that waits for it, which goes on while the
  object stays taken, and makes it available when none waits.
\<close>

theorem osi_objects_refine:
  assumes "riot_ok L items waits line_up" "length (osi_mutexes s) = MAX_SYNC_OBJS" "usable_run line_up xs (Map.empty, resumed s)"
  shows "\<exists>s'. osi_run L xs (init_sync_pool L s) = Some (fst (spec_run line_up xs (Map.empty, resumed s)), s') \<and>
    resumed s' = snd (snd (spec_run line_up xs (Map.empty, resumed s)))"
  using sim_run [OF assms(1) sim_init(1) [OF assms(1,2)]] assms(3) sim_init(2) [OF assms(1,2)] by auto

text \<open>A kernel whose threads wait in the order in which they came.\<close>

definition list_riot :: "(int list, 't sem, 't) riot" where
  "list_riot = \<lparr>lifo_init = \<lambda>n. [], lifo_insert = (#), lifo_get = \<lambda>l. (case l of [] \<Rightarrow> (- 1, []) | x # xs \<Rightarrow> (x, xs)),
     mutex_init = Free,
     mutex_lock = \<lambda>t m. (case m of Free \<Rightarrow> (True, Taken []) | Taken ws \<Rightarrow> (False, Taken (ws @ [t]))),
     mutex_trylock = \<lambda>m. (case m of Free \<Rightarrow> (True, Taken []) | Taken ws \<Rightarrow> (False, m)),
     mutex_unlock = \<lambda>m. (case m of Taken (t # ws) \<Rightarrow> (Some t, Taken ws) | _ \<Rightarrow> (None, Free))\<rparr>"

abbreviation queue_up :: "'t \<Rightarrow> 't list \<Rightarrow> 't list" where
  "queue_up t ws \<equiv> ws @ [t]"

lemma list_riot_ok: "riot_ok list_riot id id queue_up"
  by (simp add: riot_ok_def list_riot_def split: sem.split list.split)

definition osi_boot :: "(nat, int list, nat sem, nat) osi" where
  "osi_boot = \<lparr>synchronizer = [], osi_mutexes = replicate 64 Free, handle = \<lambda>v. 0,
     sched_context_switch_request = False, yields = 0, resumed = []\<rparr>"

text \<open>
  Threads 1 and 2 wait for an object that has been cleared; a signal resumes thread 1, and the object
  cannot be cleared; the next resumes thread 2, and one more makes the object available.
\<close>

theorem osi_objects_refine_witness:
  "\<exists>s'. osi_run list_riot [(0, SyncCreate 0), (0, SyncClear 0), (0, LockCreate 1), (0, LockLock 1 5), (1, SyncWait 0 5), (2, SyncWait 0 5),
       (0, SyncSignalFromISR 0), (0, SyncClear 0), (0, SyncSignal 0), (0, SyncSignal 0), (3, SyncWait 0 5)]
     (init_sync_pool list_riot osi_boot) =
     Some ([Some OSI_OK, Some OSI_OK, Some OSI_OK, Some OSI_OK, None, None, Some OSI_OK, Some OSI_OPERATION_FAILED, Some OSI_OK, Some OSI_OK,
       Some OSI_OK], s') \<and> resumed s' = [1, 2]"
  using osi_objects_refine [OF list_riot_ok, of osi_boot
      "[(0, SyncCreate 0), (0, SyncClear 0), (0, LockCreate 1), (0, LockLock 1 5), (1, SyncWait 0 5), (2, SyncWait 0 5),
        (0, SyncSignalFromISR 0), (0, SyncClear 0), (0, SyncSignal 0), (0, SyncSignal 0), (3, SyncWait 0 5)]"]
  by (simp add: osi_boot_def MAX_SYNC_OBJS_def)

text \<open>
  A signal resumes one of the waiting threads and the others go on waiting, although its comment says
  that all are resumed.
\<close>

theorem signal_resumes_one:
  assumes "riot_ok L items waits line_up" "simulates items waits a s" "a v = Some (Taken (t # ws))"
  shows "\<exists>s'. osi_SyncObjSignal L (Some v) s = Some (OSI_OK, s') \<and> resumed s' = resumed s @ [t] \<and>
    simulates items waits (a(v \<mapsto> Taken ws)) s'"
  using sim_signal [OF assms(1,2), of v] assms(3) by (auto simp: osi_SyncObjSignal_def)

text \<open>
  When all 64 mutexes are in use \<open>osi_SyncObjCreate\<close> still returns success, with the handle -1 that the
  empty lifo gives, and the first wait for the new object or signal to it accesses memory before the pool.
\<close>

theorem pool_exhausted_unnoticed:
  assumes "riot_ok L items waits line_up" "\<And>l. items l = [] \<Longrightarrow> fst (lifo_get L l) = - 1" "length (osi_mutexes s) = MAX_SYNC_OBJS"
    and "usable_run line_up xs (Map.empty, resumed s)" "osi_run L xs (init_sync_pool L s) = Some (rs, s')" "card (dom (fst (snd (spec_run line_up xs (Map.empty, resumed s))))) = MAX_SYNC_OBJS"
  shows "\<exists>t. osi_SyncObjCreate L (Some v) s' = (OSI_OK, t) \<and> osi_SyncObjWait L p (Some v) timeout t = None \<and>
    osi_SyncObjSignal L (Some v) t = None"
proof -
  let ?a = "fst (snd (spec_run line_up xs (Map.empty, resumed s)))"
  from sim_run [OF assms(1) sim_init(1) [OF assms(1,3)], where xs = xs] assms(4,5) sim_init(2) [OF assms(1,3)] have sim: "simulates items waits ?a s'" by auto
  have "card (handle s' ` dom ?a) = card {0..<int MAX_SYNC_OBJS}" using assms(6) card_image [OF simD(2) [OF sim]] by simp
  moreover have "handle s' ` dom ?a \<subseteq> {0..<int MAX_SYNC_OBJS}" using simD(5) [OF sim] by blast
  ultimately have "handle s' ` dom ?a = {0..<int MAX_SYNC_OBJS}" by (metis card_subset_eq finite_atLeastLessThan_int)
  with simD(4) [OF sim] assms(2) have "fst (lifo_get L (synchronizer s')) = - 1" by simp
  then show ?thesis
    by (cases "lifo_get L (synchronizer s')")
      (simp add: osi_SyncObjCreate_def osi_SyncObjWait_def osi_SyncObjSignal_def MUTEX_LOCK_def MUTEX_TRYLOCK_def MUTEX_UNLOCK_def mutex_of_def)
qed

section \<open>Threads\<close>

fun op_object :: "'v osi_op \<Rightarrow> 'v" where
  "op_object (SyncCreate v) = v" | "op_object (SyncDelete v) = v" | "op_object (SyncSignal v) = v"
| "op_object (SyncSignalFromISR v) = v" | "op_object (SyncWait v t) = v" | "op_object (SyncClear v) = v"
| "op_object (LockCreate v) = v" | "op_object (LockDelete v) = v" | "op_object (LockLock v t) = v"
| "op_object (LockUnlock v) = v"

text \<open>The threads that went on between two states.\<close>

definition woken :: "('v, 'l, 'm, 't) osi \<Rightarrow> ('v, 'l, 'm, 't) osi \<Rightarrow> 't set" where
  "woken s s' = set (drop (length (resumed s)) (resumed s'))"

text \<open>
  Threads that share the pool. Beside its state, the objects of the specification and the threads between
  their \<open>osi_LockObjLock\<close> and \<open>osi_LockObjUnlock\<close> on a lock: those whose call returned at once, and those
  that waited in it and went on. Only a thread inside unlocks, and a lock is deleted when no thread is
  inside; what is done to other objects is not restricted.
\<close>

inductive thread_step ::
  "('l, 'm, 't) riot \<Rightarrow> ('t \<Rightarrow> 't list \<Rightarrow> 't list) \<Rightarrow> 'v set \<Rightarrow> ('v, 'l, 'm, 't) osi \<times> ('v \<rightharpoonup> 't sem) \<times> ('v \<Rightarrow> 't set) \<Rightarrow>
     ('v, 'l, 'm, 't) osi \<times> ('v \<rightharpoonup> 't sem) \<times> ('v \<Rightarrow> 't set) \<Rightarrow> bool"
  for L line_up locks where
  other: "op_object x \<notin> locks \<Longrightarrow> usable x a \<Longrightarrow> osi_step L p x s = Some (r, s') \<Longrightarrow>
    thread_step L line_up locks (s, a, inside) (s', fst (snd (spec_step line_up p x (a, resumed s))), inside)"
| create: "v \<in> locks \<Longrightarrow> usable (LockCreate v) a \<Longrightarrow> osi_LockObjCreate L (Some v) s = (r, s') \<Longrightarrow>
    thread_step L line_up locks (s, a, inside) (s', a(v \<mapsto> Free), inside)"
| lock: "v \<in> locks \<Longrightarrow> a v \<noteq> None \<Longrightarrow> osi_LockObjLock L p (Some v) t s = Some (Goes (OSI_OK, s')) \<Longrightarrow>
    thread_step L line_up locks (s, a, inside) (s', snd (acquire line_up p v t a), inside(v := insert p (inside v)))"
| wait: "v \<in> locks \<Longrightarrow> a v \<noteq> None \<Longrightarrow> osi_LockObjLock L p (Some v) t s = Some (Suspends (r, s')) \<Longrightarrow>
    thread_step L line_up locks (s, a, inside) (s', snd (acquire line_up p v t a), inside)"
| fail: "v \<in> locks \<Longrightarrow> a v \<noteq> None \<Longrightarrow> osi_LockObjLock L p (Some v) t s = Some (Goes (OSI_OPERATION_FAILED, s')) \<Longrightarrow>
    thread_step L line_up locks (s, a, inside) (s', a, inside)"
| unlock: "v \<in> locks \<Longrightarrow> a v \<noteq> None \<Longrightarrow> p \<in> inside v \<Longrightarrow> osi_LockObjUnlock L (Some v) s = Some (r, s') \<Longrightarrow>
    thread_step L line_up locks (s, a, inside) (s', fst (release v (a, resumed s)), inside(v := inside v - {p} \<union> woken s s'))"
| delete: "v \<in> locks \<Longrightarrow> a v \<noteq> None \<Longrightarrow> inside v = {} \<Longrightarrow> osi_LockObjDelete L (Some v) s = Some (r, s') \<Longrightarrow>
    thread_step L line_up locks (s, a, inside) (s', a(v := None), inside)"

inductive threads_reach ::
  "('l, 'm, 't) riot \<Rightarrow> ('t \<Rightarrow> 't list \<Rightarrow> 't list) \<Rightarrow> 'v set \<Rightarrow> ('v, 'l, 'm, 't) osi \<Rightarrow>
     ('v, 'l, 'm, 't) osi \<times> ('v \<rightharpoonup> 't sem) \<times> ('v \<Rightarrow> 't set) \<Rightarrow> bool"
  for L line_up locks s where
  start: "threads_reach L line_up locks s (init_sync_pool L s, Map.empty, \<lambda>v. {})"
| more: "threads_reach L line_up locks s x \<Longrightarrow> thread_step L line_up locks x y \<Longrightarrow> threads_reach L line_up locks s y"

text \<open>Nobody is inside a free lock, and one thread inside a taken one.\<close>

fun held :: "'t sem option \<Rightarrow> 't set \<Rightarrow> bool" where
  "held (Some (Taken ws)) ps \<longleftrightarrow> (\<exists>p. ps = {p})"
| "held (Some Free) ps \<longleftrightarrow> ps = {}"
| "held None ps \<longleftrightarrow> ps = {}"

definition exclusive :: "('l \<Rightarrow> int list) \<Rightarrow> ('m \<Rightarrow> 't sem) \<Rightarrow> 'v set \<Rightarrow> ('v, 'l, 'm, 't) osi \<times> ('v \<rightharpoonup> 't sem) \<times> ('v \<Rightarrow> 't set) \<Rightarrow> bool" where
  "exclusive items waits locks x = (case x of (s, a, inside) \<Rightarrow>
     simulates items waits a s \<and>
     (\<forall>v\<in>locks. held (a v) (inside v)))"

lemma release_other: "w \<noteq> v \<Longrightarrow> fst (release v (a, went)) w = a w"
  by (auto split: option.splits sem.splits list.splits)

lemma acquire_other: "w \<noteq> v \<Longrightarrow> snd (acquire line_up p v t a) w = a w"
  by (auto split: option.splits sem.splits)

lemma spec_step_other: "op_object x \<noteq> v \<Longrightarrow> fst (snd (spec_step line_up p x (a, went))) v = a v"
  by (cases x) (auto simp: split_beta Let_def release_other acquire_other simp del: release.simps acquire.simps)

lemma exclusive_update:
  assumes "exclusive items waits locks (s, a, inside)" "simulates items waits a' s'"
    and "\<And>w. w \<noteq> v \<Longrightarrow> a' w = a w \<and> inside' w = inside w"
    and "held (a' v) (inside' v)"
  shows "exclusive items waits locks (s', a', inside')"
proof -
  have "held (a' w) (inside' w)" if "w \<in> locks" for w
    using that assms(1,4) assms(3) [of w] by (cases "w = v") (auto simp: exclusive_def)
  with assms(2) show ?thesis by (simp add: exclusive_def)
qed

lemma exclusive_held: "exclusive items waits locks (s, a, inside) \<Longrightarrow> v \<in> locks \<Longrightarrow> held (a v) (inside v)"
  by (simp add: exclusive_def)

lemma exclusive_step:
  assumes L: "riot_ok L items waits line_up" and step: "thread_step L line_up locks x y" and ex: "exclusive items waits locks x"
  shows "exclusive items waits locks y"
  using step ex
proof cases
  case (other op a p s r s' inside)
  from sim_step [OF L, of a s op p] ex other have "simulates items waits (fst (snd (spec_step line_up p op (a, resumed s)))) s'"
    by (auto simp: exclusive_def)
  moreover have "fst (snd (spec_step line_up p op (a, resumed s))) v = a v" if "v \<in> locks" for v
    using that other(3) by (intro spec_step_other) auto
  ultimately show ?thesis using ex other by (auto simp: exclusive_def)
next
  case (create v a s r s' inside)
  with sim_step [OF L, of a s "LockCreate v"] ex have "simulates items waits (a(v \<mapsto> Free)) s'" by (auto simp: exclusive_def)
  moreover from create ex have "inside v = {}" by (auto dest: exclusive_held)
  ultimately show ?thesis using create ex by (auto intro: exclusive_update [of items waits locks s a inside _ _ v])
next
  case (lock v a p t s s' inside)
  from lock ex have sim: "simulates items waits a s" by (simp add: exclusive_def)
  from lock sim_acquire [OF L sim, of v p t] have "a v = Some Free" "simulates items waits (a(v \<mapsto> Taken [])) s'"
    by (auto split: if_splits sem.splits)
  moreover from this(1) ex lock have "inside v = {}" by (auto dest: exclusive_held)
  ultimately show ?thesis using ex lock by (auto intro: exclusive_update [of items waits locks s a inside _ _ v])
next
  case (wait v a p t s r s' inside)
  from wait ex have sim: "simulates items waits a s" by (simp add: exclusive_def)
  from wait sim_acquire [OF L sim, of v p t] obtain ws where
    "a v = Some (Taken ws)" "t \<noteq> 0" "simulates items waits (a(v \<mapsto> Taken (line_up p ws))) s'"
    by (auto split: if_splits sem.splits)
  moreover from this(1) ex wait have "\<exists>q. inside v = {q}" by (auto dest: exclusive_held)
  ultimately show ?thesis using ex wait by (auto intro: exclusive_update [of items waits locks s a inside _ _ v])
next
  case (fail v a p t s s' inside)
  from fail ex have sim: "simulates items waits a s" by (simp add: exclusive_def)
  from fail sim_acquire [OF L sim, of v p t] have "simulates items waits a s'"
    by (auto split: if_splits sem.splits)
  with ex fail show ?thesis by (auto simp: exclusive_def)
next
  case (unlock v a p inside s r s')
  from unlock ex have sim: "simulates items waits a s" by (simp add: exclusive_def)
  from unlock sim_signal [OF L sim, of v] have s': "simulates items waits (fst (release v (a, resumed s))) s'"
    "resumed s' = snd (release v (a, resumed s))" by (auto simp: osi_LockObjUnlock_def simp del: release.simps)
  have "held (a v) (inside v)" using unlock ex by (auto dest: exclusive_held)
  with unlock(5) obtain ws where ws: "a v = Some (Taken ws)" "inside v = {p}"
    by (cases "(a v, inside v)" rule: held.cases) auto
  have "held (fst (release v (a, resumed s)) v) (inside v - {p} \<union> woken s s')"
    using ws s'(2) by (cases ws) (auto simp: woken_def)
  with unlock ex s'(1) show ?thesis
    by (auto intro: exclusive_update [of items waits locks s a inside _ _ v] simp: release_other simp del: release.simps)
next
  case (delete v a inside s r s')
  with sim_step [OF L, of a s "LockDelete v"] ex have "simulates items waits (a(v := None)) s'" by (auto simp: exclusive_def)
  with delete ex show ?thesis by (auto intro: exclusive_update [of items waits locks s a inside _ _ v])
qed

lemma reach_exclusive:
  assumes "riot_ok L items waits line_up" "length (osi_mutexes s) = MAX_SYNC_OBJS" "threads_reach L line_up locks s x"
  shows "exclusive items waits locks x"
  using assms(3)
proof induction
  case start
  then show ?case using sim_init(1) [OF assms(1,2)] by (simp add: exclusive_def)
qed (rule exclusive_step [OF assms(1)])

text \<open>
  C34: Whatever threads do with other objects of the pool, at most one thread at a time is between its
  \<open>osi_LockObjLock\<close> and \<open>osi_LockObjUnlock\<close> on a lock, and a lock that exists and has no thread inside is
  given to the next thread that asks for it.
\<close>

theorem locks_exclude:
  assumes "riot_ok L items waits line_up" "length (osi_mutexes s) = MAX_SYNC_OBJS"
    "threads_reach L line_up locks s (s', a, inside)" "v \<in> locks"
  shows "(\<forall>p q. p \<in> inside v \<longrightarrow> q \<in> inside v \<longrightarrow> p = q) \<and>
    (a v \<noteq> None \<longrightarrow> inside v = {} \<longrightarrow> (\<exists>t. osi_LockObjLock L p (Some v) timeout s' = Some (Goes (OSI_OK, t))))"
proof -
  have ex: "exclusive items waits locks (s', a, inside)" by (rule reach_exclusive [OF assms(1-3)])
  then have sim: "simulates items waits a s'" by (simp add: exclusive_def)
  have held: "held (a v) (inside v)" by (rule exclusive_held [OF ex assms(4)])
  show ?thesis
  proof (intro conjI impI)
    show "\<forall>p q. p \<in> inside v \<longrightarrow> q \<in> inside v \<longrightarrow> p = q" using held by (cases "(a v, inside v)" rule: held.cases) auto
    assume a: "a v \<noteq> None" "inside v = {}"
    with held have free: "a v = Some Free" by (cases "(a v, inside v)" rule: held.cases) auto
    from sim_acquire [OF assms(1) sim a(1), of p timeout] obtain c s2 where
      "osi_LockObjLock L p (Some v) timeout s' = Some c" "outcome c = (Some OSI_OK, s2)" using free by auto
    then show "\<exists>t. osi_LockObjLock L p (Some v) timeout s' = Some (Goes (OSI_OK, t))" by (cases c rule: outcome.cases) auto
  qed
qed

theorem locks_exclude_witness:
  "\<exists>t. osi_LockObjLock list_riot 4 (Some (0 :: nat)) 7 (snd (osi_LockObjCreate list_riot (Some 0) (init_sync_pool list_riot osi_boot))) = Some (Goes (OSI_OK, t))"
proof -
  let ?s = "init_sync_pool list_riot osi_boot"
  obtain r s' where c: "osi_LockObjCreate list_riot (Some 0) ?s = (r, s')" by fastforce
  have "threads_reach list_riot queue_up {0} osi_boot (s', Map.empty(0 \<mapsto> Free), \<lambda>v. {} :: nat set)"
    by (rule more [OF start create [OF _ _ c]]) (simp_all add: MAX_SYNC_OBJS_def)
  from locks_exclude [OF list_riot_ok _ this, of 0 4 7] c show ?thesis by (simp add: osi_boot_def MAX_SYNC_OBJS_def)
qed

end
