(* ===== verification/Osi_Spawn.thy ===== *)
theory Osi_Spawn
  imports Osi_Riot
begin

text \<open>
  The other services of \<^verbatim>\<open>burba/cpu/cc3200/sdk/oslib/osi_riot.c\<close>: running a function in the thread of the
  driver, critical sections, sleeping, message queues, interrupts and the reset of the board.

  The message passing of RIOT is a parameter, and \<open>mailbox_ok\<close> states what its interface promises. A
  pointer to allocated memory is a number; using one that is not allocated is \<^term>\<open>None\<close>.
\<close>

section \<open>Functions run in the driver's thread\<close>

definition QUEUE_SIZE_SLSPAWN :: nat where "QUEUE_SIZE_SLSPAWN = 8"

text \<open>
  The messages for a thread: \<open>box_new\<close> for a new thread, \<open>box_init\<close> is \<open>msg_init_queue\<close>, \<open>box_send\<close> is
  \<open>msg_send\<close> from an interrupt handler or a thread, and \<open>box_receive\<close> is \<open>msg_receive\<close>, with \<^term>\<open>None\<close> where
  the thread waits.
\<close>

datatype send_result = Sent | Dropped | Sender_waits

record 'q mailbox =
  box_new :: 'q
  box_init :: "nat \<Rightarrow> 'q \<Rightarrow> 'q"
  box_send :: "bool \<Rightarrow> nat \<Rightarrow> 'q \<Rightarrow> send_result \<times> 'q"
  box_receive :: "'q \<Rightarrow> nat option \<times> 'q"

text \<open>
  Once the thread has its queue, messages (of senders of one priority, which suspended senders have
  here) are received in the order in which they were sent. Only an interrupt handler's message is
  dropped, and only a thread is suspended, until its message has been taken.
\<close>

definition mailbox_ok :: "'q mailbox \<Rightarrow> ('q \<Rightarrow> bool) \<Rightarrow> ('q \<Rightarrow> nat list) \<Rightarrow> bool" where
  "mailbox_ok M ready msgs \<longleftrightarrow>
     (\<forall>n. ready (box_init M n (box_new M)) \<and> msgs (box_init M n (box_new M)) = []) \<and>
     (\<forall>in_isr p q. ready q \<longrightarrow> ready (snd (box_send M in_isr p q)) \<and>
       (case fst (box_send M in_isr p q) of
          Sent \<Rightarrow> msgs (snd (box_send M in_isr p q)) = msgs q @ [p]
        | Dropped \<Rightarrow> in_isr \<and> msgs (snd (box_send M in_isr p q)) = msgs q
        | Sender_waits \<Rightarrow> \<not> in_isr \<and> msgs (snd (box_send M in_isr p q)) = msgs q @ [p])) \<and>
     (\<forall>q. ready q \<longrightarrow> ready (snd (box_receive M q)) \<and>
       (case msgs q of
          [] \<Rightarrow> fst (box_receive M q) = None \<and> msgs (snd (box_receive M q)) = []
        | p # ps \<Rightarrow> fst (box_receive M q) = Some p \<and> msgs (snd (box_receive M q)) = ps))"

text \<open>Where the thread is: before it has a queue, at \<open>msg_receive\<close>, or holding a message.\<close>

datatype spawn_pc = SpawnStart | SpawnReceive | SpawnGot nat

type_synonym spawn_msg = "nat \<times> nat"

record 'q spawn_sts =
  simplelink_stack :: bool
  spawn_pc :: spawn_pc
  box :: 'q
  mem :: "nat \<rightharpoonup> spawn_msg"
  next_ptr :: nat
  spawn_calls :: "spawn_msg list"
  context_request :: bool
  spawn_yields :: nat

text \<open>
  \<open>got\<close> is whether \<open>malloc\<close> succeeds. A caller that is suspended returns \<open>OSI_OK\<close> once its message has
  been taken.
\<close>

definition osi_Spawn ::
  "'q mailbox \<Rightarrow> bool \<Rightarrow> bool \<Rightarrow> nat \<Rightarrow> nat \<Rightarrow> 'q spawn_sts \<Rightarrow> (OsiReturnVal_e call \<times> 'q spawn_sts) option" where
  "osi_Spawn M in_isr got pEntry pValue s =
     (if \<not> got then None
      else
        (let msg_ptr = next_ptr s;
             (r, q) = box_send M in_isr msg_ptr (box s);
             s = s\<lparr>mem := (mem s)(msg_ptr \<mapsto> (pEntry, pValue)), next_ptr := msg_ptr + 1, box := q\<rparr> in
         if r = Sender_waits then Some (Suspends OSI_OK, s)
         else Some (Goes OSI_OK, if context_request s then s\<lparr>spawn_yields := spawn_yields s + 1\<rparr> else s)))"

text \<open>A step of the thread. Its stack is allocated memory.\<close>

definition vSimpleLinkSpawnTask :: "'q mailbox \<Rightarrow> 'q spawn_sts \<Rightarrow> 'q spawn_sts option" where
  "vSimpleLinkSpawnTask M s =
     (if \<not> simplelink_stack s then None
      else
        (case spawn_pc s of
           SpawnStart \<Rightarrow> Some (s\<lparr>box := box_init M QUEUE_SIZE_SLSPAWN (box s), spawn_pc := SpawnReceive\<rparr>)
         | SpawnReceive \<Rightarrow>
             (let (r, q) = box_receive M (box s) in
              Some (s\<lparr>box := q, spawn_pc := (case r of None \<Rightarrow> SpawnReceive | Some p \<Rightarrow> SpawnGot p)\<rparr>))
         | SpawnGot p \<Rightarrow>
             map_option (\<lambda>m. s\<lparr>spawn_calls := spawn_calls s @ [m], mem := (mem s)(p := None), spawn_pc := SpawnReceive\<rparr>)
               (mem s p)))"

definition VStartSimpleLinkSpawnTask ::
  "('l, 'm, 't) riot \<Rightarrow> 'q mailbox \<Rightarrow> bool \<Rightarrow> ('v, 'l, 'm, 't) osi \<Rightarrow> 'q spawn_sts \<Rightarrow>
    (OsiReturnVal_e \<times> ('v, 'l, 'm, 't) osi \<times> 'q spawn_sts) option" where
  "VStartSimpleLinkSpawnTask L M got os s =
     (if got then Some (OSI_OK, init_sync_pool L os, s\<lparr>simplelink_stack := True, spawn_pc := SpawnStart, box := box_new M\<rparr>)
      else None)"

definition VDeleteSimpleLinkSpawnTask :: "'q spawn_sts \<Rightarrow> 'q spawn_sts" where
  "VDeleteSimpleLinkSpawnTask s = s\<lparr>simplelink_stack := False\<rparr>"

text \<open>Calls from an interrupt handler or a thread, and the driver's thread running.\<close>

datatype spawn_event = Spawned bool nat nat | TaskRuns

fun spawn_step :: "'q mailbox \<Rightarrow> spawn_event \<Rightarrow> 'q spawn_sts \<Rightarrow> 'q spawn_sts option" where
  "spawn_step M (Spawned in_isr e v) s = map_option snd (osi_Spawn M in_isr True e v s)"
| "spawn_step M TaskRuns s = vSimpleLinkSpawnTask M s"

fun spawn_run :: "'q mailbox \<Rightarrow> spawn_event list \<Rightarrow> 'q spawn_sts \<Rightarrow> 'q spawn_sts option" where
  "spawn_run M [] s = Some s"
| "spawn_run M (e # es) s = do { s \<leftarrow> spawn_step M e s; spawn_run M es s }"

text \<open>The calls whose message is not dropped.\<close>

definition dropped :: "'q mailbox \<Rightarrow> bool \<Rightarrow> 'q spawn_sts \<Rightarrow> bool" where
  "dropped M in_isr s \<longleftrightarrow> fst (box_send M in_isr (next_ptr s) (box s)) = Dropped"

fun accepted :: "'q mailbox \<Rightarrow> spawn_event list \<Rightarrow> 'q spawn_sts \<Rightarrow> spawn_msg list" where
  "accepted M [] s = []"
| "accepted M (Spawned in_isr e v # es) s =
     (if dropped M in_isr s then [] else [(e, v)]) @ accepted M es (the (spawn_step M (Spawned in_isr e v) s))"
| "accepted M (TaskRuns # es) s = accepted M es (the (spawn_step M TaskRuns s))"

text \<open>The messages that are under way, first the one that is served.\<close>

definition under_way :: "('q \<Rightarrow> nat list) \<Rightarrow> 'q spawn_sts \<Rightarrow> nat list" where
  "under_way msgs s = (case spawn_pc s of SpawnGot p \<Rightarrow> [p] | _ \<Rightarrow> []) @ msgs (box s)"

definition spawn_ok :: "('q \<Rightarrow> bool) \<Rightarrow> ('q \<Rightarrow> nat list) \<Rightarrow> 'q spawn_sts \<Rightarrow> bool" where
  "spawn_ok ready msgs s \<longleftrightarrow>
     simplelink_stack s \<and> spawn_pc s \<noteq> SpawnStart \<and> ready (box s) \<and> distinct (under_way msgs s) \<and>
     set (under_way msgs s) \<subseteq> dom (mem s) \<and> (\<forall>p\<in>dom (mem s). p < next_ptr s)"

definition contents :: "('q \<Rightarrow> nat list) \<Rightarrow> 'q spawn_sts \<Rightarrow> spawn_msg list" where
  "contents msgs s = map (\<lambda>p. the (mem s p)) (under_way msgs s)"

lemma ok_next_unused: "spawn_ok ready msgs s \<Longrightarrow> next_ptr s \<notin> set (under_way msgs s) \<and> next_ptr s \<notin> dom (mem s)"
  by (auto simp: spawn_ok_def)

lemma spawn_returns: "\<exists>r t. osi_Spawn M in_isr True e v s = Some (r, t)"
  by (auto simp: osi_Spawn_def Let_def split: prod.split)

lemma mailbox_send:
  assumes "mailbox_ok M ready msgs" "ready q" "box_send M in_isr p q = (x, q')"
  shows "ready q' \<and> msgs q' = msgs q @ (if x = Dropped then [] else [p])"
proof -
  from assms(1,2) have "ready (snd (box_send M in_isr p q)) \<and>
     (case fst (box_send M in_isr p q) of
        Sent \<Rightarrow> msgs (snd (box_send M in_isr p q)) = msgs q @ [p]
      | Dropped \<Rightarrow> in_isr \<and> msgs (snd (box_send M in_isr p q)) = msgs q
      | Sender_waits \<Rightarrow> \<not> in_isr \<and> msgs (snd (box_send M in_isr p q)) = msgs q @ [p])"
    by (simp add: mailbox_ok_def)
  then show ?thesis unfolding assms(3) by (cases x) simp_all
qed

lemma spawned_ok:
  assumes M: "mailbox_ok M ready msgs" and ok: "spawn_ok ready msgs s" and t: "osi_Spawn M in_isr True e v s = Some (r, t)"
  shows "spawn_ok ready msgs t \<and> spawn_calls t = spawn_calls s \<and>
    under_way msgs t = under_way msgs s @ (if dropped M in_isr s then [] else [next_ptr s]) \<and>
    contents msgs t = contents msgs s @ (if dropped M in_isr s then [] else [(e, v)])"
proof -
  obtain x q where x: "box_send M in_isr (next_ptr s) (box s) = (x, q)" by fastforce
  have ready: "ready (box s)" using ok by (simp add: spawn_ok_def)
  with M x have q: "ready q" "msgs q = msgs (box s) @ (if dropped M in_isr s then [] else [next_ptr s])"
    using mailbox_send [OF M ready x] x by (simp_all add: dropped_def)
  have m: "mem t = (mem s)(next_ptr s \<mapsto> (e, v))" "next_ptr t = next_ptr s + 1" "simplelink_stack t = simplelink_stack s"
    "spawn_calls t = spawn_calls s" "spawn_pc t = spawn_pc s" "box t = q"
    using t x by (auto simp: osi_Spawn_def Let_def split: if_splits)
  have u: "under_way msgs t = under_way msgs s @ (if dropped M in_isr s then [] else [next_ptr s])"
    using m(5,6) q(2) by (simp add: under_way_def)
  note n = ok_next_unused [OF ok]
  have bound: "\<forall>p\<in>dom (mem t). p < next_ptr t" using ok m(1,2) by (auto simp: spawn_ok_def dest!: bspec intro: less_SucI)
  have "spawn_ok ready msgs t"
    using ok n u bound m q(1) by (cases "dropped M in_isr s") (auto simp: spawn_ok_def)
  moreover have "map (\<lambda>p. the (mem t p)) (under_way msgs s) = contents msgs s"
    using n m(1) by (auto simp: contents_def)
  ultimately show ?thesis using m(1,4) u by (auto simp: contents_def)
qed

lemma task_ok:
  assumes M: "mailbox_ok M ready msgs" and ok: "spawn_ok ready msgs s"
  shows "\<exists>t. vSimpleLinkSpawnTask M s = Some t \<and> spawn_ok ready msgs t \<and>
    spawn_calls t @ contents msgs t = spawn_calls s @ contents msgs s \<and>
    length (under_way msgs t) \<le> length (under_way msgs s) \<and>
    (under_way msgs s \<noteq> [] \<longrightarrow>
      (case spawn_pc s of SpawnGot p \<Rightarrow> length (under_way msgs t) < length (under_way msgs s)
       | _ \<Rightarrow> (\<exists>p. spawn_pc t = SpawnGot p)))"
proof (cases "spawn_pc s")
  case SpawnReceive
  obtain r q where r: "box_receive M (box s) = (r, q)" by fastforce
  have "ready (box s)" using ok by (simp add: spawn_ok_def)
  with M r have q: "ready q" "case msgs (box s) of [] \<Rightarrow> r = None \<and> msgs q = [] | p # ps \<Rightarrow> r = Some p \<and> msgs q = ps"
    unfolding mailbox_ok_def by (metis fst_conv snd_conv)+
  then show ?thesis
    using SpawnReceive ok r by (cases "msgs (box s)") (auto simp: vSimpleLinkSpawnTask_def spawn_ok_def under_way_def contents_def)
next
  case (SpawnGot p)
  have u: "under_way msgs s = p # msgs (box s)" using SpawnGot by (simp add: under_way_def)
  with ok obtain m where m: "mem s p = Some m" by (auto simp: spawn_ok_def)
  let ?t = "s\<lparr>spawn_calls := spawn_calls s @ [m], mem := (mem s)(p := None), spawn_pc := SpawnReceive\<rparr>"
  have ut: "under_way msgs ?t = msgs (box s)" by (simp add: under_way_def)
  have "spawn_ok ready msgs ?t" using ok u ut by (auto simp: spawn_ok_def)
  moreover have "contents msgs s = m # contents msgs ?t"
    using ok u ut m by (auto simp: contents_def spawn_ok_def)
  ultimately show ?thesis using ok SpawnGot m u ut by (simp add: vSimpleLinkSpawnTask_def spawn_ok_def)
qed (use ok in \<open>simp add: spawn_ok_def\<close>)

lemma spawn_run_append: "spawn_run M (es @ fs) s = do { s \<leftarrow> spawn_run M es s; spawn_run M fs s }"
proof (induction es arbitrary: s)
  case (Cons e es)
  then show ?case by (cases "spawn_step M e s") simp_all
qed simp

lemma run_ok:
  assumes M: "mailbox_ok M ready msgs" and "spawn_ok ready msgs s"
  shows "\<exists>t. spawn_run M es s = Some t \<and> spawn_ok ready msgs t \<and>
    spawn_calls t @ contents msgs t = spawn_calls s @ contents msgs s @ accepted M es s \<and>
    length (under_way msgs t) \<le> length (under_way msgs s) + length es"
  using assms(2)
proof (induction es arbitrary: s)
  case (Cons e es)
  show ?case
  proof (cases e)
    case (Spawned in_isr f v)
    obtain r t where t: "osi_Spawn M in_isr True f v s = Some (r, t)" using spawn_returns by blast
    note o = spawned_ok [OF M Cons.prems t]
    from Cons.IH o obtain u where "spawn_run M es t = Some u" "spawn_ok ready msgs u"
      "spawn_calls u @ contents msgs u = spawn_calls t @ contents msgs t @ accepted M es t"
      "length (under_way msgs u) \<le> length (under_way msgs t) + length es" by blast
    with o t Spawned show ?thesis by (cases "dropped M in_isr s") simp_all
  next
    case TaskRuns
    from task_ok [OF M Cons.prems] obtain t where t: "vSimpleLinkSpawnTask M s = Some t" "spawn_ok ready msgs t"
      "spawn_calls t @ contents msgs t = spawn_calls s @ contents msgs s"
      "length (under_way msgs t) \<le> length (under_way msgs s)" by blast
    with Cons.IH [OF t(2)] TaskRuns show ?thesis by (fastforce simp flip: append_assoc)
  qed
qed simp

lemma task_drains:
  "mailbox_ok M ready msgs \<Longrightarrow> spawn_ok ready msgs s \<Longrightarrow>
    2 * length (under_way msgs s) \<le> n + (case spawn_pc s of SpawnGot p \<Rightarrow> 1 | _ \<Rightarrow> 0) \<Longrightarrow>
    \<exists>t. spawn_run M (replicate n TaskRuns) s = Some t \<and> under_way msgs t = [] \<and> spawn_calls t = spawn_calls s @ contents msgs s"
proof (induction n arbitrary: s)
  case 0
  then have "under_way msgs s = []" by (cases "under_way msgs s") (auto split: spawn_pc.splits)
  then show ?case by (simp add: contents_def)
next
  case (Suc n)
  from task_ok [OF Suc.prems(1,2)] obtain t where t: "vSimpleLinkSpawnTask M s = Some t" "spawn_ok ready msgs t"
    "spawn_calls t @ contents msgs t = spawn_calls s @ contents msgs s" "length (under_way msgs t) \<le> length (under_way msgs s)"
    "under_way msgs s \<noteq> [] \<longrightarrow> (case spawn_pc s of SpawnGot p \<Rightarrow> length (under_way msgs t) < length (under_way msgs s)
       | _ \<Rightarrow> (\<exists>p. spawn_pc t = SpawnGot p))" by blast
  have "2 * length (under_way msgs t) \<le> n + (case spawn_pc t of SpawnGot p \<Rightarrow> 1 | _ \<Rightarrow> 0)"
    using t(4,5) Suc.prems(3) by (cases "under_way msgs s = []") (auto split: spawn_pc.splits)
  from Suc.IH [OF Suc.prems(1) t(2) this] t show ?case by auto
qed

text \<open>
  C35: Once the driver's thread has been started and has its queue, every function given to \<open>osi_Spawn\<close>,
  from threads and interrupt handlers, that is not dropped is called by the thread exactly once, with its
  value, and in the order of the calls; no call uses memory that is not allocated.
\<close>

theorem spawned_calls_in_order:
  assumes "mailbox_ok M ready msgs" "VStartSimpleLinkSpawnTask L M True os s = Some (r, os', s1)" "\<forall>p\<in>dom (mem s). p < next_ptr s"
  shows "\<exists>s2 s3. spawn_run M [TaskRuns] s1 = Some s2 \<and> spawn_run M (es @ replicate (2 * length es) TaskRuns) s2 = Some s3 \<and>
    spawn_calls s3 = spawn_calls s @ accepted M es s2 \<and> under_way msgs s3 = []"
proof -
  let ?s2 = "s\<lparr>simplelink_stack := True, spawn_pc := SpawnReceive, box := box_init M QUEUE_SIZE_SLSPAWN (box_new M)\<rparr>"
  have start: "spawn_run M [TaskRuns] s1 = Some ?s2"
    using assms(2) by (auto simp: VStartSimpleLinkSpawnTask_def vSimpleLinkSpawnTask_def)
  have ok: "spawn_ok ready msgs ?s2" "contents msgs ?s2 = []" "under_way msgs ?s2 = []"
    using assms(1,3) by (auto simp: mailbox_ok_def spawn_ok_def under_way_def contents_def)
  from run_ok [OF assms(1) ok(1), of es] obtain t where t: "spawn_run M es ?s2 = Some t" "spawn_ok ready msgs t"
    "spawn_calls t @ contents msgs t = spawn_calls s @ accepted M es ?s2" "length (under_way msgs t) \<le> length es"
    using ok(2,3) by auto
  have "2 * length (under_way msgs t) \<le> 2 * length es + (case spawn_pc t of SpawnGot p \<Rightarrow> 1 | _ \<Rightarrow> 0)"
    using t(4) by (auto split: spawn_pc.split)
  from task_drains [OF assms(1) t(2) this] t(1,3) start show ?thesis by (auto simp: spawn_run_append)
qed

text \<open>A mailbox of eight messages, with the messages of suspended senders in order.\<close>

definition small_box :: "(nat list \<times> nat list) mailbox" where
  "small_box = \<lparr>box_new = ([], []), box_init = (\<lambda>n q. q),
     box_send = (\<lambda>in_isr p (q, w). if w = [] \<and> length q < 8 then (Sent, (q @ [p], w))
       else if in_isr then (Dropped, (q, w)) else (Sender_waits, (q, w @ [p]))),
     box_receive = (\<lambda>(q, w). case q @ w of [] \<Rightarrow> (None, ([], []))
       | p # ps \<Rightarrow> (Some p, (take 8 ps, drop 8 ps)))\<rparr>"

lemma small_box_ok: "mailbox_ok small_box (\<lambda>q. True) (\<lambda>(q, w). q @ w)"
  by (auto simp: mailbox_ok_def small_box_def split: list.split)

definition spawn_boot :: "(nat list \<times> nat list) spawn_sts" where
  "spawn_boot = \<lparr>simplelink_stack = False, spawn_pc = SpawnStart, box = ([], []), mem = Map.empty,
     next_ptr = 0, spawn_calls = [], context_request = False, spawn_yields = 0\<rparr>"

theorem spawned_calls_in_order_witness:
  "\<exists>s3. spawn_run small_box [Spawned True 7 1, Spawned False 8 2, TaskRuns, TaskRuns, TaskRuns, TaskRuns]
     (spawn_boot\<lparr>simplelink_stack := True, spawn_pc := SpawnReceive\<rparr>) = Some s3 \<and> spawn_calls s3 = [(7, 1), (8, 2)]"
proof -
  let ?es = "[Spawned True 7 1, Spawned False 8 2]"
  let ?s1 = "spawn_boot\<lparr>simplelink_stack := True\<rparr>"
  let ?s2 = "spawn_boot\<lparr>simplelink_stack := True, spawn_pc := SpawnReceive\<rparr>"
  obtain os' where 1: "VStartSimpleLinkSpawnTask list_riot small_box True osi_boot spawn_boot = Some (OSI_OK, os', ?s1)"
    by (simp add: VStartSimpleLinkSpawnTask_def spawn_boot_def small_box_def)
  have 2: "spawn_run small_box [TaskRuns] ?s1 = Some ?s2" by (simp add: vSimpleLinkSpawnTask_def spawn_boot_def small_box_def)
  have 3: "accepted small_box ?es ?s2 = [(7, 1), (8, 2)]"
    by (simp add: dropped_def spawn_boot_def osi_Spawn_def small_box_def)
  have 4: "?es @ replicate (2 * length ?es) TaskRuns = [Spawned True 7 1, Spawned False 8 2, TaskRuns, TaskRuns, TaskRuns, TaskRuns]"
    by (simp add: eval_nat_numeral)
  have "spawn_calls spawn_boot = []" "\<forall>p\<in>dom (mem spawn_boot). p < next_ptr spawn_boot" by (simp_all add: spawn_boot_def)
  with spawned_calls_in_order [OF small_box_ok 1, of ?es] 2 3 show ?thesis unfolding 4 by auto
qed

text \<open>
  An interrupt handler whose message the kernel drops because the driver's thread has no room for it
  gets the result success from \<open>osi_Spawn\<close>, but the function is never called: the message is not under way
  and stays allocated for good.
\<close>

theorem spawn_lost_from_interrupt:
  assumes "mailbox_ok M ready msgs" "spawn_ok ready msgs s" "fst (box_send M True (next_ptr s) (box s)) = Dropped"
  shows "\<exists>t. osi_Spawn M True True pEntry pValue s = Some (Goes OSI_OK, t) \<and> contents msgs t = contents msgs s \<and>
    next_ptr s \<in> dom (mem t) - set (under_way msgs t) \<and>
    (\<exists>u. spawn_run M (replicate (2 * length (under_way msgs t)) TaskRuns) t = Some u \<and> under_way msgs u = [] \<and>
      spawn_calls u = spawn_calls s @ contents msgs s)"
proof -
  obtain r t where t: "osi_Spawn M True True pEntry pValue s = Some (r, t)" using spawn_returns by blast
  have d: "dropped M True s" using assms(3) by (simp add: dropped_def)
  from spawned_ok [OF assms(1,2) t] d have o: "spawn_ok ready msgs t" "spawn_calls t = spawn_calls s"
    "under_way msgs t = under_way msgs s" "contents msgs t = contents msgs s" by simp_all
  have "r = Goes OSI_OK" "next_ptr s \<in> dom (mem t)"
    using t assms(3) by (auto simp: osi_Spawn_def Let_def split: prod.splits if_splits)
  with ok_next_unused [OF assms(2)] task_drains [OF assms(1) o(1), of "2 * length (under_way msgs t)"] t o show ?thesis by auto
qed

theorem spawn_lost_from_interrupt_witness:
  "\<exists>t. osi_Spawn small_box True True 9 0 (spawn_boot\<lparr>simplelink_stack := True, spawn_pc := SpawnReceive, box := ([0..<8], []),
       mem := (\<lambda>p. if p < 8 then Some (p, p) else None), next_ptr := 8\<rparr>) = Some (Goes OSI_OK, t) \<and>
     8 \<notin> set (under_way (\<lambda>(q, w). q @ w) t)"
proof -
  let ?s = "spawn_boot\<lparr>simplelink_stack := True, spawn_pc := SpawnReceive, box := ([0..<8], []),
     mem := (\<lambda>p. if p < 8 then Some (p, p) else None), next_ptr := 8\<rparr>"
  have "spawn_ok (\<lambda>q. True) (\<lambda>(q, w). q @ w) ?s" by (auto simp: spawn_ok_def under_way_def spawn_boot_def split: if_splits)
  from spawn_lost_from_interrupt [OF small_box_ok this, of 9 0] show ?thesis by (auto simp: spawn_boot_def small_box_def)
qed

text \<open>After \<open>VDeleteSimpleLinkSpawnTask\<close> the thread, which still exists, runs on freed memory.\<close>

lemma deleted_stack_used: "vSimpleLinkSpawnTask M (VDeleteSimpleLinkSpawnTask s) = None"
  by (simp add: vSimpleLinkSpawnTask_def VDeleteSimpleLinkSpawnTask_def)

section \<open>Critical sections\<close>

definition configMAX_SYSCALL_INTERRUPT_PRIORITY :: u32 where
  "configMAX_SYSCALL_INTERRUPT_PRIORITY = push_bit 5 1"

record critical =
  uxCriticalNesting :: int
  basepri :: u32

definition ulPortSetInterruptMask :: "critical \<Rightarrow> critical" where
  "ulPortSetInterruptMask c = c\<lparr>basepri := configMAX_SYSCALL_INTERRUPT_PRIORITY\<rparr>"

definition vPortClearInterruptMask :: "u32 \<Rightarrow> critical \<Rightarrow> critical" where
  "vPortClearInterruptMask ulNewMaskValue c = c\<lparr>basepri := ulNewMaskValue\<rparr>"

definition osi_EnterCritical :: "critical \<Rightarrow> critical" where
  "osi_EnterCritical c = (ulPortSetInterruptMask c)\<lparr>uxCriticalNesting := uxCriticalNesting c + 1\<rparr>"

definition osi_ExitCritical :: "critical \<Rightarrow> critical" where
  "osi_ExitCritical c =
     (let c = c\<lparr>uxCriticalNesting := uxCriticalNesting c - 1\<rparr> in
      if uxCriticalNesting c = 0 then vPortClearInterruptMask 0 c else c)"

text \<open>\<^term>\<open>True\<close> enters and \<^term>\<open>False\<close> exits; no prefix has more exits than enters.\<close>

fun critical_run :: "bool list \<Rightarrow> critical \<Rightarrow> critical" where
  "critical_run [] c = c"
| "critical_run (x # xs) c = critical_run xs (if x then osi_EnterCritical c else osi_ExitCritical c)"

definition depth :: "bool list \<Rightarrow> int" where
  "depth xs = (\<Sum>x\<leftarrow>xs. if x then 1 else - 1)"

definition nested :: "bool list \<Rightarrow> bool" where
  "nested xs \<longleftrightarrow> (\<forall>k. 0 \<le> depth (take k xs))"

lemma critical_run_append: "critical_run (xs @ ys) c = critical_run ys (critical_run xs c)"
  by (induction xs arbitrary: c) simp_all

lemma depth_simps [simp]: "depth [] = 0" "depth (xs @ [x]) = depth xs + (if x then 1 else - 1)"
  by (simp_all add: depth_def)

lemma critical_run_from:
  "uxCriticalNesting c = n \<Longrightarrow> (\<forall>k. - n \<le> depth (take k xs)) \<Longrightarrow> 0 \<le> n \<Longrightarrow>
   basepri c = (if n > 0 then configMAX_SYSCALL_INTERRUPT_PRIORITY else 0) \<Longrightarrow>
   uxCriticalNesting (critical_run xs c) = n + depth xs \<and>
   basepri (critical_run xs c) = (if n + depth xs > 0 then configMAX_SYSCALL_INTERRUPT_PRIORITY else 0)"
proof (induction xs rule: rev_induct)
  case (snoc x xs)
  have le: "- n \<le> depth (take k xs)" for k
    using snoc.prems(2) [rule_format, of "min k (length xs)"] by (simp add: min_def split: if_splits)
  have "- n \<le> depth (xs @ [x])" using snoc.prems(2) [rule_format, of "Suc (length xs)"] by simp
  moreover have "- n \<le> depth xs" using le [of "length xs"] by simp
  ultimately show ?case using snoc le
    by (auto simp: critical_run_append osi_EnterCritical_def osi_ExitCritical_def ulPortSetInterruptMask_def
        vPortClearInterruptMask_def Let_def)
qed simp

text \<open>
  Critical sections nest: after any sequence of entries and exits in which no exit is without its
  entry, interrupts up to the kernel's priority are masked exactly if a section is open.
\<close>

theorem critical_sections_nest:
  assumes "nested xs"
  shows "basepri (critical_run xs \<lparr>uxCriticalNesting = 0, basepri = 0\<rparr>) =
      (if depth xs > 0 then configMAX_SYSCALL_INTERRUPT_PRIORITY else 0) \<and>
    uxCriticalNesting (critical_run xs \<lparr>uxCriticalNesting = 0, basepri = 0\<rparr>) = depth xs"
  using critical_run_from [of "\<lparr>uxCriticalNesting = 0, basepri = 0\<rparr>" 0 xs] assms by (simp add: nested_def)

theorem critical_sections_nest_witness:
  "basepri (critical_run [True, True, False] \<lparr>uxCriticalNesting = 0, basepri = 0\<rparr>) = configMAX_SYSCALL_INTERRUPT_PRIORITY"
proof -
  have "0 \<le> depth (take k [True, True, False])" for k
    by (cases k rule: nat.exhaust; simp add: depth_def take_Cons split: nat.split)
  then show ?thesis using critical_sections_nest [of "[True, True, False]"] by (simp add: nested_def depth_def)
qed

text \<open>After one exit too many a section leaves the interrupts masked, and a nested one unmasks them too early.\<close>

lemma extra_exit:
  "basepri (critical_run [False, True, False] \<lparr>uxCriticalNesting = 0, basepri = 0\<rparr>) = configMAX_SYSCALL_INTERRUPT_PRIORITY"
  "basepri (critical_run [False, True, True, False] \<lparr>uxCriticalNesting = 0, basepri = 0\<rparr>) = 0"
  by (simp_all add: osi_EnterCritical_def osi_ExitCritical_def ulPortSetInterruptMask_def vPortClearInterruptMask_def)

section \<open>Sleeping\<close>

text \<open>What \<open>osi_Sleep\<close> passes to \<open>xtimer_usleep\<close>, which takes microseconds, and the ticks that makes.\<close>

definition osi_Sleep :: "u32 \<Rightarrow> u32" where
  "osi_Sleep MilliSecs = xtimer_ticks_from_usec (MilliSecs * 80000)"

text \<open>
  A sleep takes 80 times as long as it is asked to (a millisecond has 80000 ticks), modulo the width of the
  counter: one of 672 milliseconds ends after 72.
\<close>

theorem osi_sleep_eighty_times:
  "unat (osi_Sleep MilliSecs) = 80 * (unat MilliSecs * 80000) mod 2 ^ 32 \<and> unat (osi_Sleep 672) div 80000 = 72"
proof -
  have ticks: "osi_Sleep m = m * 6400000" for m
    by (simp add: osi_Sleep_def xtimer_ticks_from_usec_def XTIMER_USEC_TO_TICKS_FACTOR_def)
  have "unat (MilliSecs * 6400000) = unat MilliSecs * 6400000 mod 2 ^ 32" by (simp add: unat_word_ariths)
  moreover have "unat (osi_Sleep 672) div 80000 = 72" by (simp add: ticks)
  ultimately show ?thesis by (simp add: ticks mult.commute)
qed

section \<open>Message queues\<close>

text \<open>
  A queue variable holds the address \<open>malloc\<close> gave. Writing takes the first two bytes of the variable as
  the identifier of the thread to send to.
\<close>

definition osi_MsgQCreate :: "u32 \<Rightarrow> 'v \<Rightarrow> ('v \<Rightarrow> u32) \<Rightarrow> OsiReturnVal_e \<times> ('v \<Rightarrow> u32)" where
  "osi_MsgQCreate address pMsgQ qs = (OSI_OK, qs(pMsgQ := address))"

definition osi_MsgQDelete :: "'v option \<Rightarrow> ('v \<Rightarrow> u32) \<Rightarrow> u32 set \<Rightarrow> OsiReturnVal_e \<times> u32 set" where
  "osi_MsgQDelete pMsgQ qs allocated =
     (case pMsgQ of None \<Rightarrow> (OSI_INVALID_PARAMS, allocated) | Some v \<Rightarrow> (OSI_OK, allocated - {qs v}))"

definition osi_MsgQWrite :: "'v option \<Rightarrow> ('v \<Rightarrow> u32) \<Rightarrow> OsiReturnVal_e \<times> 16 word option" where
  "osi_MsgQWrite pMsgQ qs =
     (case pMsgQ of None \<Rightarrow> (OSI_INVALID_PARAMS, None) | Some v \<Rightarrow> (OSI_OK, Some (ucast (qs v))))"

text \<open>Reading takes a message of the calling thread's own mailbox; \<^term>\<open>None\<close> is a thread that waits.\<close>

definition osi_MsgQRead :: "'q mailbox \<Rightarrow> 'v option \<Rightarrow> 'q \<Rightarrow> (OsiReturnVal_e \<times> nat option) option \<times> 'q" where
  "osi_MsgQRead M pMsgQ q =
     (case pMsgQ of
        None \<Rightarrow> (Some (OSI_INVALID_PARAMS, None), q)
      | Some v \<Rightarrow>
          (case box_receive M q of
             (Some p, q') \<Rightarrow> (Some (OSI_OK, Some p), q')
           | (None, q') \<Rightarrow> (None, q')))"

text \<open>
  What a read returns depends on the thread that calls it and not on the queue it names: the oldest
  message of the caller, and a thread that has none waits on whatever queue.
\<close>

lemma read_ignores_queue:
  assumes "mailbox_ok M ready msgs" "ready q"
  shows "fst (osi_MsgQRead M (Some v) q) = (case msgs q of [] \<Rightarrow> None | p # ps \<Rightarrow> Some (OSI_OK, Some p)) \<and>
    msgs (snd (osi_MsgQRead M (Some v) q)) = tl (msgs q)"
proof -
  have "case msgs q of
      [] \<Rightarrow> fst (box_receive M q) = None \<and> msgs (snd (box_receive M q)) = []
    | p # ps \<Rightarrow> fst (box_receive M q) = Some p \<and> msgs (snd (box_receive M q)) = ps"
    using assms by (simp add: mailbox_ok_def)
  then show ?thesis
    by (cases "box_receive M q") (auto simp: osi_MsgQRead_def split: list.splits)
qed

section \<open>Interrupts and reset\<close>

record nvic =
  nvic_handler :: "nat \<Rightarrow> nat option"
  nvic_priority :: "nat \<Rightarrow> byte"
  nvic_enabled :: "nat set"

definition osi_InterruptRegister :: "nat \<Rightarrow> nat \<Rightarrow> byte \<Rightarrow> nvic \<Rightarrow> OsiReturnVal_e \<times> nvic" where
  "osi_InterruptRegister iIntrNum pEntry ucPriority n =
     (OSI_OK, n\<lparr>nvic_handler := (nvic_handler n)(iIntrNum := Some pEntry),
        nvic_priority := (nvic_priority n)(iIntrNum := ucPriority), nvic_enabled := insert iIntrNum (nvic_enabled n)\<rparr>)"

definition osi_InterruptDeRegister :: "nat \<Rightarrow> nvic \<Rightarrow> nvic" where
  "osi_InterruptDeRegister iIntrNum n =
     n\<lparr>nvic_enabled := nvic_enabled n - {iIntrNum}, nvic_handler := (nvic_handler n)(iIntrNum := None)\<rparr>"

datatype reset_call =
  SlStop nat | HibernateIntervalSet nat | HibernateWakeupSourceEnable | HibernateEnter | MCUReset nat

text \<open>The calls of \<open>cc3200_reset\<close> in order; \<open>SL_STOP_TIMEOUT\<close> is 200.\<close>

definition cc3200_reset :: "u32 \<Rightarrow> reset_call list" where
  "cc3200_reset status =
     (if bit status 1 then [SlStop 200, HibernateIntervalSet 330, HibernateWakeupSourceEnable, HibernateEnter]
      else [MCUReset 1])"

end
