(* ===== verification/Hello_Mqtt.thy ===== *)
theory Hello_Mqtt
  imports Board_Run Gpio
begin

text \<open>
  The application \<^verbatim>\<open>burba/apps/hello-mqtt/main.c\<close> on the library: its command for the LEDs, which
  \<^verbatim>\<open>apps/hello-proto/main.c\<close> has too, its button and its main loop. The command runs on the pins of theory
  \<^verbatim>\<open>Gpio\<close>, as what the library calls when a request arrives, and the main loop on the board of theory
  \<^verbatim>\<open>Board\<close>, a message at a time.
\<close>

section \<open>The command for the LEDs\<close>

definition LEDS_COMMAND :: byte where "LEDS_COMMAND = 10"

definition LED_RED_BIT :: nat where "LED_RED_BIT = 0"
definition LED_YELLOW_BIT :: nat where "LED_YELLOW_BIT = 1"
definition LED_GREEN_BIT :: nat where "LED_GREEN_BIT = 2"

text \<open>The array \<open>ivals\<close> of a command: its count, and an element.\<close>

definition n_ivals :: "pmessage \<Rightarrow> nat option" where
  "n_ivals command = (case rd (cells command) 3 of Some (Rep n arr) \<Rightarrow> Some n | _ \<Rightarrow> None)"

definition ivals_at :: "pmessage \<Rightarrow> nat \<Rightarrow> u32 option" where
  "ivals_at command i =
     (case rd (cells command) 3 of Some (Rep n arr) \<Rightarrow> do { v \<leftarrow> rd arr i; v \<leftarrow> v; as32 v } | _ \<Rightarrow> None)"

definition set_led :: "nat \<Rightarrow> nat \<Rightarrow> u32 \<Rightarrow> u32 \<Rightarrow> gpio_state \<Rightarrow> gpio_state option" where
  "set_led i pin msk vals s =
     (if bit msk i then (if bit vals i then gpio_set pin s else gpio_clear pin s) else Some s)"

definition handle_command :: "byte \<Rightarrow> pmessage \<Rightarrow> gpio_state \<Rightarrow> (u32 \<times> gpio_state) option" where
  "handle_command type command s =
     (if type = LEDS_COMMAND
      then do {
        n \<leftarrow> n_ivals command;
        s \<leftarrow> (if n = 2 then do {
                msk \<leftarrow> ivals_at command 0;
                vals \<leftarrow> ivals_at command 1;
                s \<leftarrow> set_led LED_RED_BIT LED_RED msk vals s;
                s \<leftarrow> set_led LED_YELLOW_BIT LED_YELLOW msk vals s;
                set_led LED_GREEN_BIT LED_GREEN msk vals s
              } else Some s);
        r \<leftarrow> gpio_read LED_RED s;
        y \<leftarrow> gpio_read LED_YELLOW s;
        g \<leftarrow> gpio_read LED_GREEN s;
        Some (word_of_int r OR push_bit LED_YELLOW_BIT (word_of_int y) OR push_bit LED_GREEN_BIT (word_of_int g), s)
      }
      else Some (- 1, s))"

text \<open>The pins of the LEDs, the GPIOs they are connected to, and their bits.\<close>

definition leds :: "(nat \<times> nat \<times> nat) list" where
  "leds = [(LED_RED, 9, LED_RED_BIT), (LED_YELLOW, 10, LED_YELLOW_BIT), (LED_GREEN, 11, LED_GREEN_BIT)]"

lemmas led_defs = LED_RED_def LED_YELLOW_def LED_GREEN_def LED_RED_BIT_def LED_YELLOW_BIT_def LED_GREEN_BIT_def

lemma led_pins: "gpio_number ! LED_RED = Some 9" "gpio_number ! LED_YELLOW = Some 10" "gpio_number ! LED_GREEN = Some 11"
  "LED_RED < 41" "LED_YELLOW < 41" "LED_GREEN < 41"
  by (simp_all add: gpio_number_def led_defs)

definition led_level :: "nat \<Rightarrow> nat \<Rightarrow> u32 \<Rightarrow> u32 \<Rightarrow> gpio_state \<Rightarrow> bool" where
  "led_level g i msk vals s = (if bit msk i then bit vals i else level g s)"

lemma set_led_level:
  assumes "d < 41" "gpio_number ! d = Some g" "is_output g s"
  shows "\<exists>s'. set_led i d msk vals s = Some s' \<and>
    (\<forall>h<32. is_output h s' = is_output h s \<and> level h s' = (if h = g then led_level g i msk vals s else level h s))"
proof (cases "bit msk i")
  case True
  let ?v = "if bit vals i then 1 else 0 :: int"
  have "set_led i d msk vals s = gpio_write d ?v s" using True by (simp add: set_led_def gpio_set_def gpio_clear_def)
  moreover obtain s' where "gpio_write d ?v s = Some s'" using write_level [OF assms(1,2), of 0 ?v s] by auto
  ultimately show ?thesis
    using write_level [OF assms(1,2), of _ ?v s] assms(3) True by (intro exI [of _ s']) (auto simp: led_level_def)
next
  case False
  then show ?thesis by (auto simp: set_led_def led_level_def)
qed

lemma leds_handled:
  assumes "c_ivals cmd = [msk, vals]" "\<forall>g\<in>{9, 10, 11}. is_output g s"
  shows "\<exists>s' stat. handle_command LEDS_COMMAND (obj_msg (OCommand cmd)) s = Some (stat, s') \<and>
    (\<forall>(d, g, i)\<in>set leds. gpio_read d s' = Some (if led_level g i msk vals s then 1 else 0) \<and>
      bit stat i = led_level g i msk vals s)"
proof -
  have cells: "n_ivals (obj_msg (OCommand cmd)) = Some 2" "ivals_at (obj_msg (OCommand cmd)) 0 = Some msk"
    "ivals_at (obj_msg (OCommand cmd)) 1 = Some vals"
    using assms(1) by (simp_all add: n_ivals_def ivals_at_def obj_msg_def command_cells_def array_cell_def rd_def)
  from set_led_level [OF led_pins(4,1), of s LED_RED_BIT msk vals] assms(2) obtain s1 where
    1: "set_led LED_RED_BIT LED_RED msk vals s = Some s1"
    "\<And>h. h < 32 \<Longrightarrow> is_output h s1 = is_output h s \<and> level h s1 = (if h = 9 then led_level 9 LED_RED_BIT msk vals s else level h s)"
    by auto
  have "is_output 10 s1" using 1(2) [of 10] assms(2) by simp
  from set_led_level [OF led_pins(5,2) this, of LED_YELLOW_BIT msk vals] obtain s2 where
    2: "set_led LED_YELLOW_BIT LED_YELLOW msk vals s1 = Some s2"
    "\<And>h. h < 32 \<Longrightarrow> is_output h s2 = is_output h s1 \<and> level h s2 = (if h = 10 then led_level 10 LED_YELLOW_BIT msk vals s1 else level h s1)"
    by auto
  have "is_output 11 s2" using 1(2) [of 11] 2(2) [of 11] assms(2) by simp
  from set_led_level [OF led_pins(6,3) this, of LED_GREEN_BIT msk vals] obtain s3 where
    3: "set_led LED_GREEN_BIT LED_GREEN msk vals s2 = Some s3"
    "\<And>h. h < 32 \<Longrightarrow> is_output h s3 = is_output h s2 \<and> level h s3 = (if h = 11 then led_level 11 LED_GREEN_BIT msk vals s2 else level h s2)"
    by auto
  have lev: "level 9 s3 = led_level 9 0 msk vals s" "level 10 s3 = led_level 10 1 msk vals s"
    "level 11 s3 = led_level 11 2 msk vals s"
    using 1(2) [of 9] 1(2) [of 10] 1(2) [of 11] 2(2) [of 9] 2(2) [of 10] 2(2) [of 11] 3(2) [of 9] 3(2) [of 10] 3(2) [of 11]
    by (simp_all add: led_level_def led_defs)
  note r = read_level [OF led_pins(4,1), of s3] read_level [OF led_pins(5,2), of s3] read_level [OF led_pins(6,3), of s3]
  let ?b = "\<lambda>x. if x then 1 else 0 :: u32"
  let ?stat = "?b (level 9 s3) OR push_bit 1 (?b (level 10 s3)) OR push_bit 2 (?b (level 11 s3))"
  have "handle_command LEDS_COMMAND (obj_msg (OCommand cmd)) s = Some (?stat, s3)"
    using cells 1(1) 2(1) 3(1) r by (simp add: handle_command_def LED_YELLOW_BIT_def LED_GREEN_BIT_def)
  moreover have "bit ?stat 0 = level 9 s3" "bit ?stat 1 = level 10 s3" "bit ?stat 2 = level 11 s3"
    by (auto simp: bit_simps)
  ultimately show ?thesis using r lev by (auto simp: leds_def led_defs)
qed

text \<open>
  The outside of the board with the application in it: the pins, and what else there is. A command that
  left memory would stop the program; that it does not is part of the theorem.
\<close>

fun with_app :: "'w os \<Rightarrow> (gpio_state \<times> 'w) os" where
  "with_app os (call_handle_command t obj) (g, w) =
     (case handle_command t obj g of
        None \<Rightarrow> (plain_reply 0, (g, w))
      | Some (stat, g) \<Rightarrow> (plain_reply (uint stat), (g, w)))"
| "with_app os c (g, w) = (let (r, w) = os c w in (r, (g, w)))"

text \<open>
  C8: A command for the LEDs that arrives on a TCP channel sets the LEDs its mask selects as its values
  say, leaves the others as they are, and is answered with one acknowledgement from which the peer
  unmarshals a status whose bits are the states of the three LEDs.
\<close>

theorem led_command_answered:
  assumes "get_chan p b = Some c" "send c = Some S_tcp" "length (tcp_buff b) = 256" "length (protobuf b) = 256"
    and "wf_obj (OCommand cmd)" "c_ivals cmd = [msk, vals]" "flags t AND 1 = 0" "pm_type t = LEDS_COMMAND"
    and "protobuf_c_message_get_packed_size (obj_desc (OCommand cmd)) (obj_msg (OCommand cmd)) = Some n" "n < 128"
    and "nais_marshall t (OCommand cmd) (replicate 256 0) = Some (len, sent)"
    and "world b = (g, w)" "\<forall>k\<in>{9, 10, 11}. is_output k g"
    and "os (sl_Recv (ch_fd c) 256) w = (r1, w1)" "rc r1 = len" "out_bytes r1 = take (nat len) sent"
  shows "\<exists>b' ack stat g'. bocia_tcp_receive (with_app os) p b = Some b' \<and>
    handle_command LEDS_COMMAND (obj_msg (OCommand cmd)) g = Some (stat, g') \<and> fst (world b') = g' \<and>
    (\<forall>(d, k, i)\<in>set leds. gpio_read d (fst (world b')) = Some (if led_level k i msk vals g then 1 else 0) \<and>
      bit stat i = led_level k i msk vals g) \<and>
    trace b' = trace b @ [sl_Recv (ch_fd c) 256, call_handle_command LEDS_COMMAND (obj_msg (OCommand cmd)),
                          sl_Send (ch_fd c) (int (length ack)) ack] \<and>
    nais_unmarshall (drop 1 ack) = Some (\<lparr>pm_type = type_code ACK_TYPE, dline = 0, flags = 0\<rparr>,
      Some (obj_msg (OAck \<lparr>a_id = 10, a_has_seq = 0, a_seq = 0, has_status = 1, status = stat\<rparr>)))"
proof -
  from leds_handled [OF assms(6,13)] obtain g' stat where
    h: "handle_command LEDS_COMMAND (obj_msg (OCommand cmd)) g = Some (stat, g')"
    "\<forall>(d, k, i)\<in>set leds. gpio_read d g' = Some (if led_level k i msk vals g then 1 else 0) \<and>
      bit stat i = led_level k i msk vals g" by blast
  have t: "carries t (OCommand cmd)" "custom_type (pm_type t)"
    using assms(8) by (simp_all add: carries_def custom_type_def LEDS_COMMAND_def word_less_nat_alt)
  have recv: "with_app os (sl_Recv (ch_fd c) 256) (world b) = (r1, (g, w1))" using assms(12,14) by simp
  have call: "with_app os (call_handle_command (pm_type t) (obj_msg (OCommand cmd))) (g, w1) = (plain_reply (uint stat), (g', w1))"
    using assms(8) h(1) by simp
  have "rc (fst (with_app os (call_handle_command (pm_type t) (obj_msg (OCommand cmd))) (g, w1))) = uint stat"
    unfolding call by (simp add: plain_reply_def)
  from small_request_acknowledged [OF assms(1-5) t assms(7,9-11) recv assms(15,16) this] obtain b' ack where
    b': "bocia_tcp_receive (with_app os) p b = Some b'"
    "trace b' = trace b @ [sl_Recv (ch_fd c) 256, call_handle_command (pm_type t) (obj_msg (OCommand cmd)),
                          sl_Send (ch_fd c) (int (length ack)) ack]"
    "nais_unmarshall (drop 1 ack) = Some (\<lparr>pm_type = type_code ACK_TYPE, dline = 0, flags = 0\<rparr>,
      Some (obj_msg (OAck (ack_of (pm_type t) (uint stat)))))"
    "world b' = snd (with_app os (sl_Send (ch_fd c) (int (length ack)) ack) (g', w1))"
    unfolding call by auto
  have "fst (world b') = g'" using b'(4) by (simp add: split_beta)
  moreover have "ack_of (pm_type t) (uint stat) = \<lparr>a_id = 10, a_has_seq = 0, a_seq = 0, has_status = 1, status = stat\<rparr>"
    using assms(8) by (simp add: ack_of_def LEDS_COMMAND_def)
  ultimately show ?thesis using b' h assms(8) by auto
qed

section \<open>The button\<close>

definition RETRY_TO_CONNECT :: int where "RETRY_TO_CONNECT = 9000"
definition BUTTON_PRESSED :: int where "BUTTON_PRESSED = 9001"

text \<open>The interrupt of the button at the time \<open>curr_time\<close>: the message it sends, and \<open>previous_event_time\<close>.\<close>

definition button_sw3_pressed :: "u64 \<Rightarrow> u64 \<Rightarrow> int option \<times> u64" where
  "button_sw3_pressed curr_time previous_event_time =
     (if curr_time - previous_event_time > 16000000 then Some BUTTON_PRESSED else None, curr_time)"

fun interrupts :: "u64 list \<Rightarrow> u64 \<Rightarrow> int list" where
  "interrupts [] previous = []"
| "interrupts (t # ts) previous =
     (case button_sw3_pressed t previous of (m, previous) \<Rightarrow> (case m of None \<Rightarrow> [] | Some x \<Rightarrow> [x]) @ interrupts ts previous)"

text \<open>The times of a burst: each interrupt at most 200 ms, in ticks of the 80 MHz clock, after the one before.\<close>

fun burst :: "u64 \<Rightarrow> u64 list \<Rightarrow> bool" where
  "burst t [] \<longleftrightarrow> True"
| "burst t (u # us) \<longleftrightarrow> u - t \<le> 16000000 \<and> burst u us"

lemma burst_ignored: "burst t us \<Longrightarrow> interrupts (us @ vs) t = interrupts vs (last (t # us))"
  by (induction us arbitrary: t) (auto simp: button_sw3_pressed_def not_less)

lemma press_sent: "t - previous > 16000000 \<Longrightarrow> burst t us \<Longrightarrow>
  interrupts (t # us @ vs) previous = BUTTON_PRESSED # interrupts vs (last (t # us))"
  by (simp add: button_sw3_pressed_def burst_ignored)

section \<open>The main loop\<close>

definition SBAPI_AUTOSTART :: u32 where "SBAPI_AUTOSTART = 4"
definition SBAPI_RETRIES :: u32 where "SBAPI_RETRIES = 8"
definition SBAPI_DEFAULT_CFG :: u32 where "SBAPI_DEFAULT_CFG = SBAPI_RETRIES OR SBAPI_AUTOSTART"

definition PUSH1 :: nat where "PUSH1 = 3"

definition bocia_uart_init :: "'w os \<Rightarrow> 'w board_state \<Rightarrow> 'w board_state" where
  "bocia_uart_init os b = snd (sys os (thread_create ''uart'') (snd (sys os thread_getpid b)))"

text \<open>
  What \<open>main\<close> does before its loop, \<open>pressed\<close> being \<open>button_sw3_pressed\<close> for the interrupt handler: the pins,
  and the board.
\<close>

definition main_start ::
  "'w os \<Rightarrow> int \<Rightarrow> gpio_state \<Rightarrow> 'w board_state \<Rightarrow> (gpio_state \<times> 'w board_state) option" where
  "main_start os pressed pins b =
     do {
       let b = snd (sys os thread_getpid b);
       (_, pins) \<leftarrow> gpio_init_int PUSH1 GPIO_IN GPIO_FALLING (Some pressed) 0 pins;
       let b = bocia_uart_init os b;
       (_, b) \<leftarrow> sbapi_init os SBAPI_DEFAULT_CFG b;
       Some (pins, snd (sbapi_set_mode os ROLE_STA b))
     }"

definition app_init :: "'w os \<Rightarrow> 'w board_state \<Rightarrow> (nat option \<times> 'w board_state) option" where
  "app_init os b =
     do {
       (channel, b) \<leftarrow> bocia_init os None b;
       Some (channel,
         if channel = None
         then (let (pid, b) = sys os thread_getpid b in snd (sys os (xtimer_set_msg 2000000 RETRY_TO_CONNECT (rc pid)) b))
         else b)
     }"

text \<open>One message, and \<open>channel\<close>, which is \<^term>\<open>None\<close> when it is null.\<close>

definition main_message ::
  "'w os \<Rightarrow> int \<Rightarrow> nat option \<times> 'w board_state \<Rightarrow> (nat option \<times> 'w board_state) option" where
  "main_message os type x =
     (case x of (channel, b) \<Rightarrow>
        if type = SBAPI_IP_ACQUIRED then app_init os b
        else if type = BOCIA_SOCK_CLOSED \<or> type = RETRY_TO_CONNECT then app_init os b
        else if type = BUTTON_PRESSED
        then (case channel of
                None \<Rightarrow> Some (None, b)
              | Some i \<Rightarrow> map_option (Pair channel)
                  (chan_send os (Slot i) \<lparr>pm_type = type_code EVENT_TYPE, dline = 0, flags = 0\<rparr>
                    (Some (pobj (OEvent (EVENT__INIT\<lparr>e_id := word_of_int BUTTON_PRESSED\<rparr>)))) b))
        else Some (channel, b))"

text \<open>
  The program: the main thread takes a message, whichever it is, while the loop, the serial thread and the
  outside go on.
\<close>

inductive app_step ::
  "'w os \<Rightarrow> nat option \<times> loop_pc \<times> 'w board_state \<Rightarrow> nat option \<times> loop_pc \<times> 'w board_state \<Rightarrow> bool" for os where
  message: "main_message os type (ch, b) = Some (ch', b') \<Longrightarrow> app_step os (ch, pc, b) (ch', pc, b')"
| loop: "bocia_loop_run os pc b = Some (pc', b') \<Longrightarrow> app_step os (ch, pc, b) (ch, pc', b')"
| serial: "bocia_unmarshall Serial data (bocia_input_handler os) b = Some (r, b') \<Longrightarrow> app_step os (ch, pc, b) (ch, pc, b')"
| outside: "app_step os (ch, pc, b) (ch, pc, b\<lparr>world := w, nwp := n, sbapi := s\<rparr>)"

inductive app_reachable :: "'w os \<Rightarrow> nat option \<times> loop_pc \<times> 'w board_state \<Rightarrow> bool" for os where
  boot: "app_reachable os (None, Scan, boot w)"
| step: "app_reachable os x \<Longrightarrow> app_step os x y \<Longrightarrow> app_reachable os y"

section \<open>Its channel\<close>

text \<open>The entries that have a sender. This application has no server, and no other registration takes a sender away.\<close>

definition senders :: "'w board_state \<Rightarrow> nat set" where
  "senders b = {i. i < length (fd_map b) \<and> send (fd_map b ! i) \<noteq> None}"

definition grows :: "'w board_state \<Rightarrow> 'w board_state \<Rightarrow> bool" where
  "grows b b' \<longleftrightarrow> senders b \<subseteq> senders b'"

lemma entries_view: "senders b = {i. i < length (fst (view b)) \<and> snd (snd (fst (view b) ! i)) \<noteq> None}"
  by (auto simp: senders_def view_def core_def)

lemma senders_handler [simp]: "senders (b\<lparr>mqtt_handler := h\<rparr>) = senders b"
  by (simp add: senders_def)

lemma register_senders: "senders b \<subseteq> senders (snd (bocia_register_handlers sock tid hnd (Some tx) b))"
proof (cases "find_free (fd_map b) 0")
  case (Some k)
  then show ?thesis by (cases "k < length (fd_map b)") (auto simp: bocia_register_handlers_def senders_def nth_list_update)
qed (simp add: bocia_register_handlers_def)

lemma registered_sends:
  "fst (bocia_register_handlers sock tid hnd (Some tx) b) = Some i \<Longrightarrow>
   i \<in> senders (snd (bocia_register_handlers sock tid hnd (Some tx) b))"
  by (frule registered_slot) (auto simp: bocia_register_handlers_def senders_def split: option.splits)

lemma closing_senders:
  "get_chan (Slot i) b = Some c \<Longrightarrow> core c' = (0, snd (core c)) \<Longrightarrow> senders (put_chan (Slot i) c' b) = senders b"
  by (auto simp: senders_def put_chan_def get_chan_def core_def rd_def nth_list_update split: if_splits)

lemma same_view_senders: "view b' = view b \<Longrightarrow> senders b' = senders b"
  by (simp add: entries_view)

interpretation gr: board_change grows
  by unfold_locales (auto simp: grows_def closing_senders dest: same_view_senders subsetD [OF register_senders])

lemma mqtt_init_sends:
  assumes "bocia_mqtt_init os cfg b = Some (Some i, b')"
  shows "i \<in> senders b'"
proof -
  from assms obtain b1 sock tid ts where
    "(\<lambda>r. mqtt_subscribe os sock ts ((snd r)\<lparr>mqtt_handler := fst r\<rparr>) = Some b' \<and> mqtt_handler b' = Some i)
      (bocia_register_handlers sock tid (Some H_mqtt_receiver) (Some S_mqtt) b1)"
    by (auto simp: bocia_mqtt_init_def bind_eq_Some_conv Let_def split_beta split: option.splits if_splits)
  then obtain r where r: "r = bocia_register_handlers sock tid (Some H_mqtt_receiver) (Some S_mqtt) b1"
    "mqtt_subscribe os sock ts ((snd r)\<lparr>mqtt_handler := fst r\<rparr>) = Some b'" "mqtt_handler b' = Some i"
    by simp
  note v = subscribe_view [OF r(2)]
  with r(3) have "fst r = Some i" by (simp add: view_def)
  then have "i \<in> senders (snd r)" using registered_sends [of sock tid "Some H_mqtt_receiver" S_mqtt b1 i] r(1) by simp
  then show ?thesis using same_view_senders [OF v] by simp
qed

lemma tcp_init_sends:
  assumes "bocia_tcp_init os cfg b = Some (Some i, b')"
  shows "i \<in> senders b'"
proof -
  from assms obtain b1 sock tid where "bocia_register_handlers sock tid (Some H_tcp_receive) (Some S_tcp) b1 = (Some i, b')"
    by (auto simp: bocia_tcp_init_def bind_eq_Some_conv Let_def split_beta split: option.splits if_splits)
  with registered_sends [of sock tid "Some H_tcp_receive" S_tcp b1 i] show ?thesis by simp
qed

lemma init_sends:
  assumes "bocia_init os cfg b = Some (Some i, b')"
  shows "i \<in> senders b'"
  using assms by (auto simp: bocia_init_def bind_eq_Some_conv split: option.splits if_splits dest: mqtt_init_sends tcp_init_sends)

text \<open>An attempt to connect leaves a channel that sends, or the timer of the next attempt, set last of all.\<close>

lemma app_init_cases:
  assumes "app_init os b = Some (channel, b')"
  shows "grows b b' \<and> evolves b b' \<and> (\<forall>i. channel = Some i \<longrightarrow> i \<in> senders b') \<and>
    (channel = None \<longrightarrow> (\<exists>b1. bocia_init os None b = Some (None, b1) \<and>
       trace b' = trace b1 @ [thread_getpid, xtimer_set_msg 2000000 RETRY_TO_CONNECT (rc (fst (sys os thread_getpid b1)))]))"
proof -
  from assms obtain b1 where 1: "bocia_init os None b = Some (channel, b1)" and
    b': "b' = (if channel = None
         then (let (pid, b) = sys os thread_getpid b1 in snd (sys os (xtimer_set_msg 2000000 RETRY_TO_CONNECT (rc pid)) b))
         else b1)"
    by (auto simp: app_init_def bind_eq_Some_conv)
  have v: "view b' = view b1" by (simp add: b' split_beta)
  have "grows b b'" "evolves b b'"
    using gr.init_chg [OF 1] ev.init_chg [OF 1] v by (blast intro: gr.chg_view_right ev.chg_view_right)+
  moreover have "i \<in> senders b'" if "channel = Some i" for i
    using init_sends [of os None b i b1] 1 that same_view_senders [OF v] by simp
  ultimately show ?thesis using 1 by (auto simp: b' split_beta sys_trace)
qed

definition app_ok :: "nat option \<times> loop_pc \<times> 'w board_state \<Rightarrow> bool" where
  "app_ok x \<longleftrightarrow> board_ok (snd x) \<and> (\<forall>i. fst x = Some i \<longrightarrow> i \<in> senders (snd (snd x)))"

lemma app_ok_board: "app_ok (ch, x) \<Longrightarrow> board_ok x"
  by (simp add: app_ok_def)

lemma loop_run_grows:
  assumes "bocia_loop_run os pc b = Some (pc', b')"
  shows "grows b b'"
proof -
  from assms have "view b' = view b \<or> b' = b\<lparr>mutex := True\<rparr> \<or> (\<exists>fds i. service os fds i b = Some b')"
    by (auto simp: bocia_loop_run_def Let_def split_beta split: loop_pc.splits list.splits if_splits)
  moreover have "senders (b\<lparr>mutex := True\<rparr>) = senders b" by (simp add: senders_def)
  ultimately show ?thesis by (auto simp: grows_def dest!: same_view_senders gr.service_chg [unfolded grows_def])
qed

lemma app_ok_change:
  assumes "app_ok (ch, pc, b)" "grows b b'" "board_ok (pc', b')"
  shows "app_ok (ch, pc', b')"
  using assms by (auto simp: app_ok_def grows_def)

lemma app_step_ok: "app_step os x y \<Longrightarrow> app_ok x \<Longrightarrow> app_ok y"
proof (induction rule: app_step.induct)
  case (message type ch b ch' b' pc)
  then have ok: "board_ok (pc, b)" by (simp add: app_ok_def)
  consider "app_init os b = Some (ch', b')" | "ch' = ch" "view b' = view b"
    using message(1) by (auto simp: main_message_def split: if_splits option.splits dest: chan_send_view)
  then show ?case
  proof cases
    case 1
    from app_init_cases [OF this] ok show ?thesis by (auto simp: app_ok_def intro: board_ok_evolves)
  next
    case 2
    with message(2) ok show ?thesis by (blast intro: app_ok_change gr.chg_view board_ok_evolves evolves_view)
  qed
next
  case (loop pc b pc' b' ch)
  then show ?case by (blast intro: app_ok_change loop_run_grows loop_run_ok dest: app_ok_board)
next
  case (serial data b r b' ch pc)
  then show ?case
    by (auto simp: app_ok_def dest!: unmarshall_view dest: same_view_senders intro: board_ok_evolves evolves_view)
next
  case (outside ch pc b s n w)
  have "view (b\<lparr>world := w, nwp := n, sbapi := s\<rparr>) = view b" by (simp add: view_def)
  with outside show ?case
    by (blast intro: app_ok_change gr.chg_view board_ok_evolves evolves_view dest: app_ok_board)
qed

lemma app_reachable_ok: "app_reachable os x \<Longrightarrow> app_ok x"
proof (induction rule: app_reachable.induct)
  case (boot w)
  then show ?case by (simp add: app_ok_def board_ok_boot)
qed (rule app_step_ok)

section \<open>Properties of the main loop\<close>

lemmas message_defs = main_message_def SBAPI_IP_ACQUIRED_def BOCIA_SOCK_CLOSED_def RETRY_TO_CONNECT_def BUTTON_PRESSED_def

lemma event_size:
  "protobuf_c_message_get_packed_size (obj_desc (OEvent (EVENT__INIT\<lparr>e_id := 9001\<rparr>)))
    (obj_msg (OEvent (EVENT__INIT\<lparr>e_id := 9001\<rparr>))) = Some 3"
  by (simp add: descriptor_defs cells_defs obj_msg_def protobuf_c_message_get_packed_size_def
      field_get_packed_size_def required_field_get_packed_size_def optional_field_get_packed_size_def
      repeated_field_get_packed_size_def array_cell_def int32_size_def get_tag_size_def word_less_nat_alt)

text \<open>
  C17: However the threads interleave, the channel the application holds is an entry with a sender; a press of
  the button when that is a TCP connection is one call, which sends a payload from which the peer unmarshals
  an event with the number of the press, and nothing of the channel table changes.
\<close>

theorem press_reaches_peer:
  assumes "app_reachable os (Some i, pc, b)"
  shows "\<exists>c f. get_chan (Slot i) b = Some c \<and> send c = Some f \<and> (f = S_tcp \<or> f = S_mqtt) \<and>
    (f = S_tcp \<longrightarrow> (\<exists>b' out. main_message os BUTTON_PRESSED (Some i, b) = Some (Some i, b') \<and>
       trace b' = trace b @ [sl_Send (ch_fd c) (int (length out)) out] \<and> fd_map b' = fd_map b \<and>
       nais_unmarshall (drop 1 out) = Some (\<lparr>pm_type = type_code EVENT_TYPE, dline = 0, flags = 0\<rparr>,
         Some (obj_msg (OEvent (EVENT__INIT\<lparr>e_id := 9001\<rparr>))))))"
proof -
  from app_reachable_ok [OF assms] have t: "tables_ok b" and i: "i \<in> senders b" by (simp_all add: app_ok_def board_ok_def)
  define c where "c = fd_map b ! i"
  from i have c: "get_chan (Slot i) b = Some c" "c \<in> set (fd_map b)" "send c \<noteq> None"
    by (auto simp: senders_def get_chan_def rd_def c_def)
  from t c(2) have "core_ok (core c)" by (simp add: tables_ok_def view_ok_def view_def list_all_iff)
  with c(3) have f: "send c = Some S_tcp \<or> send c = Some S_mqtt" by (auto simp: core_ok_def core_def)
  let ?t = "\<lparr>pm_type = type_code EVENT_TYPE, dline = 0, flags = 0\<rparr>" and ?ob = "OEvent (EVENT__INIT\<lparr>e_id := 9001\<rparr>)"
  have p: "length (protobuf b) = 256" using t by (simp add: tables_ok_def view_ok_def view_def)
  have wf: "wf_obj ?ob" by (simp add: EVENT__INIT_def)
  have "\<exists>b' out. main_message os BUTTON_PRESSED (Some i, b) = Some (Some i, b') \<and>
       trace b' = trace b @ [sl_Send (ch_fd c) (int (length out)) out] \<and> fd_map b' = fd_map b \<and>
       nais_unmarshall (drop 1 out) = Some (?t, Some (obj_msg ?ob))" if "send c = Some S_tcp"
  proof -
    from tcp_sends [OF c(1) that wf event_size _ p, of os ?t] obtain b' out where
      1: "chan_send os (Slot i) ?t (Some (pobj ?ob)) b = Some b'" "length out = 3"
      "protobuf_c_message_pack (obj_desc ?ob) (obj_msg ?ob) = Some out"
      "trace b' = trace b @ [sl_Send (ch_fd c) (int (length (payload ?t out))) (payload ?t out)]" "same_tables b b'"
      by auto
    moreover have "main_message os BUTTON_PRESSED (Some i, b) = Some (Some i, b')"
      using 1(1) by (simp add: message_defs)
    moreover have "nais_unmarshall (drop 1 (payload ?t out)) = Some (?t, Some (obj_msg ?ob))"
      using unmarshall_frame [OF wf 1(3), of ?t "[]"] 1(2) by (simp add: carries_def)
    ultimately show ?thesis by (auto simp: same_tables_def)
  qed
  with c(1) f show ?thesis by auto
qed

text \<open>
  C15: A message about the network, or that it is time to retry, leaves the application with a channel that
  sends, or with its retry timer set, for 2 seconds and its own thread, as the last thing it did: however
  the attempt fails, another follows.
\<close>

theorem connects_or_retries:
  assumes "app_reachable os (ch, pc, b)" "type \<in> {SBAPI_IP_ACQUIRED, BOCIA_SOCK_CLOSED, RETRY_TO_CONNECT}"
    and "main_message os type (ch, b) = Some (ch', b')"
  shows "app_reachable os (ch', pc, b') \<and>
    (\<forall>i. ch' = Some i \<longrightarrow> (\<exists>c. get_chan (Slot i) b' = Some c \<and> send c \<noteq> None \<and> handler c \<noteq> None)) \<and>
    (ch' = None \<longrightarrow> (\<exists>b1. bocia_init os None b = Some (None, b1) \<and>
       trace b' = trace b1 @ [thread_getpid, xtimer_set_msg 2000000 9000 (rc (fst (os thread_getpid (world b1))))]))"
proof -
  have r: "app_reachable os (ch', pc, b')"
    using assms(1) by (rule app_reachable.step) (rule app_step.message, rule assms(3))
  from assms(2,3) have "app_init os b = Some (ch', b')" by (auto simp: message_defs)
  note 1 = app_init_cases [OF this]
  have "\<exists>c. get_chan (Slot i) b' = Some c \<and> send c \<noteq> None \<and> handler c \<noteq> None" if "ch' = Some i" for i
  proof -
    define c where "c = fd_map b' ! i"
    from 1 that have c: "get_chan (Slot i) b' = Some c" "c \<in> set (fd_map b')" "send c \<noteq> None"
      by (auto simp: senders_def get_chan_def rd_def c_def)
    from app_reachable_ok [OF r] c(2) have "core_ok (core c)"
      by (simp add: app_ok_def board_ok_def tables_ok_def view_ok_def view_def list_all_iff)
    with c show ?thesis by (auto simp: core_ok_def core_def)
  qed
  moreover have "\<exists>b1. bocia_init os None b = Some (None, b1) \<and>
       trace b' = trace b1 @ [thread_getpid, xtimer_set_msg 2000000 9000 (rc (fst (os thread_getpid (world b1))))]" if "ch' = None"
    using 1 that by (auto simp: RETRY_TO_CONNECT_def)
  ultimately show ?thesis using r by blast
qed

lemma get_config_fds: "bocia_get_config os b = Some (r, b') \<Longrightarrow> fd_map b' = fd_map b"
  by (auto simp: bocia_get_config_def bocia_read_cfg_def Let_def split_beta bind_eq_Some_conv split: option.splits if_splits)

text \<open>An attempt with the configuration \<open>cfg\<close> for TCP, when the network lets the socket connect.\<close>

lemma attempt_connects:
  assumes "bocia_get_config os b = Some (Some (obj_msg (OConfig cfg)), b1)" "stored_config b1 = Some (obj_msg (OConfig cfg))"
    and "network cfg = Heap net" "chars net = BOCIA_NETWORK_FOR_TCP" "host cfg = Heap h"
    and "find_free (fd_map b) 0 = Some i"
    and "\<And>w. rc (fst (os (sl_Socket 0) w)) = sock" "0 \<le> sock" "\<And>w a p. 0 \<le> rc (fst (os (sl_Connect sock a p) w))"
    and "\<And>w. out_word (fst (os (sl_NetAppDnsGetHostByName (chars h)) w)) = address" "\<And>w. rc (fst (os thread_getpid w)) = pid"
  shows "\<exists>b'. app_init os b = Some (Some i, b') \<and>
    trace b' = trace b1 @ [sl_NetAppDnsGetHostByName (chars h), sl_Socket 0,
      sl_Connect sock (sl_Htonl address) (sl_Htons (ucast (port cfg))), thread_getpid] \<and>
    fd_map b' = (fd_map b)[i := (fd_map b ! i)
      \<lparr>ch_fd := sock, target_pid := pid, handler := Some H_tcp_receive, send := Some S_tcp\<rparr>] \<and> \<not> mutex b'"
proof -
  let ?cfg = "obj_msg (OConfig cfg)"
  have fd: "fd_map b1 = fd_map b" using assms(1) by (rule get_config_fds)
  have m: "cfg_host ?cfg = Some (Heap h)" "cfg_network ?cfg = Some (Heap net)" "map_option snd (cfg_port ?cfg) = Some (port cfg)"
    using assms(3,5) by (simp_all add: text_member_def int_member_def member_def obj_msg_def config_cells_def rd_def)
  then obtain has where pt: "cfg_port ?cfg = Some (has, port cfg)" by (cases "cfg_port ?cfg") auto
  let ?b2 = "snd (sys os (sl_NetAppDnsGetHostByName (chars h)) b1)"
  let ?b3 = "snd (sys os (sl_Socket 0) ?b2)"
  let ?b4 = "snd (sys os (sl_Connect sock (sl_Htonl address) (sl_Htons (ucast (port cfg)))) ?b3)"
  let ?b5 = "snd (sys os thread_getpid ?b4)"
  note replies = assms(7-11)
  have "bocia_tcp_connect os (Heap h) (ucast (port cfg)) b1 = Some (sock, ?b4)"
    using replies by (simp add: bocia_tcp_connect_def Let_def split_beta sys_reply not_less)
  then have "bocia_tcp_init os None b1 =
      Some (bocia_register_handlers sock pid (Some H_tcp_receive) (Some S_tcp) ?b5)"
    using assms(2) m(1) pt replies(2,5)
    by (simp add: bocia_tcp_init_def the_config_def bocia_get_config_def split_beta sys_reply not_less)
  then have "bocia_init os None b = Some (bocia_register_handlers sock pid (Some H_tcp_receive) (Some S_tcp) ?b5)"
    using assms(1,4) m(1,2) by (simp add: bocia_init_def the_config_def)
  then have "app_init os b = Some (Some i, snd (bocia_register_handlers sock pid (Some H_tcp_receive) (Some S_tcp) ?b5))"
    using assms(6) fd by (simp add: app_init_def bocia_register_handlers_def)
  then show ?thesis using assms(6) fd
    by (intro exI conjI) (assumption, simp_all add: bocia_register_handlers_def sys_trace)
qed

lemma configured_connects:
  assumes "flash_ok os flash hnd" "length (cfg_buff b) = 128" "stored_config b = None" "wf_obj (OConfig cfg)"
    and "protobuf_c_message_pack config__descriptor (obj_msg (OConfig cfg)) = Some out" "length out \<le> 128"
    and "flash (world b) BOCIA_CFG_FILE = Some out"
    and "network cfg = Heap net" "chars net = BOCIA_NETWORK_FOR_TCP" "host cfg = Heap h"
    and "find_free (fd_map b) 0 = Some i"
    and "\<And>w. rc (fst (os (sl_Socket 0) w)) = sock" "0 \<le> sock" "\<And>w a p. 0 \<le> rc (fst (os (sl_Connect sock a p) w))"
    and "\<And>w. out_word (fst (os (sl_NetAppDnsGetHostByName (chars h)) w)) = address" "\<And>w. rc (fst (os thread_getpid w)) = pid"
  shows "\<exists>b' b1. app_init os b = Some (Some i, b') \<and>
    bocia_get_config os b = Some (Some (obj_msg (OConfig cfg)), b1) \<and>
    trace b' = trace b1 @ [sl_NetAppDnsGetHostByName (chars h), sl_Socket 0,
      sl_Connect sock (sl_Htonl address) (sl_Htons (ucast (port cfg))), thread_getpid] \<and>
    fd_map b' = (fd_map b)[i := (fd_map b ! i)
      \<lparr>ch_fd := sock, target_pid := pid, handler := Some H_tcp_receive, send := Some S_tcp\<rparr>] \<and> \<not> mutex b'"
proof -
  from get_config_ok [OF assms(1-5,7,6)] obtain b1 where
    1: "bocia_get_config os b = Some (Some (obj_msg (OConfig cfg)), b1)" "stored_config b1 = Some (obj_msg (OConfig cfg))" by blast
  from attempt_connects [OF 1 assms(8-16)] 1(1) show ?thesis by blast
qed

text \<open>
  C14: When a configuration for TCP is in the file, there is a free entry and the network lets the socket
  connect, an attempt asks for the address of the host of the configuration, connects to its port there, both
  in network order, and makes the first free entry the channel, with the socket, the functions for TCP and
  the thread of the application.
\<close>

theorem connects_as_configured:
  assumes "flash_ok os flash hnd" "length (cfg_buff b) = 128" "stored_config b = None" "wf_obj (OConfig cfg)"
    and "protobuf_c_message_pack config__descriptor (obj_msg (OConfig cfg)) = Some out" "length out \<le> 128"
    and "flash (world b) BOCIA_CFG_FILE = Some out"
    and "network cfg = Heap net" "chars net = BOCIA_NETWORK_FOR_TCP" "host cfg = Heap h"
    and "find_free (fd_map b) 0 = Some i"
    and "\<And>w. rc (fst (os (sl_Socket 0) w)) = sock" "0 \<le> sock" "\<And>w a p. 0 \<le> rc (fst (os (sl_Connect sock a p) w))"
    and "\<And>w. out_word (fst (os (sl_NetAppDnsGetHostByName (chars h)) w)) = address" "\<And>w. rc (fst (os thread_getpid w)) = pid"
  shows "\<exists>b' b1. main_message os SBAPI_IP_ACQUIRED (ch, b) = Some (Some i, b') \<and>
    bocia_get_config os b = Some (Some (obj_msg (OConfig cfg)), b1) \<and>
    trace b' = trace b1 @ [sl_NetAppDnsGetHostByName (chars h), sl_Socket 0,
      sl_Connect sock (sl_Htonl address) (sl_Htons (ucast (port cfg))), thread_getpid] \<and>
    fd_map b' = (fd_map b)[i := (fd_map b ! i)
      \<lparr>ch_fd := sock, target_pid := pid, handler := Some H_tcp_receive, send := Some S_tcp\<rparr>] \<and> \<not> mutex b'"
  using configured_connects [OF assms] by (simp add: main_message_def)

lemma same_handler: "handler c = Some f \<Longrightarrow> c\<lparr>ch_fd := x, target_pid := p, handler := Some f, send := t\<rparr> =
    c\<lparr>ch_fd := x, target_pid := p, send := t\<rparr>"
  by (cases c) simp

lemma find_free_least:
  "i < length cs \<Longrightarrow> ch_fd (cs ! i) = 0 \<Longrightarrow> \<forall>j<i. ch_fd (cs ! j) \<noteq> 0 \<Longrightarrow> find_free cs k = Some (k + i)"
proof (induction cs arbitrary: i k)
  case (Cons c cs)
  show ?case
  proof (cases i)
    case (Suc m)
    with Cons.prems have "ch_fd c \<noteq> 0" "\<forall>j<m. ch_fd (cs ! j) \<noteq> 0" by auto
    with Cons.IH [of m "Suc k"] Cons.prems Suc show ?thesis by simp
  qed (use Cons.prems in simp)
qed simp

text \<open>
  C16: A lost TCP connection is replaced: when the peer of the channel goes away, the loop frees its entry and
  sends the thread that owns it a message, and the application that handles that message connects again, to
  the host of its configuration, and gets the same entry back with the new socket.
\<close>

theorem lost_connection_replaced:
  assumes "get_chan (Slot i) b = Some c" "handler c = Some H_tcp_receive"
    and "\<not> close_pending c" "ch_fd c \<in> set readfs" "ch_fd c \<noteq> 0"
    and "rc (fst (os (sl_Recv (ch_fd c) 256) (world b))) = 0" "out_bytes (fst (os (sl_Recv (ch_fd c) 256) (world b))) = []"
    and "stored_config b = Some (obj_msg (OConfig cfg))"
    and "network cfg = Heap net" "chars net = BOCIA_NETWORK_FOR_TCP" "host cfg = Heap h"
    and "\<forall>j<i. ch_fd (fd_map b ! j) \<noteq> 0"
    and "\<And>w. rc (fst (os (sl_Socket 0) w)) = sock" "0 \<le> sock" "\<And>w a p. 0 \<le> rc (fst (os (sl_Connect sock a p) w))"
    and "\<And>w. out_word (fst (os (sl_NetAppDnsGetHostByName (chars h)) w)) = address" "\<And>w. rc (fst (os thread_getpid w)) = pid"
  shows "\<exists>b1 b2. service os readfs i b = Some b1 \<and> last (trace b1) = msg_send BOCIA_SOCK_CLOSED (target_pid c) \<and>
    main_message os BOCIA_SOCK_CLOSED (ch, b1) = Some (Some i, b2) \<and>
    trace b2 = trace b1 @ [sl_NetAppDnsGetHostByName (chars h), sl_Socket 0,
      sl_Connect sock (sl_Htonl address) (sl_Htons (ucast (port cfg))), thread_getpid] \<and>
    fd_map b2 = (fd_map b)[i := c\<lparr>ch_fd := sock, target_pid := pid, send := Some S_tcp\<rparr>] \<and> \<not> mutex b2"
proof -
  from peer_gone [where os = os, OF assms(1-7)] obtain b1 where s: "service os readfs i b = Some b1" "i < length (fd_map b)"
    "fd_map b1 = (fd_map b)[i := c\<lparr>ch_fd := 0\<rparr>]" "stored_config b1 = stored_config b"
    "trace b1 = trace b @ [sl_Recv (ch_fd c) 256, sl_Close (ch_fd c), msg_send BOCIA_SOCK_CLOSED (target_pid c)]" by blast
  have free: "find_free (fd_map b1) 0 = Some i"
    using find_free_least [of i "fd_map b1" 0] s(2,3) assms(12) by simp
  have cfg: "bocia_get_config os b1 = Some (Some (obj_msg (OConfig cfg)), b1)" "stored_config b1 = Some (obj_msg (OConfig cfg))"
    using s(4) assms(8) by (simp_all add: bocia_get_config_def)
  from attempt_connects [OF cfg assms(9-11) free assms(13-17)] obtain b2 where
    "app_init os b1 = Some (Some i, b2)"
    "trace b2 = trace b1 @ [sl_NetAppDnsGetHostByName (chars h), sl_Socket 0,
      sl_Connect sock (sl_Htonl address) (sl_Htons (ucast (port cfg))), thread_getpid]"
    "fd_map b2 = (fd_map b1)[i := (fd_map b1 ! i)
      \<lparr>ch_fd := sock, target_pid := pid, handler := Some H_tcp_receive, send := Some S_tcp\<rparr>]" "\<not> mutex b2" by blast
  moreover from this(1) have "main_message os BOCIA_SOCK_CLOSED (ch, b1) = Some (Some i, b2)"
    by (simp add: message_defs)
  ultimately show ?thesis using s assms(2) by (intro exI [of _ b1] exI [of _ b2]) (simp add: same_handler)
qed

text \<open>
  Of the interrupts of one press, whose contact bounces so that each comes at most 200 ms after the one
  before, exactly the first sends the message, when it comes later than that after the interrupts before it;
  what follows later is judged from the last bounce.
\<close>

theorem press_debounced:
  assumes "interrupts ts previous = ms" "p = last (previous # ts)" "t - p > 16000000" "burst t us"
  shows "interrupts (ts @ t # us @ vs) previous = ms @ BUTTON_PRESSED # interrupts vs (last (t # us))"
proof -
  have "interrupts (ts @ xs) previous = interrupts ts previous @ interrupts xs (last (previous # ts))" for xs
    by (induction ts arbitrary: previous) (auto simp: button_sw3_pressed_def)
  with press_sent [OF assms(3,4)] assms(1,2) show ?thesis by simp
qed

section \<open>Witnesses\<close>

text \<open>
  The outside of theory \<^verbatim>\<open>Bocia\<close>, with its flash file system in memory, where every socket connects.
\<close>

definition tcp_config :: Config where
  "tcp_config = CONFIG__INIT\<lparr>network := Heap (ascii ''_tcp_''), board := Heap [2], host := Heap [3]\<rparr>"

lemma tcp_config_packed:
  "wf_obj (OConfig tcp_config)"
  "\<exists>out. protobuf_c_message_pack config__descriptor (obj_msg (OConfig tcp_config)) = Some out \<and> length out \<le> 128"
proof -
  show wf: "wf_obj (OConfig tcp_config)"
    by (simp add: tcp_config_def text_ok_def opt_ok_def CONFIG__INIT_def ascii_def)
  have size: "protobuf_c_message_get_packed_size config__descriptor (obj_msg (OConfig tcp_config)) = Some 13"
    by (simp add: descriptor_defs cells_defs obj_msg_def protobuf_c_message_get_packed_size_def CONFIG__INIT_def tcp_config_def
        field_get_packed_size_def required_field_get_packed_size_def optional_field_get_packed_size_def
        uint32_size_def get_tag_size_def word_less_nat_alt chars_def ascii_def)
  from wf_obj_payload [OF wf] obtain out where
    "protobuf_c_message_pack config__descriptor (obj_msg (OConfig tcp_config)) = Some out"
    "protobuf_c_message_get_packed_size config__descriptor (obj_msg (OConfig tcp_config)) = Some (length out)" by auto
  with size show "\<exists>out. protobuf_c_message_pack config__descriptor (obj_msg (OConfig tcp_config)) = Some out \<and> length out \<le> 128" by simp
qed

lemma ram_replies: "rc (fst (ram_os (sl_Socket 0) w)) = 0" "rc (fst (ram_os (sl_Connect 0 a p) w)) = 0"
  "out_word (fst (ram_os (sl_NetAppDnsGetHostByName n) w)) = 0" "rc (fst (ram_os thread_getpid w)) = 0"
  by (cases w; simp add: plain_reply_def)+

lemma tcp_config_members:
  "network tcp_config = Heap (ascii ''_tcp_'')" "chars (ascii ''_tcp_'') = BOCIA_NETWORK_FOR_TCP"
  "host tcp_config = Heap [3]" "port tcp_config = 1883"
  by (simp_all add: tcp_config_def BOCIA_NETWORK_FOR_TCP_def ascii_def chars_def CONFIG__INIT_def)

abbreviation ram_boot :: "byte list \<Rightarrow> ram_world board_state" where
  "ram_boot out \<equiv> boot ([BOCIA_CFG_FILE \<mapsto> out], \<lambda>_. None)"

lemma ram_boot_sel:
  "length (cfg_buff (ram_boot out)) = 128" "stored_config (ram_boot out) = None"
  "fst (world (ram_boot out)) BOCIA_CFG_FILE = Some out"
  "find_free (fd_map (ram_boot out)) 0 = Some 0" "0 < length (fd_map (ram_boot out))"
  by (simp_all add: boot_def SBAPI_SOCKETS_def numeral_eq_Suc no_channel_def)

theorem connects_as_configured_witness:
  "\<exists>out b' b1. main_message ram_os SBAPI_IP_ACQUIRED (None, ram_boot out) = Some (Some 0, b') \<and>
     trace b' = trace b1 @ [sl_NetAppDnsGetHostByName [3], sl_Socket 0, sl_Connect 0 0 0x5B07, thread_getpid] \<and>
     bocia_get_config ram_os (ram_boot out) = Some (Some (obj_msg (OConfig tcp_config)), b1) \<and>
     send (fd_map b' ! 0) = Some S_tcp"
proof -
  from tcp_config_packed obtain out where
    out: "protobuf_c_message_pack config__descriptor (obj_msg (OConfig tcp_config)) = Some out" "length out \<le> 128" by blast
  have "chars [3] = [3]" by (simp add: chars_def)
  with connects_as_configured [OF ram_flash_ok ram_boot_sel(1,2) tcp_config_packed(1) out ram_boot_sel(3) tcp_config_members(1-3)
      ram_boot_sel(4) ram_replies(1) _ _ _ ram_replies(4), of 0 None] ram_replies(2,3) tcp_config_members(4) ram_boot_sel(5)
  show ?thesis by (intro exI [of _ out]) (auto simp: sl_Htonl_def sl_Htons_def)
qed

theorem lost_connection_replaced_witness:
  "\<exists>b b1 b2. service (\<lambda>_ w. (plain_reply 0, w)) [5] 0 b = Some b1 \<and> last (trace b1) = msg_send 11 0 \<and>
     main_message (\<lambda>_ w. (plain_reply 0, w)) BOCIA_SOCK_CLOSED (Some 0, b1) = Some (Some 0, b2) \<and>
     last (trace b2) = thread_getpid \<and> b = tcp_board\<lparr>stored_config := Some (obj_msg (OConfig tcp_config))\<rparr>"
proof -
  let ?os = "\<lambda>_ w. (plain_reply 0, w) :: reply \<times> unit" and ?b = "tcp_board\<lparr>stored_config := Some (obj_msg (OConfig tcp_config))\<rparr>"
  have b: "get_chan (Slot 0) ?b = Some (no_channel\<lparr>ch_fd := 5, handler := Some H_tcp_receive, send := Some S_tcp\<rparr>)"
    by (simp add: tcp_board_def boot_def get_chan_def rd_def)
  from lost_connection_replaced [OF b _ _ _ _ _ _ _ tcp_config_members(1-3), of "[5]" ?os 0 0 0 "Some 0"]
  show ?thesis by (fastforce simp: plain_reply_def no_channel_def BOCIA_SOCK_CLOSED_def)
qed

theorem press_reaches_peer_witness:
  "\<exists>out b b' ack. app_init ram_os (ram_boot out) = Some (Some 0, b) \<and>
     main_message ram_os BUTTON_PRESSED (Some 0, b) = Some (Some 0, b') \<and>
     trace b' = trace b @ [sl_Send 0 (int (length ack)) ack] \<and>
     nais_unmarshall (drop 1 ack) = Some (\<lparr>pm_type = 6, dline = 0, flags = 0\<rparr>,
       Some (obj_msg (OEvent (EVENT__INIT\<lparr>e_id := 9001\<rparr>))))"
proof -
  from tcp_config_packed obtain out where
    out: "protobuf_c_message_pack config__descriptor (obj_msg (OConfig tcp_config)) = Some out" "length out \<le> 128" by blast
  from configured_connects [OF ram_flash_ok ram_boot_sel(1,2) tcp_config_packed(1) out ram_boot_sel(3) tcp_config_members(1-3)
      ram_boot_sel(4) ram_replies(1) _ _ _ ram_replies(4), of 0] ram_replies(2,3) ram_boot_sel(5)
  obtain b where b: "app_init ram_os (ram_boot out) = Some (Some 0, b)" "ch_fd (fd_map b ! 0) = 0" "send (fd_map b ! 0) = Some S_tcp"
    by fastforce
  have "main_message ram_os SBAPI_IP_ACQUIRED (None, ram_boot out) = Some (Some 0, b)" by (simp add: main_message_def b(1))
  then have "app_reachable ram_os (Some 0, Scan, b)"
    by (intro app_reachable.step [OF app_reachable.boot] app_step.message)
  from press_reaches_peer [OF this] b(2,3) obtain b' ack where
    "main_message ram_os BUTTON_PRESSED (Some 0, b) = Some (Some 0, b')" "trace b' = trace b @ [sl_Send 0 (int (length ack)) ack]"
    "nais_unmarshall (drop 1 ack) = Some (\<lparr>pm_type = 6, dline = 0, flags = 0\<rparr>,
       Some (obj_msg (OEvent (EVENT__INIT\<lparr>e_id := 9001\<rparr>))))"
    by (auto simp: get_chan_def rd_def split: if_splits)
  with b(1) show ?thesis by blast
qed

theorem connects_or_retries_witness:
  "\<exists>b b1. main_message (\<lambda>_ w. (plain_reply (-1), w)) SBAPI_IP_ACQUIRED (None, boot ()) = Some (None, b) \<and>
     trace b = trace b1 @ [thread_getpid, xtimer_set_msg 2000000 9000 (-1)] \<and>
     bocia_init (\<lambda>_ w. (plain_reply (-1), w)) None (boot ()) = Some (None, b1)"
proof -
  let ?os = "\<lambda>_ w. (plain_reply (-1), w) :: reply \<times> unit"
  have "\<exists>b. main_message ?os SBAPI_IP_ACQUIRED (None, boot ()) = Some (None, b)"
    by (simp add: main_message_def app_init_def bocia_init_def the_config_def bocia_get_config_def bocia_read_cfg_def
        boot_def sys_def plain_reply_def Let_def)
  then obtain b where b: "main_message ?os SBAPI_IP_ACQUIRED (None, boot ()) = Some (None, b)" by blast
  from connects_or_retries [OF app_reachable.boot _ b] b show ?thesis by (auto simp: plain_reply_def)
qed

text \<open>The red and the green LED are switched on and the yellow one off, on the pins the board starts with.\<close>

lemma leds_are_outputs: "\<exists>g. led_init idle_pins = Some g \<and> (\<forall>k\<in>{9, 10, 11}. is_output k g)"
proof -
  have "map_option (\<lambda>g. is_output 9 g \<and> is_output 10 g \<and> is_output 11 g) (led_init idle_pins) = Some True" by code_simp
  then show ?thesis by auto
qed

abbreviation led_command :: Command where
  "led_command \<equiv> COMMAND__INIT\<lparr>c_id := 1, c_ivals := [7, 5]\<rparr>"

theorem led_command_answered_witness:
  "\<exists>seg g b' ack stat. led_init idle_pins = Some g \<and>
     bocia_tcp_receive (with_app (segment_os seg)) (Slot 0) ((boot (g, ()))\<lparr>fd_map := fd_map tcp_board\<rparr>) = Some b' \<and>
     gpio_read LED_RED (fst (world b')) = Some 1 \<and> gpio_read LED_YELLOW (fst (world b')) = Some 0 \<and>
     gpio_read LED_GREEN (fst (world b')) = Some 1 \<and>
     nais_unmarshall (drop 1 ack) = Some (\<lparr>pm_type = 3, dline = 0, flags = 0\<rparr>,
       Some (obj_msg (OAck \<lparr>a_id = 10, a_has_seq = 0, a_seq = 0, has_status = 1, status = stat\<rparr>))) \<and>
     last (trace b') = sl_Send 5 (int (length ack)) ack \<and> bit stat 0 \<and> \<not> bit stat 1 \<and> bit stat 2"
proof -
  let ?ob = "OCommand led_command" and ?t = "\<lparr>pm_type = 10, dline = 0, flags = 0\<rparr>"
  from leds_are_outputs obtain g where g: "led_init idle_pins = Some g" "\<forall>k\<in>{9, 10, 11}. is_output k g" by blast
  have wf: "wf_obj ?ob" by (simp add: COMMAND__INIT_def opt_ok_def)
  have size: "protobuf_c_message_get_packed_size (obj_desc ?ob) (obj_msg ?ob) = Some 6"
    by (simp add: descriptor_defs cells_defs obj_msg_def protobuf_c_message_get_packed_size_def COMMAND__INIT_def
        field_get_packed_size_def required_field_get_packed_size_def optional_field_get_packed_size_def
        repeated_field_get_packed_size_def array_cell_def int32_size_def elements_def get_tag_size_def word_less_nat_alt)
  from wf_obj_payload [OF wf] obtain out where out: "protobuf_c_message_pack (obj_desc ?ob) (obj_msg ?ob) = Some out"
    "protobuf_c_message_get_packed_size (obj_desc ?ob) (obj_msg ?ob) = Some (length out)" by blast
  with size have n: "length out = 6" by simp
  let ?pl = "payload ?t out" and ?b = "(boot (g, ()))\<lparr>fd_map := fd_map tcp_board\<rparr>"
  have l: "length ?pl \<le> 256" using n by (simp add: length_payload length_nais_header b128_small)
  then have m: "nais_marshall ?t ?ob (replicate 256 0) = Some (int (length ?pl), ?pl @ drop (length ?pl) (replicate 256 0))"
    by (simp add: marshall_payload [OF out])
  have b: "get_chan (Slot 0) ?b = Some (no_channel\<lparr>ch_fd := 5, handler := Some H_tcp_receive, send := Some S_tcp\<rparr>)"
    "length (tcp_buff ?b) = 256" "length (protobuf ?b) = 256" "world ?b = (g, ())"
    by (simp_all add: tcp_board_def boot_def get_chan_def rd_def)
  have v: "c_ivals led_command = [7, 5]" "flags ?t AND 1 = 0" "pm_type ?t = LEDS_COMMAND" by (simp_all add: LEDS_COMMAND_def)
  from led_command_answered [OF b(1) _ b(2,3) wf v size _ m b(4) g(2), where os = "segment_os ?pl" and
      ?r1.0 = "(plain_reply (int (length ?pl)))\<lparr>out_bytes := ?pl\<rparr>" and ?w1.0 = "()"]
  obtain b' ack stat where r: "bocia_tcp_receive (with_app (segment_os ?pl)) (Slot 0) ?b = Some b'"
    "\<forall>(d, k, i)\<in>set leds. gpio_read d (fst (world b')) = Some (if led_level k i 7 5 g then 1 else 0) \<and>
      bit stat i = led_level k i 7 5 g"
    "last (trace b') = sl_Send 5 (int (length ack)) ack"
    "nais_unmarshall (drop 1 ack) = Some (\<lparr>pm_type = 3, dline = 0, flags = 0\<rparr>,
       Some (obj_msg (OAck \<lparr>a_id = 10, a_has_seq = 0, a_seq = 0, has_status = 1, status = stat\<rparr>)))"
    by (auto simp: plain_reply_def)
  have "led_level k 0 7 5 g" "\<not> led_level k 1 7 5 g" "led_level k 2 7 5 g" for k
    by (simp_all add: led_level_def bit_iff_odd)
  with r(2) have "gpio_read LED_RED (fst (world b')) = Some 1" "gpio_read LED_YELLOW (fst (world b')) = Some 0"
    "gpio_read LED_GREEN (fst (world b')) = Some 1" "bit stat 0" "\<not> bit stat 1" "bit stat 2"
    by (simp_all add: leds_def LED_RED_BIT_def LED_YELLOW_BIT_def LED_GREEN_BIT_def)
  with g(1) r(1,3,4) show ?thesis by blast
qed

end
