(* ===== verification/Spi.thy ===== *)
theory Spi
  imports Gpio Osi_Riot
begin

text \<open>
  The SPI driver, \<^verbatim>\<open>burba/cpu/cc3200/periph/spi.c\<close>, with the functions of the peripheral library it calls
  (\<^verbatim>\<open>sdk/driverlib/spi.c\<close>), and the peripheral as far as they use it: its control registers, and a shift
  register that exchanges one word with the device on the bus.

  The device is a parameter, a function from the word it is sent to the word it sends and its new state; so
  are the values of the registers after a reset. The mutex is the kernel's, a parameter as in theory
  \<^verbatim>\<open>Osi_Riot\<close>. Memory that is not set before it is read is a parameter \<open>junk\<close>. Assertions are compiled.
\<close>

section \<open>The peripheral\<close>

definition MCSPI_O_SYSCONFIG :: u32 where "MCSPI_O_SYSCONFIG = 0x110"
definition MCSPI_O_MODULCTRL :: u32 where "MCSPI_O_MODULCTRL = 0x128"
definition MCSPI_O_CH0CONF :: u32 where "MCSPI_O_CH0CONF = 0x12C"
definition MCSPI_O_CH0CTRL :: u32 where "MCSPI_O_CH0CTRL = 0x134"

definition MCSPI_MODULCTRL_MS :: u32 where "MCSPI_MODULCTRL_MS = 4"
definition MCSPI_MODULCTRL_SINGLE :: u32 where "MCSPI_MODULCTRL_SINGLE = 1"
definition MCSPI_CH0CTRL_EN :: u32 where "MCSPI_CH0CTRL_EN = 1"
definition MCSPI_CH0CONF_CLKG :: u32 where "MCSPI_CH0CONF_CLKG = 0x20000000"
definition MCSPI_CH0CONF_FORCE :: u32 where "MCSPI_CH0CONF_FORCE = 0x100000"
definition MCSPI_CH0CONF_TURBO :: u32 where "MCSPI_CH0CONF_TURBO = 0x80000"
definition MCSPI_CH0CONF_WL_M :: u32 where "MCSPI_CH0CONF_WL_M = 0xF80"
definition MCSPI_CH0CONF_EPOL :: u32 where "MCSPI_CH0CONF_EPOL = 0x40"
definition MCSPI_CH0CONF_POL :: u32 where "MCSPI_CH0CONF_POL = 2"
definition MCSPI_CH0CONF_PHA :: u32 where "MCSPI_CH0CONF_PHA = 1"

definition SPI_MODE_MASTER :: u32 where "SPI_MODE_MASTER = 0"
definition SPI_HW_CTRL_CS :: u32 where "SPI_HW_CTRL_CS = 0"
definition SPI_4PIN_MODE :: u32 where "SPI_4PIN_MODE = 0"
definition SPI_TURBO_OFF :: u32 where "SPI_TURBO_OFF = 0"
definition SPI_CS_ACTIVELOW :: u32 where "SPI_CS_ACTIVELOW = 0x40"
definition SPI_WL_8 :: u32 where "SPI_WL_8 = 0x380"
definition SPI_WL_16 :: u32 where "SPI_WL_16 = 0x780"
definition SPI_WL_32 :: u32 where "SPI_WL_32 = 0xF80"
definition SPI_CS_ENABLE :: u32 where "SPI_CS_ENABLE = 1"
definition SPI_CS_DISABLE :: u32 where "SPI_CS_DISABLE = 2"

record ('p, 'm) spi_state =
  spi_reg :: "u32 \<Rightarrow> u32"
  spi_rx :: "u32 option"
  bus_device :: 'p
  gspi_clock :: bool
  spi_pin :: "nat \<Rightarrow> (nat \<times> u32 \<times> u32) option"
  lock :: 'm

type_synonym 'p device = "u32 \<Rightarrow> 'p \<Rightarrow> u32 \<times> 'p"

definition set_reg :: "u32 \<Rightarrow> u32 \<Rightarrow> ('p, 'm) spi_state \<Rightarrow> ('p, 'm) spi_state" where
  "set_reg r v s = s\<lparr>spi_reg := (spi_reg s)(r := v)\<rparr>"

text \<open>The number of bits of a word, as the configuration register has it.\<close>

definition word_bits :: "('p, 'm) spi_state \<Rightarrow> nat" where
  "word_bits s = unat (drop_bit 7 (spi_reg s MCSPI_O_CH0CONF AND MCSPI_CH0CONF_WL_M)) + 1"

text \<open>
  Writing the transmit register of a channel that is enabled exchanges a word; the transmit register is then
  empty again and the receive register full. A channel that is not enabled shifts nothing.
\<close>

definition write_tx :: "'p device \<Rightarrow> u32 \<Rightarrow> ('p, 'm) spi_state \<Rightarrow> ('p, 'm) spi_state" where
  "write_tx dev w s =
     (if spi_reg s MCSPI_O_CH0CTRL AND MCSPI_CH0CTRL_EN \<noteq> 0
      then (case dev (take_bit (word_bits s) w) (bus_device s) of
              (r, p) \<Rightarrow> s\<lparr>bus_device := p, spi_rx := Some (take_bit (word_bits s) r)\<rparr>)
      else s)"

text \<open>
  One round of the transfer loops: waiting for the transmit register, writing it, waiting for the receive
  register, reading it. \<^term>\<open>None\<close> when the second loop never ends.
\<close>

definition exchange :: "'p device \<Rightarrow> u32 \<Rightarrow> ('p, 'm) spi_state \<Rightarrow> (u32 \<times> ('p, 'm) spi_state) option" where
  "exchange dev w s = (let s = write_tx dev w s in map_option (\<lambda>r. (r, s\<lparr>spi_rx := None\<rparr>)) (spi_rx s))"

section \<open>Transfers\<close>

text \<open>Element \<open>i\<close> of an array of words of \<open>k\<close> bytes, which are in the order of significance.\<close>

definition load_word :: "nat \<Rightarrow> byte list \<Rightarrow> nat \<Rightarrow> u32 option" where
  "load_word k m i =
     (if Suc i * k \<le> length m
      then Some (foldr (\<lambda>b w. push_bit 8 w OR ucast b) (take k (drop (i * k) m)) 0) else None)"

definition store_word :: "nat \<Rightarrow> byte list \<Rightarrow> nat \<Rightarrow> u32 \<Rightarrow> byte list option" where
  "store_word k m i w = wr_block m (i * k) (map (\<lambda>j. ucast (drop_bit (8 * j) w)) [0..<k])"

text \<open>The loop over \<open>n\<close> words of \<open>k\<close> bytes from word \<open>i\<close>. A null pointer sends ones, or drops what is received.\<close>

fun transfer_loop ::
  "nat \<Rightarrow> 'p device \<Rightarrow> nat \<Rightarrow> nat \<Rightarrow> byte list option \<Rightarrow> byte list option \<Rightarrow> ('p, 'm) spi_state \<Rightarrow>
     (byte list option \<times> ('p, 'm) spi_state) option" where
  "transfer_loop k dev 0 i dout din s = Some (din, s)"
| "transfer_loop k dev (Suc n) i dout din s =
     do {
       w \<leftarrow> (case dout of None \<Rightarrow> Some (mask (8 * k)) | Some m \<Rightarrow> load_word k m i);
       (r, s) \<leftarrow> exchange dev w s;
       din \<leftarrow> (case din of None \<Rightarrow> Some None | Some m \<Rightarrow> map_option Some (store_word k m i r));
       transfer_loop k dev n (Suc i) dout din s
     }"

text \<open>The three functions for words of 1, 2 and 4 bytes are the same but for the size of the words.\<close>

definition SPITransferWords ::
  "nat \<Rightarrow> 'p device \<Rightarrow> byte list option \<Rightarrow> byte list option \<Rightarrow> u32 \<Rightarrow> u32 \<Rightarrow> ('p, 'm) spi_state \<Rightarrow>
     (int \<times> byte list option \<times> ('p, 'm) spi_state) option" where
  "SPITransferWords k dev dout din ulCount ulFlags s =
     (if unat ulCount mod k \<noteq> 0 then Some (-1, din, s)
      else do {
        let s = (if ulFlags AND SPI_CS_ENABLE \<noteq> 0
                 then set_reg MCSPI_O_CH0CONF (spi_reg s MCSPI_O_CH0CONF OR MCSPI_CH0CONF_FORCE) s else s);
        (din, s) \<leftarrow> transfer_loop k dev (unat ulCount div k) 0 dout din s;
        Some (0, din, if ulFlags AND SPI_CS_DISABLE \<noteq> 0
                 then set_reg MCSPI_O_CH0CONF (spi_reg s MCSPI_O_CH0CONF AND NOT MCSPI_CH0CONF_FORCE) s else s)
      })"

definition SPITransfer8 :: "'p device \<Rightarrow> byte list option \<Rightarrow> byte list option \<Rightarrow> u32 \<Rightarrow> u32 \<Rightarrow> ('p, 'm) spi_state \<Rightarrow>
     (int \<times> byte list option \<times> ('p, 'm) spi_state) option" where
  "SPITransfer8 = SPITransferWords 1"

definition SPITransfer16 :: "'p device \<Rightarrow> byte list option \<Rightarrow> byte list option \<Rightarrow> u32 \<Rightarrow> u32 \<Rightarrow> ('p, 'm) spi_state \<Rightarrow>
     (int \<times> byte list option \<times> ('p, 'm) spi_state) option" where
  "SPITransfer16 = SPITransferWords 2"

definition SPITransfer32 :: "'p device \<Rightarrow> byte list option \<Rightarrow> byte list option \<Rightarrow> u32 \<Rightarrow> u32 \<Rightarrow> ('p, 'm) spi_state \<Rightarrow>
     (int \<times> byte list option \<times> ('p, 'm) spi_state) option" where
  "SPITransfer32 = SPITransferWords 4"

definition SPITransfer ::
  "'p device \<Rightarrow> byte list option \<Rightarrow> byte list option \<Rightarrow> u32 \<Rightarrow> u32 \<Rightarrow> ('p, 'm) spi_state \<Rightarrow>
     (int \<times> byte list option \<times> ('p, 'm) spi_state) option" where
  "SPITransfer dev dout din ulCount ulFlags s =
     (let ulWordLength = spi_reg s MCSPI_O_CH0CONF AND MCSPI_CH0CONF_WL_M in
      if ulWordLength \<notin> {SPI_WL_8, SPI_WL_16, SPI_WL_32} then Some (-1, din, s)
      else if ulWordLength = SPI_WL_8 then SPITransfer8 dev dout din ulCount ulFlags s
      else if ulWordLength = SPI_WL_16 then SPITransfer16 dev dout din ulCount ulFlags s
      else SPITransfer32 dev dout din ulCount ulFlags s)"

section \<open>Configuration\<close>

definition SPIReset :: "(u32 \<Rightarrow> u32) \<Rightarrow> ('p, 'm) spi_state \<Rightarrow> ('p, 'm) spi_state" where
  "SPIReset reset_values s = s\<lparr>spi_reg := reset_values, spi_rx := None\<rparr>"

definition SPIEnable :: "('p, 'm) spi_state \<Rightarrow> ('p, 'm) spi_state" where
  "SPIEnable s = set_reg MCSPI_O_CH0CTRL (spi_reg s MCSPI_O_CH0CTRL OR MCSPI_CH0CTRL_EN) s"

definition SPIConfigSetExpClk ::
  "u32 \<Rightarrow> u32 \<Rightarrow> u32 \<Rightarrow> u32 \<Rightarrow> u32 \<Rightarrow> ('p, 'm) spi_state \<Rightarrow> ('p, 'm) spi_state" where
  "SPIConfigSetExpClk ulSPIClk ulBitRate ulMode ulSubMode ulConfig s =
     (let ulRegData = spi_reg s MCSPI_O_MODULCTRL AND NOT (MCSPI_MODULCTRL_MS OR MCSPI_MODULCTRL_SINGLE);
          ulRegData = ulRegData OR ((drop_bit 24 ulConfig OR ulMode) AND 0xFF);
          s = set_reg MCSPI_O_MODULCTRL ulRegData s;
          ulRegData = (if ulMode = SPI_MODE_MASTER then 0x10000 else 0x60000);
          ulRegData = ulRegData AND NOT (MCSPI_CH0CONF_WL_M OR MCSPI_CH0CONF_EPOL OR MCSPI_CH0CONF_POL
                                         OR MCSPI_CH0CONF_PHA OR MCSPI_CH0CONF_TURBO) OR MCSPI_CH0CONF_CLKG;
          ulDivider = ulSPIClk div ulBitRate - 1;
          ulRegData = ulRegData OR push_bit 2 (ulDivider AND 0xF);
          s = set_reg MCSPI_O_CH0CTRL (push_bit 4 (ulDivider AND 0xFF0)) s;
          ulRegData = (ulRegData OR ulSubMode) OR (ulConfig AND 0x8FFFF)
      in set_reg MCSPI_O_CH0CONF ulRegData s)"

section \<open>The driver\<close>

definition SPI_NUMOF :: nat where "SPI_NUMOF = 1"
definition SPI_0_PIN_SCK :: nat where "SPI_0_PIN_SCK = 7"
definition SPI_0_PIN_MISO :: nat where "SPI_0_PIN_MISO = 14"
definition SPI_0_PIN_MOSI :: nat where "SPI_0_PIN_MOSI = 15"
definition XTAL_CLK :: u32 where "XTAL_CLK = 40000000"
definition SPI_BITRATE_1MHZ :: u32 where "SPI_BITRATE_1MHZ = 1000000"
definition PIN_MODE_7 :: nat where "PIN_MODE_7 = 7"
definition PIN_STRENGTH_4MA :: u32 where "PIN_STRENGTH_4MA = 0x40"

definition PinTypeSPI :: "nat \<Rightarrow> nat \<Rightarrow> ('p, 'm) spi_state \<Rightarrow> ('p, 'm) spi_state" where
  "PinTypeSPI pin m s = s\<lparr>spi_pin := (spi_pin s)(pin \<mapsto> (m, PIN_STRENGTH_2MA OR PIN_STRENGTH_4MA, PIN_TYPE_STD))\<rparr>"

definition spi_init :: "(u32 \<Rightarrow> u32) \<Rightarrow> nat \<Rightarrow> ('p, 'm) spi_state \<Rightarrow> ('p, 'm) spi_state option" where
  "spi_init reset_values bus s =
     (if bus < SPI_NUMOF
      then do {
        sck \<leftarrow> rd digital_pin_to_pin_num SPI_0_PIN_SCK;
        miso \<leftarrow> rd digital_pin_to_pin_num SPI_0_PIN_MISO;
        mosi \<leftarrow> rd digital_pin_to_pin_num SPI_0_PIN_MOSI;
        let s = s\<lparr>gspi_clock := True\<rparr>;
        let s = PinTypeSPI sck PIN_MODE_7 s;
        let s = PinTypeSPI miso PIN_MODE_7 s;
        let s = PinTypeSPI mosi PIN_MODE_7 s;
        let s = SPIReset reset_values s;
        let s = SPIConfigSetExpClk XTAL_CLK SPI_BITRATE_1MHZ SPI_MODE_MASTER 0
                  (SPI_HW_CTRL_CS OR SPI_4PIN_MODE OR SPI_TURBO_OFF OR SPI_CS_ACTIVELOW OR SPI_WL_8) s;
        Some (SPIEnable s)
      } else None)"

definition spi_conf_pins :: "nat \<Rightarrow> ('p, 'm) spi_state \<Rightarrow> (int \<times> ('p, 'm) spi_state) option" where
  "spi_conf_pins dev s =
     (if dev \<ge> SPI_NUMOF then Some (-1, s)
      else do { miso \<leftarrow> rd digital_pin_to_pin_num SPI_0_PIN_MISO; Some (0, PinTypeSPI miso PIN_MODE_7 s) })"

text \<open>\<open>SPI_OK\<close> is 0.\<close>

definition spi_acquire :: "('l, 'm, 't) riot \<Rightarrow> 't \<Rightarrow> nat \<Rightarrow> ('p, 'm) spi_state \<Rightarrow> (int \<times> ('p, 'm) spi_state) call option" where
  "spi_acquire L t bus s =
     (if bus < SPI_NUMOF
      then Some (let (has, m) = mutex_lock L t (lock s) in
                 if has then Goes (0, s\<lparr>lock := m\<rparr>) else Suspends (0, s\<lparr>lock := m\<rparr>))
      else None)"

text \<open>With the thread that waited for the bus and has it now.\<close>

definition spi_release :: "('l, 'm, 't) riot \<Rightarrow> nat \<Rightarrow> ('p, 'm) spi_state \<Rightarrow> ('t option \<times> ('p, 'm) spi_state) option" where
  "spi_release L bus s =
     (if bus < SPI_NUMOF then Some (let (next, m) = mutex_unlock L (lock s) in (next, s\<lparr>lock := m\<rparr>)) else None)"

definition spi_transfer_bytes ::
  "'p device \<Rightarrow> nat \<Rightarrow> byte list option \<Rightarrow> byte list option \<Rightarrow> u32 \<Rightarrow> ('p, 'm) spi_state \<Rightarrow>
     (byte list option \<times> ('p, 'm) spi_state) option" where
  "spi_transfer_bytes dev bus out inp len s =
     (if bus < SPI_NUMOF then do { (_, inp, s) \<leftarrow> SPITransfer dev out inp len 0 s; Some (inp, s) } else None)"

definition spi_transfer_byte ::
  "'p device \<Rightarrow> byte \<Rightarrow> nat \<Rightarrow> byte \<Rightarrow> ('p, 'm) spi_state \<Rightarrow> (byte \<times> ('p, 'm) spi_state) option" where
  "spi_transfer_byte dev junk bus out s =
     do {
       (inp, s) \<leftarrow> spi_transfer_bytes dev bus (Some [out]) (Some [junk]) 1 s;
       m \<leftarrow> inp;
       b \<leftarrow> rd m 0;
       Some (b, s)
     }"

definition spi_transfer_regs ::
  "'p device \<Rightarrow> nat \<Rightarrow> byte \<Rightarrow> byte list option \<Rightarrow> byte list option \<Rightarrow> u32 \<Rightarrow> ('p, 'm) spi_state \<Rightarrow>
     (byte list option \<times> ('p, 'm) spi_state) option" where
  "spi_transfer_regs dev bus r out inp len s =
     (if bus < SPI_NUMOF
      then do {
        (_, _, s) \<leftarrow> SPITransfer dev (Some [r]) None 1 0 s;
        (rc, inp, s) \<leftarrow> SPITransfer dev out inp len 0 s;
        if rc \<noteq> 0 then None else Some (inp, s)
      } else None)"

definition spi_transfer_reg ::
  "'p device \<Rightarrow> byte \<Rightarrow> nat \<Rightarrow> byte \<Rightarrow> byte \<Rightarrow> ('p, 'm) spi_state \<Rightarrow> (byte \<times> ('p, 'm) spi_state) option" where
  "spi_transfer_reg dev junk bus r out s =
     (if bus < SPI_NUMOF
      then do {
        (_, _, s) \<leftarrow> SPITransfer dev (Some [r]) None 1 0 s;
        (rc, inp, s) \<leftarrow> SPITransfer dev (Some [out]) (Some [junk]) 1 0 s;
        m \<leftarrow> inp;
        b \<leftarrow> rd m 0;
        if rc \<noteq> 0 then None else Some (b, s)
      } else None)"

section \<open>What the bus carries\<close>

text \<open>The exchange of bytes, one after the other, with the device in the state \<open>p\<close>.\<close>

fun shift :: "'p device \<Rightarrow> byte list \<Rightarrow> 'p \<Rightarrow> byte list \<times> 'p" where
  "shift dev [] p = ([], p)"
| "shift dev (b # bs) p = (case dev (ucast b) p of (r, p) \<Rightarrow> case shift dev bs p of (rs, p) \<Rightarrow> (ucast r # rs, p))"

lemma shift_length: "length (fst (shift dev bs p)) = length bs"
proof (induction bs arbitrary: p)
  case (Cons b bs)
  from Cons.IH [of "snd (dev (ucast b) p)"] show ?case by (simp add: split_beta)
qed simp

text \<open>A driver that is set up: words of 8 bits, the channel enabled, and nothing left to be read.\<close>

definition spi_ready :: "('p, 'm) spi_state \<Rightarrow> bool" where
  "spi_ready s \<longleftrightarrow> spi_reg s MCSPI_O_CH0CONF AND MCSPI_CH0CONF_WL_M = SPI_WL_8 \<and>
     spi_reg s MCSPI_O_CH0CTRL AND MCSPI_CH0CTRL_EN \<noteq> 0 \<and> spi_rx s = None"

lemma ready_device: "spi_ready (s\<lparr>bus_device := p\<rparr>) = spi_ready s"
  by (simp add: spi_ready_def)

lemma exchange_ready:
  assumes "spi_ready s"
  shows "exchange dev w s = (case dev (take_bit 8 w) (bus_device s) of (r, p) \<Rightarrow> Some (take_bit 8 r, s\<lparr>bus_device := p\<rparr>))"
proof -
  have "word_bits s = 8" using assms by (simp add: word_bits_def spi_ready_def SPI_WL_8_def)
  moreover have "s\<lparr>bus_device := p, spi_rx := None\<rparr> = s\<lparr>bus_device := p\<rparr>" for p
    using assms by (cases s) (simp add: spi_ready_def)
  ultimately show ?thesis
    using assms by (simp add: exchange_def write_tx_def spi_ready_def Let_def split: prod.splits)
qed

lemma load_byte: "i < length m \<Longrightarrow> load_word 1 m i = Some (ucast (m ! i))"
  by (simp add: load_word_def Cons_nth_drop_Suc [symmetric])

lemma store_byte: "i < length m \<Longrightarrow> store_word 1 m i w = Some (take i m @ ucast w # drop (Suc i) m)"
  by (simp add: store_word_def wr_block_def)

lemma byte_bits: "take_bit 8 (ucast (b :: byte) :: u32) = ucast b" "(ucast (take_bit 8 (w :: u32)) :: byte) = ucast w"
  "(mask 8 :: u32) = ucast (0xFF :: byte)"
proof -
  show "take_bit 8 (ucast (b :: byte) :: u32) = ucast b" "(ucast (take_bit 8 (w :: u32)) :: byte) = ucast w"
    by (rule bit_word_eqI; auto simp: bit_simps dest: bit_imp_le_length)+
qed (simp add: mask_eq_exp_minus_1)

definition sent :: "nat \<Rightarrow> nat \<Rightarrow> byte list option \<Rightarrow> byte list" where
  "sent n i dout = (case dout of None \<Rightarrow> replicate n 0xFF | Some m \<Rightarrow> take n (drop i m))"

lemma transfer_bytes:
  assumes "spi_ready s" "\<And>m. dout = Some m \<Longrightarrow> i + n \<le> length m" "\<And>m. din = Some m \<Longrightarrow> i + n \<le> length m"
  shows "transfer_loop 1 dev n i dout din s = (case shift dev (sent n i dout) (bus_device s) of (rs, p) \<Rightarrow>
    Some (map_option (\<lambda>m. take i m @ rs @ drop (i + n) m) din, s\<lparr>bus_device := p\<rparr>))"
  using assms
proof (induction n arbitrary: i din s)
  case 0
  then show ?case by (cases din) (simp_all add: sent_def split: option.splits)
next
  case (Suc n)
  define b where "b = (case dout of None \<Rightarrow> 0xFF | Some m \<Rightarrow> m ! i)"
  obtain r p where rp: "dev (ucast b) (bus_device s) = (r, p)" by (cases "dev (ucast b) (bus_device s)")
  obtain rs q where rs: "shift dev (sent n (Suc i) dout) p = (rs, q)" by (cases "shift dev (sent n (Suc i) dout) p")
  let ?din = "map_option (\<lambda>m. take i m @ ucast r # drop (Suc i) m) din"
  have sent: "sent (Suc n) i dout = b # sent n (Suc i) dout"
    using Suc.prems(2) by (auto simp: sent_def b_def Cons_nth_drop_Suc [symmetric] split: option.splits)
  have w: "(case dout of None \<Rightarrow> Some (mask (8 * 1)) | Some m \<Rightarrow> load_word 1 m i) = Some (ucast b)"
    using Suc.prems(2) by (auto simp: b_def load_byte byte_bits(3) simp del: One_nat_def split: option.splits)
  have din: "(case din of None \<Rightarrow> Some None | Some m \<Rightarrow> map_option Some (store_word 1 m i (take_bit 8 r))) = Some ?din"
    using Suc.prems(3) by (cases din) (simp_all add: store_byte byte_bits(2) del: One_nat_def)
  have "transfer_loop 1 dev n (Suc i) dout ?din (s\<lparr>bus_device := p\<rparr>) =
      Some (map_option (\<lambda>m. take (Suc i) m @ rs @ drop (Suc i + n) m) ?din, s\<lparr>bus_device := q\<rparr>)"
    using Suc.IH [of "s\<lparr>bus_device := p\<rparr>" "Suc i" ?din] Suc.prems rs by (force simp: ready_device)
  moreover have "map_option (\<lambda>m. take (Suc i) m @ rs @ drop (Suc i + n) m) ?din =
      map_option (\<lambda>m. take i m @ (ucast r # rs) @ drop (i + Suc n) m) din"
    using Suc.prems(3) by (cases din) (auto simp: take_Suc_conv_app_nth nth_append add.commute)
  ultimately show ?case
    using rp rs by (simp add: w exchange_ready [OF Suc.prems(1)] byte_bits(1) din sent del: One_nat_def)
qed

text \<open>Bytes received over the front of the buffer they are written to.\<close>

definition received :: "byte list \<Rightarrow> byte list option \<Rightarrow> byte list option" where
  "received rs din = map_option (\<lambda>m. rs @ drop (length rs) m) din"

lemma SPITransfer_ready:
  assumes "spi_ready s" "\<And>m. dout = Some m \<Longrightarrow> unat len \<le> length m" "\<And>m. din = Some m \<Longrightarrow> unat len \<le> length m"
  shows "SPITransfer dev dout din len 0 s = (case shift dev (sent (unat len) 0 dout) (bus_device s) of (rs, p) \<Rightarrow>
    Some (0, received rs din, s\<lparr>bus_device := p\<rparr>))"
proof -
  have wl: "spi_reg s MCSPI_O_CH0CONF AND MCSPI_CH0CONF_WL_M = SPI_WL_8" using assms(1) by (simp add: spi_ready_def)
  have "length (sent (unat len) 0 dout) = unat len" using assms(2) by (auto simp: sent_def split: option.splits)
  moreover have "transfer_loop 1 dev (unat len) 0 dout din s =
      (case shift dev (sent (unat len) 0 dout) (bus_device s) of (rs, p) \<Rightarrow>
        Some (map_option (\<lambda>m. take 0 m @ rs @ drop (0 + unat len) m) din, s\<lparr>bus_device := p\<rparr>))"
    using assms by (intro transfer_bytes) simp_all
  moreover have "length (fst (shift dev (sent (unat len) 0 dout) (bus_device s))) = length (sent (unat len) 0 dout)"
    by (rule shift_length)
  ultimately show ?thesis
    by (cases din) (auto simp: SPITransfer_def wl SPITransfer8_def SPITransferWords_def received_def split: prod.splits simp del: One_nat_def)
qed

lemma spi_init_ready:
  "\<exists>s'. spi_init reset_values 0 s = Some s' \<and> spi_ready s' \<and> bus_device s' = bus_device s \<and> gspi_clock s' \<and> lock s' = lock s \<and>
     spi_reg s' MCSPI_O_CH0CONF = 0x200103DC \<and> spi_reg s' MCSPI_O_CH0CTRL = 0x201"
proof -
  have pins: "rd digital_pin_to_pin_num SPI_0_PIN_SCK = Some 4" "rd digital_pin_to_pin_num SPI_0_PIN_MISO = Some 5"
    "rd digital_pin_to_pin_num SPI_0_PIN_MOSI = Some 6" by code_simp+
  have div: "XTAL_CLK div SPI_BITRATE_1MHZ - 1 = 39" by (simp add: XTAL_CLK_def SPI_BITRATE_1MHZ_def)
  show ?thesis
    by (simp add: spi_init_def pins SPI_NUMOF_def SPIConfigSetExpClk_def Let_def div SPIEnable_def set_reg_def SPIReset_def
        PinTypeSPI_def spi_ready_def MCSPI_O_CH0CONF_def MCSPI_O_CH0CTRL_def MCSPI_O_MODULCTRL_def SPI_MODE_MASTER_def
        SPI_HW_CTRL_CS_def SPI_4PIN_MODE_def SPI_TURBO_OFF_def SPI_CS_ACTIVELOW_def SPI_WL_8_def MCSPI_CH0CONF_WL_M_def
        MCSPI_CH0CONF_EPOL_def MCSPI_CH0CONF_POL_def MCSPI_CH0CONF_PHA_def MCSPI_CH0CONF_TURBO_def MCSPI_CH0CONF_CLKG_def
        MCSPI_CH0CTRL_EN_def)
qed

text \<open>The divider of the reference clock when its granularity is one cycle: \<open>CLKD + 1 + 16 * EXTCLK\<close>.\<close>

definition clock_ratio :: "('p, 'm) spi_state \<Rightarrow> nat option" where
  "clock_ratio s =
     (if spi_reg s MCSPI_O_CH0CONF AND MCSPI_CH0CONF_CLKG \<noteq> 0
      then Some (unat (drop_bit 2 (spi_reg s MCSPI_O_CH0CONF) AND 0xF) + 1
                 + 16 * unat (drop_bit 8 (spi_reg s MCSPI_O_CH0CTRL) AND 0xFF))
      else None)"

section \<open>Properties\<close>

text \<open>
  C32: After \<open>spi_init\<close>, and after any transfers since, the bus runs at 1 MHz, a transfer to registers sends the
  number of the register and then the bytes, and what the device answers to these, not to the number, is
  stored over the front of the buffer; for one byte it is returned. Nothing else of the driver changes.
\<close>

theorem spi_register_transfers:
  assumes "spi_init reset_values 0 s = Some s1" "unat len \<le> length out" "unat len \<le> length inp"
  shows "map_option (\<lambda>n. unat XTAL_CLK div n) (clock_ratio s1) = Some 1000000 \<and>
    spi_transfer_regs dev 0 r (Some out) (Some inp) len (s1\<lparr>bus_device := p\<rparr>) =
      (case shift dev (r # take (unat len) out) p of (rs, q) \<Rightarrow>
         Some (Some (tl rs @ drop (unat len) inp), s1\<lparr>bus_device := q\<rparr>)) \<and>
    spi_transfer_reg dev junk 0 r b (s1\<lparr>bus_device := p\<rparr>) =
      (case shift dev [r, b] p of (rs, q) \<Rightarrow> Some (rs ! 1, s1\<lparr>bus_device := q\<rparr>))"
proof -
  from spi_init_ready [of reset_values s] assms(1) have 1: "spi_ready s1" "spi_reg s1 MCSPI_O_CH0CONF = 0x200103DC"
    "spi_reg s1 MCSPI_O_CH0CTRL = 0x201" by auto
  have ready: "spi_ready (s1\<lparr>bus_device := x\<rparr>)" for x using 1(1) by (simp add: ready_device)
  obtain a q1 where a: "dev (ucast r) p = (a, q1)" by (cases "dev (ucast r) p")
  have first: "SPITransfer dev (Some [r]) None 1 0 (s1\<lparr>bus_device := p\<rparr>) = Some (0, None, s1\<lparr>bus_device := q1\<rparr>)"
    by (subst SPITransfer_ready [OF ready]) (simp_all add: sent_def a received_def)
  obtain rs q where rs: "shift dev (take (unat len) out) q1 = (rs, q)" by (cases "shift dev (take (unat len) out) q1")
  have len: "length rs = unat len" using shift_length [of dev "take (unat len) out" q1] rs assms(2) by simp
  have "SPITransfer dev (Some out) (Some inp) len 0 (s1\<lparr>bus_device := q1\<rparr>) =
      Some (0, Some (rs @ drop (unat len) inp), s1\<lparr>bus_device := q\<rparr>)"
    using assms(2,3) rs len by (subst SPITransfer_ready [OF ready]) (simp_all add: sent_def received_def)
  then have regs: "spi_transfer_regs dev 0 r (Some out) (Some inp) len (s1\<lparr>bus_device := p\<rparr>) =
      (case shift dev (r # take (unat len) out) p of (rs, q) \<Rightarrow>
         Some (Some (tl rs @ drop (unat len) inp), s1\<lparr>bus_device := q\<rparr>))"
    by (simp add: spi_transfer_regs_def SPI_NUMOF_def first a rs)
  obtain c q2 where c: "dev (ucast b) q1 = (c, q2)" by (cases "dev (ucast b) q1")
  have "SPITransfer dev (Some [b]) (Some [junk]) 1 0 (s1\<lparr>bus_device := q1\<rparr>) =
      Some (0, Some [ucast c], s1\<lparr>bus_device := q2\<rparr>)"
    by (subst SPITransfer_ready [OF ready]) (simp_all add: sent_def c received_def)
  then have "spi_transfer_reg dev junk 0 r b (s1\<lparr>bus_device := p\<rparr>) =
      (case shift dev [r, b] p of (rs, q) \<Rightarrow> Some (rs ! 1, s1\<lparr>bus_device := q\<rparr>))"
    by (simp add: spi_transfer_reg_def SPI_NUMOF_def first a c)
  with regs 1(2,3) show ?thesis by (simp add: clock_ratio_def MCSPI_CH0CONF_CLKG_def XTAL_CLK_def)
qed

text \<open>A device that answers a byte with the byte before it.\<close>

definition idle_spi :: "(u32, bool) spi_state" where
  "idle_spi = \<lparr>spi_reg = (\<lambda>_. 0), spi_rx = None, bus_device = 0x55, gspi_clock = False, spi_pin = Map.empty, lock = False\<rparr>"

theorem spi_register_transfers_witness:
  "\<exists>s1. spi_init (\<lambda>_. 0) 0 idle_spi = Some s1 \<and>
     spi_transfer_regs (\<lambda>w p. (p, w)) 0 7 (Some [1, 2, 3]) (Some [0, 0, 9]) 2 (s1\<lparr>bus_device := 0x55\<rparr>) =
       Some (Some [7, 1, 9], s1\<lparr>bus_device := 2\<rparr>) \<and>
     spi_transfer_reg (\<lambda>w p. (p, w)) 0 0 7 1 (s1\<lparr>bus_device := 0x55\<rparr>) = Some (7, s1\<lparr>bus_device := 1\<rparr>)"
proof -
  from spi_init_ready [of "\<lambda>_. 0" idle_spi] obtain s1 where s1: "spi_init (\<lambda>_. 0) 0 idle_spi = Some s1" by blast
  from spi_register_transfers [OF s1, of 2 "[1, 2, 3]" "[0, 0, 9]" "\<lambda>w p. (p, w)" 7 "0x55" 0 1] s1 show ?thesis
    by (intro exI [of _ s1]) simp
qed

text \<open>Before \<open>spi_init\<close> the channel is not enabled, and a transfer waits for ever.\<close>

theorem transfer_needs_init:
  assumes "spi_reg s MCSPI_O_CH0CTRL AND MCSPI_CH0CTRL_EN = 0" "spi_rx s = None"
    and "spi_reg s MCSPI_O_CH0CONF AND MCSPI_CH0CONF_WL_M = SPI_WL_8" "0 < len"
  shows "spi_transfer_bytes dev 0 (Some out) inp len s = None"
proof -
  from assms(4) obtain n where n: "unat len = Suc n" by (metis gr0_conv_Suc unat_gt_0 word_neq_0_conv)
  have "exchange dev w s = None" for w using assms(1,2) by (simp add: exchange_def write_tx_def)
  then have "transfer_loop 1 dev (Suc n) 0 (Some out) inp s = None"
    by (cases "load_word 1 out 0") (simp_all del: One_nat_def)
  then show ?thesis
    using assms(3) by (simp add: spi_transfer_bytes_def SPI_NUMOF_def SPITransfer_def SPITransfer8_def SPITransferWords_def n del: One_nat_def)
qed

text \<open>
  The bus is held by one thread at a time: a thread that asks for it while it is taken waits in line, and a
  release gives it to the first that waits, or leaves it free.
\<close>

theorem spi_bus_locked:
  assumes "riot_ok L items waits line_up"
  shows "(case waits (lock s) of
       Free \<Rightarrow> \<exists>s'. spi_acquire L t 0 s = Some (Goes (0, s')) \<and> waits (lock s') = Taken []
     | Taken ws \<Rightarrow> \<exists>s'. spi_acquire L t 0 s = Some (Suspends (0, s')) \<and> waits (lock s') = Taken (line_up t ws)) \<and>
    (\<exists>next s'. spi_release L 0 s = Some (next, s') \<and>
       (case waits (lock s) of Taken (p # ws) \<Rightarrow> next = Some p \<and> waits (lock s') = Taken ws | _ \<Rightarrow> next = None \<and> waits (lock s') = Free))"
proof -
  obtain has m where lk: "mutex_lock L t (lock s) = (has, m)" by fastforce
  obtain nx m' where un: "mutex_unlock L (lock s) = (nx, m')" by fastforce
  show ?thesis using riot_lock [OF assms lk] riot_unlock [OF assms un]
    by (auto simp: spi_acquire_def spi_release_def SPI_NUMOF_def lk un split: sem.splits list.splits)
qed

end
