(* ===== verification/Start_Up.thy ===== *)
theory Start_Up
  imports Gpio Sbapi
begin

text \<open>
  Starting the board, \<^verbatim>\<open>burba/boards/cc3200-launchxl/board.c\<close> and \<^verbatim>\<open>burba/cpu/cc3200/cpu.c\<close>, with the functions
  of \<^verbatim>\<open>sdk/driverlib/prcm.c\<close> they call, on the registers as a memory of words; and the identity of the board,
  \<^verbatim>\<open>burba/cpu/cc3200/periph/cpuid.c\<close>. Delays are left out, and \<open>cortexm_init\<close> is a function of the kernel, a
  parameter.
\<close>

section \<open>Registers\<close>

type_synonym mcu = "u32 \<Rightarrow> u32"

definition ARCM_BASE :: u32 where "ARCM_BASE = 0x44025000"
definition GPRCM_BASE :: u32 where "GPRCM_BASE = 0x4402D000"
definition HIB3P3_BASE :: u32 where "HIB3P3_BASE = 0x4402F800"
definition COMMON_REG_BASE :: u32 where "COMMON_REG_BASE = 0x400F7000"

definition PRCM_POWER_ON :: u32 where "PRCM_POWER_ON = 0"
definition PRCM_LPDS_EXIT :: u32 where "PRCM_LPDS_EXIT = 1"
definition PRCM_HIB_EXIT :: u32 where "PRCM_HIB_EXIT = 7"
definition PRCM_RUN_MODE_CLK :: u32 where "PRCM_RUN_MODE_CLK = 1"
definition PRCM_SOFT_RESET :: u32 where "PRCM_SOFT_RESET = 1"
definition PRCM_UDMA :: nat where "PRCM_UDMA = 5"
definition PRCM_GPIOA0 :: nat where "PRCM_GPIOA0 = 6"
definition PRCM_GPIOA1 :: nat where "PRCM_GPIOA1 = 7"
definition PRCM_GPIOA2 :: nat where "PRCM_GPIOA2 = 8"
definition PRCM_GPIOA3 :: nat where "PRCM_GPIOA3 = 9"

definition modify :: "u32 \<Rightarrow> (u32 \<Rightarrow> u32) \<Rightarrow> mcu \<Rightarrow> mcu" where
  "modify a f m = m(a := f (m a))"

text \<open>The registers of a peripheral: its clock and its reset.\<close>

definition PRCM_PeriphRegsList :: "(u32 \<times> u32) list" where
  "PRCM_PeriphRegsList =
    [(0x04, 0x08), (0x14, 0x18), (0x24, 0x28), (0x30, 0x34), (0x40, 0x44), (0x48, 0x4C), (0x50, 0x54),
    (0x58, 0x5C), (0x60, 0x64), (0x68, 0x6C), (0x70, 0x74), (0x78, 0x7C), (0x80, 0x84), (0x88, 0x8C),
    (0x90, 0x94), (0x98, 0x9C), (0xA0, 0xA4), (0xA8, 0xAC), (0xB8, 0xBC), (0xC8, 0xCC), (0xD8, 0xDC)]"

definition PRCMPeripheralClkEnable :: "nat \<Rightarrow> u32 \<Rightarrow> mcu \<Rightarrow> mcu option" where
  "PRCMPeripheralClkEnable ulPeripheral ulClkFlags m =
     do {
       m \<leftarrow> (if ulPeripheral \<noteq> 0xFF
             then do { (clk, rst) \<leftarrow> rd PRCM_PeriphRegsList ulPeripheral; Some (modify (ARCM_BASE + clk) (\<lambda>x. x OR ulClkFlags) m) }
             else Some m);
       Some (if ulPeripheral = 0 then m(ARCM_BASE := 0x0404) else m)
     }"

definition PRCMPeripheralClkDisable :: "nat \<Rightarrow> u32 \<Rightarrow> mcu \<Rightarrow> mcu option" where
  "PRCMPeripheralClkDisable ulPeripheral ulClkFlags m =
     do { (clk, rst) \<leftarrow> rd PRCM_PeriphRegsList ulPeripheral; Some (modify (ARCM_BASE + clk) (\<lambda>x. x AND NOT ulClkFlags) m) }"

definition PRCMPeripheralReset :: "nat \<Rightarrow> mcu \<Rightarrow> mcu option" where
  "PRCMPeripheralReset ulPeripheral m =
     (if ulPeripheral \<noteq> 0x12
      then do {
        (clk, rst) \<leftarrow> rd PRCM_PeriphRegsList ulPeripheral;
        let m = modify (ARCM_BASE + rst) (\<lambda>x. x OR PRCM_SOFT_RESET) m;
        Some (modify (ARCM_BASE + rst) (\<lambda>x. x AND NOT PRCM_SOFT_RESET) m)
      } else Some m)"

definition PRCMSysResetCauseGet :: "mcu \<Rightarrow> u32" where
  "PRCMSysResetCauseGet m =
     (let ulWakeupStatus = m (GPRCM_BASE + 0xC) AND 0xFF in
      if ulWakeupStatus = PRCM_POWER_ON \<and> m (HIB3P3_BASE + 0x468) AND 1 \<noteq> 0 then PRCM_HIB_EXIT else ulWakeupStatus)"

section \<open>Starting\<close>

definition PRCMHIBRegWrite :: "u32 \<Rightarrow> u32 \<Rightarrow> mcu \<Rightarrow> mcu" where
  "PRCMHIBRegWrite ulRegAddr ulValue m = m(ulRegAddr := ulValue)"

text \<open>The branch of \<open>PRCMCC3200MCUInit\<close> for every start but the one from deep sleep, in three parts.\<close>

definition mcu_init_clocks :: "mcu \<Rightarrow> mcu option" where
  "mcu_init_clocks m =
     do {
       let m = modify 0x4402F064 (\<lambda>x. x OR 0x800000) m;
       let m = PRCMHIBRegWrite (HIB3P3_BASE + 0x418) (m (HIB3P3_BASE + 0x418) OR 0x10) m;
       let m = modify 0x4402E16C (\<lambda>x. x OR 0x3C) m;
       m \<leftarrow> PRCMPeripheralClkEnable PRCM_UDMA PRCM_RUN_MODE_CLK m;
       m \<leftarrow> PRCMPeripheralReset PRCM_UDMA m;
       m \<leftarrow> PRCMPeripheralClkDisable PRCM_UDMA PRCM_RUN_MODE_CLK m;
       Some (if PRCMSysResetCauseGet m = PRCM_POWER_ON then PRCMHIBRegWrite 0x4402F804 1 m else m)
     }"

definition mcu_init_pins :: "mcu \<Rightarrow> mcu" where
  "mcu_init_pins m =
     (let m = (if m 0x4402F0C8 AND 0xFF = 2
               then let m = m(0x4402E110 := (m 0x4402E110 AND NOT 0xC0F) OR 2)
                    in m(0x4402E114 := (m 0x4402E110 AND NOT 0xC0F) OR 2)
               else m);
          m = modify 0x4402E184 (\<lambda>x. x OR 2) m;
          m = (if m 0x4402E0A4 AND 0xF = 1 then modify 0x4402E0A4 (\<lambda>x. x AND NOT 0xF) m else m)
      in if m 0x4402E0A8 AND 0xF = 1 then modify 0x4402E0A8 (\<lambda>x. x AND NOT 0xF) m else m)"

definition mcu_init_power :: "mcu \<Rightarrow> mcu" where
  "mcu_init_power m =
     (let m = modify 0x4402F0B0 (\<lambda>x. (x AND NOT 0x00FC0000) OR
                (if drop_bit 22 (m 0x4402DC78) AND 0xF = 0xE then push_bit 18 0x32 else push_bit 18 0x29)) m;
          m = modify 0x4402FC74 (\<lambda>x. x AND NOT 0x10000000) m
      in modify 0x4402F0A8 (\<lambda>x. x OR 4) m)"

definition PRCMCC3200MCUInit :: "mcu \<Rightarrow> mcu option" where
  "PRCMCC3200MCUInit m =
     (if PRCMSysResetCauseGet m \<noteq> PRCM_LPDS_EXIT
      then do { m \<leftarrow> mcu_init_clocks m; Some (mcu_init_power (mcu_init_pins m)) }
      else Some (modify (COMMON_REG_BASE + 0x3C) (\<lambda>x. (x AND NOT 0x3FF) OR 0x155)
                  (modify COMMON_REG_BASE (\<lambda>x. (x AND NOT 3) OR 1) m)))"

text \<open>\<open>IntPriorityGroupingSet (0)\<close>: the key, and the code of one group.\<close>

definition cpu_init :: "(mcu \<Rightarrow> mcu) \<Rightarrow> mcu \<Rightarrow> mcu option" where
  "cpu_init cortexm_init m = do { m \<leftarrow> PRCMCC3200MCUInit (cortexm_init m); Some (m(0xE000ED0C := 0x05FA0000 OR 0x700)) }"

definition board_init :: "(mcu \<Rightarrow> mcu) \<Rightarrow> mcu \<Rightarrow> gpio_state \<Rightarrow> (mcu \<times> gpio_state) option" where
  "board_init cortexm_init m pins =
     do {
       m \<leftarrow> PRCMPeripheralClkEnable PRCM_GPIOA0 PRCM_RUN_MODE_CLK m;
       m \<leftarrow> PRCMPeripheralClkEnable PRCM_GPIOA1 PRCM_RUN_MODE_CLK m;
       m \<leftarrow> PRCMPeripheralClkEnable PRCM_GPIOA2 PRCM_RUN_MODE_CLK m;
       m \<leftarrow> PRCMPeripheralClkEnable PRCM_GPIOA3 PRCM_RUN_MODE_CLK m;
       m \<leftarrow> cpu_init cortexm_init m;
       pins \<leftarrow> led_init pins;
       Some (m, pins)
     }"

section \<open>What is set up\<close>

text \<open>
  What the routine is to leave in each register, after every start but the one from deep sleep: the bits
  that are mandatory, and all others as they were.
\<close>

definition set_up :: "mcu \<Rightarrow> mcu" where
  "set_up m = (\<lambda>a.
     if a = 0x4402F064 then m a OR 0x800000
     else if a = 0x4402FC18 then m a OR 0x10
     else if a = 0x4402E16C then m a OR 0x3C
     else if a \<in> {0x44025048, 0x4402504C} then m a AND NOT 1
     else if a = 0x4402F804 then (if PRCMSysResetCauseGet m = PRCM_POWER_ON then 1 else m a)
     else if a \<in> {0x4402E110, 0x4402E114} then (if m 0x4402F0C8 AND 0xFF = 2 then (m 0x4402E110 AND NOT 0xC0F) OR 2 else m a)
     else if a = 0x4402E184 then m a OR 2
     else if a \<in> {0x4402E0A4, 0x4402E0A8} then (if m a AND 0xF = 1 then m a AND NOT 0xF else m a)
     else if a = 0x4402F0B0 then (m a AND NOT 0x00FC0000) OR
       (if drop_bit 22 (m 0x4402DC78) AND 0xF = 0xE then push_bit 18 0x32 else push_bit 18 0x29)
     else if a = 0x4402FC74 then m a AND NOT 0x10000000
     else if a = 0x4402F0A8 then m a OR 4
     else m a)"

lemma again: "((x AND NOT c) OR d) AND NOT c OR d = (x AND NOT c) OR (d :: u32)"
  by (rule bit_word_eqI) (auto simp: bit_simps)

lemma on_off: "(x OR c) AND NOT c = x AND NOT (c :: u32)"
  by (rule bit_word_eqI) (auto simp: bit_simps)

lemma udma_registers: "rd PRCM_PeriphRegsList PRCM_UDMA = Some (0x48, 0x4C)"
  by (simp add: rd_def PRCM_PeriphRegsList_def PRCM_UDMA_def)

lemma cause_same:
  "m' 0x4402D00C = m 0x4402D00C \<Longrightarrow> m' 0x4402FC68 = m 0x4402FC68 \<Longrightarrow> PRCMSysResetCauseGet m' = PRCMSysResetCauseGet m"
  by (simp add: PRCMSysResetCauseGet_def GPRCM_BASE_def HIB3P3_BASE_def)

lemma udma_steps:
  "PRCMPeripheralClkEnable PRCM_UDMA PRCM_RUN_MODE_CLK m = Some (m(0x44025048 := m 0x44025048 OR 1))"
  "PRCMPeripheralReset PRCM_UDMA m = Some (m(0x4402504C := m 0x4402504C AND NOT 1))"
  "PRCMPeripheralClkDisable PRCM_UDMA PRCM_RUN_MODE_CLK m = Some (m(0x44025048 := m 0x44025048 AND NOT 1))"
  using on_off [of _ 1]
  by (simp_all add: PRCMPeripheralClkEnable_def PRCMPeripheralReset_def PRCMPeripheralClkDisable_def udma_registers
      modify_def ARCM_BASE_def PRCM_RUN_MODE_CLK_def PRCM_SOFT_RESET_def) (simp_all add: PRCM_UDMA_def)

lemma clocks_set_up:
  "mcu_init_clocks m = Some (\<lambda>a.
     if a = 0x4402F064 then m a OR 0x800000
     else if a = 0x4402FC18 then m a OR 0x10
     else if a = 0x4402E16C then m a OR 0x3C
     else if a \<in> {0x44025048, 0x4402504C} then m a AND NOT 1
     else if a = 0x4402F804 then (if PRCMSysResetCauseGet m = PRCM_POWER_ON then 1 else m a)
     else m a)"
proof -
  let ?m = "m(0x4402F064 := m 0x4402F064 OR 0x800000, 0x4402FC18 := m 0x4402FC18 OR 0x10,
    0x4402E16C := m 0x4402E16C OR 0x3C, 0x44025048 := m 0x44025048 AND NOT 1, 0x4402504C := m 0x4402504C AND NOT 1)"
  have "mcu_init_clocks m = Some (if PRCMSysResetCauseGet ?m = PRCM_POWER_ON then ?m(0x4402F804 := 1) else ?m)"
    using on_off [of _ 1]
    by (simp add: mcu_init_clocks_def Let_def modify_def PRCMHIBRegWrite_def udma_steps HIB3P3_BASE_def fun_upd_twist)
  moreover have "PRCMSysResetCauseGet ?m = PRCMSysResetCauseGet m" by (rule cause_same) simp_all
  ultimately show ?thesis by (simp add: fun_eq_iff)
qed

lemma pins_set_up:
  "mcu_init_pins m a =
     (if a \<in> {0x4402E110, 0x4402E114} then (if m 0x4402F0C8 AND 0xFF = 2 then (m 0x4402E110 AND NOT 0xC0F) OR 2 else m a)
      else if a = 0x4402E184 then m a OR 2
      else if a \<in> {0x4402E0A4, 0x4402E0A8} then (if m a AND 0xF = 1 then m a AND NOT 0xF else m a)
      else m a)"
proof -
  define m1 where "m1 = (if m 0x4402F0C8 AND 0xFF = 2
    then m(0x4402E110 := (m 0x4402E110 AND NOT 0xC0F) OR 2, 0x4402E114 := (m 0x4402E110 AND NOT 0xC0F) OR 2) else m)"
  have m1: "m1 0x4402E0A4 = m 0x4402E0A4" "m1 0x4402E0A8 = m 0x4402E0A8" "m1 0x4402E184 = m 0x4402E184" by (simp_all add: m1_def)
  have "mcu_init_pins m = (let m = m1(0x4402E184 := m1 0x4402E184 OR 2);
      m = (if m 0x4402E0A4 AND 0xF = 1 then m(0x4402E0A4 := m 0x4402E0A4 AND NOT 0xF) else m)
      in if m 0x4402E0A8 AND 0xF = 1 then m(0x4402E0A8 := m 0x4402E0A8 AND NOT 0xF) else m)"
    using again [of "m 0x4402E110" "0xC0F" 2] by (simp only: mcu_init_pins_def modify_def m1_def Let_def fun_upd_same)
  then show ?thesis by (simp add: Let_def m1) (simp add: m1_def)
qed

lemma power_set_up:
  "mcu_init_power m a =
     (if a = 0x4402F0B0 then (m a AND NOT 0x00FC0000) OR
        (if drop_bit 22 (m 0x4402DC78) AND 0xF = 0xE then push_bit 18 0x32 else push_bit 18 0x29)
      else if a = 0x4402FC74 then m a AND NOT 0x10000000
      else if a = 0x4402F0A8 then m a OR 4
      else m a)"
  by (simp add: mcu_init_power_def modify_def Let_def)

lemma init_set_up:
  assumes "PRCMSysResetCauseGet m \<noteq> PRCM_LPDS_EXIT"
  shows "PRCMCC3200MCUInit m = Some (set_up m)"
proof -
  let ?clk = "the (mcu_init_clocks m)"
  have "PRCMCC3200MCUInit m = Some (mcu_init_power (mcu_init_pins ?clk))"
    using assms by (simp add: PRCMCC3200MCUInit_def clocks_set_up)
  moreover have "mcu_init_power (mcu_init_pins ?clk) a = set_up m a" for a
    by (simp add: power_set_up pins_set_up clocks_set_up set_up_def)
  ultimately show ?thesis by (simp add: fun_eq_iff)
qed

lemma cleared_again: "(x AND NOT c) AND NOT c = x AND NOT (c :: u32)" "(x OR c) OR c = x OR c"
  by (rule bit_word_eqI, auto simp: bit_simps)+

lemma set_up_again: "set_up (set_up m) = set_up m"
proof
  fix a
  have c: "PRCMSysResetCauseGet (set_up m) = PRCMSysResetCauseGet m" by (rule cause_same) (simp_all add: set_up_def)
  have u: "set_up m 0x4402F0C8 = m 0x4402F0C8" "set_up m 0x4402DC78 = m 0x4402DC78"
    "set_up m 0x4402E110 = (if m 0x4402F0C8 AND 0xFF = 2 then (m 0x4402E110 AND NOT 0xC0F) OR 2 else m 0x4402E110)"
    by (simp_all add: set_up_def)
  note unfold = set_up_def [of "set_up m", unfolded c u]
  show "set_up (set_up m) a = set_up m a"
    using again [of "m 0x4402E110" "0xC0F" 2] again [of "m 0x4402F0B0" "0x00FC0000"] cleared_again [of "m a"]
    by (simp only: unfold) (simp add: set_up_def)
qed

text \<open>
  The initialization of the processor sets the bits that are mandatory and leaves all others as they were,
  whatever they are, and doing it again changes nothing.
\<close>

theorem mcu_init_settles:
  "\<exists>m1. PRCMCC3200MCUInit m = Some m1 \<and> PRCMCC3200MCUInit m1 = Some m1 \<and>
     m1 = (if PRCMSysResetCauseGet m \<noteq> PRCM_LPDS_EXIT then set_up m
           else m(0x400F7000 := (m 0x400F7000 AND NOT 3) OR 1, 0x400F703C := (m 0x400F703C AND NOT 0x3FF) OR 0x155))"
proof (cases "PRCMSysResetCauseGet m = PRCM_LPDS_EXIT")
  case False
  have "PRCMSysResetCauseGet (set_up m) = PRCMSysResetCauseGet m" by (rule cause_same) (simp_all add: set_up_def)
  with False have "PRCMCC3200MCUInit (set_up m) = Some (set_up m)" using init_set_up [of "set_up m"] by (simp add: set_up_again)
  with False init_set_up [OF False] show ?thesis by simp
next
  case True
  let ?f = "\<lambda>m. m(0x400F7000 := (m 0x400F7000 AND NOT 3) OR 1, 0x400F703C := (m 0x400F703C AND NOT 0x3FF) OR 0x155) :: mcu"
  have init: "PRCMCC3200MCUInit m = Some (?f m)" if "PRCMSysResetCauseGet m = PRCM_LPDS_EXIT" for m
    using that by (simp add: PRCMCC3200MCUInit_def modify_def COMMON_REG_BASE_def)
  have "PRCMSysResetCauseGet (?f m) = PRCM_LPDS_EXIT" using True cause_same [of "?f m" m] by simp
  moreover have "?f (?f m) = ?f m"
    using again [of "m 0x400F7000" 3 1] again [of "m 0x400F703C" "0x3FF" "0x155"] by (simp add: fun_eq_iff)
  ultimately show ?thesis using True init [of m] init [of "?f m"] by simp
qed

section \<open>The identity of the board\<close>

definition cpuid_bytes :: "byte list" where
  "cpuid_bytes = [0xBE, 0xEF, 0x12, 0x34, 0x56, 0x78, 0x90, 0xAB]"

text \<open>
  \<open>mac\<close> is the six bytes \<open>sl_NetCfgGet\<close> stores, \<open>cpuid_len\<close> the macro \<open>CPUID_ID_LEN\<close> and \<open>addr\<close> the memory of the caller.
\<close>

definition cpuid_get :: "byte list \<Rightarrow> nat \<Rightarrow> byte list \<Rightarrow> 'w board_state \<Rightarrow> byte list option" where
  "cpuid_get mac cpuid_len addr b =
     (if IS_CONNECTED b
      then do {
        addr \<leftarrow> wr_block addr 0 (take 3 mac);
        addr \<leftarrow> wr addr 3 0xFF;
        addr \<leftarrow> wr addr 4 0xFE;
        wr_block addr 5 (take 3 (drop 3 mac))
      }
      else if cpuid_len \<le> length cpuid_bytes then wr_block addr 0 (take cpuid_len cpuid_bytes) else None)"

lemma cpuid_connected:
  assumes "IS_CONNECTED b" "length mac = 6" "length addr = 8"
  shows "cpuid_get mac n addr b = Some (take 3 mac @ [0xFF, 0xFE] @ drop 3 mac)"
proof -
  from assms(2,3) obtain m0 m1 m2 m3 m4 m5 i0 i1 i2 i3 i4 i5 i6 i7 where
    "mac = [m0, m1, m2, m3, m4, m5]" "addr = [i0, i1, i2, i3, i4, i5, i6, i7]"
    by (auto simp: numeral_eq_Suc length_Suc_conv)
  with assms(1) show ?thesis by (simp add: cpuid_get_def wr_block_def wr_def numeral_eq_Suc)
qed

text \<open>
  A board that is connected has the identity made of its address, and no other address makes the same; one
  that is not connected has that of every other board that is not. With a shorter identity the connected
  board writes eight bytes all the same.
\<close>

theorem identities:
  assumes "length mac = 6" "length mac' = 6" "length addr = 8" "IS_CONNECTED b" "IS_CONNECTED b'" "\<not> IS_CONNECTED b0"
  shows "(cpuid_get mac 8 addr b = cpuid_get mac' 8 addr b' \<longleftrightarrow> mac = mac') \<and>
    cpuid_get mac 8 addr b0 = cpuid_get mac' 8 addr b0 \<and> cpuid_get mac 8 addr b0 = Some cpuid_bytes \<and>
    cpuid_get mac 1 [x] b = None"
proof -
  have "mac = mac' \<longleftrightarrow> take 3 mac = take 3 mac' \<and> drop 3 mac = drop 3 mac'" by (metis append_take_drop_id)
  then show ?thesis
    using assms cpuid_connected [of b mac addr 8] cpuid_connected [of b' mac' addr 8]
    by (auto simp: cpuid_get_def cpuid_bytes_def wr_block_def)
qed

end
