(* ===== verification/Spec2Isabelle.thy ===== *)
theory Spec2Isabelle
  imports Mqtt_Faults Bocia_Uart Board_Run Xtimer_Set Protobuf_Buffer Protobuf_Lookup Protobuf_Check Protobuf_Heap
    Gpio Uart_Driver Periph_Timer Sbapi_Default Osi_Riot Osi_Spawn Hello_Mqtt Spi Start_Up
begin

text \<open>
  \<^bold>\<open>The program.\<close> NAIS connects CC3200 boards that run RIOT to the host and to one another. An
  application calls the library \<^verbatim>\<open>src/burba/sys/bocia\<close>. Every message is a protobuf message
  (\<^verbatim>\<open>sys/protobuf-c\<close>) in a NAIS payload: a start byte, a type, three routing bytes, a base-128 length,
  the message, an end byte. Payloads travel over three kinds of channels: TCP connections, PUBLISH
  packets of an MQTT session (\<^verbatim>\<open>sys/paho\<close>) and the serial line. An event loop selects on the channels'
  sockets and calls their handlers, which read, unmarshal and dispatch to the board commands, the
  acknowledgements or the application. A supervision thread (\<^verbatim>\<open>sys/sbapi_cc3200\<close>) keeps the
  board connected. It and the applications sleep on the timers of \<^verbatim>\<open>sys/xtimer_32\<close>. Paths below are
  under \<^verbatim>\<open>src/burba\<close>.

  \<^bold>\<open>Conventions.\<close> C integers are words where they can wrap and \<^typ>\<open>int\<close> or \<^typ>\<open>nat\<close> where the stated
  bounds keep them from it. \<open>int\<close>, \<open>size_t\<close> and pointers have 32 bits, \<open>char\<close> is unsigned. Memory is a list
  of bytes of the size of its object. An access outside it, a call through a null pointer and an
  operation that never returns are \<^term>\<open>None\<close>, so that a theorem that concludes \<open>= Some _\<close> also says that the
  code stays inside its objects and returns. Error codes are values, and every early return is a branch.

  \<^bold>\<open>Theories.\<close>
  \<^item> \<^verbatim>\<open>Prelude\<close>: machine types, \<open>rd\<close> and the block copies, the locale \<open>prefix_codec\<close> of self-delimiting
    codes, lemma collections. \<^verbatim>\<open>Base128\<close>: base-128 numbers, the specification that the three length
    codes of the program implement.
  \<^item> \<^verbatim>\<open>Mqtt_Packet\<close> (\<^verbatim>\<open>MQTTPacket.c\<close>): header, remaining length, strings, the two packet readers.
    \<^verbatim>\<open>Mqtt_Publish\<close>, \<^verbatim>\<open>Mqtt_Connect\<close>, \<^verbatim>\<open>Mqtt_Subscribe\<close>: the serializers and deserializers of
    \<^verbatim>\<open>MQTTSerializePublish.c\<close>, \<^verbatim>\<open>MQTTDeserializePublish.c\<close>, \<^verbatim>\<open>MQTTConnect*.c\<close>, \<^verbatim>\<open>MQTTSubscribe*.c\<close>,
    \<^verbatim>\<open>MQTTUnsubscribe*.c\<close>; what is serialized fits its buffer and deserializes to what was given.
    \<^verbatim>\<open>Mqtt_Faults\<close>: what this code does on short bodies, small buffers and many topics.
  \<^item> \<^verbatim>\<open>Protobuf_Wire\<close>, \<^verbatim>\<open>Protobuf_Message\<close>, \<^verbatim>\<open>Protobuf_Unpack\<close>, \<^verbatim>\<open>Protobuf_Buffer\<close>,
    \<^verbatim>\<open>Protobuf_Lookup\<close>, \<^verbatim>\<open>Protobuf_Check\<close> (\<^verbatim>\<open>protobuf-c.c\<close>): scalars; size and packing of a message by
    its descriptor; unpacking with its scan, its arrays and its table of members; packing to a growing
    buffer, which yields the same bytes; descriptor look-ups; the check of a message. The sizes
    computed are the sizes written. \<^verbatim>\<open>Protobuf_Roundtrip\<close>: unpacking undoes packing.
    \<^verbatim>\<open>Protobuf_Heap\<close>: the blocks that unpacking and freeing a message allocate and free, with an
    allocator that may fail at any call.
    \<^verbatim>\<open>Nais_Messages\<close> (\<^verbatim>\<open>messages.pb-c.c\<close>): the six messages of the program as records, their
    descriptors and initial values, and the round trip for each of them.
  \<^item> \<^verbatim>\<open>Nais\<close> (\<^verbatim>\<open>nais.c\<close>): marshalling, recognising and unmarshalling payloads.
  \<^item> \<^verbatim>\<open>Board\<close>: the state the modules of \<^verbatim>\<open>bocia\<close> share, and the calls to the outside. \<^verbatim>\<open>Channels\<close>: the
    channel table and sending. \<^verbatim>\<open>Bocia\<close> (\<^verbatim>\<open>bocia.c\<close>): dispatch, commands, acknowledgements, configuration.
    \<^verbatim>\<open>Bocia_Tcp\<close>, \<^verbatim>\<open>Bocia_Mqtt\<close>, \<^verbatim>\<open>Bocia_Uart\<close>, \<^verbatim>\<open>Bocia_File\<close>: the channels and the configuration
    file. \<^verbatim>\<open>Eventloop\<close> (\<^verbatim>\<open>eventloop.c\<close>): the loop, a step at a time. \<^verbatim>\<open>Mqtt_Link\<close>: two boards over a
    broker. \<^verbatim>\<open>Board_Run\<close>: the loop interleaved with other threads, and the invariants of the tables.
  \<^item> \<^verbatim>\<open>Sbapi\<close> (\<^verbatim>\<open>sbapi_cc3200.c\<close>): supervision of the link as a step relation and its invariant.
    \<^verbatim>\<open>Sbapi_Default\<close>: \<open>simplelink_to_default_state\<close> and the events it waits for.
  \<^item> \<^verbatim>\<open>Timer_List\<close>, \<^verbatim>\<open>Xtimer\<close>, \<^verbatim>\<open>Xtimer_Set\<close> (\<^verbatim>\<open>xtimer.c\<close>): the linked list refines a queue ordered by due
    time; setting, the compare and wrap interrupts, waiting; when a timer set for 64 bits is due.
  \<^item> \<^verbatim>\<open>Gpio\<close> (\<^verbatim>\<open>periph/gpio.c\<close>), \<^verbatim>\<open>Uart_Driver\<close> (\<^verbatim>\<open>periph/uart.c\<close>), \<^verbatim>\<open>Periph_Timer\<close>
    (\<^verbatim>\<open>periph/timer.c\<close>): the drivers with the register operations of \<^verbatim>\<open>sdk/driverlib\<close> they call, and the
    hardware events that interrupt them: edges, characters, ticks. A pin reads what is written and an
    edge is served once; what is written to a UART is delivered to the other board's receive loop; a
    timer fires once, and its wraps are counted.
  \<^item> \<^verbatim>\<open>Spi\<close> (\<^verbatim>\<open>periph/spi.c\<close>): the bus and the loops of \<^verbatim>\<open>sdk/driverlib/spi.c\<close>, what a transfer exchanges with the
    device. \<^verbatim>\<open>Start_Up\<close> (\<^verbatim>\<open>board.c\<close>, \<^verbatim>\<open>cpu.c\<close>, \<^verbatim>\<open>periph/cpuid.c\<close>): the registers the initialization sets up, which it
    leaves as they are when it is done again, and the identity of a board.
  \<^item> \<^verbatim>\<open>Osi_Riot\<close>, \<^verbatim>\<open>Osi_Spawn\<close> (\<^verbatim>\<open>cpu/cc3200/sdk/oslib/osi_riot.c\<close>): what the vendor's driver gets from the
    kernel. The pool of mutexes refines independent semaphores as long as at most 64 exist; functions given
    to \<open>osi_Spawn\<close> run once and in order in the driver's thread, unless an interrupt finds its queue full.
  \<^item> \<^verbatim>\<open>Hello_Mqtt\<close> (\<^verbatim>\<open>apps/hello-mqtt/main.c\<close>): an application on the library, its LEDs, button and main loop.
    A command that arrives on a TCP channel sets the LEDs and is answered with their state; an attempt to
    connect leaves a channel or the timer of the next attempt; a lost connection is replaced; the channel it
    holds always has a sender.

  \<^bold>\<open>Parameters and hypotheses.\<close> The network processor, the kernel, the file system and the application
  are one parameter \<open>os\<close>, a function from a call and the state of the outside to a reply and a new state.
  \<open>delivers\<close> (theory \<^verbatim>\<open>Mqtt_Link\<close>) says that a socket hands over the bytes that have arrived, \<open>flash_ok\<close>
  (\<^verbatim>\<open>Bocia_File\<close>) that a file read back has the bytes written. The counter is a parameter \<open>clk\<close>, \<open>clock_ok\<close>
  says that it goes on. The kernel's list of free mutexes, its mutexes and its mailboxes are parameters with
  the hypotheses \<open>riot_ok\<close> (\<^verbatim>\<open>Osi_Riot\<close>) and \<open>mailbox_ok\<close> (\<^verbatim>\<open>Osi_Spawn\<close>). A transport of the packet readers, the allocator of the growing buffer and
  callbacks are arguments. \<open>NDEBUG\<close> is a parameter where an assertion has an effect. Interfaces between
  components are locales (\<open>prefix_codec\<close>, \<open>byte_source\<close>, \<open>transport\<close>, \<open>byte_buffer\<close>, \<open>sorted_names\<close>, \<open>timer_queue\<close>), each
  interpreted on the code's own definitions; \<open>board_change\<close> (\<^verbatim>\<open>Board_Run\<close>) is what every operation of the library
  keeps to, interpreted for the invariant of the tables and for the entries that have a sender.

  \<^bold>\<open>Bounds.\<close> MQTT bodies are below \<open>2 ^ 28\<close> bytes, as the protocol demands. A protobuf message has less than
  \<open>2 ^ 26\<close> members and \<open>2 ^ 27\<close> bytes where it is unpacked, an array less than \<open>2 ^ 25\<close> elements where
  typed messages are packed, a growing buffer less than \<open>2 ^ 31\<close> bytes, so that 32-bit sums do not wrap.
  A payload's message has at most 65534 bytes (its length is dumped with a 16-bit counter), and 127 on
  the serial line. The buffers have the sizes of the code: 512 bytes on the serial line, 256 for MQTT
  packets and protobuf messages, 128 for a stored configuration, 64 for topics. No function uses fuel
  except \<open>pin_loop\<close> and \<open>lowest_bit\<close>, whose C loops run eight times, and loops of the program that
  may not end are \<open>partial_function\<close>s or are recursive with a measure.

  \<^bold>\<open>Interleaving.\<close> A step of \<open>Board_Run\<close> is one operation of the library, one pass of the loop up to the
  point where it blocks, or one event, to which \<open>Hello_Mqtt\<close> adds a message of the main thread; threads do not interleave inside an operation, which holds for
  threads of equal priority that only yield in calls to the kernel. In \<open>Sbapi\<close> a step is one message the
  thread takes from its queue or one event callback.

  \<^bold>\<open>Not modelled.\<close> The vendor's library and driver (\<^verbatim>\<open>cpu/cc3200/sdk\<close>) apart from byte order, file modes,
  the registers of GPIO, UART, timers, SPI and clocks, and \<^verbatim>\<open>osi_riot.c\<close>: they are calls to the
  outside. Of \<^verbatim>\<open>protobuf-c.c\<close>: members of type message and oneof, which the messages of the program do not
  have, merging, services. Timer callbacks of \<^verbatim>\<open>xtimer.c\<close> that set or remove timers themselves. The vector
  table. The kernel's \<open>uart_stdio\<close>, and its queues of messages: \<open>Hello_Mqtt\<close> lets any message come at any
  time. Tests, \<^verbatim>\<open>MQTTFormat.c\<close> (texts for diagnosis, not called), and the host side, which is in Python.
\<close>

end
